(* ===== verification/Prelude.thy ===== *)
theory Prelude
  imports Complex_Main "HOL-Library.Sublist"
begin

text \<open>
  Shared vocabulary of the development: the result type of fallible code, the parts of Python's
  string and integer behaviour the modelled code uses, and generic lemmas on lists, options and
  maps. Times read from \<open>time.monotonic()\<close> are exact rationals (\<open>mono_time\<close>, in seconds);
  times of type \<open>datetime\<close> are integers counting microseconds, which is Python's own resolution.
\<close>

type_synonym mono_time = rat
type_synonym micros = int

named_theorems op_defs \<open>definitions of the modelled operations, for unfolding\<close>
named_theorems frame_simps \<open>what an operation leaves unchanged\<close>

section \<open>Results\<close>

text \<open>A raising computation is a sum: \<open>Inl\<close> the exception, \<open>Inr\<close> the returned value.\<close>

fun rbind :: "'e + 'a \<Rightarrow> ('a \<Rightarrow> 'e + 'b) \<Rightarrow> 'e + 'b" where
  "rbind (Inl e) f = Inl e"
| "rbind (Inr a) f = f a"

lemma rbind_eq_Inr: "rbind r f = Inr b \<longleftrightarrow> (\<exists>a. r = Inr a \<and> f a = Inr b)"
  by (cases r) auto

lemma rbind_eq_Inl: "rbind r f = Inl e \<longleftrightarrow> r = Inl e \<or> (\<exists>a. r = Inr a \<and> f a = Inl e)"
  by (cases r) auto

section \<open>Python strings\<close>

definition is_digit :: "char \<Rightarrow> bool" where
  "is_digit c \<longleftrightarrow> 48 \<le> (of_char c :: nat) \<and> (of_char c :: nat) \<le> 57"

definition digit_val :: "char \<Rightarrow> nat" where
  "digit_val c = (of_char c :: nat) - 48"

definition digit_char :: "nat \<Rightarrow> char" where
  "digit_char d = char_of (48 + d)"

lemma is_digit_digit_char [simp]: "d < 10 \<Longrightarrow> is_digit (digit_char d)"
  by (simp add: is_digit_def digit_char_def)

lemma digit_val_digit_char [simp]: "d < 10 \<Longrightarrow> digit_val (digit_char d) = d"
  by (simp add: digit_val_def digit_char_def)

lemma digit_char_neq [simp]:
  "d < 10 \<Longrightarrow> \<not> is_digit c \<Longrightarrow> digit_char d \<noteq> c"
  by (metis is_digit_digit_char)

text \<open>\<open>str.isdigit\<close> on ASCII text: non-empty and digits only.\<close>

definition py_isdigit :: "string \<Rightarrow> bool" where
  "py_isdigit s \<longleftrightarrow> s \<noteq> [] \<and> list_all is_digit s"

text \<open>\<open>str(n)\<close> of an integer.\<close>

fun nat_digits :: "nat \<Rightarrow> string" where
  "nat_digits n = (if n < 10 then [digit_char n] else nat_digits (n div 10) @ [digit_char (n mod 10)])"

declare nat_digits.simps [simp del]

definition py_str_int :: "int \<Rightarrow> string" where
  "py_str_int i = (if i < 0 then CHR ''-'' # nat_digits (nat (- i)) else nat_digits (nat i))"

text \<open>
  \<open>int(s)\<close>: surrounding white space is dropped, one sign is accepted, and single underscores are
  accepted between digits; anything else raises \<open>ValueError\<close>, here \<open>None\<close>.
\<close>

definition is_space :: "char \<Rightarrow> bool" where
  "is_space c \<longleftrightarrow> (of_char c :: nat) \<in> {9, 10, 11, 12, 13, 28, 29, 30, 31, 32}"

definition py_lstrip :: "string \<Rightarrow> string" where
  "py_lstrip s = dropWhile is_space s"

definition py_strip :: "string \<Rightarrow> string" where
  "py_strip s = rev (dropWhile is_space (rev (py_lstrip s)))"

fun int_body :: "bool \<Rightarrow> nat \<Rightarrow> string \<Rightarrow> nat option" where
  "int_body b acc [] = (if b then Some acc else None)"
| "int_body b acc (c # cs) =
     (if is_digit c then int_body True (10 * acc + digit_val c) cs
      else if c = CHR ''_'' \<and> b then int_body False acc cs
      else None)"

definition py_int :: "string \<Rightarrow> int option" where
  "py_int s =
     (case py_strip s of
        [] \<Rightarrow> None
      | c # cs \<Rightarrow>
          if c = CHR ''-'' then map_option (\<lambda>n. - int n) (int_body False 0 cs)
          else if c = CHR ''+'' then map_option int (int_body False 0 cs)
          else map_option int (int_body False 0 (c # cs)))"

lemma nat_digits_nonempty [simp]: "nat_digits n \<noteq> []"
  by (subst nat_digits.simps) simp

lemma nat_digits_are_digits: "list_all is_digit (nat_digits n)"
proof (induction n rule: nat_digits.induct)
  case (1 n)
  then show ?case by (cases "n < 10") (simp_all add: nat_digits.simps [of n])
qed

lemma int_body_append:
  "list_all is_digit xs \<Longrightarrow> xs \<noteq> [] \<Longrightarrow>
     int_body b acc (xs @ ys) = int_body True (foldl (\<lambda>a c. 10 * a + digit_val c) acc xs) ys"
proof (induction xs arbitrary: b acc)
  case Nil
  then show ?case by simp
next
  case (Cons x xs)
  show ?case
  proof (cases "xs = []")
    case True
    with Cons.prems show ?thesis by simp
  next
    case False
    with Cons.prems Cons.IH [of True "10 * acc + digit_val x"] show ?thesis by simp
  qed
qed

lemma nat_digits_value: "foldl (\<lambda>a c. 10 * a + digit_val c) 0 (nat_digits n) = n"
proof (induction n rule: nat_digits.induct)
  case (1 n)
  then show ?case by (cases "n < 10") (simp_all add: nat_digits.simps [of n])
qed

lemma int_body_nat_digits: "int_body False 0 (nat_digits n) = Some n"
  using int_body_append [OF nat_digits_are_digits nat_digits_nonempty, of False 0 n "[]"]
  by (simp add: nat_digits_value)

lemma is_digit_not_space: "is_digit c \<Longrightarrow> \<not> is_space c"
  by (auto simp: is_digit_def is_space_def)

lemma dropWhile_id: "xs = [] \<or> \<not> P (hd xs) \<Longrightarrow> dropWhile P xs = xs"
  by (cases xs) auto

lemma nat_digits_hd_last:
  "is_digit (hd (nat_digits n))" "is_digit (last (nat_digits n))"
  using nat_digits_are_digits [of n] by (simp_all add: list_all_iff)

lemma py_strip_id:
  assumes "s \<noteq> []" "\<not> is_space (hd s)" "\<not> is_space (last s)"
  shows "py_strip s = s"
  using assms by (simp add: py_strip_def py_lstrip_def dropWhile_id hd_rev)

text \<open>The round trip a counter stored as text relies on: \<open>int(str(i)) == i\<close>.\<close>

lemma py_int_str [simp]: "py_int (py_str_int i) = Some i"
proof (cases "i < 0")
  case True
  have "py_strip (CHR ''-'' # nat_digits (nat (- i))) = CHR ''-'' # nat_digits (nat (- i))"
    using is_digit_not_space [OF nat_digits_hd_last(2)]
    by (intro py_strip_id) (simp_all add: is_space_def)
  with True show ?thesis by (simp add: py_int_def py_str_int_def int_body_nat_digits)
next
  case False
  obtain c cs where d: "nat_digits (nat i) = c # cs"
    by (cases "nat_digits (nat i)") (simp_all add: nat_digits_nonempty)
  have dig: "is_digit c" using nat_digits_hd_last(1) [of "nat i"] by (simp add: d)
  have "py_strip (nat_digits (nat i)) = nat_digits (nat i)"
    by (rule py_strip_id) (auto simp: nat_digits_hd_last is_digit_not_space)
  moreover have "c \<noteq> CHR ''-''" "c \<noteq> CHR ''+''" using dig by (auto simp: is_digit_def)
  ultimately show ?thesis using False int_body_nat_digits [of "nat i"]
    by (simp add: py_int_def py_str_int_def d)
qed

lemma py_str_int_inj: "py_str_int i = py_str_int j \<longleftrightarrow> i = j"
  by (metis py_int_str option.inject)

text \<open>\<open>str.lower\<close> on ASCII text.\<close>

definition lower_char :: "char \<Rightarrow> char" where
  "lower_char c = (let n = (of_char c :: nat) in if 65 \<le> n \<and> n \<le> 90 then char_of (n + 32) else c)"

definition lower :: "string \<Rightarrow> string" where
  "lower s = map lower_char s"

text \<open>\<open>s.split(c)\<close> for one character.\<close>

fun py_split :: "char \<Rightarrow> string \<Rightarrow> string list" where
  "py_split c [] = [[]]"
| "py_split c (x # xs) =
     (if x = c then [] # py_split c xs
      else case py_split c xs of [] \<Rightarrow> [[x]] | w # ws \<Rightarrow> (x # w) # ws)"

section \<open>Lists\<close>

text \<open>\<open>list(deque)\<close> after an append to a deque of bounded length keeps the newest items.\<close>

definition keep_last :: "nat \<Rightarrow> 'a list \<Rightarrow> 'a list" where
  "keep_last n xs = drop (length xs - n) xs"

lemma length_keep_last [simp]: "length (keep_last n xs) = min n (length xs)"
  by (simp add: keep_last_def)

lemma suffix_keep_last: "suffix (keep_last n xs) xs"
  by (simp add: keep_last_def suffix_drop)

lemma set_keep_last: "set (keep_last n xs) \<subseteq> set xs"
  by (simp add: keep_last_def set_drop_subset)

lemma keep_last_keep_last_append:
  "keep_last n (keep_last n xs @ [x]) = keep_last n (xs @ [x])"
proof (cases "length xs \<le> n")
  case True
  then show ?thesis by (simp add: keep_last_def)
next
  case False
  then obtain k where "length xs = n + k" by (metis le_add_diff_inverse nle_le)
  then show ?thesis by (cases n) (simp_all add: keep_last_def)
qed

lemma sorted_filter_map: "sorted (map f xs) \<Longrightarrow> sorted (map f (filter P xs))"
  by (rule sorted_filter)

lemma find_SomeD: "find P xs = Some x \<Longrightarrow> x \<in> set xs \<and> P x"
  by (induction xs) (auto split: if_splits)

lemma find_append_right: "\<forall>x\<in>set xs. \<not> P x \<Longrightarrow> find P (xs @ ys) = find P ys"
  by (induction xs) auto

lemma find_unique_cond:
  assumes "distinct (map f xs)"
  shows "find (\<lambda>x. f x = k \<and> Q x) xs = Some r \<longleftrightarrow> r \<in> set xs \<and> f r = k \<and> Q r"
  using assms by (induction xs) (auto simp: image_iff split: if_splits)

lemma sort_key_Nil_iff [simp]: "sort_key k xs = [] \<longleftrightarrow> xs = []"
  by (metis set_empty set_sort)

lemma sort_key_head: "sort_key k xs = y # ys \<Longrightarrow> y \<in> set xs"
  by (metis list.set_intros(1) set_sort)

section \<open>Integer division\<close>

lemma int_div_less_iff:
  fixes x b q :: int
  assumes "0 < b"
  shows "x div b < q \<longleftrightarrow> x < q * b"
proof
  assume "x div b < q"
  then have "(x div b + 1) * b \<le> q * b" using assms by (intro mult_right_mono) auto
  moreover have "x < (x div b + 1) * b"
    using assms by (simp add: distrib_right) (metis add.commute add_less_cancel_right div_mult_mod_eq
        pos_mod_bound add_strict_left_mono)
  ultimately show "x < q * b" by simp
next
  assume "x < q * b"
  show "x div b < q"
  proof (rule ccontr)
    assume "\<not> x div b < q"
    then have "q * b \<le> x div b * b" using assms by (intro mult_right_mono) auto
    also have "\<dots> \<le> x" using assms by (metis add.commute div_mult_mod_eq le_add_same_cancel2 pos_mod_sign)
    finally show False using \<open>x < q * b\<close> by simp
  qed
qed

lemma int_le_div_iff: "0 < b \<Longrightarrow> (q :: int) \<le> x div b \<longleftrightarrow> q * b \<le> x"
  using int_div_less_iff [of b x q] by auto

end
