(* ===== verification/Coordination.thy ===== *)
theory Coordination
  imports Prelude
begin

text \<open>
  The in-process coordination backend of \<open>app/coordination/memory.py\<close> and the contract of
  \<open>app/coordination/base.py\<close>: keys with a time to live, counters, leases, publish/subscribe and
  bounded replayable streams. Every method of the class runs under one lock, so each is one state
  transformer; the clock readings it makes (\<open>self._now()\<close>) are arguments, two of them where the
  code reads the clock twice. A key's expiry is a rational number of seconds.
\<close>

section \<open>State\<close>

text \<open>
  An outbound frame is a dict; the backend looks only at its \<open>seq\<close> field. \<open>seq = None\<close> is a frame
  without that key. The remaining keys are one opaque text.
\<close>

record frame =
  seq :: "int option"
  fid :: "string option"
  body :: string

definition seq_or_0 :: "frame \<Rightarrow> int" where
  "seq_or_0 e = (case seq e of None \<Rightarrow> 0 | Some n \<Rightarrow> n)"

text \<open>A bounded deque: its \<open>maxlen\<close> and its items, oldest first.\<close>

type_synonym 'a deque = "nat \<times> 'a list"

definition deque_append :: "'a \<Rightarrow> 'a deque \<Rightarrow> 'a deque" where
  "deque_append x d = (fst d, keep_last (fst d) (snd d @ [x]))"

record coord =
  kv :: "string \<rightharpoonup> string \<times> mono_time"
  leases :: "string \<rightharpoonup> string \<times> mono_time"
  subscribers :: "string \<rightharpoonup> nat list"
  streams :: "string \<rightharpoonup> frame deque"
  stream_ids :: "string \<rightharpoonup> int"

definition init_coord :: coord where
  "init_coord = \<lparr>kv = Map.empty, leases = Map.empty, subscribers = Map.empty,
     streams = Map.empty, stream_ids = Map.empty\<rparr>"

section \<open>Keys with a time to live\<close>

definition kv_set :: "mono_time \<Rightarrow> string \<Rightarrow> string \<Rightarrow> int \<Rightarrow> coord \<Rightarrow> coord" where
  "kv_set now key value ttl_s c = c\<lparr>kv := (kv c)(key \<mapsto> (value, now + of_int ttl_s))\<rparr>"

definition kv_get :: "mono_time \<Rightarrow> string \<Rightarrow> coord \<Rightarrow> string option \<times> coord" where
  "kv_get now key c =
     (case kv c key of
        None \<Rightarrow> (None, c)
      | Some (value, expiry) \<Rightarrow>
          if expiry \<le> now then (None, c\<lparr>kv := (kv c)(key := None)\<rparr>)
          else (Some value, c))"

definition kv_delete :: "mono_time \<Rightarrow> string \<Rightarrow> coord \<Rightarrow> string option \<times> coord" where
  "kv_delete now key c =
     (case kv c key of
        None \<Rightarrow> (None, c)
      | Some (value, expiry) \<Rightarrow>
          (if expiry \<le> now then None else Some value, c\<lparr>kv := (kv c)(key := None)\<rparr>))"

section \<open>Counters\<close>

datatype value_error = ValueError

text \<open>
  \<open>incr\<close> keeps the count as text; \<open>int(value)\<close> raises \<open>ValueError\<close> when \<open>kv_set\<close> stored something
  that is not a number under the key, and then nothing is written.
\<close>

definition incr :: "mono_time \<Rightarrow> string \<Rightarrow> int \<Rightarrow> int \<Rightarrow> coord \<Rightarrow> (value_error + int) \<times> coord" where
  "incr now key amount ttl_s c =
     (let entry = (case kv c key of
                     Some (value, expiry) \<Rightarrow> if expiry \<le> now then None else Some (value, expiry)
                   | None \<Rightarrow> None)
      in case entry of
           None \<Rightarrow> (Inr amount, c\<lparr>kv := (kv c)(key \<mapsto> (py_str_int amount, now + of_int ttl_s))\<rparr>)
         | Some (value, expiry) \<Rightarrow>
             (case py_int value of
                None \<Rightarrow> (Inl ValueError, c)
              | Some n \<Rightarrow> (Inr (n + amount),
                           c\<lparr>kv := (kv c)(key \<mapsto> (py_str_int (n + amount), expiry))\<rparr>)))"

section \<open>Leases\<close>

definition lease_acquire ::
  "mono_time \<Rightarrow> mono_time \<Rightarrow> string \<Rightarrow> string \<Rightarrow> int \<Rightarrow> coord \<Rightarrow> bool \<times> coord" where
  "lease_acquire now now' name holder_id ttl_s c =
     (if (case leases c name of None \<Rightarrow> False | Some (_, expiry) \<Rightarrow> now < expiry) then (False, c)
      else (True, c\<lparr>leases := (leases c)(name \<mapsto> (holder_id, now' + of_int ttl_s))\<rparr>))"

definition lease_renew ::
  "mono_time \<Rightarrow> mono_time \<Rightarrow> string \<Rightarrow> string \<Rightarrow> int \<Rightarrow> coord \<Rightarrow> bool \<times> coord" where
  "lease_renew now now' name holder_id ttl_s c =
     (case leases c name of
        None \<Rightarrow> (False, c)
      | Some (current_holder, expiry) \<Rightarrow>
          if current_holder \<noteq> holder_id \<or> expiry \<le> now then (False, c)
          else (True, c\<lparr>leases := (leases c)(name \<mapsto> (holder_id, now' + of_int ttl_s))\<rparr>))"

definition lease_release :: "string \<Rightarrow> string \<Rightarrow> coord \<Rightarrow> coord" where
  "lease_release name holder_id c =
     (case leases c name of
        None \<Rightarrow> c
      | Some (current_holder, _) \<Rightarrow>
          if current_holder = holder_id then c\<lparr>leases := (leases c)(name := None)\<rparr> else c)"

definition lease_owner :: "mono_time \<Rightarrow> string \<Rightarrow> coord \<Rightarrow> string option \<times> coord" where
  "lease_owner now name c =
     (case leases c name of
        None \<Rightarrow> (None, c)
      | Some (holder, expiry) \<Rightarrow>
          if expiry \<le> now then (None, c\<lparr>leases := (leases c)(name := None)\<rparr>)
          else (Some holder, c))"

section \<open>Publish and subscribe\<close>

text \<open>
  Handlers are numbered. \<open>publish\<close> yields the calls it makes, in order: the handler list is copied
  under the lock and the handlers run outside it.
\<close>

definition publish :: "string \<Rightarrow> string \<Rightarrow> coord \<Rightarrow> (nat \<times> string) list" where
  "publish channel message c =
     (case subscribers c channel of None \<Rightarrow> [] | Some hs \<Rightarrow> map (\<lambda>h. (h, message)) hs)"

definition subscribe :: "string \<Rightarrow> nat \<Rightarrow> coord \<Rightarrow> coord" where
  "subscribe channel handler c =
     c\<lparr>subscribers := (subscribers c)(channel \<mapsto>
        (case subscribers c channel of None \<Rightarrow> [] | Some hs \<Rightarrow> hs) @ [handler])\<rparr>"

definition unsubscribe :: "string \<Rightarrow> nat \<Rightarrow> coord \<Rightarrow> coord" where
  "unsubscribe channel handler c =
     (case subscribers c channel of
        None \<Rightarrow> c
      | Some hs \<Rightarrow> if handler \<in> set hs
                   then c\<lparr>subscribers := (subscribers c)(channel \<mapsto> remove1 handler hs)\<rparr> else c)"

section \<open>Streams\<close>

definition stream_append :: "string \<Rightarrow> frame \<Rightarrow> nat \<Rightarrow> coord \<Rightarrow> string \<times> coord" where
  "stream_append key entry maxlen c =
     (let stream = (case streams c key of None \<Rightarrow> (maxlen, []) | Some d \<Rightarrow> d);
          next_id = (case stream_ids c key of None \<Rightarrow> 0 | Some i \<Rightarrow> i) + 1
      in (py_str_int next_id,
          c\<lparr>streams := (streams c)(key \<mapsto> deque_append entry stream),
            stream_ids := (stream_ids c)(key \<mapsto> next_id)\<rparr>))"

definition stream_read :: "string \<Rightarrow> int option \<Rightarrow> coord \<Rightarrow> frame list" where
  "stream_read key after_seq c =
     (case streams c key of
        None \<Rightarrow> []
      | Some d \<Rightarrow>
          let entries = sort_key seq_or_0 (snd d)
          in case after_seq of
               None \<Rightarrow> entries
             | Some n \<Rightarrow> filter (\<lambda>e. n < seq_or_0 e) entries)"


lemmas [op_defs] =
  kv_set_def kv_get_def kv_delete_def incr_def lease_acquire_def lease_renew_def
  lease_release_def lease_owner_def

section \<open>What a key holds at an instant\<close>

text \<open>The abstract view of the key space: expired entries are absent.\<close>

definition kv_live :: "mono_time \<Rightarrow> coord \<Rightarrow> string \<rightharpoonup> string" where
  "kv_live now c key =
     (case kv c key of None \<Rightarrow> None | Some (v, expiry) \<Rightarrow> if expiry \<le> now then None else Some v)"

lemma kv_live_set:
  "kv_live t (kv_set now key v ttl_s c) =
     (kv_live t c)(key := if now + of_int ttl_s \<le> t then None else Some v)"
  by (auto simp: kv_live_def kv_set_def)

lemma kv_get_live:
  "fst (kv_get now key c) = kv_live now c key"
  "now \<le> t \<Longrightarrow> kv_live t (snd (kv_get now key c)) = kv_live t c"
  by (auto simp: kv_live_def kv_get_def fun_eq_iff split: option.splits prod.splits)

lemma kv_delete_live:
  "fst (kv_delete now key c) = kv_live now c key"
  "kv_live t (snd (kv_delete now key c)) = (kv_live t c)(key := None)"
  by (auto simp: kv_live_def kv_delete_def fun_eq_iff split: option.splits prod.splits)

text \<open>The expiry instant of a live key, used to state that counting does not extend a window.\<close>

definition kv_expiry :: "coord \<Rightarrow> string \<Rightarrow> mono_time option" where
  "kv_expiry c key = map_option snd (kv c key)"

section \<open>Racing consumers of one ticket\<close>

text \<open>
  Callers that race to consume one key run \<open>kv_delete\<close> one after the other, in some order, because
  of the lock: \<open>kv_deletes\<close> is such a run over the instants at which they get the lock.
\<close>

fun kv_deletes :: "mono_time list \<Rightarrow> string \<Rightarrow> coord \<Rightarrow> string option list \<times> coord" where
  "kv_deletes [] key c = ([], c)"
| "kv_deletes (t # ts) key c =
     (let (r, c') = kv_delete t key c; (rs, c'') = kv_deletes ts key c' in (r # rs, c''))"

lemma kv_deletes_absent:
  "(\<forall>t. kv_live t c key = None) \<Longrightarrow> fst (kv_deletes ts key c) = replicate (length ts) None"
proof (induction ts arbitrary: c)
  case (Cons t ts)
  have "fst (kv_deletes ts key (snd (kv_delete t key c))) = replicate (length ts) None"
    by (rule Cons.IH) (simp add: kv_delete_live)
  with Cons.prems kv_delete_live(1) [of t key c] show ?case
    by (auto split: prod.splits)
qed simp

lemma kv_deletes_first_only:
  "fst (kv_deletes (t # ts) key c) = kv_live t c key # replicate (length ts) None"
proof -
  have "fst (kv_deletes ts key (snd (kv_delete t key c))) = replicate (length ts) None"
    by (rule kv_deletes_absent) (simp add: kv_delete_live)
  with kv_delete_live(1) [of t key c] show ?thesis by (auto split: prod.splits)
qed

section \<open>Counting within one window\<close>

text \<open>A run of increments of one key, each at its own instant and with its own amount.\<close>

fun incrs :: "(mono_time \<times> int \<times> int) list \<Rightarrow> string \<Rightarrow> coord \<Rightarrow> (value_error + int) list \<times> coord" where
  "incrs [] key c = ([], c)"
| "incrs ((t, amount, ttl_s) # xs) key c =
     (let (r, c') = incr t key amount ttl_s c; (rs, c'') = incrs xs key c' in (r # rs, c''))"

lemma incr_fresh:
  assumes "kv_live now c key = None"
  shows "incr now key amount ttl_s c =
    (Inr amount, c\<lparr>kv := (kv c)(key \<mapsto> (py_str_int amount, now + of_int ttl_s))\<rparr>)"
  using assms by (auto simp: incr_def kv_live_def split: option.splits prod.splits if_splits)

lemma incr_counting:
  assumes "kv c key = Some (py_str_int n, e)" "t < e"
  shows "incr t key amount ttl_s c =
    (Inr (n + amount), c\<lparr>kv := (kv c)(key \<mapsto> (py_str_int (n + amount), e))\<rparr>)"
  using assms by (simp add: incr_def)

lemma incrs_within_window:
  assumes "kv c key = Some (py_str_int n, e)" "\<forall>(t, a, l) \<in> set xs. t < e"
  shows "kv (snd (incrs xs key c)) key = Some (py_str_int (n + (\<Sum>(t, a, l) \<leftarrow> xs. a)), e)"
  using assms
proof (induction xs arbitrary: c n)
  case (Cons x xs)
  obtain t a l where x: "x = (t, a, l)" by (cases x)
  have *: "incr t key a l c = (Inr (n + a), c\<lparr>kv := (kv c)(key \<mapsto> (py_str_int (n + a), e))\<rparr>)"
    using Cons.prems by (intro incr_counting) (auto simp: x)
  have "kv (snd (incrs xs key (c\<lparr>kv := (kv c)(key \<mapsto> (py_str_int (n + a), e))\<rparr>))) key =
        Some (py_str_int (n + a + (\<Sum>(t, a, l) \<leftarrow> xs. a)), e)"
    using Cons.prems by (intro Cons.IH) auto
  then show ?case by (simp add: x * add.assoc case_prod_unfold Let_def)
qed simp

lemma incrs_results:
  assumes "kv c key = Some (py_str_int n, e)" "\<forall>(t, a, l) \<in> set xs. t < e"
  shows "fst (incrs xs key c) =
    map (\<lambda>k. Inr (n + sum_list (take (Suc k) (map (fst \<circ> snd) xs)))) [0..<length xs]"
  using assms
proof (induction xs arbitrary: c n)
  case (Cons x xs)
  obtain t a l where x: "x = (t, a, l)" by (cases x)
  have *: "incr t key a l c = (Inr (n + a), c\<lparr>kv := (kv c)(key \<mapsto> (py_str_int (n + a), e))\<rparr>)"
    using Cons.prems by (intro incr_counting) (auto simp: x)
  have "fst (incrs xs key (c\<lparr>kv := (kv c)(key \<mapsto> (py_str_int (n + a), e))\<rparr>)) =
    map (\<lambda>k. Inr (n + a + sum_list (take (Suc k) (map (fst \<circ> snd) xs)))) [0..<length xs]"
    using Cons.prems by (intro Cons.IH) auto
  then show ?case
    by (simp add: x * case_prod_unfold Let_def map_upt_Suc add.assoc comp_def del: upt_Suc)
qed simp

section \<open>The lease contract\<close>

text \<open>The holder of a lease at an instant; what \<open>lease_owner\<close> reports.\<close>

definition lease_holder :: "mono_time \<Rightarrow> coord \<Rightarrow> string \<Rightarrow> string option" where
  "lease_holder t c name =
     (case leases c name of None \<Rightarrow> None | Some (h, expiry) \<Rightarrow> if expiry \<le> t then None else Some h)"

lemma lease_owner_holder:
  "fst (lease_owner t name c) = lease_holder t c name"
  "t \<le> t' \<Longrightarrow> lease_holder t' (snd (lease_owner t name c)) m = lease_holder t' c m"
  by (auto simp: lease_owner_def lease_holder_def split: option.splits prod.splits)

text \<open>
  What a client of the leases relies on: acquiring succeeds exactly on a lease that nobody holds,
  renewing exactly for the current holder, both hold the lease for \<open>ttl_s\<close> from the clock reading
  taken at the write, a refusal changes nothing, and a lease changes hands only through these
  operations or the clock.
\<close>

locale lease_contract =
  fixes acquire :: "mono_time \<Rightarrow> mono_time \<Rightarrow> string \<Rightarrow> string \<Rightarrow> int \<Rightarrow> 's \<Rightarrow> bool \<times> 's"
    and renew :: "mono_time \<Rightarrow> mono_time \<Rightarrow> string \<Rightarrow> string \<Rightarrow> int \<Rightarrow> 's \<Rightarrow> bool \<times> 's"
    and release :: "string \<Rightarrow> string \<Rightarrow> 's \<Rightarrow> 's"
    and holder :: "mono_time \<Rightarrow> 's \<Rightarrow> string \<Rightarrow> string option"
  assumes acquire_iff: "fst (acquire t t' n h ttl s) \<longleftrightarrow> holder t s n = None"
    and acquire_refused: "\<not> fst (acquire t t' n h ttl s) \<Longrightarrow> snd (acquire t t' n h ttl s) = s"
    and acquire_holder: "fst (acquire t t' n h ttl s) \<Longrightarrow>
      holder u (snd (acquire t t' n h ttl s)) m =
        (if m = n then if u < t' + of_int ttl then Some h else None else holder u s m)"
    and renew_iff: "fst (renew t t' n h ttl s) \<longleftrightarrow> holder t s n = Some h"
    and renew_refused: "\<not> fst (renew t t' n h ttl s) \<Longrightarrow> snd (renew t t' n h ttl s) = s"
    and renew_holder: "fst (renew t t' n h ttl s) \<Longrightarrow>
      holder u (snd (renew t t' n h ttl s)) m =
        (if m = n then if u < t' + of_int ttl then Some h else None else holder u s m)"
    and release_holder: "holder u (release n h s) m =
        (if m = n \<and> holder u s n = Some h then None else holder u s m)"
    and holder_expires: "t \<le> t' \<Longrightarrow> holder t' s n = Some h \<Longrightarrow> holder t s n = Some h"
begin

lemma acquire_excludes:
  assumes "fst (acquire t t' n h ttl s)" "u < t' + of_int ttl"
  shows "\<not> fst (acquire u u' n k ttl' (snd (acquire t t' n h ttl s)))"
  using assms by (simp add: acquire_iff acquire_holder)

lemma renew_by_other_refused:
  assumes "holder t s n = Some h" "k \<noteq> h"
  shows "renew t t' n k ttl s = (False, s)"
  using assms renew_iff [of t t' n k ttl s] renew_refused [of t t' n k ttl s]
  by (cases "renew t t' n k ttl s") auto

lemma release_by_other:
  assumes "holder u s n = Some h" "k \<noteq> h"
  shows "holder u (release n k s) n = Some h"
  using assms by (simp add: release_holder)

end

interpretation mem_lease: lease_contract lease_acquire lease_renew lease_release lease_holder
  by unfold_locales
    (auto simp: lease_acquire_def lease_renew_def lease_release_def lease_holder_def
      split: option.splits prod.splits if_splits)

section \<open>Streams\<close>

text \<open>Every frame appended to a key so far, in append order; the deque keeps its newest part.\<close>

fun stream_appends :: "frame list \<Rightarrow> string \<Rightarrow> nat \<Rightarrow> coord \<Rightarrow> coord" where
  "stream_appends [] key maxlen c = c"
| "stream_appends (e # es) key maxlen c =
     stream_appends es key maxlen (snd (stream_append key e maxlen c))"

lemma stream_appends_retained:
  assumes "streams c key = Some (m, keep_last m xs)"
  shows "streams (stream_appends es key maxlen c) key = Some (m, keep_last m (xs @ es))"
  using assms
proof (induction es arbitrary: c xs)
  case (Cons e es)
  have "streams (snd (stream_append key e maxlen c)) key = Some (m, keep_last m (xs @ [e]))"
    using Cons.prems by (simp add: stream_append_def deque_append_def keep_last_keep_last_append Let_def)
  then show ?case using Cons.IH [of _ "xs @ [e]"] by simp
qed simp

lemma stream_appends_fresh:
  assumes "streams c key = None" "es \<noteq> []"
  shows "streams (stream_appends es key maxlen c) key = Some (maxlen, keep_last maxlen es)"
proof -
  obtain e es' where es: "es = e # es'" using assms(2) by (cases es) auto
  have "streams (snd (stream_append key e maxlen c)) key = Some (maxlen, keep_last maxlen [e])"
    using assms(1) by (simp add: stream_append_def deque_append_def Let_def)
  then show ?thesis using stream_appends_retained [of _ key maxlen "[e]" es'] by (simp add: es)
qed

lemma stream_read_sorted: "sorted (map seq_or_0 (stream_read key after c))"
  by (auto simp: stream_read_def Let_def sorted_filter split: option.splits)

lemma stream_read_set:
  "streams c key = Some d \<Longrightarrow>
     set (stream_read key after c) = {e \<in> set (snd d). \<forall>n. after = Some n \<longrightarrow> n < seq_or_0 e}"
  by (auto simp: stream_read_def Let_def split: option.splits)

section \<open>Properties\<close>

text \<open>
  Single-use tickets: after \<open>kv_set\<close>, of any callers that race to consume the key with
  \<open>kv_delete\<close>, only the one that gets the lock first can receive the value, and it does receive it
  exactly when the ticket has not expired by then; every later caller receives nothing.
\<close>

theorem kv_ticket_single_use:
  "fst (kv_deletes (t # ts) key (kv_set t0 key v ttl_s c)) =
     (if t < t0 + of_int ttl_s then Some v else None) # replicate (length ts) None"
  unfolding kv_deletes_first_only by (simp add: kv_live_set)

text \<open>
  Window counters: on a key that holds nothing live, a run of increments that all fall before
  the expiry set by the first one returns the running totals of the amounts, and the key ends with
  the full total and the first call's expiry, so later increments do not extend the window.
\<close>

theorem incr_window_total:
  assumes "kv_live t0 c key = None" "\<forall>(t, a, l) \<in> set xs. t < t0 + of_int ttl_s"
  shows "fst (incrs ((t0, a0, ttl_s) # xs) key c) =
      map (\<lambda>k. Inr (sum_list (take (Suc k) (a0 # map (fst \<circ> snd) xs)))) [0..<Suc (length xs)] \<and>
    kv (snd (incrs ((t0, a0, ttl_s) # xs) key c)) key =
      Some (py_str_int (a0 + (\<Sum>(t, a, l) \<leftarrow> xs. a)), t0 + of_int ttl_s)"
proof
  let ?c = "c\<lparr>kv := (kv c)(key \<mapsto> (py_str_int a0, t0 + of_int ttl_s))\<rparr>"
  have kv: "kv ?c key = Some (py_str_int a0, t0 + of_int ttl_s)" by simp
  show "fst (incrs ((t0, a0, ttl_s) # xs) key c) =
      map (\<lambda>k. Inr (sum_list (take (Suc k) (a0 # map (fst \<circ> snd) xs)))) [0..<Suc (length xs)]"
    using incrs_results [OF kv assms(2)] incr_fresh [OF assms(1)]
    by (simp add: case_prod_unfold Let_def map_upt_Suc comp_def del: upt_Suc)
  show "kv (snd (incrs ((t0, a0, ttl_s) # xs) key c)) key =
      Some (py_str_int (a0 + (\<Sum>(t, a, l) \<leftarrow> xs. a)), t0 + of_int ttl_s)"
    using incrs_within_window [OF kv assms(2)] incr_fresh [OF assms(1)]
    by (simp add: case_prod_unfold Let_def)
qed

theorem incr_window_total_witness:
  "kv_live 10 init_coord ''k'' = None \<and>
   fst (incrs [(10, 1, 60), (11, 4, 60), (69, 0, 5)] ''k'' init_coord) = [Inr 1, Inr 5, Inr 5]"
proof -
  have 1: "kv_live 10 init_coord ''k'' = None" by (simp add: kv_live_def init_coord_def)
  have 2: "\<forall>(t, a, l) \<in> set [(11 :: mono_time, 4 :: int, 60 :: int), (69, 0, 5)]. t < 10 + of_int 60"
    by simp
  show ?thesis using 1 conjunct1 [OF incr_window_total [OF 1 2, of 1]] by (simp add: upt_rec)
qed

text \<open>
  Streams: reading a key that was appended to from scratch returns exactly the newest \<open>maxlen\<close>
  frames with a sequence number above \<open>after\<close>, in sequence order whatever the order of the appends,
  frames with equal numbers staying in append order.
\<close>

theorem stream_read_newest_sorted:
  assumes "streams c key = None" "es \<noteq> []"
  shows "stream_read key (Some n) (stream_appends es key maxlen c) =
      filter (\<lambda>e. n < seq_or_0 e) (sort_key seq_or_0 (keep_last maxlen es)) \<and>
    sorted (map seq_or_0 (stream_read key (Some n) (stream_appends es key maxlen c))) \<and>
    (\<forall>k. filter (\<lambda>e. seq_or_0 e = k) (stream_read key None (stream_appends es key maxlen c)) =
         filter (\<lambda>e. seq_or_0 e = k) (keep_last maxlen es))"
proof (intro conjI allI)
  note st = stream_appends_fresh [OF assms, of maxlen]
  show "stream_read key (Some n) (stream_appends es key maxlen c) =
      filter (\<lambda>e. n < seq_or_0 e) (sort_key seq_or_0 (keep_last maxlen es))"
    by (simp add: stream_read_def st)
  show "sorted (map seq_or_0 (stream_read key (Some n) (stream_appends es key maxlen c)))"
    by (rule stream_read_sorted)
  fix k
  show "filter (\<lambda>e. seq_or_0 e = k) (stream_read key None (stream_appends es key maxlen c)) =
         filter (\<lambda>e. seq_or_0 e = k) (keep_last maxlen es)"
    using sort_key_stable [of seq_or_0 k "keep_last maxlen es"] by (simp add: stream_read_def st)
qed

theorem stream_read_newest_sorted_witness:
  "let f = (\<lambda>n. \<lparr>seq = Some n, fid = None, body = ''''\<rparr>) in
   stream_read ''s'' (Some 2) (stream_appends [f 1, f 2, f 4, f 3] ''s'' 3 init_coord) = [f 3, f 4]"
proof -
  let ?f = "\<lambda>n. \<lparr>seq = Some n, fid = None, body = ''''\<rparr>"
  have 1: "streams init_coord ''s'' = None" by (simp add: init_coord_def)
  have 2: "[?f 1, ?f 2, ?f 4, ?f 3] \<noteq> []" by simp
  show ?thesis
    using conjunct1 [OF stream_read_newest_sorted [OF 1 2, of 2 3]]
    by (simp add: keep_last_def seq_or_0_def)
qed

end
