(* ===== verification/Leases.thy ===== *)
theory Leases
  imports Coordination
begin

text \<open>
  The clients of the lease primitives: the acquire-or-wait loop \<open>run_with_lease\<close> of
  \<open>app/coordination/leases.py\<close> and the session routing leases of \<open>app/chat/routing.py\<close>. A call to
  the backend may raise \<open>CoordinationUnavailable\<close>, so its outcome is a sum. The loop body is one
  function of the outcomes it meets; replicas sharing a backend are a step relation over any
  implementation of the lease contract.
\<close>

datatype coord_error = CoordinationUnavailable

section \<open>The acquire-or-wait loop\<close>

record lease_loop =
  held :: bool
  unavailable_since :: "mono_time option"

text \<open>What the loop does to the outside world in one iteration, in order.\<close>

datatype lease_act = Start | Start_Failed | Stop | Release | Sleep mono_time

text \<open>
  What one iteration meets: the outcomes of the backend calls, whether \<open>start()\<close> returned, and the
  clock reading taken when a renewal could not reach the backend.
\<close>

record lease_inputs =
  in_acquire :: "coord_error + bool"
  in_start_ok :: bool
  in_renew :: "coord_error + bool"
  in_now :: mono_time

definition init_loop :: lease_loop where
  "init_loop = \<lparr>held = False, unavailable_since = None\<rparr>"

definition renew_interval :: "int \<Rightarrow> mono_time" where
  "renew_interval ttl_s = max (of_int ttl_s / 3) (1 / 20)"

definition acquire_phase :: "int \<Rightarrow> lease_inputs \<Rightarrow> lease_loop \<Rightarrow> lease_loop \<times> lease_act list" where
  "acquire_phase ttl_s i l =
     (case in_acquire i of
        Inl CoordinationUnavailable \<Rightarrow> (l, [Sleep (renew_interval ttl_s)])
      | Inr acquired \<Rightarrow>
          if \<not> acquired then (l, [Sleep (renew_interval ttl_s)])
          else if in_start_ok i then (l\<lparr>held := True, unavailable_since := None\<rparr>, [Start])
          else (l\<lparr>held := False, unavailable_since := None\<rparr>, [Start_Failed, Release, Sleep (of_int ttl_s)]))"

definition renew_phase :: "int \<Rightarrow> lease_inputs \<Rightarrow> lease_loop \<Rightarrow> lease_loop \<times> lease_act list" where
  "renew_phase ttl_s i l =
     (let sl = Sleep (renew_interval ttl_s)
      in case in_renew i of
           Inl CoordinationUnavailable \<Rightarrow>
             (case unavailable_since l of
                None \<Rightarrow> (l\<lparr>unavailable_since := Some (in_now i)\<rparr>, [sl])
              | Some since \<Rightarrow>
                  if in_now i - since < of_int ttl_s then (l, [sl])
                  else (l\<lparr>held := False, unavailable_since := None\<rparr>, [sl, Stop]))
         | Inr renewed \<Rightarrow>
             if \<not> renewed then (l\<lparr>held := False, unavailable_since := None\<rparr>, [sl, Stop])
             else (l\<lparr>unavailable_since := None\<rparr>, [sl]))"

definition run_with_lease_step ::
  "int \<Rightarrow> lease_inputs \<Rightarrow> lease_loop \<Rightarrow> lease_loop \<times> lease_act list" where
  "run_with_lease_step ttl_s i l =
     (if \<not> held l then acquire_phase ttl_s i l else renew_phase ttl_s i l)"

definition run_with_lease_cancel :: "lease_loop \<Rightarrow> lease_act list" where
  "run_with_lease_cancel l = (if held l then [Stop, Release] else [])"

text \<open>A run of the loop over the inputs of its iterations, until it is cancelled.\<close>

fun run_with_lease :: "int \<Rightarrow> lease_inputs list \<Rightarrow> lease_loop \<Rightarrow> lease_act list" where
  "run_with_lease ttl_s [] l = run_with_lease_cancel l"
| "run_with_lease ttl_s (i # is) l =
     (let (l', acts) = run_with_lease_step ttl_s i l in acts @ run_with_lease ttl_s is l')"

subsection \<open>Start and stop alternate\<close>

text \<open>Whether the consumer is running after the given actions; \<open>None\<close> once the actions misuse it.\<close>

fun consumer :: "bool \<Rightarrow> lease_act list \<Rightarrow> bool option" where
  "consumer on [] = Some on"
| "consumer on (Start # as) = (if on then None else consumer True as)"
| "consumer on (Stop # as) = (if on then consumer False as else None)"
| "consumer on (_ # as) = consumer on as"

lemma consumer_append:
  "consumer on (xs @ ys) = (case consumer on xs of None \<Rightarrow> None | Some on' \<Rightarrow> consumer on' ys)"
  by (induction on xs rule: consumer.induct) (auto split: option.splits)

lemma step_consumer:
  assumes "run_with_lease_step ttl_s i l = (l', acts)"
  shows "consumer (held l) acts = Some (held l')"
  using assms
  by (auto simp: run_with_lease_step_def acquire_phase_def renew_phase_def Let_def
      split: sum.splits coord_error.splits option.splits if_splits)

lemma run_consumer: "consumer (held l) (run_with_lease ttl_s is l) = Some False"
proof (induction "is" arbitrary: l)
  case Nil
  show ?case by (simp add: run_with_lease_cancel_def)
next
  case (Cons i "is")
  obtain l' acts where st: "run_with_lease_step ttl_s i l = (l', acts)" by fastforce
  then show ?case using step_consumer [OF st] Cons.IH [of l'] by (simp add: consumer_append)
qed

subsection \<open>How long an unreachable backend is tolerated\<close>

lemma renew_phase_tolerance:
  assumes "held l" "run_with_lease_step ttl_s i l = (l', acts)" "held l'"
    "in_renew i = Inl CoordinationUnavailable" "0 < ttl_s"
  shows "\<exists>since. unavailable_since l' = Some since \<and> in_now i - since < of_int ttl_s \<and>
    unavailable_since l \<in> {None, Some since}"
  using assms
  by (auto simp: run_with_lease_step_def renew_phase_def Let_def split: option.splits if_splits)

section \<open>Replicas sharing one backend\<close>

text \<open>
  \<open>last_ok\<close> is a history variable, the instant of a replica's last successful acquire or renew. A
  step is the clock advancing or one replica running one iteration, during which the backend is
  either reachable for it or not; a failed \<open>start()\<close> releases the lease when the backend can be
  reached. The parameters are the primitives of any lease implementation.
\<close>

record 's lease_sys =
  backend :: 's
  clock :: mono_time
  loops :: "string \<Rightarrow> lease_loop"
  last_ok :: "string \<Rightarrow> mono_time"

inductive lease_sys_step ::
  "(mono_time \<Rightarrow> mono_time \<Rightarrow> string \<Rightarrow> string \<Rightarrow> int \<Rightarrow> 's \<Rightarrow> bool \<times> 's) \<Rightarrow>
   (mono_time \<Rightarrow> mono_time \<Rightarrow> string \<Rightarrow> string \<Rightarrow> int \<Rightarrow> 's \<Rightarrow> bool \<times> 's) \<Rightarrow>
   (string \<Rightarrow> string \<Rightarrow> 's \<Rightarrow> 's) \<Rightarrow> string \<Rightarrow> int \<Rightarrow> 's lease_sys \<Rightarrow> 's lease_sys \<Rightarrow> bool"
  for acquire renew release name ttl_s where
  tick: "0 \<le> d \<Longrightarrow>
    lease_sys_step acquire renew release name ttl_s s (s\<lparr>clock := clock s + d\<rparr>)"
| acquires: "\<lbrakk>\<not> held (loops s h); acquire (clock s) (clock s) name h ttl_s (backend s) = (b, s1);
     in_acquire i = Inr b; run_with_lease_step ttl_s i (loops s h) = (l', acts);
     s2 = (if Release \<in> set acts \<and> reach then release name h s1 else s1)\<rbrakk> \<Longrightarrow>
    lease_sys_step acquire renew release name ttl_s s
      (s\<lparr>backend := s2, loops := (loops s)(h := l'),
         last_ok := (if b then (last_ok s)(h := clock s) else last_ok s)\<rparr>)"
| renews: "\<lbrakk>held (loops s h); renew (clock s) (clock s) name h ttl_s (backend s) = (b, s1);
     in_renew i = Inr b; run_with_lease_step ttl_s i (loops s h) = (l', acts)\<rbrakk> \<Longrightarrow>
    lease_sys_step acquire renew release name ttl_s s
      (s\<lparr>backend := s1, loops := (loops s)(h := l'),
         last_ok := (if b then (last_ok s)(h := clock s) else last_ok s)\<rparr>)"
| unreachable: "\<lbrakk>in_acquire i = Inl CoordinationUnavailable; in_renew i = Inl CoordinationUnavailable;
     in_now i = clock s; run_with_lease_step ttl_s i (loops s h) = (l', acts)\<rbrakk> \<Longrightarrow>
    lease_sys_step acquire renew release name ttl_s s (s\<lparr>loops := (loops s)(h := l')\<rparr>)"
| cancels: "\<lbrakk>s1 = (if Release \<in> set (run_with_lease_cancel (loops s h)) \<and> reach
            then release name h (backend s) else backend s)\<rbrakk> \<Longrightarrow>
    lease_sys_step acquire renew release name ttl_s s
      (s\<lparr>backend := s1, loops := (loops s)(h := init_loop)\<rparr>)"

inductive lease_reachable ::
  "(mono_time \<Rightarrow> mono_time \<Rightarrow> string \<Rightarrow> string \<Rightarrow> int \<Rightarrow> 's \<Rightarrow> bool \<times> 's) \<Rightarrow>
   (mono_time \<Rightarrow> mono_time \<Rightarrow> string \<Rightarrow> string \<Rightarrow> int \<Rightarrow> 's \<Rightarrow> bool \<times> 's) \<Rightarrow>
   (string \<Rightarrow> string \<Rightarrow> 's \<Rightarrow> 's) \<Rightarrow> string \<Rightarrow> int \<Rightarrow> 's lease_sys \<Rightarrow> bool"
  for acquire renew release name ttl_s where
  boot: "(\<And>h. loops s h = init_loop) \<Longrightarrow> lease_reachable acquire renew release name ttl_s s"
| steps: "lease_reachable acquire renew release name ttl_s s \<Longrightarrow>
    lease_sys_step acquire renew release name ttl_s s s' \<Longrightarrow>
    lease_reachable acquire renew release name ttl_s s'"

text \<open>A replica that believes it holds the lease really does for \<open>ttl_s\<close> after its last success.\<close>

definition lease_sys_inv ::
  "(mono_time \<Rightarrow> 's \<Rightarrow> string \<Rightarrow> string option) \<Rightarrow> string \<Rightarrow> int \<Rightarrow> 's lease_sys \<Rightarrow> bool" where
  "lease_sys_inv holder name ttl_s s \<longleftrightarrow>
     (\<forall>h. held (loops s h) \<longrightarrow>
        (\<forall>t. clock s \<le> t \<and> t < last_ok s h + of_int ttl_s \<longrightarrow> holder t (backend s) name = Some h))"

lemma held_after_step:
  assumes "run_with_lease_step ttl_s i l = (l', acts)"
  shows "held l' \<Longrightarrow> held l \<or> (in_acquire i = Inr True \<and> Release \<notin> set acts)"
    and "held l \<Longrightarrow> held l' \<Longrightarrow> in_renew i \<noteq> Inr False"
    and "held l \<Longrightarrow> Release \<notin> set acts"
  using assms
  by (auto simp: run_with_lease_step_def acquire_phase_def renew_phase_def Let_def
      split: sum.splits coord_error.splits option.splits if_splits)

context lease_contract
begin

lemma lease_sys_inv_step:
  assumes "lease_sys_step acquire renew release name ttl_s s s'" "lease_sys_inv holder name ttl_s s"
  shows "lease_sys_inv holder name ttl_s s'"
  using assms
proof (induction rule: lease_sys_step.induct)
  case (tick d s)
  then show ?case by (auto simp: lease_sys_inv_def)
next
  case (acquires s h b s1 i l' acts s2 reach)
  show ?case unfolding lease_sys_inv_def
  proof (intro allI impI, elim conjE)
    fix k t
    let ?s' = "s\<lparr>backend := s2, loops := (loops s)(h := l'),
         last_ok := (if b then (last_ok s)(h := clock s) else last_ok s)\<rparr>"
    assume k: "held (loops ?s' k)" and t: "clock ?s' \<le> t" "t < last_ok ?s' k + of_int ttl_s"
    show "holder t (backend ?s') name = Some k"
    proof (cases "k = h")
      case True
      with k acquires.hyps held_after_step(1) [OF acquires.hyps(4)]
      have b: b and "Release \<notin> set acts" by auto
      then have "s2 = s1" using acquires.hyps(5) by simp
      then show ?thesis
        using acquire_holder [of "clock s" "clock s" name h ttl_s "backend s" t name]
          acquires.hyps(2) b t True by simp
    next
      case False
      then have kh: "held (loops s k)" using k by simp
      have old: "holder t (backend s) name = Some k"
        using acquires.prems kh t False by (auto simp: lease_sys_inv_def split: if_splits)
      then have "holder (clock s) (backend s) name = Some k"
        using holder_expires t(1) by simp
      then have "\<not> b" using acquire_iff [of "clock s" "clock s" name h ttl_s "backend s"]
          acquires.hyps(2) by simp
      then have "s1 = backend s"
        using acquire_refused [of "clock s" "clock s" name h ttl_s "backend s"] acquires.hyps(2)
        by simp
      then show ?thesis using old False acquires.hyps(5) by (simp add: release_holder)
    qed
  qed
next
  case (renews s h b s1 i l' acts)
  show ?case unfolding lease_sys_inv_def
  proof (intro allI impI, elim conjE)
    fix k t
    let ?s' = "s\<lparr>backend := s1, loops := (loops s)(h := l'),
         last_ok := (if b then (last_ok s)(h := clock s) else last_ok s)\<rparr>"
    assume k: "held (loops ?s' k)" and t: "clock ?s' \<le> t" "t < last_ok ?s' k + of_int ttl_s"
    show "holder t (backend ?s') name = Some k"
    proof (cases "k = h")
      case True
      with k renews.hyps held_after_step(2) [OF renews.hyps(4)] have b: b by auto
      then show ?thesis
        using renew_holder [of "clock s" "clock s" name h ttl_s "backend s" t name]
          renews.hyps(2) t True by simp
    next
      case False
      then have kh: "held (loops s k)" using k by simp
      have old: "holder t (backend s) name = Some k"
        using renews.prems kh t False by (auto simp: lease_sys_inv_def split: if_splits)
      then have "holder (clock s) (backend s) name = Some k"
        using holder_expires t(1) by simp
      then have "s1 = backend s"
        using renew_by_other_refused [of "clock s" "backend s" name k h] False renews.hyps(2) by simp
      then show ?thesis using old by simp
    qed
  qed
next
  case (unreachable i s h l' acts)
  then show ?case
    using held_after_step(1) [OF unreachable.hyps(4)] by (auto simp: lease_sys_inv_def)
next
  case (cancels s1 s h reach)
  then show ?case by (auto simp: lease_sys_inv_def init_loop_def release_holder)
qed

lemma lease_sys_inv_reachable:
  "lease_reachable acquire renew release name ttl_s s \<Longrightarrow> lease_sys_inv holder name ttl_s s"
proof (induction rule: lease_reachable.induct)
  case (boot s)
  then show ?case by (simp add: lease_sys_inv_def init_loop_def)
next
  case (steps s s')
  then show ?case by (blast intro: lease_sys_inv_step)
qed

lemma at_most_one_fresh_holder:
  assumes "lease_reachable acquire renew release name ttl_s s"
    and "held (loops s h)" "clock s < last_ok s h + of_int ttl_s"
    and "held (loops s k)" "clock s < last_ok s k + of_int ttl_s"
  shows "h = k"
  using lease_sys_inv_reachable [OF assms(1)] assms(2-5) unfolding lease_sys_inv_def
  by (metis option.inject order.refl)

end

section \<open>Session routing\<close>

text \<open>
  One lease per chat session. None of the four functions raises: a backend that cannot be reached
  counts as a refusal. They take the backend primitive they call as an argument.
\<close>

definition lease_name :: "string \<Rightarrow> string" where
  "lease_name chat_id = ''chat:'' @ chat_id"

definition claim_session ::
  "(string \<Rightarrow> string \<Rightarrow> int \<Rightarrow> 's \<Rightarrow> (coord_error + bool) \<times> 's) \<Rightarrow> string \<Rightarrow> string \<Rightarrow> int \<Rightarrow> 's \<Rightarrow> bool \<times> 's" where
  "claim_session acquire chat_id gateway_id ttl_s s =
     (case acquire (lease_name chat_id) gateway_id ttl_s s of
        (Inl CoordinationUnavailable, s') \<Rightarrow> (False, s')
      | (Inr b, s') \<Rightarrow> (b, s'))"

definition renew_session ::
  "(string \<Rightarrow> string \<Rightarrow> int \<Rightarrow> 's \<Rightarrow> (coord_error + bool) \<times> 's) \<Rightarrow> string \<Rightarrow> string \<Rightarrow> int \<Rightarrow> 's \<Rightarrow> bool \<times> 's" where
  "renew_session renew chat_id gateway_id ttl_s s =
     (case renew (lease_name chat_id) gateway_id ttl_s s of
        (Inl CoordinationUnavailable, s') \<Rightarrow> (False, s')
      | (Inr b, s') \<Rightarrow> (b, s'))"

definition release_session ::
  "(string \<Rightarrow> string \<Rightarrow> 's \<Rightarrow> (coord_error + unit) \<times> 's) \<Rightarrow> string \<Rightarrow> string \<Rightarrow> 's \<Rightarrow> 's" where
  "release_session release chat_id gateway_id s = snd (release (lease_name chat_id) gateway_id s)"

definition owner_of ::
  "(string \<Rightarrow> 's \<Rightarrow> (coord_error + string option) \<times> 's) \<Rightarrow> string \<Rightarrow> 's \<Rightarrow> string option \<times> 's" where
  "owner_of owner chat_id s =
     (case owner (lease_name chat_id) s of
        (Inl CoordinationUnavailable, s') \<Rightarrow> (None, s')
      | (Inr r, s') \<Rightarrow> (r, s'))"

text \<open>The in-process backend is always reachable.\<close>

definition reachable_call :: "'a \<times> 's \<Rightarrow> (coord_error + 'a) \<times> 's" where
  "reachable_call r = (Inr (fst r), snd r)"

abbreviation mem_claim :: "mono_time \<Rightarrow> string \<Rightarrow> string \<Rightarrow> int \<Rightarrow> coord \<Rightarrow> bool \<times> coord" where
  "mem_claim t \<equiv> claim_session (\<lambda>n h l c. reachable_call (lease_acquire t t n h l c))"

abbreviation mem_renew :: "mono_time \<Rightarrow> string \<Rightarrow> string \<Rightarrow> int \<Rightarrow> coord \<Rightarrow> bool \<times> coord" where
  "mem_renew t \<equiv> renew_session (\<lambda>n h l c. reachable_call (lease_renew t t n h l c))"

abbreviation mem_release :: "string \<Rightarrow> string \<Rightarrow> coord \<Rightarrow> coord" where
  "mem_release \<equiv> release_session (\<lambda>n h c. (Inr (), lease_release n h c))"

abbreviation mem_owner :: "mono_time \<Rightarrow> string \<Rightarrow> coord \<Rightarrow> string option \<times> coord" where
  "mem_owner t \<equiv> owner_of (\<lambda>n c. reachable_call (lease_owner t n c))"

lemma mem_routing:
  "mem_claim t x g l c = lease_acquire t t (lease_name x) g l c"
  "mem_renew t x g l c = lease_renew t t (lease_name x) g l c"
  "mem_release x g c = lease_release (lease_name x) g c"
  "mem_owner t x c = lease_owner t (lease_name x) c"
  by (simp_all add: claim_session_def renew_session_def release_session_def owner_of_def
      reachable_call_def)

lemma lease_name_inj [simp]: "lease_name x = lease_name y \<longleftrightarrow> x = y"
  by (simp add: lease_name_def)

section \<open>Properties\<close>

text \<open>
  C8. Mutual exclusion of the leader loop over the in-process backend: in every state reachable by
  replicas interleaving their iterations, with the backend unreachable for any of them at any time,
  at most one replica believes it holds the lease and is still within \<open>ttl_s\<close> of its last
  successful acquire or renewal.
\<close>

theorem lease_mutual_exclusion:
  assumes "lease_reachable lease_acquire lease_renew lease_release name ttl_s s"
    and "held (loops s h)" "clock s < last_ok s h + of_int ttl_s"
    and "held (loops s k)" "clock s < last_ok s k + of_int ttl_s"
  shows "h = k"
  using assms by (rule mem_lease.at_most_one_fresh_holder)

definition demo_boot :: "coord lease_sys" where
  "demo_boot = \<lparr>backend = init_coord, clock = 0, loops = (\<lambda>_. init_loop), last_ok = (\<lambda>_. 0)\<rparr>"

definition demo_ok :: lease_inputs where
  "demo_ok = \<lparr>in_acquire = Inr True, in_start_ok = True, in_renew = Inr True, in_now = 0\<rparr>"

definition demo_lost :: "mono_time \<Rightarrow> lease_inputs" where
  "demo_lost t = \<lparr>in_acquire = Inl CoordinationUnavailable, in_start_ok = True,
     in_renew = Inl CoordinationUnavailable, in_now = t\<rparr>"

text \<open>Replica \<open>a\<close> acquires, then cannot reach the backend; once its lease expired \<open>b\<close> acquires.\<close>

definition demo_a :: "coord lease_sys" where
  "demo_a = demo_boot\<lparr>backend := init_coord\<lparr>leases := [''l'' \<mapsto> (''a'', 15)]\<rparr>,
     loops := (\<lambda>_. init_loop)(''a'' := \<lparr>held = True, unavailable_since = None\<rparr>),
     last_ok := (\<lambda>_. 0)\<rparr>"

definition demo_cut :: "coord lease_sys" where
  "demo_cut = demo_a\<lparr>clock := 15,
     loops := (\<lambda>_. init_loop)(''a'' := \<lparr>held = True, unavailable_since = Some 5\<rparr>)\<rparr>"

definition demo_both :: "coord lease_sys" where
  "demo_both = demo_cut\<lparr>backend := init_coord\<lparr>leases := [''l'' \<mapsto> (''b'', 30)]\<rparr>,
     loops := (loops demo_cut)(''b'' := \<lparr>held = True, unavailable_since = None\<rparr>),
     last_ok := (\<lambda>_. 0)(''b'' := 15)\<rparr>"

lemmas demo_defs = demo_boot_def demo_ok_def demo_lost_def demo_a_def demo_cut_def demo_both_def
  init_loop_def init_coord_def run_with_lease_step_def acquire_phase_def renew_phase_def

lemma reachable_next:
  "lease_reachable acquire renew release name ttl_s s \<Longrightarrow>
   lease_sys_step acquire renew release name ttl_s s s'' \<Longrightarrow> s'' = s' \<Longrightarrow>
   lease_reachable acquire renew release name ttl_s s'"
  using lease_reachable.steps by blast

lemma demo_a_reachable: "lease_reachable lease_acquire lease_renew lease_release ''l'' 15 demo_a"
proof (rule reachable_next)
  show "lease_reachable lease_acquire lease_renew lease_release ''l'' 15 demo_boot"
    by (rule lease_reachable.boot) (simp add: demo_defs)
  show "lease_sys_step lease_acquire lease_renew lease_release ''l'' 15 demo_boot
     (demo_boot\<lparr>backend := init_coord\<lparr>leases := [''l'' \<mapsto> (''a'', 15)]\<rparr>,
        loops := (loops demo_boot)(''a'' := \<lparr>held = True, unavailable_since = None\<rparr>),
        last_ok := (if True then (last_ok demo_boot)(''a'' := clock demo_boot) else last_ok demo_boot)\<rparr>)"
    by (rule lease_sys_step.acquires [where i = demo_ok and acts = "[Start]" and reach = True and
          ?s1.0 = "init_coord\<lparr>leases := [''l'' \<mapsto> (''a'', 15)]\<rparr>"])
      (simp_all add: demo_defs lease_acquire_def)
qed (simp add: demo_defs fun_eq_iff)

lemma demo_cut_reachable: "lease_reachable lease_acquire lease_renew lease_release ''l'' 15 demo_cut"
proof (rule reachable_next)
  let ?s = "demo_a\<lparr>clock := 5, loops := (loops demo_a)(''a'' := \<lparr>held = True, unavailable_since = Some 5\<rparr>)\<rparr>"
  show "lease_reachable lease_acquire lease_renew lease_release ''l'' 15 ?s"
  proof (rule reachable_next)
    show "lease_reachable lease_acquire lease_renew lease_release ''l'' 15 (demo_a\<lparr>clock := clock demo_a + 5\<rparr>)"
      by (rule lease_reachable.steps [OF demo_a_reachable lease_sys_step.tick]) simp
    show "lease_sys_step lease_acquire lease_renew lease_release ''l'' 15 (demo_a\<lparr>clock := clock demo_a + 5\<rparr>)
      (demo_a\<lparr>clock := clock demo_a + 5,
        loops := (loops (demo_a\<lparr>clock := clock demo_a + 5\<rparr>))(''a'' := \<lparr>held = True, unavailable_since = Some 5\<rparr>)\<rparr>)"
      using lease_sys_step.unreachable [where i = "demo_lost 5" and h = "''a''" and
          s = "demo_a\<lparr>clock := clock demo_a + 5\<rparr>" and ttl_s = 15]
      by (simp add: demo_defs)
  qed (simp add: demo_defs)
  show "lease_sys_step lease_acquire lease_renew lease_release ''l'' 15 ?s (?s\<lparr>clock := clock ?s + 10\<rparr>)"
    by (rule lease_sys_step.tick) simp
qed (simp add: demo_defs)

lemma demo_both_reachable: "lease_reachable lease_acquire lease_renew lease_release ''l'' 15 demo_both"
proof (rule reachable_next [OF demo_cut_reachable])
  show "lease_sys_step lease_acquire lease_renew lease_release ''l'' 15 demo_cut
     (demo_cut\<lparr>backend := init_coord\<lparr>leases := [''l'' \<mapsto> (''b'', 30)]\<rparr>,
        loops := (loops demo_cut)(''b'' := \<lparr>held = True, unavailable_since = None\<rparr>),
        last_ok := (if True then (last_ok demo_cut)(''b'' := clock demo_cut) else last_ok demo_cut)\<rparr>)"
    by (rule lease_sys_step.acquires [where i = demo_ok and acts = "[Start]" and reach = True and
          ?s1.0 = "init_coord\<lparr>leases := [''l'' \<mapsto> (''b'', 30)]\<rparr>"])
      (simp_all add: demo_defs lease_acquire_def)
qed (simp add: demo_defs)

theorem lease_mutual_exclusion_witness:
  "{k. held (loops demo_a k) \<and> clock demo_a < last_ok demo_a k + of_int 15} = {''a''}"
proof -
  have h: "held (loops demo_a ''a'')" "clock demo_a < last_ok demo_a ''a'' + of_int 15"
    by (simp_all add: demo_defs)
  show ?thesis using h lease_mutual_exclusion [OF demo_a_reachable _ _ h] by blast
qed

text \<open>
  The freshness condition of C4 is needed: a replica that cannot reach the backend keeps
  believing it holds the lease after the lease expired, because an outage is tolerated for a whole
  \<open>ttl_s\<close> counted from the first failed renewal, and meanwhile another replica that can reach the
  backend acquires it. A state in which two replicas both believe they hold the lease is reachable.
\<close>

theorem lease_two_believers:
  "\<exists>s. lease_reachable lease_acquire lease_renew lease_release ''l'' 15 s \<and>
     held (loops s ''a'') \<and> held (loops s ''b'')"
  using demo_both_reachable by (intro exI [of _ demo_both]) (simp add: demo_defs)

text \<open>
  The singleton work is driven correctly whatever the backend and \<open>start()\<close> do: from a fresh
  loop, \<open>start\<close> succeeds and \<open>stop\<close> is called strictly in alternation beginning with \<open>start\<close>, and
  once the loop is cancelled the work is stopped.
\<close>

theorem lease_loop_alternates:
  "consumer False (run_with_lease ttl_s is init_loop) = Some False"
  using run_consumer [of init_loop ttl_s "is"] by (simp add: init_loop_def)

text \<open>
  Routing leases: a gateway that claimed a session is its reported owner until the lease
  expires; during that time no claim of the session succeeds, no other gateway can renew or release
  it, and other sessions keep their owners.
\<close>

theorem routing_claim_exclusive:
  assumes "fst (mem_claim t x g ttl_s c)" "t \<le> u" "u < t + of_int ttl_s" "g' \<noteq> g" "y \<noteq> x"
  defines "c' \<equiv> snd (mem_claim t x g ttl_s c)"
  shows "fst (mem_owner u x c') = Some g \<and> mem_claim u x g' ttl' c' = (False, c') \<and>
    mem_renew u x g' ttl' c' = (False, c') \<and> fst (mem_owner u x (mem_release x g' c')) = Some g \<and>
    fst (mem_owner u y c') = fst (mem_owner u y c)"
proof -
  have own: "lease_holder u c' (lease_name x) = Some g"
    and oth: "lease_holder u c' (lease_name y) = lease_holder u c (lease_name y)"
    using mem_lease.acquire_holder [of t t "lease_name x" g ttl_s c u] assms
    by (simp_all add: mem_routing)
  have "mem_claim u x g' ttl' c' = (False, c')"
    using mem_lease.acquire_iff [of u u "lease_name x" g' ttl' c']
      mem_lease.acquire_refused [of u u "lease_name x" g' ttl' c'] own
    by (cases "lease_acquire u u (lease_name x) g' ttl' c'") (simp add: mem_routing)
  then show ?thesis
    using own oth mem_lease.renew_by_other_refused [OF own \<open>g' \<noteq> g\<close>]
      mem_lease.release_by_other [OF own \<open>g' \<noteq> g\<close>]
    by (simp add: mem_routing lease_owner_holder)
qed

theorem routing_claim_exclusive_witness:
  "fst (mem_claim 0 ''s1'' ''gw1'' 30 init_coord) \<and>
   mem_claim 12 ''s1'' ''gw2'' 30 (snd (mem_claim 0 ''s1'' ''gw1'' 30 init_coord)) =
     (False, snd (mem_claim 0 ''s1'' ''gw1'' 30 init_coord))"
proof -
  have h: "fst (mem_claim 0 ''s1'' ''gw1'' 30 init_coord)"
    unfolding mem_routing by (simp add: lease_acquire_def init_coord_def)
  show ?thesis
    using h routing_claim_exclusive [OF h, of 12 "''gw2''" "''s2''" 30] by simp
qed

end
