(* ===== verification/Replay.thy ===== *)
theory Replay
  imports Coordination Leases "HOL-Library.Multiset"
begin

text \<open>
  Outbound chat frames: the per-session sequence numbers of \<open>app/chat/frame_seq.py\<close>, the replay
  decision of \<open>app/chat/replay.py\<close> over the bounded stream, and its \<open>GapReplayGate\<close>, which buffers
  live frames while the gap of a reconnecting client is replayed. The gate's methods interleave at
  the points where the code releases its lock; they are a step relation.
\<close>

section \<open>Sequence numbers\<close>

definition SEQ_TTL_SEC :: int where
  "SEQ_TTL_SEC = 9 * 24 * 3600"

definition seq_key :: "string \<Rightarrow> string" where
  "seq_key chat_id = ''chat-seq:'' @ chat_id"

definition next_seq :: "mono_time \<Rightarrow> string \<Rightarrow> coord \<Rightarrow> (value_error + int) \<times> coord" where
  "next_seq now chat_id c = incr now (seq_key chat_id) 1 SEQ_TTL_SEC c"

definition peek_seq :: "mono_time \<Rightarrow> string \<Rightarrow> coord \<Rightarrow> (value_error + int) \<times> coord" where
  "peek_seq now chat_id c = incr now (seq_key chat_id) 0 SEQ_TTL_SEC c"

definition stamp_frame :: "mono_time \<Rightarrow> string \<Rightarrow> frame \<Rightarrow> coord \<Rightarrow> (value_error + frame) \<times> coord" where
  "stamp_frame now chat_id f c =
     (case next_seq now chat_id c of
        (Inl e, c') \<Rightarrow> (Inl e, c')
      | (Inr n, c') \<Rightarrow> (Inr (f\<lparr>seq := Some n, fid := Some (chat_id @ '':'' @ py_str_int n)\<rparr>), c'))"

section \<open>Replay on reconnect\<close>

definition STREAM_MAXLEN :: nat where
  "STREAM_MAXLEN = 1000"

definition stream_key :: "string \<Rightarrow> string" where
  "stream_key chat_id = ''chat-out:'' @ chat_id"

definition append_frame :: "string \<Rightarrow> frame \<Rightarrow> coord \<Rightarrow> coord" where
  "append_frame chat_id f c = snd (stream_append (stream_key chat_id) f STREAM_MAXLEN c)"

record replay_outcome =
  frames :: "frame list"
  full_refresh :: bool

text \<open>
  The decision, over the outcomes of the two backend calls: the peeked counter and the unfiltered
  stream. The second outcome is looked at only where the code makes the call.
\<close>

definition replay_decision :: "int \<Rightarrow> coord_error + int \<Rightarrow> coord_error + frame list \<Rightarrow> replay_outcome" where
  "replay_decision last_seq peeked all_entries =
     (if last_seq \<le> 0 then \<lparr>frames = [], full_refresh = False\<rparr>
      else case peeked of
        Inl CoordinationUnavailable \<Rightarrow> \<lparr>frames = [], full_refresh = False\<rparr>
      | Inr current_seq \<Rightarrow>
          if current_seq < last_seq then \<lparr>frames = [], full_refresh = True\<rparr>
          else if current_seq = last_seq then \<lparr>frames = [], full_refresh = False\<rparr>
          else case all_entries of
            Inl CoordinationUnavailable \<Rightarrow> \<lparr>frames = [], full_refresh = False\<rparr>
          | Inr [] \<Rightarrow> \<lparr>frames = [], full_refresh = True\<rparr>
          | Inr (e # es) \<Rightarrow>
              if last_seq + 1 < seq_or_0 e then \<lparr>frames = [], full_refresh = True\<rparr>
              else \<lparr>frames = filter (\<lambda>e. last_seq < seq_or_0 e) (e # es), full_refresh = False\<rparr>)"

text \<open>Over the in-process backend; the peek may raise if the counter key was overwritten.\<close>

definition replay_since :: "mono_time \<Rightarrow> string \<Rightarrow> int \<Rightarrow> coord \<Rightarrow> (value_error + replay_outcome) \<times> coord" where
  "replay_since now chat_id last_seq c =
     (if last_seq \<le> 0 then (Inr \<lparr>frames = [], full_refresh = False\<rparr>, c)
      else case peek_seq now chat_id c of
        (Inl e, c') \<Rightarrow> (Inl e, c')
      | (Inr n, c') \<Rightarrow>
          (Inr (replay_decision last_seq (Inr n) (Inr (stream_read (stream_key chat_id) None c'))), c'))"

section \<open>The gap replay gate\<close>

definition frame_order_key :: "frame \<Rightarrow> int" where
  "frame_order_key f = (case seq f of Some n \<Rightarrow> n | None \<Rightarrow> -1)"

text \<open>The loop of \<open>_order\<close> that drops a frame whose number was already delivered.\<close>

fun drop_seen :: "int set \<Rightarrow> frame list \<Rightarrow> frame list \<times> int set" where
  "drop_seen seen [] = ([], seen)"
| "drop_seen seen (f # fs) =
     (case seq f of
        None \<Rightarrow> (let (r, s) = drop_seen seen fs in (f # r, s))
      | Some n \<Rightarrow> if n \<in> seen then drop_seen seen fs
                  else let (r, s) = drop_seen (insert n seen) fs in (f # r, s))"

definition order_frames :: "int set \<Rightarrow> frame list \<Rightarrow> frame list \<times> int set" where
  "order_frames seen fs = (let (r, s) = drop_seen seen fs in (sort_key frame_order_key r, s))"

text \<open>
  The gate, and what has been written to the real socket. \<open>todo\<close> is the batch \<open>release\<close> is writing
  and \<open>released\<close> says that \<open>release\<close> has begun. \<open>arrived\<close> and \<open>extra\<close> record the inputs: the live
  frames handed to \<open>send_json\<close> in order, and the replayed frames handed to \<open>release\<close>.
\<close>

record gate =
  buffering :: bool
  buffer :: "frame list"
  todo :: "frame list"
  released :: bool
  seen :: "int set"
  sent :: "frame list"
  arrived :: "frame list"
  extra :: "frame list"

definition init_gate :: gate where
  "init_gate = \<lparr>buffering = True, buffer = [], todo = [], released = False, seen = {},
     sent = [], arrived = [], extra = []\<rparr>"

definition gate_send_json :: "frame \<Rightarrow> gate \<Rightarrow> gate" where
  "gate_send_json f g =
     (if buffering g then g\<lparr>buffer := buffer g @ [f], arrived := arrived g @ [f]\<rparr>
      else g\<lparr>sent := sent g @ [f], arrived := arrived g @ [f]\<rparr>)"

definition gate_release_begin :: "frame list \<Rightarrow> gate \<Rightarrow> gate" where
  "gate_release_begin xs g =
     (let (batch, s) = order_frames {} (xs @ buffer g)
      in g\<lparr>buffer := [], todo := batch, seen := s, released := True, extra := xs\<rparr>)"

definition gate_flush_one :: "gate \<Rightarrow> gate" where
  "gate_flush_one g =
     (case todo g of [] \<Rightarrow> g | f # fs \<Rightarrow> g\<lparr>sent := sent g @ [f], todo := fs\<rparr>)"

definition gate_drain :: "gate \<Rightarrow> gate" where
  "gate_drain g =
     (if buffer g = [] then g\<lparr>buffering := False\<rparr>
      else let (batch, s) = order_frames (seen g) (buffer g)
           in g\<lparr>buffer := [], todo := batch, seen := s\<rparr>)"

definition seqs :: "frame list \<Rightarrow> int list" where
  "seqs fs = List.map_filter seq fs"

text \<open>
  One step of a gate's life. A live frame is broadcast under the session's broadcast lock, so its
  number is above those of the frames sent before it and, once \<open>release\<close> was called, above those
  the caller had read from the stream.
\<close>

inductive gate_step :: "gate \<Rightarrow> gate \<Rightarrow> bool" where
  send: "(\<And>n m. seq f = Some n \<Longrightarrow> m \<in> set (seqs (arrived g)) \<union> set (seqs (extra g)) \<Longrightarrow> m < n) \<Longrightarrow>
     gate_step g (gate_send_json f g)"
| release: "\<not> released g \<Longrightarrow> gate_step g (gate_release_begin xs g)"
| flush: "released g \<Longrightarrow> todo g \<noteq> [] \<Longrightarrow> gate_step g (gate_flush_one g)"
| drain: "released g \<Longrightarrow> todo g = [] \<Longrightarrow> buffering g \<Longrightarrow> gate_step g (gate_drain g)"

inductive gate_reachable :: "gate \<Rightarrow> bool" where
  seated: "gate_reachable init_gate"
| step: "gate_reachable g \<Longrightarrow> gate_step g g' \<Longrightarrow> gate_reachable g'"

section \<open>Ordering a batch\<close>

definition unstamped :: "frame \<Rightarrow> bool" where
  "unstamped f \<longleftrightarrow> seq f = None"

lemma seqs_simps [simp]:
  "seqs [] = []"
  "seqs (f # fs) = (case seq f of None \<Rightarrow> seqs fs | Some n \<Rightarrow> n # seqs fs)"
  "seqs (xs @ ys) = seqs xs @ seqs ys"
  by (auto simp: seqs_def map_filter_def split: option.splits)

lemma seqs_key: "seqs fs = map frame_order_key (filter (\<lambda>f. \<not> unstamped f) fs)"
  by (induction fs) (auto simp: frame_order_key_def unstamped_def split: option.splits)

lemma drop_seen_seqs:
  "set (seqs (fst (drop_seen S fs))) = set (seqs fs) - S \<and> snd (drop_seen S fs) = S \<union> set (seqs fs) \<and>
   distinct (seqs (fst (drop_seen S fs))) \<and> filter unstamped (fst (drop_seen S fs)) = filter unstamped fs"
proof (induction fs arbitrary: S)
  case (Cons f fs)
  show ?case
  proof (cases "seq f")
    case None
    then show ?thesis using Cons.IH [of S]
      by (auto simp: unstamped_def Let_def case_prod_unfold)
  next
    case (Some n)
    then show ?thesis using Cons.IH [of S] Cons.IH [of "insert n S"]
      by (cases "n \<in> S") (auto simp: unstamped_def Let_def case_prod_unfold)
  qed
qed simp

lemma mset_seqs: "mset xs = mset ys \<Longrightarrow> mset (seqs xs) = mset (seqs ys)"
  unfolding seqs_key by simp

lemma order_frames_spec:
  assumes "order_frames S fs = (batch, S')"
  shows "set (seqs batch) = set (seqs fs) - S" "S' = S \<union> set (seqs fs)"
    "sorted_wrt (<) (seqs batch)"
    "mset (filter unstamped batch) = mset (filter unstamped fs)"
proof -
  let ?r = "fst (drop_seen S fs)"
  have b: "batch = sort_key frame_order_key ?r" and s: "S' = snd (drop_seen S fs)"
    using assms by (auto simp: order_frames_def Let_def case_prod_unfold)
  have m: "mset (seqs batch) = mset (seqs ?r)" by (rule mset_seqs) (simp add: b)
  show "set (seqs batch) = set (seqs fs) - S" "S' = S \<union> set (seqs fs)"
    using drop_seen_seqs [of S fs] mset_eq_setD [OF m] s by auto
  have "distinct (seqs batch)" using drop_seen_seqs [of S fs] mset_eq_imp_distinct_iff [OF m] by simp
  moreover have "sorted (seqs batch)"
    unfolding seqs_key b using sorted_filter [OF sorted_sort_key] by blast
  ultimately show "sorted_wrt (<) (seqs batch)" by (simp add: strict_sorted_iff)
  show "mset (filter unstamped batch) = mset (filter unstamped fs)"
    using drop_seen_seqs [of S fs] by (metis b mset_filter mset_sort)
qed

section \<open>The gate's invariant\<close>

definition gate_inv :: "gate \<Rightarrow> bool" where
  "gate_inv g \<longleftrightarrow>
     sorted_wrt (<) (seqs (sent g @ todo g)) \<and> sorted_wrt (<) (seqs (buffer g)) \<and>
     (released g \<longrightarrow> (\<forall>m \<in> set (seqs (sent g @ todo g)). \<forall>n \<in> set (seqs (buffer g)). m < n)) \<and>
     (\<not> released g \<longrightarrow> sent g = [] \<and> todo g = [] \<and> extra g = [] \<and> buffering g \<and> buffer g = arrived g) \<and>
     (released g \<longrightarrow> buffering g \<longrightarrow> seen g = set (seqs (sent g @ todo g))) \<and>
     set (seqs (sent g @ todo g @ buffer g)) = set (seqs (extra g @ arrived g)) \<and>
     (\<not> buffering g \<longrightarrow> todo g = [] \<and> buffer g = []) \<and>
     mset (filter unstamped (sent g @ todo g @ buffer g)) = mset (filter unstamped (extra g @ arrived g))"

lemma gate_inv_init: "gate_inv init_gate"
  by (simp add: gate_inv_def init_gate_def)

lemma gate_inv_send:
  assumes "gate_inv g"
    and new: "\<And>n m. seq f = Some n \<Longrightarrow> m \<in> set (seqs (arrived g)) \<union> set (seqs (extra g)) \<Longrightarrow> m < n"
  shows "gate_inv (gate_send_json f g)"
proof -
  have all: "set (seqs (sent g)) \<union> set (seqs (todo g)) \<union> set (seqs (buffer g)) =
      set (seqs (extra g)) \<union> set (seqs (arrived g))"
    using assms(1) by (auto simp: gate_inv_def)
  have below: "(\<forall>m \<in> set (seqs (sent g)). m < n) \<and> (\<forall>m \<in> set (seqs (todo g)). m < n) \<and>
      (\<forall>m \<in> set (seqs (buffer g)). m < n)" if "seq f = Some n" for n
    using new [OF that] all by blast
  show ?thesis
  proof (cases "seq f")
    case None
    with assms(1) show ?thesis by (auto simp: gate_inv_def gate_send_json_def unstamped_def)
  next
    case (Some n)
    note b = below [OF Some]
    show ?thesis
    proof (cases "buffering g")
      case True
      with assms(1) b Some show ?thesis
        by (auto simp: gate_inv_def gate_send_json_def sorted_wrt_append unstamped_def)
    next
      case False
      with assms(1) b Some show ?thesis
        by (auto simp: gate_inv_def gate_send_json_def sorted_wrt_append unstamped_def)
    qed
  qed
qed

lemma gate_inv_release:
  assumes "gate_inv g" "\<not> released g"
  shows "gate_inv (gate_release_begin xs g)"
proof -
  obtain batch s where o: "order_frames {} (xs @ buffer g) = (batch, s)" by fastforce
  have "gate_release_begin xs g =
      g\<lparr>buffer := [], todo := batch, seen := s, released := True, extra := xs\<rparr>"
    by (simp add: gate_release_begin_def o)
  then show ?thesis using assms order_frames_spec [OF o] by (simp add: gate_inv_def)
qed

lemma gate_inv_flush:
  assumes "gate_inv g" "released g" "todo g \<noteq> []"
  shows "gate_inv (gate_flush_one g)"
proof -
  obtain f fs where "todo g = f # fs" using assms(3) by (cases "todo g") auto
  with assms(1,2) show ?thesis
    by (cases "seq f") (auto simp: gate_inv_def gate_flush_one_def unstamped_def)
qed

lemma gate_inv_drain:
  assumes "gate_inv g" "released g" "todo g = []" "buffering g"
  shows "gate_inv (gate_drain g)"
proof (cases "buffer g = []")
  case True
  with assms show ?thesis by (simp add: gate_inv_def gate_drain_def)
next
  case False
  obtain batch s where o: "order_frames (seen g) (buffer g) = (batch, s)" by fastforce
  have disj: "set (seqs (buffer g)) \<inter> seen g = {}"
    using assms(1,2,4) unfolding gate_inv_def by (metis disjoint_iff order_less_irrefl)
  then have "set (seqs batch) = set (seqs (buffer g))" using order_frames_spec(1) [OF o] by auto
  moreover have "gate_drain g = g\<lparr>buffer := [], todo := batch, seen := s\<rparr>"
    using False by (simp add: gate_drain_def o)
  ultimately show ?thesis using assms order_frames_spec(2-) [OF o]
    by (simp add: gate_inv_def sorted_wrt_append)
qed

lemma gate_inv_reachable: "gate_reachable g \<Longrightarrow> gate_inv g"
proof (induction rule: gate_reachable.induct)
  case seated
  show ?case by (rule gate_inv_init)
next
  case (step g g')
  from step.hyps(2) show ?case
  proof cases
    case (send f)
    then show ?thesis using gate_inv_send [OF step.IH] by simp
  qed (simp_all add: step.IH gate_inv_release gate_inv_flush gate_inv_drain)
qed

section \<open>Numbering and replay\<close>

fun stamp_frames :: "(mono_time \<times> frame) list \<Rightarrow> string \<Rightarrow> coord \<Rightarrow> (value_error + frame) list" where
  "stamp_frames [] x c = []"
| "stamp_frames ((t, f) # fs) x c = (let (r, c') = stamp_frame t x f c in r # stamp_frames fs x c')"

definition stamped :: "string \<Rightarrow> frame \<Rightarrow> int \<Rightarrow> frame" where
  "stamped x f n = f\<lparr>seq := Some n, fid := Some (x @ '':'' @ py_str_int n)\<rparr>"

lemma stamp_frames_from:
  assumes "kv c (seq_key x) = Some (py_str_int n, e)" "\<forall>(t, f) \<in> set fs. t < e"
  shows "stamp_frames fs x c = map (\<lambda>i. Inr (stamped x (snd (fs ! i)) (n + 1 + int i))) [0..<length fs]"
  using assms
proof (induction fs arbitrary: c n)
  case (Cons p fs)
  obtain t f where p: "p = (t, f)" by (cases p)
  let ?c = "c\<lparr>kv := (kv c)(seq_key x \<mapsto> (py_str_int (n + 1), e))\<rparr>"
  have "stamp_frame t x f c = (Inr (stamped x f (n + 1)), ?c)"
    using incr_counting [OF Cons.prems(1), of t 1 SEQ_TTL_SEC] Cons.prems(2)
    by (simp add: stamp_frame_def next_seq_def stamped_def p)
  moreover have "stamp_frames fs x ?c =
      map (\<lambda>i. Inr (stamped x (snd (fs ! i)) (n + 1 + 1 + int i))) [0..<length fs]"
    using Cons.prems(2) by (intro Cons.IH) auto
  ultimately show ?case by (simp add: p map_upt_Suc algebra_simps del: upt_Suc)
qed simp

lemma peek_seq_after_appends:
  "fst (peek_seq now x (stream_appends es key m c)) = fst (peek_seq now x c)"
  "streams (snd (peek_seq now x c)) = streams c"
proof -
  have kv: "kv (stream_appends es key m c) = kv c"
    by (induction es arbitrary: c) (simp_all add: stream_append_def Let_def)
  show "fst (peek_seq now x (stream_appends es key m c)) = fst (peek_seq now x c)"
    by (simp add: peek_seq_def incr_def kv Let_def split: option.splits prod.splits)
  show "streams (snd (peek_seq now x c)) = streams c"
    by (simp add: peek_seq_def incr_def Let_def split: option.splits prod.splits)
qed

text \<open>Frames appended in the order of their numbers are evicted in it.\<close>

definition evicts_in_order :: "nat \<Rightarrow> frame list \<Rightarrow> bool" where
  "evicts_in_order m es \<longleftrightarrow>
     (\<forall>e \<in> set (take (length es - m) es). \<forall>e' \<in> set (keep_last m es). seq_or_0 e < seq_or_0 e')"

lemma sorted_evicts_in_order: "sorted_wrt (\<lambda>e e'. seq_or_0 e < seq_or_0 e') es \<Longrightarrow> evicts_in_order m es"
  unfolding evicts_in_order_def keep_last_def
  by (metis append_take_drop_id sorted_wrt_append)

text \<open>What an answer without a refresh may lack: an evicted frame, and only with a frame retained that is not above it.\<close>

lemma replay_decision_misses:
  assumes "\<forall>e \<in> set es. seq_or_0 e \<le> n" "0 < last_seq"
    and "\<not> full_refresh (replay_decision last_seq (Inr n) (Inr (sort_key seq_or_0 (keep_last m es))))"
  defines "fs \<equiv> frames (replay_decision last_seq (Inr n) (Inr (sort_key seq_or_0 (keep_last m es))))"
  shows "fs = filter (\<lambda>e. last_seq < seq_or_0 e) (sort_key seq_or_0 (keep_last m es))"
    and "last_seq < n \<Longrightarrow> \<exists>r \<in> set (keep_last m es). seq_or_0 r \<le> last_seq + 1"
    and "e \<in> set es \<Longrightarrow> last_seq < seq_or_0 e \<Longrightarrow> e \<notin> set fs \<Longrightarrow>
      e \<in> set (take (length es - m) es) \<and> (\<exists>e' \<in> set (keep_last m es). seq_or_0 e' \<le> seq_or_0 e)"
proof -
  let ?R = "keep_last m es"
  have split: "set es = set (take (length es - m) es) \<union> set ?R"
    unfolding keep_last_def by (metis append_take_drop_id set_append)
  have kept: "seq_or_0 e \<le> n" if "e \<in> set ?R" for e using assms(1) split that by blast
  have "fs = filter (\<lambda>e. last_seq < seq_or_0 e) (sort_key seq_or_0 ?R) \<and>
      (last_seq < n \<longrightarrow> (\<exists>r \<in> set ?R. seq_or_0 r \<le> last_seq + 1))"
  proof (cases "n = last_seq")
    case True
    with kept have "filter (\<lambda>e. last_seq < seq_or_0 e) (sort_key seq_or_0 ?R) = []"
      by (simp add: filter_empty_conv linorder_not_less)
    with True assms(2) show ?thesis by (simp add: fs_def replay_decision_def)
  next
    case False
    with assms(2,3) have n: "last_seq < n" by (auto simp: replay_decision_def split: if_splits)
    obtain r rs where R: "sort_key seq_or_0 ?R = r # rs"
      using assms(2,3) n by (cases "sort_key seq_or_0 ?R") (auto simp: replay_decision_def)
    then have "r \<in> set ?R" by (metis list.set_intros(1) set_sort)
    moreover have "seq_or_0 r \<le> last_seq + 1" using assms(2,3) n R by (auto simp: replay_decision_def split: if_splits)
    moreover have "fs = filter (\<lambda>e. last_seq < seq_or_0 e) (sort_key seq_or_0 ?R)"
      using assms(2,3) n R unfolding fs_def by (simp add: replay_decision_def split: if_splits)
    ultimately show ?thesis by blast
  qed
  then show fs: "fs = filter (\<lambda>e. last_seq < seq_or_0 e) (sort_key seq_or_0 ?R)"
    and low: "last_seq < n \<Longrightarrow> \<exists>r \<in> set ?R. seq_or_0 r \<le> last_seq + 1" by blast+
  assume e: "e \<in> set es" "last_seq < seq_or_0 e" "e \<notin> set fs"
  then have "e \<notin> set ?R" unfolding fs by simp
  moreover have "last_seq < n" using e(1,2) assms(1) by fastforce
  then obtain r where "r \<in> set ?R" "seq_or_0 r \<le> last_seq + 1" using low by blast
  then have "\<exists>e' \<in> set ?R. seq_or_0 e' \<le> seq_or_0 e" using e(2) by (intro bexI [of _ r]) simp
  ultimately show "e \<in> set (take (length es - m) es) \<and> (\<exists>e' \<in> set ?R. seq_or_0 e' \<le> seq_or_0 e)"
    using e(1) split by blast
qed

lemma replay_decision_complete:
  assumes "\<forall>e \<in> set es. seq_or_0 e \<le> n" "evicts_in_order m es" "0 < last_seq"
    and "\<not> full_refresh (replay_decision last_seq (Inr n) (Inr (sort_key seq_or_0 (keep_last m es))))"
  shows "frames (replay_decision last_seq (Inr n) (Inr (sort_key seq_or_0 (keep_last m es)))) =
    filter (\<lambda>e. last_seq < seq_or_0 e) (sort_key seq_or_0 es)"
proof -
  note misses = replay_decision_misses [OF assms(1,3,4)]
  have "filter (\<lambda>e. last_seq < seq_or_0 e) (take (length es - m) es) = []"
  proof (cases "last_seq < n")
    case True
    with misses(2) obtain r where r: "r \<in> set (keep_last m es)" "seq_or_0 r \<le> last_seq + 1" by blast
    have "seq_or_0 e < seq_or_0 r" if "e \<in> set (take (length es - m) es)" for e
      using assms(2) r(1) that unfolding evicts_in_order_def by blast
    then show ?thesis using r(2) by (force simp: filter_empty_conv)
  next
    case False
    have "seq_or_0 e \<le> n" if "e \<in> set (take (length es - m) es)" for e
      using assms(1) in_set_takeD [OF that] by blast
    with False show ?thesis by (force simp: filter_empty_conv)
  qed
  then have "filter (\<lambda>e. last_seq < seq_or_0 e) es = filter (\<lambda>e. last_seq < seq_or_0 e) (keep_last m es)"
    unfolding keep_last_def by (metis append_Nil append_take_drop_id filter_append)
  then show ?thesis unfolding misses(1) by (simp only: filter_sort)
qed

section \<open>Properties\<close>

text \<open>
  Numbering: within the counter's nine-day life, the frames stamped for a session from the
  start receive the numbers 1, 2, 3 and so on, with identifiers built from the session and number.
\<close>

theorem stamp_frames_consecutive:
  assumes "kv_live t0 c (seq_key x) = None" "\<forall>(t, f) \<in> set fs. t < t0 + of_int SEQ_TTL_SEC"
  shows "stamp_frames ((t0, f0) # fs) x c =
    map (\<lambda>i. Inr (stamped x (snd (((t0, f0) # fs) ! i)) (1 + int i))) [0..<Suc (length fs)]"
proof -
  let ?c = "c\<lparr>kv := (kv c)(seq_key x \<mapsto> (py_str_int 1, t0 + of_int SEQ_TTL_SEC))\<rparr>"
  have "stamp_frame t0 x f0 c = (Inr (stamped x f0 1), ?c)"
    using incr_fresh [OF assms(1)] by (simp add: stamp_frame_def next_seq_def stamped_def)
  moreover have "stamp_frames fs x ?c =
      map (\<lambda>i. Inr (stamped x (snd (fs ! i)) (1 + 1 + int i))) [0..<length fs]"
    using assms(2) by (intro stamp_frames_from) auto
  ultimately show ?thesis by (simp add: map_upt_Suc del: upt_Suc)
qed

theorem stamp_frames_consecutive_witness:
  "map (map_option seq \<circ> (\<lambda>r. case r of Inr f \<Rightarrow> Some f | Inl _ \<Rightarrow> None))
     (stamp_frames [(0, \<lparr>seq = None, fid = None, body = ''a''\<rparr>), (700000, \<lparr>seq = None, fid = None, body = ''b''\<rparr>)]
        ''s'' init_coord) = [Some (Some 1), Some (Some 2)]"
proof -
  let ?f = "\<lambda>b. \<lparr>seq = None, fid = None, body = b\<rparr>"
  have 1: "kv_live 0 init_coord (seq_key ''s'') = None" by (simp add: kv_live_def init_coord_def)
  have 2: "\<forall>(t, f) \<in> set [(700000 :: mono_time, ?f ''b'')]. t < 0 + of_int SEQ_TTL_SEC"
    by (simp add: SEQ_TTL_SEC_def)
  show ?thesis
    using stamp_frames_consecutive [OF 1 2, of "?f ''a''"] by (simp add: upt_rec stamped_def)
qed

text \<open>
  C21. What \<open>replay_since\<close> returns on a reconnect when it does not ask for a refresh: in the order of their
  numbers, the retained frames above the client's number; a frame above it that was appended is missing only
  when it was evicted while a frame that is not above it is still retained. So, if eviction followed the order of
  the numbers, as it does when the frames were appended in that order, the answer is every frame ever appended with
  a number above the client's, and none is missed in silence. The appends run outside the lock that orders the numbers, so the condition can fail
  (\<open>swapped_appends_lose_a_frame\<close> below).
\<close>

theorem replay_since_no_silent_gap:
  assumes "streams c (stream_key x) = None" "es \<noteq> []" "fst (peek_seq now x c) = Inr n" "0 < last_seq"
    and "\<forall>e \<in> set es. seq_or_0 e \<le> n"
    and "fst (replay_since now x last_seq (stream_appends es (stream_key x) STREAM_MAXLEN c)) = Inr r"
    and "\<not> full_refresh r"
  shows "frames r = filter (\<lambda>e. last_seq < seq_or_0 e) (sort_key seq_or_0 (keep_last STREAM_MAXLEN es))
    \<and> (\<forall>e \<in> set es. last_seq < seq_or_0 e \<and> e \<notin> set (frames r) \<longrightarrow>
         e \<in> set (take (length es - STREAM_MAXLEN) es)
         \<and> (\<exists>e' \<in> set (keep_last STREAM_MAXLEN es). seq_or_0 e' \<le> seq_or_0 e))
    \<and> ((\<forall>e \<in> set (take (length es - STREAM_MAXLEN) es). \<forall>e' \<in> set (keep_last STREAM_MAXLEN es).
          seq_or_0 e < seq_or_0 e') \<or> sorted_wrt (\<lambda>e e'. seq_or_0 e < seq_or_0 e') es
       \<longrightarrow> frames r = filter (\<lambda>e. last_seq < seq_or_0 e) (sort_key seq_or_0 es))"
proof -
  let ?c = "stream_appends es (stream_key x) STREAM_MAXLEN c"
  obtain c' where c': "peek_seq now x ?c = (Inr n, c')"
    using assms(3) peek_seq_after_appends(1) [of now x es "stream_key x" STREAM_MAXLEN c]
    by (metis prod.collapse)
  have "streams c' (stream_key x) = Some (STREAM_MAXLEN, keep_last STREAM_MAXLEN es)"
    using peek_seq_after_appends(2) [of now x ?c] c' stream_appends_fresh [OF assms(1,2)] by simp
  then have r: "r = replay_decision last_seq (Inr n) (Inr (sort_key seq_or_0 (keep_last STREAM_MAXLEN es)))"
    using assms(4,6) c' by (simp add: replay_since_def stream_read_def)
  note ok = assms(7) [unfolded r]
  have "frames r = filter (\<lambda>e. last_seq < seq_or_0 e) (sort_key seq_or_0 es)" if "evicts_in_order STREAM_MAXLEN es"
    unfolding r by (rule replay_decision_complete [OF assms(5) that assms(4) ok])
  moreover note replay_decision_misses [OF assms(5,4) ok, folded r]
  ultimately show ?thesis using sorted_evicts_in_order [of es STREAM_MAXLEN] unfolding evicts_in_order_def by blast
qed

definition demo_frame :: "int \<Rightarrow> frame" where
  "demo_frame n = \<lparr>seq = Some n, fid = None, body = ''''\<rparr>"

definition demo_frames :: "int \<Rightarrow> int \<Rightarrow> frame list" where
  "demo_frames i j = map demo_frame [i..j]"

lemma seq_or_0_demo [simp]: "seq_or_0 (demo_frame n) = n"
  by (simp add: demo_frame_def seq_or_0_def)

lemma demo_frames_seqs: "map seq_or_0 (demo_frames i j) = [i..j]"
  by (simp add: demo_frames_def o_def)

lemma demo_frames_set: "e \<in> set (demo_frames i j) \<longleftrightarrow> (\<exists>n. i \<le> n \<and> n \<le> j \<and> e = demo_frame n)"
  by (auto simp: demo_frames_def)

lemma demo_frames_length [simp]: "length (demo_frames i j) = nat (j - i + 1)"
  by (simp add: demo_frames_def del: upto_rec_numeral)

lemma demo_frames_rec: "i \<le> j \<Longrightarrow> demo_frames i j = demo_frame i # demo_frames (i + 1) j"
  unfolding demo_frames_def by (subst upto_rec1) simp_all

lemma sorted_upto_less: "sorted_wrt (<) [i..j :: int]"
  by (simp add: strict_sorted_iff del: upto_rec_numeral)

text \<open>A session whose counter stands at 1002 and whose stream is empty.\<close>

definition demo_coord :: coord where
  "demo_coord = init_coord\<lparr>kv := [seq_key ''s'' \<mapsto> (py_str_int 1002, 100)]\<rparr>"

lemma demo_peek: "fst (peek_seq 1 ''s'' demo_coord) = Inr 1002"
  by (simp add: peek_seq_def incr_def demo_coord_def)

lemma demo_stream: "streams demo_coord (stream_key ''s'') = None"
  by (simp add: demo_coord_def init_coord_def)

lemma demo_replay:
  assumes "es \<noteq> []" "0 < k"
  shows "fst (replay_since 1 ''s'' k (stream_appends es (stream_key ''s'') STREAM_MAXLEN demo_coord)) =
    Inr (replay_decision k (Inr 1002) (Inr (sort_key seq_or_0 (keep_last STREAM_MAXLEN es))))"
proof -
  let ?c = "stream_appends es (stream_key ''s'') STREAM_MAXLEN demo_coord"
  obtain c' where c': "peek_seq 1 ''s'' ?c = (Inr 1002, c')"
    using demo_peek peek_seq_after_appends(1) [of 1 "''s''" es "stream_key ''s''" STREAM_MAXLEN demo_coord]
    by (metis prod.collapse)
  have "streams c' (stream_key ''s'') = Some (STREAM_MAXLEN, keep_last STREAM_MAXLEN es)"
    using peek_seq_after_appends(2) [of 1 "''s''" ?c] c' stream_appends_fresh [OF demo_stream assms(1)] by simp
  then show ?thesis using assms(2) c' by (simp add: replay_since_def stream_read_def)
qed

text \<open>Appended in order, 1002 frames: the first two are evicted, and a client that has seen them misses nothing.\<close>

theorem replay_since_no_silent_gap_witness:
  "frames (projr (fst (replay_since 1 ''s'' 2
      (stream_appends (demo_frames 1 1002) (stream_key ''s'') STREAM_MAXLEN demo_coord)))) = demo_frames 3 1002"
proof -
  let ?es = "demo_frames 1 1002"
  let ?r = "replay_decision 2 (Inr 1002) (Inr (sort_key seq_or_0 (keep_last STREAM_MAXLEN ?es)))"
  have es: "?es = demo_frame 1 # demo_frame 2 # demo_frames 3 1002"
    by (simp add: demo_frames_rec [of 1] demo_frames_rec [of 2])
  then have ne: "?es \<noteq> []" by simp
  have bound: "\<forall>e \<in> set ?es. seq_or_0 e \<le> 1002" by (auto simp: demo_frames_set)
  have kept: "keep_last STREAM_MAXLEN ?es = demo_frames 3 1002"
    unfolding es keep_last_def by (simp add: STREAM_MAXLEN_def)
  have sorted: "sort_key seq_or_0 (demo_frames i j) = demo_frames i j" for i j
    by (rule sort_key_id_if_sorted) (simp add: demo_frames_seqs del: upto_rec_numeral)
  have two: "(0 :: int) < 2" by simp
  have full: "\<not> full_refresh ?r"
    unfolding kept sorted by (simp add: demo_frames_rec [of 3] replay_decision_def)
  have "sorted_wrt (\<lambda>e e'. seq_or_0 e < seq_or_0 e') ?es"
    using sorted_upto_less [of 1 1002] unfolding demo_frames_seqs [symmetric] sorted_wrt_map .
  then have "frames ?r = filter (\<lambda>e. 2 < seq_or_0 e) (sort_key seq_or_0 ?es)"
    using replay_since_no_silent_gap [OF demo_stream ne demo_peek two bound demo_replay [OF ne two] full] by blast
  also have "\<dots> = demo_frames 3 1002"
    unfolding sorted unfolding es by (auto simp: filter_id_conv demo_frames_set)
  finally show ?thesis using demo_replay [OF ne, of 2] by simp
qed

text \<open>
  Two frames whose appends overtook one another are enough to lose one in silence: the frame numbered 3 is evicted while
  the frame numbered 2 is retained, so the eviction test of a client that has seen number 1 finds nothing missing.
\<close>

theorem swapped_appends_lose_a_frame:
  "let es = [demo_frame 1, demo_frame 3, demo_frame 2] @ demo_frames 4 1002
   in fst (replay_since 1 ''s'' 1 (stream_appends es (stream_key ''s'') STREAM_MAXLEN demo_coord)) =
        Inr \<lparr>frames = demo_frame 2 # demo_frames 4 1002, full_refresh = False\<rparr> \<and>
      demo_frame 3 \<notin> set (demo_frame 2 # demo_frames 4 1002)"
proof -
  let ?es = "[demo_frame 1, demo_frame 3, demo_frame 2] @ demo_frames 4 1002"
  let ?kept = "demo_frame 2 # demo_frames 4 1002"
  have kept: "keep_last STREAM_MAXLEN ?es = ?kept" unfolding keep_last_def by (simp add: STREAM_MAXLEN_def)
  have "sort_key seq_or_0 ?kept = ?kept"
    by (rule sort_key_id_if_sorted) (simp add: demo_frames_seqs del: upto_rec_numeral)
  moreover have "filter (\<lambda>e. 1 < seq_or_0 e) ?kept = ?kept" by (auto simp: filter_id_conv demo_frames_set)
  ultimately have "replay_decision 1 (Inr 1002) (Inr (sort_key seq_or_0 (keep_last STREAM_MAXLEN ?es))) =
      \<lparr>frames = ?kept, full_refresh = False\<rparr>"
    unfolding kept by (simp add: replay_decision_def)
  moreover have "demo_frame 3 \<notin> set ?kept" by (auto simp: demo_frames_set demo_frame_def)
  ultimately show ?thesis using demo_replay [of ?es 1] by (simp add: Let_def)
qed

text \<open>
  A refresh without any eviction: numbers consumed by private frames at the head of the stream
  do trip the eviction test. Two connections are seated (numbers 1 and 2 are private \<open>ready\<close> frames),
  one frame is broadcast and appended; the first client reconnects having seen number 1 and is told
  to reload, although the stream still holds every frame ever appended.
\<close>

theorem replay_refresh_without_eviction:
  "let f = \<lparr>seq = None, fid = None, body = ''''\<rparr>;
       c2 = snd (stamp_frame 0 ''s'' f (snd (stamp_frame 0 ''s'' f init_coord)));
       (r, c3) = stamp_frame 0 ''s'' f c2;
       c4 = append_frame ''s'' (projr r) c3
   in streams c4 (stream_key ''s'') = Some (STREAM_MAXLEN, [projr r]) \<and> seq (projr r) = Some 3 \<and>
      fst (replay_since 0 ''s'' 1 c4) = Inr \<lparr>frames = [], full_refresh = True\<rparr>"
proof -
  have d: "(0 :: mono_time) < of_int SEQ_TTL_SEC" by (simp add: SEQ_TTL_SEC_def)
  show ?thesis
    by (simp add: stamp_frame_def next_seq_def incr_def init_coord_def append_frame_def stream_append_def
        deque_append_def keep_last_def STREAM_MAXLEN_def replay_since_def peek_seq_def stream_read_def
        replay_decision_def seq_or_0_def Let_def SEQ_TTL_SEC_def)
qed

text \<open>
  The reconnect gate: in every reachable state the numbered frames written to the socket are in
  strictly increasing order, so none is out of order or repeated; and once the gate has gone
  passthrough, exactly the numbers that were replayed or broadcast have been written, and every
  frame without a number exactly as often as it was handed in.
\<close>

theorem gate_delivers_in_order:
  assumes "gate_reachable g"
  shows "sorted_wrt (<) (seqs (sent g)) \<and>
    (\<not> buffering g \<longrightarrow> set (seqs (sent g)) = set (seqs (extra g)) \<union> set (seqs (arrived g)) \<and>
       mset (filter unstamped (sent g)) = mset (filter unstamped (extra g @ arrived g)))"
  using gate_inv_reachable [OF assms] by (auto simp: gate_inv_def sorted_wrt_append)

lemma demo_gate_reachable:
  "gate_reachable (gate_drain (gate_flush_one (gate_flush_one (gate_release_begin [demo_frame 4]
     (gate_send_json (demo_frame 5) init_gate)))))"
proof -
  let ?g1 = "gate_send_json (demo_frame 5) init_gate"
  let ?g2 = "gate_release_begin [demo_frame 4] ?g1"
  note defs = gate_send_json_def init_gate_def gate_release_begin_def gate_flush_one_def gate_drain_def
    order_frames_def demo_frame_def frame_order_key_def
  have "gate_step init_gate ?g1" by (rule gate_step.send) (simp add: init_gate_def)
  moreover have "gate_step ?g1 ?g2" by (rule gate_step.release) (simp add: defs)
  moreover have "gate_step ?g2 (gate_flush_one ?g2)" by (rule gate_step.flush) (simp_all add: defs)
  moreover have "gate_step (gate_flush_one ?g2) (gate_flush_one (gate_flush_one ?g2))"
    by (rule gate_step.flush) (simp_all add: defs)
  moreover have "gate_step (gate_flush_one (gate_flush_one ?g2)) (gate_drain (gate_flush_one (gate_flush_one ?g2)))"
    by (rule gate_step.drain) (simp_all add: defs)
  ultimately show ?thesis by (meson gate_reachable.intros)
qed

theorem gate_delivers_in_order_witness:
  "let g = gate_drain (gate_flush_one (gate_flush_one (gate_release_begin [demo_frame 4]
     (gate_send_json (demo_frame 5) init_gate))))
   in \<not> buffering g \<and> set (seqs (sent g)) = {4, 5}"
  using gate_delivers_in_order [OF demo_gate_reachable]
  by (simp add: gate_send_json_def init_gate_def gate_release_begin_def gate_flush_one_def gate_drain_def
      order_frames_def demo_frame_def frame_order_key_def Let_def)

end
