(* ===== verification/Jobs.thy ===== *)
theory Jobs
  imports Prelude
begin

text \<open>
  The durable job queue of \<open>src/repositories/jobs.py\<close> and the part of the worker runtime
  (\<open>app/worker/runtime.py\<close>) that settles a finished handler. The \<open>jobs\<close> table is its list of rows
  in insertion order; every method runs under the module lock and is one transformation of the
  table. Instants are microseconds. The random identifiers (\<open>uuid4\<close>) of a new row and of a new
  lease are arguments. \<open>ORDER BY\<close> leaves ties open in SQL; the model takes the earliest inserted row.
  A comparison with a \<open>NULL\<close> column selects nothing.
\<close>

section \<open>Rows\<close>

datatype job_status = Queued | Running | Done | Failed

text \<open>The payload is a JSON object: its keys, each with its value as text.\<close>

type_synonym payload = "string \<rightharpoonup> string"

record job =
  jid :: string
  kind :: string
  payload_json :: payload
  status :: job_status
  priority :: int
  run_after :: "micros option"
  attempts :: int
  max_attempts :: int
  idempotency_key :: "string option"
  created_at :: micros
  started_at :: "micros option"
  finished_at :: "micros option"
  lease_expires_at :: "micros option"
  leased_by :: "string option"
  lease_token :: "string option"
  error :: "string option"

type_synonym jobs = "job list"

definition seconds :: "int \<Rightarrow> micros" where
  "seconds n = n * 1000000"

definition live :: "job \<Rightarrow> bool" where
  "live j \<longleftrightarrow> status j = Queued \<or> status j = Running"

definition terminal :: "job \<Rightarrow> bool" where
  "terminal j \<longleftrightarrow> status j = Done \<or> status j = Failed"

text \<open>\<open>UPDATE jobs SET ... WHERE ... RETURNING ...\<close>: the rows as updated, and the updated ones.\<close>

definition sql_update :: "(job \<Rightarrow> bool) \<Rightarrow> (job \<Rightarrow> job) \<Rightarrow> jobs \<Rightarrow> job list \<times> jobs" where
  "sql_update P f tbl = (map f (filter P tbl), map (\<lambda>j. if P j then f j else j) tbl)"

text \<open>\<open>ORDER BY k LIMIT 1\<close>.\<close>

definition sql_first :: "(job \<Rightarrow> 'k :: linorder) \<Rightarrow> (job \<Rightarrow> bool) \<Rightarrow> jobs \<Rightarrow> job option" where
  "sql_first k P tbl = (case sort_key k (filter P tbl) of [] \<Rightarrow> None | j # _ \<Rightarrow> Some j)"

section \<open>Operations\<close>

definition get :: "string \<Rightarrow> jobs \<Rightarrow> job option" where
  "get job_id tbl = find (\<lambda>j. jid j = job_id) tbl"

text \<open>The flag of the result says whether an existing job was returned (\<open>"deduped"\<close>).\<close>

definition enqueue ::
  "micros \<Rightarrow> string \<Rightarrow> string \<Rightarrow> payload \<Rightarrow> int \<Rightarrow> micros option \<Rightarrow> int \<Rightarrow> string option \<Rightarrow> jobs \<Rightarrow>
   (job \<times> bool) \<times> jobs" where
  "enqueue now job_id knd payload prio after max_att key tbl =
     (let existing = (case key of
                        None \<Rightarrow> None
                      | Some k \<Rightarrow> sql_first created_at (\<lambda>j. idempotency_key j = Some k \<and> live j) tbl)
      in case existing of
           Some j \<Rightarrow> ((j, True), tbl)
         | None \<Rightarrow>
             let j = \<lparr>jid = job_id, kind = knd, payload_json = payload, status = Queued, priority = prio,
                      run_after = after, attempts = 0, max_attempts = max_att, idempotency_key = key,
                      created_at = now, started_at = None, finished_at = None, lease_expires_at = None,
                      leased_by = None, lease_token = None, error = None\<rparr>
             in ((j, False), tbl @ [j]))"

definition list_jobs :: "job_status option \<Rightarrow> string option \<Rightarrow> nat \<Rightarrow> jobs \<Rightarrow> job list" where
  "list_jobs st knd limit tbl =
     take limit (sort_key (\<lambda>j. - created_at j)
       (filter (\<lambda>j. (st = None \<or> st = Some (status j)) \<and> (knd = None \<or> knd = Some (kind j))) tbl))"

definition expired :: "micros \<Rightarrow> job \<Rightarrow> bool" where
  "expired now j \<longleftrightarrow> (case lease_expires_at j of None \<Rightarrow> False | Some e \<Rightarrow> e < now)"

definition eligible :: "micros \<Rightarrow> string list \<Rightarrow> job \<Rightarrow> bool" where
  "eligible now kinds j \<longleftrightarrow>
     kind j \<in> set kinds \<and>
     (status j = Queued \<and> (case run_after j of None \<Rightarrow> True | Some t \<Rightarrow> t \<le> now) \<or>
      status j = Running \<and> expired now j \<and> attempts j < max_attempts j)"

definition claim :: "micros \<Rightarrow> string \<Rightarrow> string \<Rightarrow> int \<Rightarrow> job \<Rightarrow> job" where
  "claim now token worker_id lease_seconds j =
     j\<lparr>status := Running, leased_by := Some worker_id, lease_token := Some token,
       started_at := (case started_at j of None \<Rightarrow> Some now | Some t \<Rightarrow> Some t),
       attempts := attempts j + 1, lease_expires_at := Some (now + seconds lease_seconds)\<rparr>"

text \<open>The order \<open>priority DESC, created_at ASC\<close>, as a sort by the second key and then the first.\<close>

definition claim_order :: "(job \<Rightarrow> bool) \<Rightarrow> jobs \<Rightarrow> job option" where
  "claim_order P tbl =
     (case sort_key (\<lambda>j. - priority j) (sort_key created_at (filter P tbl)) of
        [] \<Rightarrow> None | j # _ \<Rightarrow> Some j)"

definition claim_next ::
  "micros \<Rightarrow> string \<Rightarrow> string list \<Rightarrow> string \<Rightarrow> int \<Rightarrow> jobs \<Rightarrow> job option \<times> jobs" where
  "claim_next now token kinds worker_id lease_seconds tbl =
     (if kinds = [] then (None, tbl)
      else case claim_order (eligible now kinds) tbl of
             None \<Rightarrow> (None, tbl)
           | Some j \<Rightarrow>
               let tbl' = snd (sql_update (\<lambda>r. jid r = jid j) (claim now token worker_id lease_seconds) tbl)
               in (get (jid j) tbl', tbl'))"

definition holds_lease :: "string \<Rightarrow> string \<Rightarrow> job \<Rightarrow> bool" where
  "holds_lease job_id token j \<longleftrightarrow> jid j = job_id \<and> lease_token j = Some token \<and> status j = Running"

definition heartbeat :: "micros \<Rightarrow> string \<Rightarrow> string \<Rightarrow> int \<Rightarrow> jobs \<Rightarrow> bool \<times> jobs" where
  "heartbeat now job_id token lease_seconds tbl =
     (let (claimed, tbl') = sql_update (holds_lease job_id token)
            (\<lambda>j. j\<lparr>lease_expires_at := Some (now + seconds lease_seconds)\<rparr>) tbl
      in (claimed \<noteq> [], tbl'))"

definition complete :: "micros \<Rightarrow> string \<Rightarrow> string \<Rightarrow> string option \<Rightarrow> jobs \<Rightarrow> bool \<times> jobs" where
  "complete now job_id token result tbl =
     (let (mutated, tbl') =
        (case result of
           Some r \<Rightarrow>
             let payload = (case get job_id tbl of None \<Rightarrow> Map.empty | Some j \<Rightarrow> payload_json j)
             in sql_update (holds_lease job_id token)
                  (\<lambda>j. j\<lparr>status := Done, finished_at := Some now, lease_expires_at := None,
                         payload_json := payload(''result'' \<mapsto> r)\<rparr>) tbl
         | None \<Rightarrow>
             sql_update (holds_lease job_id token)
               (\<lambda>j. j\<lparr>status := Done, finished_at := Some now, lease_expires_at := None\<rparr>) tbl)
      in (mutated \<noteq> [], tbl'))"

definition fail :: "micros \<Rightarrow> string \<Rightarrow> string \<Rightarrow> string \<Rightarrow> int option \<Rightarrow> jobs \<Rightarrow> bool \<times> jobs" where
  "fail now job_id token err retry_in_seconds tbl =
     (case find (holds_lease job_id token) tbl of
        None \<Rightarrow> (False, tbl)
      | Some j \<Rightarrow>
          (case (attempts j < max_attempts j, retry_in_seconds) of
             (True, Some r) \<Rightarrow>
               (False, snd (sql_update (holds_lease job_id token)
                  (\<lambda>j. j\<lparr>status := Queued, run_after := Some (now + seconds r), lease_expires_at := None,
                         leased_by := None, lease_token := None, error := Some err\<rparr>) tbl))
           | _ \<Rightarrow>
               let (mutated, tbl') = sql_update (holds_lease job_id token)
                  (\<lambda>j. j\<lparr>status := Failed, finished_at := Some now, lease_expires_at := None,
                         error := Some err\<rparr>) tbl
               in (mutated \<noteq> [], tbl')))"

definition exhausted :: "micros \<Rightarrow> job \<Rightarrow> bool" where
  "exhausted now j \<longleftrightarrow> status j = Running \<and> expired now j \<and> max_attempts j \<le> attempts j"

definition reap_exhausted :: "micros \<Rightarrow> jobs \<Rightarrow> job list \<times> jobs" where
  "reap_exhausted now tbl =
     sql_update (exhausted now)
       (\<lambda>j. j\<lparr>status := Failed, finished_at := Some now, lease_expires_at := None,
              error := Some ''lease expired after max attempts''\<rparr>) tbl"

section \<open>The worker settles a job\<close>

text \<open>The webhook notification of a terminal \<open>agent_response\<close> job: job identifier and outcome.\<close>

definition notify_agent_response_webhooks :: "job \<Rightarrow> string \<Rightarrow> (string \<times> string) list" where
  "notify_agent_response_webhooks j outcome =
     (if kind j \<noteq> ''agent_response'' then []
      else case payload_json j ''agent_id'' of
             None \<Rightarrow> []
           | Some a \<Rightarrow> if a = [] then [] else [(jid j, outcome)])"

datatype handler_outcome = Returned "string option" | Raised string

text \<open>
  What \<open>_run_one\<close> does once the handler of a claimed job has finished. The job's kind gives the
  retry delay; the lease token is the one of the claim.
\<close>

definition run_one_settle ::
  "micros \<Rightarrow> job \<Rightarrow> string \<Rightarrow> int option \<Rightarrow> handler_outcome \<Rightarrow> jobs \<Rightarrow> (string \<times> string) list \<times> jobs" where
  "run_one_settle now j token retry_in_seconds outcome tbl =
     (case outcome of
        Raised err \<Rightarrow>
          let (finalized, tbl') = fail now (jid j) token err retry_in_seconds tbl
          in (if finalized then notify_agent_response_webhooks j ''failed'' else [], tbl')
      | Returned result \<Rightarrow>
          let (mutated, tbl') = complete now (jid j) token result tbl
          in (if mutated then notify_agent_response_webhooks j ''completed'' else [], tbl'))"

text \<open>The sweep of \<open>_reap_loop\<close>: each reaped job is notified as failed.\<close>

definition reap_sweep :: "micros \<Rightarrow> jobs \<Rightarrow> (string \<times> string) list \<times> jobs" where
  "reap_sweep now tbl =
     (let (rows, tbl') = reap_exhausted now tbl
      in (concat (map (\<lambda>j. notify_agent_response_webhooks j ''failed'') rows), tbl'))"

section \<open>Runs of the queue\<close>

datatype job_op =
    Op_Enqueue micros string string payload int "micros option" int "string option"
  | Op_Claim micros string "string list" string int
  | Op_Heartbeat micros string string int
  | Op_Settle micros job string "int option" handler_outcome
  | Op_Reap micros

text \<open>One operation with the webhook notifications it leads to.\<close>

fun job_step :: "job_op \<Rightarrow> jobs \<Rightarrow> (string \<times> string) list \<times> jobs" where
  "job_step (Op_Enqueue now i knd p prio after m key) tbl = ([], snd (enqueue now i knd p prio after m key tbl))"
| "job_step (Op_Claim now token kinds w l) tbl = ([], snd (claim_next now token kinds w l tbl))"
| "job_step (Op_Heartbeat now i token l) tbl = ([], snd (heartbeat now i token l tbl))"
| "job_step (Op_Settle now j token retry outcome) tbl = run_one_settle now j token retry outcome tbl"
| "job_step (Op_Reap now) tbl = reap_sweep now tbl"

text \<open>A new row gets an unused identifier and at least one attempt.\<close>

fun op_ok :: "job_op \<Rightarrow> jobs \<Rightarrow> bool" where
  "op_ok (Op_Enqueue now i knd p prio after m key) tbl \<longleftrightarrow> i \<notin> jid ` set tbl \<and> 0 < m"
| "op_ok _ tbl \<longleftrightarrow> True"

fun job_run :: "job_op list \<Rightarrow> jobs \<Rightarrow> (string \<times> string) list \<times> jobs" where
  "job_run [] tbl = ([], tbl)"
| "job_run (x # xs) tbl =
     (let (n, tbl') = job_step x tbl; (ns, tbl'') = job_run xs tbl' in (n @ ns, tbl''))"

fun run_ok :: "job_op list \<Rightarrow> jobs \<Rightarrow> bool" where
  "run_ok [] tbl \<longleftrightarrow> True"
| "run_ok (x # xs) tbl \<longleftrightarrow> op_ok x tbl \<and> run_ok xs (snd (job_step x tbl))"

section \<open>Well-formed tables\<close>

definition row_ok :: "job \<Rightarrow> bool" where
  "row_ok j \<longleftrightarrow>
     (status j = Queued \<longrightarrow> lease_token j = None \<and> lease_expires_at j = None \<and> attempts j < max_attempts j) \<and>
     (status j = Running \<longrightarrow> lease_token j \<noteq> None \<and> lease_expires_at j \<noteq> None \<and> leased_by j \<noteq> None \<and>
        started_at j \<noteq> None) \<and>
     (terminal j \<longrightarrow> finished_at j \<noteq> None \<and> lease_expires_at j = None) \<and>
     (live j \<longrightarrow> finished_at j = None) \<and> 0 \<le> attempts j \<and> attempts j \<le> max_attempts j"

definition jobs_inv :: "jobs \<Rightarrow> bool" where
  "jobs_inv tbl \<longleftrightarrow>
     distinct (map jid tbl) \<and> (\<forall>j \<in> set tbl. row_ok j) \<and>
     (\<forall>k. length (filter (\<lambda>j. idempotency_key j = Some k \<and> live j) tbl) \<le> 1)"

lemmas status_defs = live_def terminal_def
lemmas row_defs = row_ok_def live_def terminal_def

lemma length_filter_map_le:
  "(\<And>x. x \<in> set xs \<Longrightarrow> Q (f x) \<Longrightarrow> Q x) \<Longrightarrow> length (filter Q (map f xs)) \<le> length (filter Q xs)"
proof (induction xs)
  case (Cons x xs)
  then have "length (filter Q (map f xs)) \<le> length (filter Q xs)" by simp
  then show ?case using Cons.prems [of x] by auto
qed simp

text \<open>An update that keeps rows well formed and revives none keeps the table well formed.\<close>

lemma sql_update_inv:
  assumes "jobs_inv tbl"
    and f: "\<And>j. j \<in> set tbl \<Longrightarrow> P j \<Longrightarrow> row_ok (f j) \<and> jid (f j) = jid j \<and>
      idempotency_key (f j) = idempotency_key j \<and> (live (f j) \<longrightarrow> live j)"
  shows "jobs_inv (snd (sql_update P f tbl))"
proof -
  let ?g = "\<lambda>j. if P j then f j else j" and ?Q = "\<lambda>k j. idempotency_key j = Some k \<and> live j"
  have g: "row_ok (?g j)" "jid (?g j) = jid j" "?Q k (?g j) \<Longrightarrow> ?Q k j" if "j \<in> set tbl" for j k
    using f [OF that] that assms(1) by (auto simp: jobs_inv_def split: if_splits)
  have "map jid (map ?g tbl) = map jid tbl" using g(2) by (simp only: map_map) simp
  then have 1: "distinct (map jid (map ?g tbl))" using assms(1) by (simp only: jobs_inv_def)
  have 2: "\<forall>j \<in> set (map ?g tbl). row_ok j" using g(1) by (auto simp only: set_map)
  have 3: "length (filter (?Q k) (map ?g tbl)) \<le> 1" for k
  proof (rule le_trans)
    show "length (filter (?Q k) (map ?g tbl)) \<le> length (filter (?Q k) tbl)"
      by (rule length_filter_map_le) (rule g(3))
    show "length (filter (?Q k) tbl) \<le> 1" using assms(1) by (simp add: jobs_inv_def)
  qed
  show ?thesis unfolding jobs_inv_def sql_update_def snd_conv using 1 2 3 by blast
qed

lemma rows_by_id:
  assumes "jobs_inv tbl" "i \<in> set tbl" "j \<in> set tbl" "jid i = jid j"
  shows "i = j"
  using assms by (auto simp: jobs_inv_def distinct_map inj_on_def)

lemma get_row: "jobs_inv tbl \<Longrightarrow> j \<in> set tbl \<Longrightarrow> get (jid j) tbl = Some j"
proof -
  assume inv: "jobs_inv tbl" and j: "j \<in> set tbl"
  then obtain j' where j': "get (jid j) tbl = Some j'"
    unfolding get_def by (metis (mono_tags, lifting) find_None_iff not_None_eq)
  then have "j' \<in> set tbl" "jid j' = jid j" by (auto simp: get_def find_Some_iff)
  with inv j j' show ?thesis using rows_by_id by metis
qed

lemma sql_first_spec:
  "sql_first k P tbl = Some j \<Longrightarrow> j \<in> set tbl \<and> P j"
  "sql_first k P tbl = None \<longleftrightarrow> (\<forall>j \<in> set tbl. \<not> P j)"
proof -
  show "sql_first k P tbl = Some j \<Longrightarrow> j \<in> set tbl \<and> P j"
    by (auto simp: sql_first_def dest!: sort_key_head split: list.splits)
  show "sql_first k P tbl = None \<longleftrightarrow> (\<forall>j \<in> set tbl. \<not> P j)"
    by (cases "sort_key k (filter P tbl)")
      (auto simp: sql_first_def filter_empty_conv dest!: sort_key_head)
qed

lemma claim_order_spec:
  "claim_order P tbl = Some j \<Longrightarrow> j \<in> set tbl \<and> P j \<and>
     (\<forall>r \<in> set tbl. P r \<longrightarrow> priority r < priority j \<or> priority r = priority j \<and> created_at j \<le> created_at r)"
  "claim_order P tbl = None \<longleftrightarrow> (\<forall>j \<in> set tbl. \<not> P j)"
proof -
  let ?a = "sort_key created_at (filter P tbl)" and ?neg = "\<lambda>j. - priority j"
  let ?l = "sort_key ?neg ?a"
  have s: "set ?l = {j \<in> set tbl. P j}" by auto
  show "claim_order P tbl = None \<longleftrightarrow> (\<forall>j \<in> set tbl. \<not> P j)"
    by (cases ?l) (auto simp: claim_order_def filter_empty_conv dest!: sort_key_head)
  assume "claim_order P tbl = Some j"
  then obtain js where l: "?l = j # js" by (auto simp: claim_order_def split: list.splits)
  have j: "j \<in> set tbl \<and> P j" using sort_key_head [OF l] by simp
  have "priority r < priority j \<or> priority r = priority j \<and> created_at j \<le> created_at r"
    if r: "r \<in> set tbl" "P r" for r
  proof -
    have sd: "sorted (map ?neg ?l)" by simp
    have rl: "r \<in> set ?l" using s r by auto
    then have le: "priority r \<le> priority j" using sd l by auto
    show ?thesis
    proof (cases "priority r = priority j")
      case True
      have "filter (\<lambda>x. ?neg x = ?neg j) ?l = filter (\<lambda>x. ?neg x = ?neg j) ?a"
        by (rule sort_key_stable)
      moreover have "sorted (map created_at (filter (\<lambda>x. ?neg x = ?neg j) ?a))"
        by (rule sorted_filter) simp
      ultimately have "sorted (map created_at (filter (\<lambda>x. ?neg x = ?neg j) ?l))" by simp
      moreover have "r \<in> set (filter (\<lambda>x. ?neg x = ?neg j) ?l)" using rl True by simp
      ultimately show ?thesis using l True by auto
    qed (use le in simp)
  qed
  with j show "j \<in> set tbl \<and> P j \<and>
     (\<forall>r \<in> set tbl. P r \<longrightarrow> priority r < priority j \<or> priority r = priority j \<and> created_at j \<le> created_at r)"
    by blast
qed

section \<open>Every operation keeps the table well formed\<close>

lemma inv_enqueue:
  assumes "jobs_inv tbl" "i \<notin> jid ` set tbl" "0 < m"
  shows "jobs_inv (snd (enqueue now i knd p prio after m key tbl))"
proof (cases "snd (enqueue now i knd p prio after m key tbl) = tbl")
  case True
  with assms(1) show ?thesis by simp
next
  case False
  define j where "j = \<lparr>jid = i, kind = knd, payload_json = p, status = Queued, priority = prio,
     run_after = after, attempts = 0, max_attempts = m, idempotency_key = key, created_at = now,
     started_at = None, finished_at = None, lease_expires_at = None, leased_by = None,
     lease_token = None, error = None\<rparr>"
  from False have new: "snd (enqueue now i knd p prio after m key tbl) = tbl @ [j]"
    and none: "\<And>k. key = Some k \<Longrightarrow> sql_first created_at (\<lambda>j. idempotency_key j = Some k \<and> live j) tbl = None"
    by (auto simp: enqueue_def j_def Let_def split: option.splits)
  have "filter (\<lambda>j. idempotency_key j = Some k \<and> live j) tbl = []" if "key = Some k" for k
    using none [OF that] by (simp add: sql_first_spec(2) filter_empty_conv)
  then have "length (filter (\<lambda>j. idempotency_key j = Some k \<and> live j) (tbl @ [j])) \<le> 1" for k
    using assms(1) by (cases "key = Some k") (auto simp: jobs_inv_def j_def)
  moreover have "row_ok j" using assms(3) by (simp add: row_defs j_def)
  moreover have "jid j = i" by (simp add: j_def)
  ultimately show ?thesis using assms(1,2) unfolding new jobs_inv_def by auto
qed

lemma find_map_jid:
  "(\<And>r. r \<in> set xs \<Longrightarrow> jid (g r) = jid r) \<Longrightarrow>
   find (\<lambda>r. jid r = i) (map g xs) = map_option g (find (\<lambda>r. jid r = i) xs)"
  by (induction xs) auto

lemma claim_next_cases:
  assumes "jobs_inv tbl"
  obtains (nothing) "claim_next now token kinds w l tbl = (None, tbl)"
      "kinds = [] \<or> (\<forall>j \<in> set tbl. \<not> eligible now kinds j)"
    | (claimed) j where "j \<in> set tbl" "eligible now kinds j"
      "\<forall>r \<in> set tbl. eligible now kinds r \<longrightarrow>
         priority r < priority j \<or> priority r = priority j \<and> created_at j \<le> created_at r"
      "claim_next now token kinds w l tbl =
         (Some (claim now token w l j), map (\<lambda>r. if r = j then claim now token w l j else r) tbl)"
proof (cases "kinds = [] \<or> claim_order (eligible now kinds) tbl = None")
  case True
  show ?thesis
    by (rule nothing)
      (use True claim_order_spec(2) [of "eligible now kinds" tbl] in \<open>auto simp: claim_next_def\<close>)
next
  case False
  then obtain j where o: "claim_order (eligible now kinds) tbl = Some j" by auto
  note j = claim_order_spec(1) [OF o]
  let ?c = "claim now token w l"
  have m: "map (\<lambda>r. if jid r = jid j then ?c r else r) tbl = map (\<lambda>r. if r = j then ?c j else r) tbl"
    using rows_by_id [OF assms] j by (intro map_cong) auto
  have ids: "jid (if r = j then ?c j else r) = jid r" for r by (simp add: claim_def)
  have "find (\<lambda>r. jid r = jid j) (map (\<lambda>r. if r = j then ?c j else r) tbl) = Some (?c j)"
    using assms j by (subst find_map_jid) (auto simp: ids get_row [unfolded get_def])
  then have "claim_next now token kinds w l tbl =
      (Some (?c j), map (\<lambda>r. if r = j then ?c j else r) tbl)"
    using False o by (simp add: claim_next_def sql_update_def get_def m)
  with j show ?thesis by (intro claimed) auto
qed

lemma claim_row_ok:
  assumes "row_ok j" "eligible now kinds j"
  shows "row_ok (claim now token w l j) \<and> live (claim now token w l j) \<and> live j"
  using assms by (auto simp: row_defs eligible_def claim_def split: option.splits)

lemma inv_claim_next:
  assumes "jobs_inv tbl"
  shows "jobs_inv (snd (claim_next now token kinds w l tbl))"
  using assms
proof (cases rule: claim_next_cases [of tbl now token kinds w l])
  case nothing
  with assms show ?thesis by simp
next
  case (claimed j)
  have "jobs_inv (snd (sql_update (\<lambda>r. r = j) (\<lambda>_. claim now token w l j) tbl))"
    using assms claimed(1) claim_row_ok [OF _ claimed(2), of token w l]
    by (intro sql_update_inv) (auto simp: jobs_inv_def claim_def)
  with claimed(4) show ?thesis by (simp add: sql_update_def)
qed

lemma holds_lease_live: "holds_lease i token j \<Longrightarrow> status j = Running"
  by (simp add: holds_lease_def)

lemma inv_heartbeat: "jobs_inv tbl \<Longrightarrow> jobs_inv (snd (heartbeat now i token l tbl))"
  unfolding heartbeat_def Let_def case_prod_unfold snd_conv
  by (rule sql_update_inv) (auto simp: jobs_inv_def row_defs holds_lease_def)

lemma inv_complete: "jobs_inv tbl \<Longrightarrow> jobs_inv (snd (complete now i token result tbl))"
  unfolding complete_def Let_def case_prod_unfold snd_conv
  by (cases result; simp only: option.case; rule sql_update_inv)
    (auto simp: jobs_inv_def row_defs holds_lease_def)

lemma fail_cases:
  obtains (stale) "find (holds_lease i token) tbl = None" "fail now i token err retry tbl = (False, tbl)"
    | (requeue) j r where "find (holds_lease i token) tbl = Some j" "attempts j < max_attempts j" "retry = Some r"
      "fail now i token err retry tbl = (False, snd (sql_update (holds_lease i token)
          (\<lambda>j. j\<lparr>status := Queued, run_after := Some (now + seconds r), lease_expires_at := None,
                 leased_by := None, lease_token := None, error := Some err\<rparr>) tbl))"
    | (final) j where "find (holds_lease i token) tbl = Some j"
      "fail now i token err retry tbl = (True, snd (sql_update (holds_lease i token)
          (\<lambda>j. j\<lparr>status := Failed, finished_at := Some now, lease_expires_at := None, error := Some err\<rparr>) tbl))"
proof (cases "find (holds_lease i token) tbl")
  case None
  then show ?thesis by (intro stale) (simp_all add: fail_def)
next
  case (Some j)
  then have "filter (holds_lease i token) tbl \<noteq> []"
    by (auto simp: find_Some_iff filter_empty_conv)
  with Some show ?thesis
  proof (cases "attempts j < max_attempts j \<and> retry \<noteq> None")
    case True
    then obtain r where "retry = Some r" by auto
    with True Some show ?thesis by (intro requeue) (auto simp: fail_def)
  next
    case False
    then show ?thesis using Some \<open>filter _ _ \<noteq> []\<close>
      by (intro final) (auto simp: fail_def sql_update_def split: option.splits bool.splits)
  qed
qed

lemma inv_fail:
  assumes "jobs_inv tbl"
  shows "jobs_inv (snd (fail now i token err retry tbl))"
proof (cases rule: fail_cases [of i token tbl now err retry])
  case stale
  with assms show ?thesis by simp
next
  case (requeue j r)
  then have j: "j \<in> set tbl" "holds_lease i token j" by (auto simp: find_Some_iff)
  show ?thesis unfolding requeue(4) snd_conv
  proof (rule sql_update_inv [OF assms])
    fix r' assume r': "r' \<in> set tbl" "holds_lease i token r'"
    then have "r' = j" using rows_by_id [OF assms _ j(1)] j(2) by (simp add: holds_lease_def)
    moreover have "row_ok j" "status j = Running"
      using assms j by (auto simp: jobs_inv_def holds_lease_def)
    ultimately show "row_ok (r'\<lparr>status := Queued, run_after := Some (now + seconds r), lease_expires_at := None,
        leased_by := None, lease_token := None, error := Some err\<rparr>) \<and>
      jid (r'\<lparr>status := Queued, run_after := Some (now + seconds r), lease_expires_at := None,
        leased_by := None, lease_token := None, error := Some err\<rparr>) = jid r' \<and>
      idempotency_key (r'\<lparr>status := Queued, run_after := Some (now + seconds r), lease_expires_at := None,
        leased_by := None, lease_token := None, error := Some err\<rparr>) = idempotency_key r' \<and>
      (live (r'\<lparr>status := Queued, run_after := Some (now + seconds r), lease_expires_at := None,
        leased_by := None, lease_token := None, error := Some err\<rparr>) \<longrightarrow> live r')"
      using requeue(2) by (simp add: row_defs)
  qed
next
  case (final j)
  show ?thesis unfolding final(2) snd_conv
    by (rule sql_update_inv [OF assms]) (use assms in \<open>auto simp: jobs_inv_def row_defs holds_lease_def\<close>)
qed

lemma inv_reap: "jobs_inv tbl \<Longrightarrow> jobs_inv (snd (reap_exhausted now tbl))"
  unfolding reap_exhausted_def
  by (rule sql_update_inv) (auto simp: jobs_inv_def row_defs exhausted_def)

lemma snd_run_one_settle:
  "snd (run_one_settle now j token retry outcome tbl) =
     (case outcome of Raised err \<Rightarrow> snd (fail now (jid j) token err retry tbl)
      | Returned result \<Rightarrow> snd (complete now (jid j) token result tbl))"
  by (simp add: run_one_settle_def Let_def case_prod_unfold split: handler_outcome.split)

lemma snd_reap_sweep: "snd (reap_sweep now tbl) = snd (reap_exhausted now tbl)"
  by (simp add: reap_sweep_def case_prod_unfold Let_def)

lemma inv_job_step: "jobs_inv tbl \<Longrightarrow> op_ok x tbl \<Longrightarrow> jobs_inv (snd (job_step x tbl))"
  by (cases x) (simp_all add: inv_enqueue inv_claim_next inv_heartbeat inv_complete inv_fail inv_reap
      snd_run_one_settle snd_reap_sweep split: handler_outcome.split)

section \<open>Terminal rows and notifications\<close>

lemma sql_update_keeps: "j \<in> set tbl \<Longrightarrow> \<not> P j \<Longrightarrow> j \<in> set (snd (sql_update P f tbl))"
  by (force simp: sql_update_def)

lemma fail_keeps:
  assumes "j \<in> set tbl" "terminal j"
  shows "j \<in> set (snd (fail now i token err retry tbl))"
  using assms
  by (cases rule: fail_cases [of i token tbl now err retry])
    (auto intro!: sql_update_keeps simp: holds_lease_def terminal_def)

lemma complete_keeps:
  "j \<in> set tbl \<Longrightarrow> terminal j \<Longrightarrow> j \<in> set (snd (complete now i token result tbl))"
  unfolding complete_def Let_def case_prod_unfold snd_conv
  by (cases result; simp only: option.case; rule sql_update_keeps)
    (auto simp: holds_lease_def terminal_def)

lemma step_keeps_terminal:
  assumes "jobs_inv tbl" "op_ok x tbl" "j \<in> set tbl" "terminal j"
  shows "j \<in> set (snd (job_step x tbl))"
proof (cases x)
  case (Op_Enqueue now i knd p prio after m key)
  with assms(3) show ?thesis by (auto simp: enqueue_def Let_def split: option.splits)
next
  case (Op_Claim now token kinds w l)
  show ?thesis using assms(1)
  proof (cases rule: claim_next_cases [of tbl now token kinds w l])
    case nothing
    with Op_Claim assms(3) show ?thesis by simp
  next
    case (claimed r)
    then have "j \<noteq> r" using assms(4) by (auto simp: eligible_def terminal_def)
    with claimed(4) Op_Claim assms(3) show ?thesis by force
  qed
next
  case (Op_Heartbeat now i token l)
  with assms(3,4) show ?thesis
    by (auto simp: heartbeat_def case_prod_unfold Let_def holds_lease_def terminal_def intro!: sql_update_keeps)
next
  case (Op_Settle now r token retry outcome)
  with assms(3,4) show ?thesis
    by (auto simp: snd_run_one_settle fail_keeps complete_keeps split: handler_outcome.split)
next
  case (Op_Reap now)
  with assms(3,4) show ?thesis
    by (auto simp: snd_reap_sweep reap_exhausted_def exhausted_def terminal_def intro!: sql_update_keeps)
qed

definition finalizes :: "string \<Rightarrow> jobs \<Rightarrow> jobs \<Rightarrow> bool" where
  "finalizes i tbl tbl' \<longleftrightarrow>
     (\<exists>j \<in> set tbl. jid j = i \<and> live j) \<and> (\<exists>j \<in> set tbl'. jid j = i \<and> terminal j)"

lemma sql_update_finalizes:
  assumes "r \<in> set tbl" "P r" "live r" "jid r = i" "terminal (f r)" "jid (f r) = jid r"
  shows "finalizes i tbl (snd (sql_update P f tbl))"
proof -
  have "f r \<in> set (snd (sql_update P f tbl))" using assms(1,2) by (force simp: sql_update_def)
  then show ?thesis using assms unfolding finalizes_def by blast
qed

lemma complete_finalizes:
  assumes "fst (complete now i token result tbl)"
  shows "finalizes i tbl (snd (complete now i token result tbl))"
proof -
  obtain r where "r \<in> set tbl" "holds_lease i token r"
    using assms by (auto simp: complete_def Let_def case_prod_unfold sql_update_def filter_empty_conv
        split: option.splits)
  then show ?thesis unfolding complete_def Let_def case_prod_unfold snd_conv
    by (cases result; simp only: option.case; intro sql_update_finalizes [of r])
      (auto simp: holds_lease_def status_defs)
qed

lemma fail_finalizes:
  assumes "fst (fail now i token err retry tbl)"
  shows "finalizes i tbl (snd (fail now i token err retry tbl))"
proof (cases rule: fail_cases [of i token tbl now err retry])
  case (final j)
  then have "j \<in> set tbl" "holds_lease i token j" by (auto simp: find_Some_iff)
  then show ?thesis unfolding final(2) snd_conv
    by (intro sql_update_finalizes [of j]) (auto simp: holds_lease_def status_defs)
qed (use assms in simp_all)

definition notes_for :: "string \<Rightarrow> (string \<times> string) list \<Rightarrow> (string \<times> string) list" where
  "notes_for i ns = filter (\<lambda>n. fst n = i) ns"

lemma notes_for_simps [simp]:
  "notes_for i [] = []" "notes_for i (xs @ ys) = notes_for i xs @ notes_for i ys"
  by (simp_all add: notes_for_def)

lemma notify_for:
  "length (notes_for i (notify_agent_response_webhooks j st)) \<le> (if jid j = i then 1 else 0)"
  by (simp add: notes_for_def notify_agent_response_webhooks_def split: option.splits)

lemma notify_many:
  assumes "distinct (map jid rows)"
  shows "length (notes_for i (concat (map (\<lambda>j. notify_agent_response_webhooks j st) rows))) \<le>
    (if i \<in> jid ` set rows then 1 else 0)"
  using assms
proof (induction rows)
  case (Cons j rows)
  then show ?case using notify_for [of i j st] by (auto split: if_splits)
qed simp

lemma step_notes:
  assumes "jobs_inv tbl"
  shows "length (notes_for i (fst (job_step x tbl))) \<le> 1"
    and "notes_for i (fst (job_step x tbl)) \<noteq> [] \<Longrightarrow> finalizes i tbl (snd (job_step x tbl))"
proof -
  let ?n = "notes_for i (fst (job_step x tbl))"
  have "length ?n \<le> 1 \<and> (?n \<noteq> [] \<longrightarrow> finalizes i tbl (snd (job_step x tbl)))"
  proof (cases x)
    case (Op_Settle now j token retry outcome)
    show ?thesis
    proof (cases outcome)
      case (Returned result)
      show ?thesis
        using notify_for [of i j "''completed''"] complete_finalizes [of now "jid j" token result tbl]
        by (cases "jid j = i") (auto simp: Op_Settle Returned run_one_settle_def case_prod_unfold Let_def)
    next
      case (Raised err)
      show ?thesis
        using notify_for [of i j "''failed''"] fail_finalizes [of now "jid j" token err retry tbl]
        by (cases "jid j = i") (auto simp: Op_Settle Raised run_one_settle_def case_prod_unfold Let_def)
    qed
  next
    case (Op_Reap now)
    let ?rows = "fst (reap_exhausted now tbl)"
    have ids: "map jid ?rows = map jid (filter (exhausted now) tbl)"
      by (simp add: reap_exhausted_def sql_update_def)
    then have d: "distinct (map jid ?rows)" using assms by (simp add: jobs_inv_def distinct_map_filter)
    have "jid ` set ?rows = jid ` set (filter (exhausted now) tbl)" using ids by (metis set_map)
    note img = this
    have "finalizes i tbl (snd (reap_exhausted now tbl))" if mem: "i \<in> jid ` set ?rows"
    proof -
      obtain r where "r \<in> set tbl" "exhausted now r" "jid r = i"
        using mem unfolding img by auto
      then show ?thesis unfolding reap_exhausted_def
        by (intro sql_update_finalizes [of r]) (auto simp: exhausted_def status_defs)
    qed
    then show ?thesis using notify_many [OF d, of i "''failed''"]
      by (cases "i \<in> jid ` set ?rows")
        (auto simp: Op_Reap reap_sweep_def case_prod_unfold Let_def)
  qed simp_all
  then show "length ?n \<le> 1" "?n \<noteq> [] \<Longrightarrow> finalizes i tbl (snd (job_step x tbl))" by blast+
qed

lemma run_notes:
  assumes "jobs_inv tbl" "run_ok xs tbl"
  shows "length (notes_for i (fst (job_run xs tbl))) \<le> 1 \<and>
    ((\<exists>j \<in> set tbl. jid j = i \<and> terminal j) \<longrightarrow> notes_for i (fst (job_run xs tbl)) = [])"
  using assms
proof (induction xs arbitrary: tbl)
  case (Cons x xs)
  let ?t = "snd (job_step x tbl)" and ?n = "notes_for i (fst (job_step x tbl))"
  have inv: "jobs_inv ?t" using Cons.prems by (simp add: inv_job_step)
  have IH: "length (notes_for i (fst (job_run xs ?t))) \<le> 1 \<and>
      ((\<exists>j \<in> set ?t. jid j = i \<and> terminal j) \<longrightarrow> notes_for i (fst (job_run xs ?t)) = [])"
    using Cons.IH [OF inv] Cons.prems(2) by simp
  have split: "notes_for i (fst (job_run (x # xs) tbl)) = ?n @ notes_for i (fst (job_run xs ?t))"
    by (simp add: case_prod_unfold Let_def)
  have dead: "?n = []" if "\<exists>j \<in> set tbl. jid j = i \<and> terminal j"
  proof (rule ccontr)
    assume "?n \<noteq> []"
    then have "finalizes i tbl ?t" using step_notes(2) [OF Cons.prems(1)] by blast
    then obtain r where "r \<in> set tbl" "jid r = i" "live r" by (auto simp: finalizes_def)
    with that rows_by_id [OF Cons.prems(1)] show False by (metis job_status.distinct live_def terminal_def)
  qed
  have later: "\<exists>j \<in> set ?t. jid j = i \<and> terminal j"
    if "?n \<noteq> [] \<or> (\<exists>j \<in> set tbl. jid j = i \<and> terminal j)"
    using that step_notes(2) [OF Cons.prems(1), of i x] step_keeps_terminal [OF Cons.prems(1), of x] Cons.prems(2)
    by (auto simp: finalizes_def)
  show ?case unfolding split using IH dead later step_notes(1) [OF Cons.prems(1), of i x]
    by (cases "?n = []") auto
qed simp

lemma inv_job_run: "jobs_inv tbl \<Longrightarrow> run_ok xs tbl \<Longrightarrow> jobs_inv (snd (job_run xs tbl))"
  by (induction xs arbitrary: tbl) (auto simp: case_prod_unfold Let_def inv_job_step)

section \<open>Properties\<close>

definition demo_job :: "string \<Rightarrow> int \<Rightarrow> job" where
  "demo_job i prio = \<lparr>jid = i, kind = ''agent_response'', payload_json = [''agent_id'' \<mapsto> ''a''],
     status = Queued, priority = prio, run_after = None, attempts = 0, max_attempts = 1,
     idempotency_key = Some i, created_at = 0, started_at = None, finished_at = None,
     lease_expires_at = None, leased_by = None, lease_token = None, error = None\<rparr>"

definition demo_ops :: "job_op list" where
  "demo_ops =
     [Op_Enqueue 0 ''j'' ''agent_response'' [''agent_id'' \<mapsto> ''a''] 0 None 1 (Some ''k''),
      Op_Claim 1 ''t1'' [''agent_response''] ''w'' 120,
      Op_Reap 200000000,
      Op_Settle 200000001 (demo_job ''j'' 0) ''t1'' None (Returned None)]"

lemmas demo_job_defs = demo_ops_def demo_job_def enqueue_def claim_next_def claim_order_def eligible_def
  sql_update_def sql_first_def claim_def get_def reap_sweep_def reap_exhausted_def exhausted_def expired_def
  seconds_def run_one_settle_def complete_def holds_lease_def notify_agent_response_webhooks_def

lemma demo_ops_ok: "jobs_inv []" "run_ok demo_ops []"
  by (simp_all add: jobs_inv_def demo_ops_def)

text \<open>
  C9. The table stays well formed through any sequence of enqueues, claims, heartbeats, settlements
  and reaps: identifiers are unique, a queued or running job is the only live one with its
  idempotency key, a running job has a lease token, holder and expiry, a finished one has a finish
  time and no lease, and no job is ever attempted more often than \<open>max_attempts\<close>.
\<close>

theorem job_queue_invariant:
  assumes "jobs_inv tbl" "run_ok xs tbl"
  shows "jobs_inv (snd (job_run xs tbl))"
  using assms by (rule inv_job_run)

theorem job_queue_invariant_witness: "jobs_inv (snd (job_run demo_ops []))"
  by (rule job_queue_invariant [OF demo_ops_ok])

text \<open>
  One outcome per job: over any run the queue leads to at most one webhook notification per
  job, whether the outcome comes from a live worker, from a stale one or from the reaper, and a job
  that is already done or failed leads to none.
\<close>

theorem job_notified_at_most_once:
  assumes "jobs_inv tbl" "run_ok xs tbl"
  shows "length (notes_for i (fst (job_run xs tbl))) \<le> 1 \<and>
    ((\<exists>j \<in> set tbl. jid j = i \<and> terminal j) \<longrightarrow> notes_for i (fst (job_run xs tbl)) = [])"
  using assms by (rule run_notes)

theorem job_notified_at_most_once_witness:
  "length (notes_for ''j'' (fst (job_run demo_ops []))) \<le> 1"
  using job_notified_at_most_once [OF demo_ops_ok] by blast

text \<open>
  A stale slot is inert: once \<open>claim_next\<close> has handed a job out under a new token, a
  heartbeat, completion or failure that presents any other token changes nothing and reports False,
  also when the worker identifier is the same.
\<close>

theorem stale_token_inert:
  assumes "jobs_inv tbl" "claim_next now token kinds w l tbl = (Some j, tbl')" "stale \<noteq> token"
  shows "heartbeat now' (jid j) stale l' tbl' = (False, tbl') \<and>
    complete now' (jid j) stale result tbl' = (False, tbl') \<and>
    fail now' (jid j) stale err retry tbl' = (False, tbl')"
proof -
  have inv: "jobs_inv tbl'" using inv_claim_next [OF assms(1), of now token kinds w l] assms(2) by simp
  have j: "j \<in> set tbl'" "lease_token j = Some token" using assms(1)
    by (cases rule: claim_next_cases [of tbl now token kinds w l]; use assms(2) in \<open>force simp: claim_def\<close>)+
  have none: "\<not> holds_lease (jid j) stale r" if "r \<in> set tbl'" for r
    using rows_by_id [OF inv that j(1)] j(2) assms(3) by (auto simp: holds_lease_def)
  then have upd: "sql_update (holds_lease (jid j) stale) f tbl' = ([], tbl')" for f
    by (auto simp: sql_update_def filter_empty_conv map_idI)
  have "find (holds_lease (jid j) stale) tbl' = None" using none by (auto simp: find_None_iff)
  then show ?thesis
    by (simp add: heartbeat_def complete_def fail_def upd split: option.split)
qed

theorem stale_token_inert_witness:
  "let (j, tbl) = claim_next 1 ''t2'' [''agent_response''] ''w'' 5 [demo_job ''j'' 0]
   in complete 2 (jid (the j)) ''t1'' None tbl = (False, tbl)"
proof -
  have inv: "jobs_inv [demo_job ''j'' 0]" by (auto simp: jobs_inv_def row_defs demo_job_def)
  have c: "claim_next 1 ''t2'' [''agent_response''] ''w'' 5 [demo_job ''j'' 0] =
      (Some (claim 1 ''t2'' ''w'' 5 (demo_job ''j'' 0)), [claim 1 ''t2'' ''w'' 5 (demo_job ''j'' 0)])"
    by (simp add: demo_job_defs)
  show ?thesis using stale_token_inert [OF inv c, of "''t1''" 2] by (simp add: c)
qed

text \<open>
  What \<open>claim_next\<close> claims: nothing exactly when there are no kinds or no eligible job; else an
  eligible job of the highest priority, the oldest of those, leased under the fresh token with one
  more attempt, every other row untouched.
\<close>

theorem claim_next_best:
  assumes "jobs_inv tbl"
  shows "claim_next now token kinds w l tbl = (None, tbl) \<and>
      (kinds = [] \<or> (\<forall>j \<in> set tbl. \<not> eligible now kinds j)) \<or>
    (\<exists>j \<in> set tbl. eligible now kinds j \<and>
      (\<forall>r \<in> set tbl. eligible now kinds r \<longrightarrow>
         priority r < priority j \<or> priority r = priority j \<and> created_at j \<le> created_at r) \<and>
      claim_next now token kinds w l tbl =
        (Some (claim now token w l j), map (\<lambda>r. if r = j then claim now token w l j else r) tbl))"
  using assms by (cases rule: claim_next_cases [of tbl now token kinds w l]) blast+

theorem claim_next_best_witness:
  "fst (claim_next 1 ''t'' [''agent_response''] ''w'' 5 [demo_job ''a'' 0, demo_job ''b'' 7]) =
     Some (claim 1 ''t'' ''w'' 5 (demo_job ''b'' 7))"
proof -
  let ?tbl = "[demo_job ''a'' 0, demo_job ''b'' 7]"
  have inv: "jobs_inv ?tbl" by (auto simp: jobs_inv_def row_defs demo_job_def)
  show ?thesis
    using claim_next_best [OF inv, of 1 "''t''" "[''agent_response'']" "''w''" 5]
    by (auto simp: eligible_def demo_job_def)
qed

text \<open>
  C38. No job is stuck: after a reap, a running job whose lease has expired has attempts left, so
  the next claim for its kind finds it eligible.
\<close>

theorem no_stuck_job:
  assumes "j \<in> set (snd (reap_exhausted now tbl))" "status j = Running" "expired now j"
  shows "eligible now [kind j] j"
proof -
  have "\<not> exhausted now j" using assms(1,2)
    by (auto simp: reap_exhausted_def sql_update_def split: if_splits)
  with assms(2,3) show ?thesis by (auto simp: exhausted_def eligible_def)
qed

theorem no_stuck_job_witness:
  "let j = (demo_job ''j'' 0)\<lparr>status := Running, max_attempts := 3, attempts := 1, lease_expires_at := Some 5\<rparr>
   in eligible 9 [kind j] j"
proof -
  let ?j = "(demo_job ''j'' 0)\<lparr>status := Running, max_attempts := 3, attempts := 1, lease_expires_at := Some 5\<rparr>"
  have 1: "?j \<in> set (snd (reap_exhausted 9 [?j]))"
    by (simp add: reap_exhausted_def sql_update_def exhausted_def)
  show ?thesis unfolding Let_def by (rule no_stuck_job [OF 1]) (simp_all add: expired_def)
qed

text \<open>
  Idempotent enqueue: with a key, the returned job carries it and is live; when a live job with
  that key exists it is returned unchanged and nothing is inserted, and otherwise exactly one new
  queued row is appended.
\<close>

theorem enqueue_idempotent:
  "let ((j, deduped), tbl') = enqueue now i knd p prio after m (Some k) tbl
   in idempotency_key j = Some k \<and> live j \<and> j \<in> set tbl' \<and>
      (deduped \<longleftrightarrow> (\<exists>r \<in> set tbl. idempotency_key r = Some k \<and> live r)) \<and>
      (if deduped then j \<in> set tbl \<and> tbl' = tbl else tbl' = tbl @ [j] \<and> status j = Queued \<and> jid j = i)"
proof (cases "sql_first created_at (\<lambda>j. idempotency_key j = Some k \<and> live j) tbl")
  case None
  then show ?thesis
    using sql_first_spec(2) [of created_at "\<lambda>j. idempotency_key j = Some k \<and> live j" tbl]
    by (auto simp: enqueue_def Let_def live_def)
next
  case (Some j)
  then show ?thesis using sql_first_spec(1) [OF Some] by (auto simp: enqueue_def Let_def)
qed

end
