(* ===== verification/Schedules.thy ===== *)
theory Schedules
  imports Prelude
begin

text \<open>
  The sync schedules of \<open>src/scheduler.py\<close>: the three schedule languages and when a table is due.
  A \<open>datetime\<close> is its local wall-clock reading, in microseconds since day zero of the proleptic
  calendar, with its UTC offset; day \<open>n\<close> is the date whose \<open>toordinal()\<close> is \<open>n\<close>. Schedule texts are
  ASCII. The conversions between instants and ISO text (\<open>datetime.isoformat\<close> and
  \<open>_parse_timestamp\<close>) are arguments of the functions that use them.
\<close>

section \<open>Calendar\<close>

record pydatetime =
  local :: micros
  utcoff :: "micros option"

definition MINUTE :: micros where "MINUTE = 60 * 1000000"
definition HOUR :: micros where "HOUR = 60 * MINUTE"
definition DAY :: micros where "DAY = 24 * HOUR"

text \<open>A naive value is read as UTC, as \<open>replace(tzinfo=timezone.utc)\<close> makes it.\<close>

definition aware :: "pydatetime \<Rightarrow> pydatetime" where
  "aware d = (case utcoff d of None \<Rightarrow> d\<lparr>utcoff := Some 0\<rparr> | Some _ \<Rightarrow> d)"

definition instant :: "pydatetime \<Rightarrow> micros" where
  "instant d = local d - (case utcoff d of None \<Rightarrow> 0 | Some x \<Rightarrow> x)"

definition date_of :: "pydatetime \<Rightarrow> int" where
  "date_of d = local d div DAY"

definition days_before_month :: "int list" where
  "days_before_month = [-1, 0, 31, 59, 90, 120, 151, 181, 212, 243, 273, 304, 334]"

definition days_in_month :: "int list" where
  "days_in_month = [-1, 31, 28, 31, 30, 31, 30, 31, 31, 30, 31, 30, 31]"

text \<open>Month and day of the month of a date, as Python's \<open>datetime\<close> computes them from the ordinal.\<close>

definition month_day :: "int \<Rightarrow> int \<times> int" where
  "month_day ordinal =
     (let n = (ordinal - 1) mod 146097;
          n100 = n div 36524; n = n mod 36524;
          n4 = n div 1461; n = n mod 1461;
          n1 = n div 365; n = n mod 365
      in if n1 = 4 \<or> n100 = 4 then (12, 31)
         else let leap = (n1 = 3 \<and> (n4 \<noteq> 24 \<or> n100 = 3));
                  month = (n + 50) div 32;
                  preceding = days_before_month ! nat month + (if 2 < month \<and> leap then 1 else 0)
              in if n < preceding
                 then let month = month - 1;
                          preceding = preceding - (days_in_month ! nat month + (if month = 2 \<and> leap then 1 else 0))
                      in (month, n - preceding + 1)
                 else (month, n - preceding + 1))"

definition weekday :: "int \<Rightarrow> int" where
  "weekday ordinal = (ordinal + 6) mod 7"

section \<open>Parsing\<close>

text \<open>A regular expression ending in \<open>$\<close> accepts one line break after the match.\<close>

definition before_dollar :: "string \<Rightarrow> string" where
  "before_dollar s = (if s \<noteq> [] \<and> last s = CHR 0x0A then butlast s else s)"

fun after_prefix :: "string \<Rightarrow> string \<Rightarrow> string option" where
  "after_prefix [] s = Some s"
| "after_prefix (p # ps) [] = None"
| "after_prefix (p # ps) (c # cs) = (if p = c then after_prefix ps cs else None)"

definition digits_value :: "string \<Rightarrow> int" where
  "digits_value s = foldl (\<lambda>a c. 10 * a + int (digit_val c)) 0 s"

text \<open>\<open>^every (\d+)([mh])$\<close>: the number and the unit.\<close>

definition match_interval :: "string \<Rightarrow> (int \<times> char) option" where
  "match_interval s =
     (case after_prefix ''every '' s of
        None \<Rightarrow> None
      | Some r \<Rightarrow>
          let ds = takeWhile is_digit r
          in if ds = [] then None
             else case before_dollar (dropWhile is_digit r) of
                    [u] \<Rightarrow> if u = CHR ''m'' \<or> u = CHR ''h'' then Some (digits_value ds, u) else None
                  | _ \<Rightarrow> None)"

definition parse_interval_minutes :: "string \<Rightarrow> int option" where
  "parse_interval_minutes schedule =
     (case match_interval schedule of
        None \<Rightarrow> None
      | Some (value, u) \<Rightarrow> if u = CHR ''h'' then Some (value * 60) else Some value)"

text \<open>\<open>^daily ([\d:,]+)$\<close> and \<open>^cron (.+)$\<close>: the captured group.\<close>

definition match_daily :: "string \<Rightarrow> string option" where
  "match_daily s =
     (case after_prefix ''daily '' s of
        None \<Rightarrow> None
      | Some r \<Rightarrow> let g = before_dollar r
                  in if g \<noteq> [] \<and> list_all (\<lambda>c. is_digit c \<or> c = CHR '':'' \<or> c = CHR '','') g then Some g else None)"

definition match_cron :: "string \<Rightarrow> string option" where
  "match_cron s =
     (case after_prefix ''cron '' s of
        None \<Rightarrow> None
      | Some r \<Rightarrow> let g = before_dollar r
                  in if g \<noteq> [] \<and> list_all (\<lambda>c. c \<noteq> CHR 0x0A) g then Some g else None)"

text \<open>\<open>s.split()\<close> and \<open>s.partition(c)\<close>.\<close>

fun py_words :: "string \<Rightarrow> string list" where
  "py_words [] = []"
| "py_words (x # xs) =
     (if is_space x then py_words xs
      else case xs of
             [] \<Rightarrow> [[x]]
           | y # _ \<Rightarrow> if is_space y then [x] # py_words xs
                       else case py_words xs of [] \<Rightarrow> [[x]] | w # ws \<Rightarrow> (x # w) # ws)"

definition py_partition :: "char \<Rightarrow> string \<Rightarrow> string \<times> string" where
  "py_partition c s = (takeWhile (\<lambda>x. x \<noteq> c) s, drop 1 (dropWhile (\<lambda>x. x \<noteq> c) s))"

definition parse_hhmm :: "string \<Rightarrow> (int \<times> int) option" where
  "parse_hhmm part =
     (case py_strip part of
        [a, b, c, d, e] \<Rightarrow>
          if is_digit a \<and> is_digit b \<and> c = CHR '':'' \<and> is_digit d \<and> is_digit e
          then Some (digits_value [a, b], digits_value [d, e]) else None
      | _ \<Rightarrow> None)"

fun daily_parts :: "string list \<Rightarrow> (int \<times> int) list \<Rightarrow> (int \<times> int) list" where
  "daily_parts [] result = result"
| "daily_parts (part # parts) result =
     (case parse_hhmm part of
        None \<Rightarrow> []
      | Some (hour, minute) \<Rightarrow>
          if 23 < hour \<or> 59 < minute then [] else daily_parts parts (result @ [(hour, minute)]))"

definition parse_daily_times :: "string \<Rightarrow> (int \<times> int) list" where
  "parse_daily_times times_str = daily_parts (py_split (CHR '','') times_str) []"

text \<open>\<open>range(start, stop, step)\<close> with a positive step.\<close>

definition py_range :: "int \<Rightarrow> int \<Rightarrow> int \<Rightarrow> int list" where
  "py_range start stop step = filter (\<lambda>x. (x - start) mod step = 0) [start..stop - 1]"

text \<open>The span and step of one comma-separated part of a cron field.\<close>

definition cron_part :: "string \<Rightarrow> int \<Rightarrow> int \<Rightarrow> int list option" where
  "cron_part part0 lo hi =
     (let part = py_strip part0
      in if part = [] then None
         else
           let stepped = (CHR ''/'' \<in> set part);
               base = (if stepped then fst (py_partition (CHR ''/'') part) else part);
               step_str = snd (py_partition (CHR ''/'') part);
               step = (if stepped then digits_value step_str else 1)
           in if stepped \<and> (\<not> py_isdigit step_str \<or> step \<le> 0) then None
              else
                let span =
                  (if base = ''*'' then Some (lo, hi)
                   else if CHR ''-'' \<in> set base then
                     let (a, b) = py_partition (CHR ''-'') base
                     in if py_isdigit a \<and> py_isdigit b
                        then if digits_value b < digits_value a then None
                             else Some (digits_value a, digits_value b)
                        else None
                   else if py_isdigit base then Some (digits_value base, digits_value base) else None)
                in case span of
                     None \<Rightarrow> None
                   | Some (start, end) \<Rightarrow>
                       if start < lo \<or> hi < end then None else Some (py_range start (end + 1) step))"

fun cron_parts :: "string list \<Rightarrow> int \<Rightarrow> int \<Rightarrow> int set \<Rightarrow> int set option" where
  "cron_parts [] lo hi values = (if values = {} then None else Some values)"
| "cron_parts (p # ps) lo hi values =
     (case cron_part p lo hi of None \<Rightarrow> None | Some xs \<Rightarrow> cron_parts ps lo hi (values \<union> set xs))"

definition parse_cron_field :: "string \<Rightarrow> int \<Rightarrow> int \<Rightarrow> int set option" where
  "parse_cron_field spec lo hi = cron_parts (py_split (CHR '','') spec) lo hi {}"

record cron_fields =
  minute_set :: "int set"
  hour_set :: "int set"
  dom_set :: "int set"
  month_set :: "int set"
  dow_set :: "int set"

definition parse_cron_fields :: "string \<Rightarrow> cron_fields option" where
  "parse_cron_fields expr =
     (case py_words expr of
        [a, b, c, d, e] \<Rightarrow>
          (case (parse_cron_field a 0 59, parse_cron_field b 0 23, parse_cron_field c 1 31,
                 parse_cron_field d 1 12, parse_cron_field e 0 6) of
             (Some mi, Some h, Some dd, Some mo, Some dow) \<Rightarrow>
               Some \<lparr>minute_set = mi, hour_set = h, dom_set = dd, month_set = mo, dow_set = dow\<rparr>
           | _ \<Rightarrow> None)
      | _ \<Rightarrow> None)"

definition is_valid_schedule :: "string option \<Rightarrow> bool" where
  "is_valid_schedule schedule =
     (case schedule of
        None \<Rightarrow> False
      | Some s \<Rightarrow>
          if s = [] then False
          else case parse_interval_minutes s of
                 Some interval \<Rightarrow> 0 \<le> interval
               | None \<Rightarrow>
                   (case match_daily s of
                      Some g \<Rightarrow> parse_daily_times g \<noteq> []
                    | None \<Rightarrow>
                        (case match_cron s of Some g \<Rightarrow> parse_cron_fields g \<noteq> None | None \<Rightarrow> False)))"

section \<open>When a table is due\<close>

definition at_time :: "int \<Rightarrow> int \<Rightarrow> int \<Rightarrow> micros" where
  "at_time day hour minute = day * DAY + hour * HOUR + minute * MINUTE"

definition is_daily_due :: "pydatetime \<Rightarrow> pydatetime \<Rightarrow> (int \<times> int) list \<Rightarrow> bool" where
  "is_daily_due last_sync now target_times =
     list_ex (\<lambda>(h, m). let today_target = now\<lparr>local := at_time (date_of now) h m\<rparr>
        in instant today_target \<le> instant now \<and> instant last_sync < instant today_target) target_times"

definition cron_date_matches :: "int \<Rightarrow> cron_fields \<Rightarrow> bool" where
  "cron_date_matches d f \<longleftrightarrow>
     snd (month_day d) \<in> dom_set f \<and> fst (month_day d) \<in> month_set f \<and> (weekday d + 1) mod 7 \<in> dow_set f"

text \<open>The in-day candidates in the order of the two nested loops, latest first.\<close>

definition day_candidates :: "int \<Rightarrow> cron_fields \<Rightarrow> micros list" where
  "day_candidates day f =
     concat (map (\<lambda>h. map (\<lambda>m. at_time day h m) (rev (sorted_list_of_set (minute_set f))))
       (rev (sorted_list_of_set (hour_set f))))"

text \<open>The walk over days, backwards, with the number of days still allowed.\<close>

fun cron_walk :: "nat \<Rightarrow> int \<Rightarrow> micros \<Rightarrow> pydatetime \<Rightarrow> pydatetime \<Rightarrow> cron_fields \<Rightarrow> bool" where
  "cron_walk 0 day cap last_sync now f = False"
| "cron_walk (Suc n) day cap last_sync now f =
     (case (if cron_date_matches day f then find (\<lambda>c. c \<le> cap) (day_candidates day f) else None) of
        Some c \<Rightarrow> instant last_sync < instant (now\<lparr>local := c\<rparr>)
      | None \<Rightarrow> if day \<le> date_of last_sync then False
                else cron_walk n (day - 1) cap last_sync now f)"

definition is_cron_due :: "pydatetime \<Rightarrow> pydatetime \<Rightarrow> cron_fields \<Rightarrow> bool" where
  "is_cron_due last_sync now f =
     (if instant now \<le> instant last_sync then False
      else let cap = local now div MINUTE * MINUTE
           in cron_walk (8 * 366) (cap div DAY) cap last_sync now f)"

text \<open>The part of \<open>is_table_due\<close> after the last sync time has been read.\<close>

definition schedule_due :: "string \<Rightarrow> pydatetime \<Rightarrow> pydatetime \<Rightarrow> bool" where
  "schedule_due schedule last_sync now =
     (case parse_interval_minutes schedule of
        Some interval_minutes \<Rightarrow> interval_minutes * MINUTE \<le> instant now - instant last_sync
      | None \<Rightarrow>
          (case match_daily schedule of
             Some g \<Rightarrow>
               (if parse_daily_times g = [] then False
                else is_daily_due last_sync now (parse_daily_times g))
           | None \<Rightarrow>
               (case match_cron schedule of
                  Some g \<Rightarrow>
                    (case parse_cron_fields g of
                       None \<Rightarrow> False
                     | Some f \<Rightarrow> is_cron_due last_sync now f)
                | None \<Rightarrow> False)))"

definition is_table_due ::
  "(string \<Rightarrow> pydatetime option) \<Rightarrow> string \<Rightarrow> string option \<Rightarrow> pydatetime \<Rightarrow> bool" where
  "is_table_due parse_timestamp schedule last_sync_iso now =
     (case last_sync_iso of
        None \<Rightarrow> True
      | Some ts \<Rightarrow>
          if ts = [] then True
          else case parse_timestamp ts of
                 None \<Rightarrow> True
               | Some d \<Rightarrow> schedule_due schedule (aware d) now)"

record table_config =
  tc_name :: "string option"
  tc_id :: "string option"
  sync_schedule :: "string option"

text \<open>\<open>a or b\<close> on optional text: the first one that is set and not empty, else the second.\<close>

definition py_or :: "string option \<Rightarrow> string option \<Rightarrow> string option" where
  "py_or a b = (case a of None \<Rightarrow> b | Some s \<Rightarrow> if s = [] then b else Some s)"

fun filter_due_tables ::
  "(pydatetime \<Rightarrow> string) \<Rightarrow> (string \<Rightarrow> pydatetime option) \<Rightarrow> (string option \<Rightarrow> pydatetime option) \<Rightarrow>
   pydatetime \<Rightarrow> table_config list \<Rightarrow> table_config list" where
  "filter_due_tables isoformat parse_timestamp get_last_sync now [] = []"
| "filter_due_tables isoformat parse_timestamp get_last_sync now (tc # tcs) =
     (let table_id = py_or (tc_name tc) (tc_id tc);
          rest = filter_due_tables isoformat parse_timestamp get_last_sync now tcs
      in case py_or (sync_schedule tc) None of
           None \<Rightarrow> tc # rest
         | Some schedule \<Rightarrow>
             if \<not> is_valid_schedule (Some schedule) then tc # rest
             else
               let last_sync_iso = map_option (\<lambda>d. isoformat (aware d)) (get_last_sync table_id)
               in if is_table_due parse_timestamp schedule last_sync_iso now then tc # rest else rest)"

section \<open>The cron walk finds what a declarative reading finds\<close>

definition well_ranged :: "cron_fields \<Rightarrow> bool" where
  "well_ranged f \<longleftrightarrow> minute_set f \<subseteq> {0..59} \<and> hour_set f \<subseteq> {0..23}"

text \<open>
  The reference definition: a local time at which the schedule fires is a full minute whose date and
  time of day match the five fields.
\<close>

definition cron_fires_at :: "cron_fields \<Rightarrow> micros \<Rightarrow> bool" where
  "cron_fires_at f t \<longleftrightarrow>
     t mod MINUTE = 0 \<and> cron_date_matches (t div DAY) f \<and>
     t mod DAY div HOUR \<in> hour_set f \<and> t mod HOUR div MINUTE \<in> minute_set f"

lemma minute_pos: "0 < MINUTE" "MINUTE \<noteq> 0" by (simp_all add: MINUTE_def)

lemma day_pos: "0 < DAY" by (simp add: DAY_def HOUR_def MINUTE_def)

lemma HOUR_MINUTE: "HOUR = MINUTE * 60" by (simp add: HOUR_def)

lemma DAY_MINUTE: "DAY = MINUTE * 1440" by (simp add: DAY_def HOUR_def)

lemma at_time_minutes: "at_time d h m = MINUTE * (1440 * d + 60 * h + m)"
  by (simp add: at_time_def HOUR_MINUTE DAY_MINUTE algebra_simps)

lemmas in_minutes = at_time_minutes HOUR_MINUTE DAY_MINUTE

lemma at_time_parts:
  assumes "0 \<le> h" "h \<le> 23" "0 \<le> m" "m \<le> 59"
  shows "at_time d h m mod MINUTE = 0" "at_time d h m div DAY = d"
    "at_time d h m mod DAY div HOUR = h" "at_time d h m mod HOUR div MINUTE = m"
proof -
  let ?k = "1440 * d + 60 * h + m"
  have k: "?k div 1440 = d" "?k mod 1440 = 60 * h + m"
    using assms int_div_pos_eq [of ?k 1440 d "60 * h + m"] int_mod_pos_eq [of ?k 1440 d "60 * h + m"] by auto
  have h: "(60 * h + m) div 60 = h" "?k mod 60 = m"
    using assms int_div_pos_eq [of "60 * h + m" 60 h m] int_mod_pos_eq [of ?k 60 "24 * d + h" m] by auto
  show "at_time d h m mod MINUTE = 0" "at_time d h m div DAY = d"
    "at_time d h m mod DAY div HOUR = h" "at_time d h m mod HOUR div MINUTE = m"
    using minute_pos k h by (simp_all only: in_minutes mod_mult_mult1 div_mult_mult1 mod_mult_self1_is_0
        nonzero_mult_div_cancel_left not_False_eq_True)
qed

lemma at_time_eq:
  assumes "t mod MINUTE = 0"
  shows "t = at_time (t div DAY) (t mod DAY div HOUR) (t mod HOUR div MINUTE)"
proof -
  obtain k where t: "t = MINUTE * k" using assms by (auto simp: mod_eq_0_iff_dvd)
  have "t div DAY = k div 1440" "t mod DAY div HOUR = k mod 1440 div 60" "t mod HOUR div MINUTE = k mod 60"
    using minute_pos by (simp_all only: t in_minutes mod_mult_mult1 div_mult_mult1
        nonzero_mult_div_cancel_left not_False_eq_True)
  moreover have "k mod 1440 mod 60 = k mod 60" by (simp add: mod_mod_cancel)
  then have "1440 * (k div 1440) + 60 * (k mod 1440 div 60) + k mod 60 = k"
    by (metis mult_div_mod_eq add.assoc)
  ultimately show ?thesis by (simp only: at_time_minutes t)
qed

lemma set_day_candidates:
  assumes "well_ranged f"
  shows "set (day_candidates day f) = (\<lambda>(h, m). at_time day h m) ` (hour_set f \<times> minute_set f)"
proof -
  have "finite (hour_set f)" "finite (minute_set f)"
    using assms unfolding well_ranged_def by (auto intro: finite_subset)
  then show ?thesis by (auto simp: day_candidates_def)
qed

lemma fires_on_day:
  assumes "well_ranged f"
  shows "cron_fires_at f t \<longleftrightarrow> cron_date_matches (t div DAY) f \<and> t \<in> set (day_candidates (t div DAY) f)"
proof
  assume "cron_fires_at f t"
  then show "cron_date_matches (t div DAY) f \<and> t \<in> set (day_candidates (t div DAY) f)"
    unfolding set_day_candidates [OF assms] cron_fires_at_def using at_time_eq [of t]
    by (auto intro!: image_eqI [of _ _ "(t mod DAY div HOUR, t mod HOUR div MINUTE)"])
next
  assume r: "cron_date_matches (t div DAY) f \<and> t \<in> set (day_candidates (t div DAY) f)"
  then obtain h m where hm: "h \<in> hour_set f" "m \<in> minute_set f" "t = at_time (t div DAY) h m"
    unfolding set_day_candidates [OF assms] by auto
  then have "0 \<le> h" "h \<le> 23" "0 \<le> m" "m \<le> 59" using assms by (auto simp: well_ranged_def)
  then show "cron_fires_at f t"
    using at_time_parts [of h m "t div DAY"] r hm by (simp add: cron_fires_at_def)
qed

lemma sorted_wrt_concat_map:
  assumes "sorted_wrt Q xs" "\<And>x. x \<in> set xs \<Longrightarrow> sorted_wrt R (g x)"
    and "\<And>x y a b. x \<in> set xs \<Longrightarrow> y \<in> set xs \<Longrightarrow> Q x y \<Longrightarrow> a \<in> set (g x) \<Longrightarrow> b \<in> set (g y) \<Longrightarrow> R a b"
  shows "sorted_wrt R (concat (map g xs))"
  using assms
proof (induction xs)
  case (Cons x xs)
  have "sorted_wrt R (concat (map g xs))"
    using Cons.prems(1) by (intro Cons.IH) (auto intro: Cons.prems(2,3))
  moreover have "R a b" if "a \<in> set (g x)" "b \<in> set (concat (map g xs))" for a b
    using that Cons.prems(1) by (auto intro: Cons.prems(3) [of x])
  ultimately show ?case using Cons.prems(2) [of x] by (simp add: sorted_wrt_append)
qed simp

lemma rev_sorted_list_of_set: "sorted_wrt (>) (rev (sorted_list_of_set (A :: int set)))"
  using sorted_wrt_rev [of "(<)" "rev (sorted_list_of_set A)"] by (simp add: sorted_wrt_rev)

lemma day_candidates_descending:
  assumes "well_ranged f"
  shows "sorted_wrt (>) (day_candidates day f)"
  unfolding day_candidates_def
proof (rule sorted_wrt_concat_map [OF rev_sorted_list_of_set])
  have fin: "finite (hour_set f)" "finite (minute_set f)"
    using assms unfolding well_ranged_def by (auto intro: finite_subset)
  fix h
  have "sorted_wrt (\<lambda>m m'. at_time day h m > at_time day h m') (rev (sorted_list_of_set (minute_set f)))"
    by (rule sorted_wrt_mono_rel [OF _ rev_sorted_list_of_set]) (use minute_pos in \<open>simp add: at_time_minutes\<close>)
  then show "sorted_wrt (>) (map (at_time day h) (rev (sorted_list_of_set (minute_set f))))"
    by (simp add: sorted_wrt_map)
  fix h' a b
  assume "h > h'" "a \<in> set (map (at_time day h) (rev (sorted_list_of_set (minute_set f))))"
    "b \<in> set (map (at_time day h') (rev (sorted_list_of_set (minute_set f))))"
  then obtain m m' where "m \<in> minute_set f" "m' \<in> minute_set f" "a = at_time day h m" "b = at_time day h' m'"
    using fin by auto
  moreover have "m \<in> {0..59}" "m' \<in> {0..59}" using assms calculation by (auto simp: well_ranged_def)
  then have "1440 * day + 60 * h' + m' < 1440 * day + 60 * h + m" using \<open>h > h'\<close> by auto
  ultimately show "a > b" using minute_pos by (simp only: at_time_minutes mult_less_cancel_left_pos)
qed

lemma find_greatest:
  assumes "sorted_wrt (>) xs" "find P xs = Some (c :: int)" "x \<in> set xs" "P x"
  shows "x \<le> c"
  using assms by (induction xs) (auto split: if_splits)

lemma cron_walk_iff:
  assumes wr: "well_ranged f" and off: "utcoff last_sync = utcoff now"
    and enough: "day - date_of last_sync < int n"
  shows "cron_walk n day cap last_sync now f \<longleftrightarrow>
    (\<exists>t. cron_fires_at f t \<and> t div DAY \<le> day \<and> local last_sync < t \<and> t \<le> cap)"
  using enough
proof (induction n arbitrary: day)
  case 0
  have "t < local last_sync" if "t div DAY \<le> day" for t
    using that 0 zdiv_mono1 [OF _ day_pos, of "local last_sync" t] unfolding date_of_def by linarith
  then show ?case by force
next
  case (Suc n)
  let ?found = "if cron_date_matches day f then find (\<lambda>c. c \<le> cap) (day_candidates day f) else None"
  have earlier: "t < day * DAY" if "t div DAY \<le> day" "t div DAY \<noteq> day" for t
    using that int_div_less_iff [OF day_pos, of t day] by auto
  show ?case
  proof (cases ?found)
    case (Some c)
    then have m: "cron_date_matches day f" and fd: "find (\<lambda>c. c \<le> cap) (day_candidates day f) = Some c"
      by (auto split: if_splits)
    have c: "c \<in> set (day_candidates day f)" "c \<le> cap" using fd by (auto simp: find_Some_iff)
    then obtain h mi where "h \<in> hour_set f" "mi \<in> minute_set f" "c = at_time day h mi"
      unfolding set_day_candidates [OF wr] by auto
    moreover have "h \<in> {0..23}" "mi \<in> {0..59}" using wr calculation by (auto simp: well_ranged_def)
    ultimately have cd: "c div DAY = day" using at_time_parts(2) [of h mi day] by simp
    have fire: "cron_fires_at f c" using fires_on_day [OF wr] c(1) m cd by simp
    have max: "t \<le> c" if "cron_fires_at f t" "t div DAY \<le> day" "t \<le> cap" for t
    proof (cases "t div DAY = day")
      case True
      then show ?thesis
        using find_greatest [OF day_candidates_descending [OF wr] fd] fires_on_day [OF wr] that by blast
    next
      case False
      then have "t < day * DAY" using earlier that(2) by blast
      moreover have "day * DAY \<le> c" using cd int_le_div_iff [OF day_pos, of day c] by simp
      ultimately show ?thesis by simp
    qed
    have "cron_walk (Suc n) day cap last_sync now f \<longleftrightarrow> local last_sync < c"
      using m fd off by (simp add: instant_def)
    then show ?thesis using fire cd c(2) max by force
  next
    case None
    have none: "\<not> (cron_fires_at f t \<and> t div DAY = day \<and> t \<le> cap)" for t
      using None fires_on_day [OF wr, of t] by (auto simp: find_None_iff split: if_splits)
    have walk: "cron_walk (Suc n) day cap last_sync now f \<longleftrightarrow>
        \<not> day \<le> date_of last_sync \<and> cron_walk n (day - 1) cap last_sync now f"
      using None by (simp split: if_splits)
    show ?thesis
    proof (cases "day \<le> date_of last_sync")
      case True
      have "t < local last_sync" if "t div DAY \<le> day" "t div DAY \<noteq> day" for t
        using earlier [OF that] True int_le_div_iff [OF day_pos, of day "local last_sync"]
        unfolding date_of_def by linarith
      then show ?thesis using walk True none by force
    next
      case False
      have "cron_walk n (day - 1) cap last_sync now f \<longleftrightarrow>
          (\<exists>t. cron_fires_at f t \<and> t div DAY \<le> day - 1 \<and> local last_sync < t \<and> t \<le> cap)"
        using Suc.prems by (intro Suc.IH) simp
      moreover have "t div DAY \<le> day - 1 \<longleftrightarrow> t div DAY \<le> day"
        if "cron_fires_at f t" "t \<le> cap" for t using none [of t] that by auto
      ultimately show ?thesis using walk False by blast
    qed
  qed
qed

lemma is_cron_due_iff:
  assumes "well_ranged f" "utcoff last_sync = utcoff now" "date_of now - date_of last_sync < 8 * 366"
  shows "is_cron_due last_sync now f \<longleftrightarrow>
    (\<exists>t. cron_fires_at f t \<and> local last_sync < t \<and> t \<le> local now)"
proof -
  let ?cap = "local now div MINUTE * MINUTE"
  have cap: "t \<le> ?cap \<longleftrightarrow> t \<le> local now" if fires: "cron_fires_at f t" for t
  proof -
    have "MINUTE dvd t" using fires by (simp add: cron_fires_at_def mod_eq_0_iff_dvd)
    then obtain k where "t = k * MINUTE" by (metis dvdE mult.commute)
    then show ?thesis using int_le_div_iff [OF minute_pos(1), of k "local now"] minute_pos(1)
      by (simp only: mult_le_cancel_right_pos)
  qed
  have day: "?cap div DAY = date_of now"
    using minute_pos by (simp add: date_of_def DAY_MINUTE zdiv_zmult2_eq mult.commute [of _ MINUTE])
  have le: "t div DAY \<le> date_of now" if "t \<le> local now" for t
    using that unfolding date_of_def by (rule zdiv_mono1) (rule day_pos)
  have walk: "cron_walk (8 * 366) (date_of now) ?cap last_sync now f \<longleftrightarrow>
      (\<exists>t. cron_fires_at f t \<and> t div DAY \<le> date_of now \<and> local last_sync < t \<and> t \<le> ?cap)"
    using assms by (intro cron_walk_iff) simp_all
  have none: "\<not> (local last_sync < t \<and> t \<le> local now)" if "instant now \<le> instant last_sync" for t
    using that assms(2) by (simp add: instant_def)
  show ?thesis
    unfolding is_cron_due_def Let_def day walk using cap le none by auto
qed

section \<open>What the parsers accept\<close>

lemma cron_part_range:
  assumes "cron_part p lo hi = Some xs"
  shows "set xs \<subseteq> {lo..hi}"
  using assms
  by (auto simp: cron_part_def py_range_def Let_def split: if_splits option.splits prod.splits)

lemma cron_parts_range:
  "cron_parts ps lo hi V = Some W \<Longrightarrow> V \<subseteq> {lo..hi} \<Longrightarrow> W \<subseteq> {lo..hi} \<and> W \<noteq> {}"
proof (induction ps arbitrary: V)
  case (Cons p ps)
  then obtain xs where xs: "cron_part p lo hi = Some xs" by (auto split: option.splits)
  then have "V \<union> set xs \<subseteq> {lo..hi}" using cron_part_range [OF xs] Cons.prems(2) by blast
  with Cons.IH [of "V \<union> set xs"] Cons.prems(1) xs show ?case by simp
qed (auto split: if_splits)

lemma parse_cron_field_range:
  "parse_cron_field spec lo hi = Some V \<Longrightarrow> V \<subseteq> {lo..hi} \<and> V \<noteq> {}"
  unfolding parse_cron_field_def by (rule cron_parts_range) auto

lemma parse_cron_fields_range:
  assumes "parse_cron_fields expr = Some f"
  shows "minute_set f \<subseteq> {0..59} \<and> minute_set f \<noteq> {} \<and> hour_set f \<subseteq> {0..23} \<and> hour_set f \<noteq> {} \<and>
    dom_set f \<subseteq> {1..31} \<and> dom_set f \<noteq> {} \<and> month_set f \<subseteq> {1..12} \<and> month_set f \<noteq> {} \<and>
    dow_set f \<subseteq> {0..6} \<and> dow_set f \<noteq> {}"
proof -
  obtain a b c d e mi h dd mo dow where
    "parse_cron_field a 0 59 = Some mi" "parse_cron_field b 0 23 = Some h" "parse_cron_field c 1 31 = Some dd"
    "parse_cron_field d 1 12 = Some mo" "parse_cron_field e 0 6 = Some dow"
    "f = \<lparr>minute_set = mi, hour_set = h, dom_set = dd, month_set = mo, dow_set = dow\<rparr>"
    using assms by (auto simp: parse_cron_fields_def split: list.splits option.splits)
  then show ?thesis by (simp add: parse_cron_field_range)
qed

lemma after_prefix_iff: "after_prefix ps s = Some r \<longleftrightarrow> s = ps @ r"
  by (induction ps s rule: after_prefix.induct) auto

lemma match_cron_only:
  assumes "match_cron s = Some g"
  shows "parse_interval_minutes s = None" "match_daily s = None"
proof -
  obtain r where "s = ''cron '' @ r" using assms
    by (auto simp: match_cron_def after_prefix_iff split: option.splits)
  then show "parse_interval_minutes s = None" "match_daily s = None"
    by (simp_all add: parse_interval_minutes_def match_interval_def match_daily_def)
qed

lemma digits_value_nat_digits: "digits_value (nat_digits n) = int n"
proof -
  have "foldl (\<lambda>a c. 10 * a + int (digit_val c)) (int k) ds = int (foldl (\<lambda>a c. 10 * a + digit_val c) k ds)" for k ds
  proof (induction ds arbitrary: k)
    case (Cons c ds)
    from Cons [of "10 * k + digit_val c"] show ?case by simp
  qed simp
  from this [of 0] show ?thesis by (simp add: digits_value_def nat_digits_value)
qed

lemma match_interval_digits:
  assumes "u = CHR ''m'' \<or> u = CHR ''h''"
  shows "match_interval (''every '' @ nat_digits n @ [u]) = Some (int n, u)"
proof -
  have nd: "\<not> is_digit u" using assms by (auto simp: is_digit_def)
  have "takeWhile is_digit (nat_digits n @ [u]) = nat_digits n"
    "dropWhile is_digit (nat_digits n @ [u]) = [u]"
    using nat_digits_are_digits [of n] nd
    by (auto simp: list_all_iff takeWhile_append dropWhile_append)
  moreover have "after_prefix ''every '' (''every '' @ nat_digits n @ [u]) = Some (nat_digits n @ [u])"
    by (simp only: after_prefix_iff)
  moreover have "before_dollar [u] = [u]" using assms by (auto simp: before_dollar_def)
  ultimately show ?thesis using assms
    by (auto simp: match_interval_def digits_value_nat_digits Let_def)
qed

section \<open>A walk that finds nothing\<close>

lemma cron_walk_no_match:
  "(\<And>d. day - int n < d \<Longrightarrow> d \<le> day \<Longrightarrow> \<not> cron_date_matches d f) \<Longrightarrow>
   \<not> cron_walk n day cap last_sync now f"
proof (induction n arbitrary: day)
  case (Suc n)
  have "\<not> cron_walk n (day - 1) cap last_sync now f" using Suc.prems by (intro Suc.IH) simp
  moreover have "\<not> cron_date_matches day f" using Suc.prems by simp
  ultimately show ?case by simp
qed simp

definition leap_monday :: cron_fields where
  "leap_monday = \<lparr>minute_set = {0}, hour_set = {0}, dom_set = {29}, month_set = {2}, dow_set = {1}\<rparr>"

lemma no_leap_monday_code:
  "list_all (\<lambda>k. month_day (7 * k + 1) \<noteq> (2, 29)) [105147..105564]"
  by code_simp

lemma no_leap_monday:
  assumes "736027 < d" "d \<le> 738955"
  shows "\<not> cron_date_matches d leap_monday"
proof
  assume m: "cron_date_matches d leap_monday"
  then have md: "month_day d = (2, 29)" by (simp add: cron_date_matches_def leap_monday_def prod_eq_iff)
  have "(d + 6) mod 7 = 0" using m by (simp add: cron_date_matches_def leap_monday_def weekday_def) presburger
  then have "d = 7 * ((d - 1) div 7) + 1" by presburger
  then obtain k where k: "d = 7 * k + 1" by blast
  then have "105147 \<le> k" "k \<le> 105564" using assms by linarith+
  then have "k \<in> {105147..105564}" by (simp only: atLeastAtMost_iff simp_thms)
  then show False using bspec [OF no_leap_monday_code [unfolded list_all_iff set_upto]] md k by blast
qed

section \<open>Properties\<close>

text \<open>
  C22. Cron schedules: within the eight-year search bound, a table with a valid cron schedule is due
  exactly when the schedule fires at some instant after the last sync and not after now; the walk
  over days agrees with the declarative reading of the five fields.
\<close>

theorem cron_due_exact:
  assumes "match_cron s = Some g" "parse_cron_fields g = Some f"
    and "ts \<noteq> []" "parse_timestamp ts = Some d" "utcoff (aware d) = utcoff now"
    and "date_of now - date_of d < 8 * 366"
  shows "is_table_due parse_timestamp s (Some ts) now \<longleftrightarrow>
    (\<exists>t. cron_fires_at f t \<and> local d < t \<and> t \<le> local now)"
proof -
  have wr: "well_ranged f" using parse_cron_fields_range [OF assms(2)] by (simp add: well_ranged_def)
  have same: "local (aware d) = local d" "date_of (aware d) = date_of d"
    by (simp_all add: aware_def date_of_def split: option.split)
  show ?thesis
    using is_cron_due_iff [OF wr assms(5)] assms(1-4,6) match_cron_only [OF assms(1)]
    by (simp add: is_table_due_def schedule_due_def same)
qed

definition utc :: "int \<Rightarrow> int \<Rightarrow> int \<Rightarrow> pydatetime" where
  "utc day h m = \<lparr>local = at_time day h m, utcoff = Some 0\<rparr>"

definition nightly :: cron_fields where
  "nightly = \<lparr>minute_set = {50}, hour_set = {23}, dom_set = {1..31}, month_set = {1..12}, dow_set = {0..6}\<rparr>"

lemma parse_nightly:
  "match_cron ''cron 50 23 * * *'' = Some ''50 23 * * *''" "parse_cron_fields ''50 23 * * *'' = Some nightly"
  by code_simp+

lemma nightly_fires: "cron_fires_at nightly (at_time 738000 23 50)"
  by (simp add: cron_fires_at_def at_time_parts cron_date_matches_def nightly_def month_day_def weekday_def
      days_before_month_def days_in_month_def Let_def)

theorem cron_due_exact_witness:
  "is_table_due (\<lambda>_. Some (utc 738000 12 0)) ''cron 50 23 * * *'' (Some ''2021-07-27'') (utc 738001 0 5)"
proof -
  have off: "utcoff (aware (utc 738000 12 0)) = utcoff (utc 738001 0 5)" by (simp add: aware_def utc_def)
  have days: "date_of (utc 738001 0 5) - date_of (utc 738000 12 0) < 8 * 366"
    by (simp add: date_of_def utc_def at_time_parts)
  have ts: "''2021-07-27'' \<noteq> []" by simp
  have win: "local (utc 738000 12 0) < at_time 738000 23 50" "at_time 738000 23 50 \<le> local (utc 738001 0 5)"
    by (simp_all add: utc_def at_time_def DAY_def HOUR_def MINUTE_def)
  show ?thesis
    using cron_due_exact [OF parse_nightly ts _ off days, of "\<lambda>_. Some (utc 738000 12 0)"] nightly_fires win
    by blast
qed

text \<open>
  The catch-up contract differs between the two daily forms. With the last sync at noon and the
  next check five minutes after midnight, \<open>cron 50 23 * * *\<close> is due, because the 23:50 run was missed,
  while \<open>daily 23:50\<close> is not: the daily form looks only at today's target, so a missed run is lost
  once midnight has passed.
\<close>

theorem daily_forgets_missed_run:
  "is_table_due (\<lambda>_. Some (utc 738000 12 0)) ''cron 50 23 * * *'' (Some ''t'') (utc 738001 0 5) \<and>
   \<not> is_table_due (\<lambda>_. Some (utc 738000 12 0)) ''daily 23:50'' (Some ''t'') (utc 738001 0 5)"
proof
  have wr: "well_ranged nightly" by (simp add: well_ranged_def nightly_def)
  have "is_cron_due (utc 738000 12 0) (utc 738001 0 5) nightly"
    using is_cron_due_iff [OF wr, of "utc 738000 12 0" "utc 738001 0 5"] nightly_fires
    by (auto simp: utc_def date_of_def at_time_parts intro!: exI [of _ "at_time 738000 23 50"])
      (simp_all add: at_time_def DAY_def HOUR_def MINUTE_def)
  then show "is_table_due (\<lambda>_. Some (utc 738000 12 0)) ''cron 50 23 * * *'' (Some ''t'') (utc 738001 0 5)"
    using match_cron_only [OF parse_nightly(1)] parse_nightly
    by (simp add: is_table_due_def schedule_due_def aware_def utc_def)
  have p: "parse_interval_minutes ''daily 23:50'' = None" "match_daily ''daily 23:50'' = Some ''23:50''"
    "parse_daily_times ''23:50'' = [(23, 50)]"
    by code_simp+
  show "\<not> is_table_due (\<lambda>_. Some (utc 738000 12 0)) ''daily 23:50'' (Some ''t'') (utc 738001 0 5)"
    by (simp add: is_table_due_def schedule_due_def p is_daily_due_def aware_def utc_def date_of_def
        at_time_parts instant_def Let_def)
      (simp add: at_time_def DAY_def HOUR_def MINUTE_def)
qed

text \<open>
  The eight-year bound can skip a real occurrence, because day of month and day of week must
  both match: midnight on a 29 February that is a Monday (2016, and next in 2044) fired after the
  last sync on 28 February 2016, yet on 10 March 2024 the search reports that nothing is due.
\<close>

theorem cron_bound_skips_occurrence:
  "let last_sync = utc 736022 12 0; now = utc 738955 0 0 in
   (\<exists>t. cron_fires_at leap_monday t \<and> local last_sync < t \<and> t \<le> local now) \<and>
   \<not> is_cron_due last_sync now leap_monday"
proof -
  have "cron_fires_at leap_monday (at_time 736023 0 0)"
    by (simp add: cron_fires_at_def at_time_parts cron_date_matches_def leap_monday_def month_day_def
        weekday_def days_before_month_def days_in_month_def Let_def)
  moreover have "local (utc 736022 12 0) < at_time 736023 0 0" "at_time 736023 0 0 \<le> local (utc 738955 0 0)"
    by (simp_all add: utc_def at_time_def DAY_def HOUR_def MINUTE_def)
  moreover have "\<not> is_cron_due (utc 736022 12 0) (utc 738955 0 0) leap_monday"
  proof -
    have cap: "local (utc 738955 0 0) div MINUTE * MINUTE div DAY = 738955"
      by (simp add: utc_def at_time_def DAY_def HOUR_def MINUTE_def)
    have "\<not> cron_walk (8 * 366) 738955 (local (utc 738955 0 0) div MINUTE * MINUTE)
        (utc 736022 12 0) (utc 738955 0 0) leap_monday"
      by (rule cron_walk_no_match) (simp add: no_leap_monday)
    then show ?thesis by (simp add: is_cron_due_def cap)
  qed
  ultimately show ?thesis unfolding Let_def by blast
qed

text \<open>
  C40. Accepted cron expressions are well formed: each of the five fields denotes a non-empty set of
  values within its range.
\<close>

theorem cron_fields_in_range:
  assumes "parse_cron_fields expr = Some f"
  shows "minute_set f \<subseteq> {0..59} \<and> minute_set f \<noteq> {} \<and> hour_set f \<subseteq> {0..23} \<and> hour_set f \<noteq> {} \<and>
    dom_set f \<subseteq> {1..31} \<and> dom_set f \<noteq> {} \<and> month_set f \<subseteq> {1..12} \<and> month_set f \<noteq> {} \<and>
    dow_set f \<subseteq> {0..6} \<and> dow_set f \<noteq> {}"
  using assms by (rule parse_cron_fields_range)

theorem cron_fields_in_range_witness: "minute_set nightly \<subseteq> {0..59}"
  using cron_fields_in_range [OF parse_nightly(2)] by blast

text \<open>
  Interval schedules: for every number, \<open>every Nm\<close> and \<open>every Nh\<close> are valid, and a table that
  was synced is due exactly when at least that many minutes or hours have passed.
\<close>

theorem interval_due_exact:
  assumes "ts \<noteq> []" "parse_timestamp ts = Some d"
  shows "is_valid_schedule (Some (''every '' @ nat_digits n @ ''m'')) \<and>
    (is_table_due parse_timestamp (''every '' @ nat_digits n @ ''m'') (Some ts) now \<longleftrightarrow>
       int n * MINUTE \<le> instant now - instant d) \<and>
    is_valid_schedule (Some (''every '' @ nat_digits n @ ''h'')) \<and>
    (is_table_due parse_timestamp (''every '' @ nat_digits n @ ''h'') (Some ts) now \<longleftrightarrow>
       int n * HOUR \<le> instant now - instant d)"
proof -
  have p: "parse_interval_minutes (''every '' @ nat_digits n @ ''m'') = Some (int n)"
    "parse_interval_minutes (''every '' @ nat_digits n @ ''h'') = Some (int n * 60)"
    using match_interval_digits [of "CHR ''m''" n] match_interval_digits [of "CHR ''h''" n]
    by (simp_all add: parse_interval_minutes_def)
  have "instant (aware d) = instant d" by (simp add: instant_def aware_def split: option.split)
  then show ?thesis using assms p
    by (simp add: is_table_due_def schedule_due_def is_valid_schedule_def HOUR_def mult.assoc)
qed

theorem interval_due_exact_witness:
  "is_table_due (\<lambda>_. Some (utc 738000 12 0)) (''every '' @ nat_digits 90 @ ''m'') (Some ''t'') (utc 738000 13 30)"
proof -
  have "''t'' \<noteq> []" by simp
  note i = interval_due_exact [OF this, of "\<lambda>_. Some (utc 738000 12 0)", OF refl]
  have "int 90 * MINUTE \<le> instant (utc 738000 13 30) - instant (utc 738000 12 0)"
    by (simp add: instant_def utc_def at_time_def DAY_def HOUR_def MINUTE_def)
  then show ?thesis using i [of 90 "utc 738000 13 30"] by blast
qed

text \<open>
  The sync filter: given that ISO text reads back as the instant it was written from, it keeps
  exactly the tables, in order, that have no schedule, a malformed schedule, no recorded sync, or a
  schedule that is due since the recorded sync; the sync is looked up by name, or by id without one.
\<close>

theorem filter_due_tables_exact:
  assumes "\<And>i d. get_last_sync i = Some d \<Longrightarrow>
    isoformat (aware d) \<noteq> [] \<and> parse_timestamp (isoformat (aware d)) = Some (aware d)"
  shows "filter_due_tables isoformat parse_timestamp get_last_sync now tcs =
    filter (\<lambda>tc. case py_or (sync_schedule tc) None of
        None \<Rightarrow> True
      | Some s \<Rightarrow> \<not> is_valid_schedule (Some s) \<or>
          (case get_last_sync (py_or (tc_name tc) (tc_id tc)) of
             None \<Rightarrow> True | Some d \<Rightarrow> schedule_due s (aware d) now)) tcs"
proof -
  have idem: "aware (aware d) = aware d" for d by (simp add: aware_def split: option.split)
  have "is_table_due parse_timestamp s (map_option (\<lambda>d. isoformat (aware d)) (get_last_sync i)) now \<longleftrightarrow>
      (case get_last_sync i of None \<Rightarrow> True | Some d \<Rightarrow> schedule_due s (aware d) now)" for s i
    using assms [of i] by (auto simp: is_table_due_def idem split: option.split)
  then show ?thesis by (induction tcs) (simp_all add: Let_def split: option.split)
qed

theorem filter_due_tables_exact_witness:
  "filter_due_tables (\<lambda>_. ''t'') (\<lambda>_. Some (utc 738000 12 0)) (\<lambda>_. Some (utc 738000 12 0)) (utc 738000 12 30)
     [\<lparr>tc_name = Some ''a'', tc_id = None, sync_schedule = None\<rparr>,
      \<lparr>tc_name = Some ''b'', tc_id = None, sync_schedule = Some (''every '' @ nat_digits 1 @ ''h'')\<rparr>] =
     [\<lparr>tc_name = Some ''a'', tc_id = None, sync_schedule = None\<rparr>]"
proof -
  have p: "parse_interval_minutes (''every '' @ nat_digits 1 @ ''h'') = Some 60"
    using match_interval_digits [of "CHR ''h''" 1] by (simp add: parse_interval_minutes_def)
  have n: "\<not> schedule_due (''every '' @ nat_digits 1 @ ''h'') (aware (utc 738000 12 0)) (utc 738000 12 30)"
    unfolding schedule_due_def p
    by (simp add: instant_def aware_def utc_def at_time_def DAY_def HOUR_def MINUTE_def)
  have v: "is_valid_schedule (Some (''every '' @ nat_digits 1 @ ''h''))"
    unfolding is_valid_schedule_def option.case p by simp
  have h: "(\<lambda>_ :: string option. Some (utc 738000 12 0)) i = Some d \<Longrightarrow>
      (\<lambda>_. ''t'') (aware d) \<noteq> [] \<and> (\<lambda>_. Some (utc 738000 12 0)) ((\<lambda>_. ''t'') (aware d)) = Some (aware d)" for i d
    by (auto simp: aware_def utc_def)
  show ?thesis
    by (subst filter_due_tables_exact [OF h]) (use n v in \<open>auto simp: py_or_def\<close>)
qed

end
