(* ===== verification/AuthTables.thy ===== *)
theory AuthTables
  imports Prelude "HOL-Library.List_Lexorder" "HOL-Library.Char_ord" "HOL-Library.Product_Lexorder"
begin

text \<open>
  The tables the authorization layer reads and the repositories that write them:
  \<open>src/repositories/user_groups.py\<close>, \<open>user_group_members.py\<close>, \<open>resource_grants.py\<close> and
  \<open>user_stack_subscriptions.py\<close>. A table is the list of its rows; the keys, the unique
  constraints and the foreign keys of the schema are checks of the inserts, and a violated one is
  the value \<open>DBConstraint\<close>. Ids drawn with \<open>uuid4\<close> and the column defaults \<open>current_timestamp\<close> are
  arguments.
\<close>

section \<open>Tables\<close>

datatype db_error =
    DBConstraint | DBConflict | DBValueError | SystemGroupProtected

record ugroup =
  ug_id :: string
  ug_name :: string
  ug_descr :: "string option"
  ug_system :: bool
  ug_at :: micros
  ug_by :: "string option"

record membership =
  m_user :: string
  m_group :: string
  m_source :: string
  m_at :: micros
  m_by :: "string option"

text \<open>
  \<open>g_typed\<close> is the one per-type column a grant fills (its name and value), \<open>None\<close> for the types
  that have no such column.
\<close>

record grant =
  g_id :: string
  g_group :: string
  g_type :: string
  g_res :: string
  g_req :: "string option"
  g_at :: micros
  g_by :: "string option"
  g_typed :: "(string \<times> string) option"

record mplugin =
  mp_market :: string
  mp_name :: string
  mp_system :: bool
  mp_disabled :: bool

record subscription =
  sub_user :: string
  sub_type :: string
  sub_res :: string
  sub_at :: micros

record adb =
  ugroups :: "ugroup list"
  members :: "membership list"
  grants :: "grant list"
  mplugins :: "mplugin list"
  subs :: "subscription list"

definition has_group :: "string \<Rightarrow> adb \<Rightarrow> bool" where
  "has_group g db \<longleftrightarrow> (\<exists>r\<in>set (ugroups db). ug_id r = g)"

section \<open>Memberships\<close>

definition list_groups_for_user :: "string \<Rightarrow> adb \<Rightarrow> string list" where
  "list_groups_for_user u db = map m_group (filter (\<lambda>m. m_user m = u) (members db))"

definition has_membership :: "string \<Rightarrow> string \<Rightarrow> adb \<Rightarrow> bool" where
  "has_membership u g db \<longleftrightarrow> (\<exists>m\<in>set (members db). m_user m = u \<and> m_group m = g)"

text \<open>The insert with its primary key \<open>(user_id, group_id)\<close> and its foreign key to \<open>user_groups\<close>.\<close>

definition insert_member ::
  "micros \<Rightarrow> string \<Rightarrow> string \<Rightarrow> string \<Rightarrow> string option \<Rightarrow> adb \<Rightarrow> db_error + adb" where
  "insert_member now u g source by db =
     (if has_membership u g db \<or> \<not> has_group g db then Inl DBConstraint
      else Inr (db\<lparr>members := members db @
              [\<lparr>m_user = u, m_group = g, m_source = source, m_at = now, m_by = by\<rparr>]\<rparr>))"

text \<open>Every constraint violation is swallowed, a missing group's included.\<close>

definition add_member ::
  "micros \<Rightarrow> string \<Rightarrow> string \<Rightarrow> string \<Rightarrow> string option \<Rightarrow> adb \<Rightarrow> adb" where
  "add_member now u g source by db =
     (case insert_member now u g source by db of Inl _ \<Rightarrow> db | Inr db' \<Rightarrow> db')"

definition remove_member :: "string \<Rightarrow> string \<Rightarrow> string option \<Rightarrow> adb \<Rightarrow> bool \<times> adb" where
  "remove_member u g require_source db =
     (let hit = (\<lambda>m. m_user m = u \<and> m_group m = g \<and>
                  (case require_source of None \<Rightarrow> True | Some s \<Rightarrow> m_source m = s))
      in (list_ex hit (members db), db\<lparr>members := filter (\<lambda>m. \<not> hit m) (members db)\<rparr>))"

text \<open>
  One attempt of \<open>replace_google_sync_groups\<close>: the delete, then one insert per group with
  \<open>ON CONFLICT (user_id, group_id) DO NOTHING\<close>; a foreign-key violation aborts the transaction.
\<close>

definition google_source :: string where "google_source = ''google_sync''"

fun sync_inserts ::
  "micros \<Rightarrow> string \<Rightarrow> string list \<Rightarrow> string \<Rightarrow> adb \<Rightarrow> db_error + adb" where
  "sync_inserts now u [] by db = Inr db"
| "sync_inserts now u (g # gs) by db =
     (if has_membership u g db then sync_inserts now u gs by db
      else rbind (insert_member now u g google_source (Some by) db) (sync_inserts now u gs by))"

definition sync_attempt ::
  "micros \<Rightarrow> string \<Rightarrow> string list \<Rightarrow> string \<Rightarrow> adb \<Rightarrow> db_error + adb" where
  "sync_attempt now u gs by db =
     sync_inserts now u gs by
       (db\<lparr>members := filter (\<lambda>m. \<not> (m_user m = u \<and> m_source m = google_source)) (members db)\<rparr>)"

text \<open>
  The retry loop. \<open>env i\<close> is what other sessions commit before attempt \<open>i\<close> starts, \<open>conflict i\<close>
  tells whether that attempt loses the write-write race; a lost attempt is rolled back. The loop
  makes at most \<open>_SYNC_CONFLICT_RETRIES\<close> attempts.
\<close>

definition sync_conflict_retries :: nat where "sync_conflict_retries = 3"

fun sync_loop ::
  "nat \<Rightarrow> nat \<Rightarrow> (nat \<Rightarrow> adb \<Rightarrow> adb) \<Rightarrow> (nat \<Rightarrow> bool) \<Rightarrow> micros \<Rightarrow> string \<Rightarrow> string list \<Rightarrow> string
     \<Rightarrow> adb \<Rightarrow> (db_error + unit) \<times> adb" where
  "sync_loop 0 attempt env conflict now u gs by db = (Inl DBConflict, db)"
| "sync_loop (Suc n) attempt env conflict now u gs by db =
     (let db0 = env attempt db
      in if conflict attempt then sync_loop n (Suc attempt) env conflict now u gs by db0
         else case sync_attempt now u gs by db0 of
                Inl e \<Rightarrow> (Inl e, db0)
              | Inr db' \<Rightarrow> (Inr (), db'))"

definition replace_google_sync_groups ::
  "(nat \<Rightarrow> adb \<Rightarrow> adb) \<Rightarrow> (nat \<Rightarrow> bool) \<Rightarrow> micros \<Rightarrow> string \<Rightarrow> string list \<Rightarrow> string
     \<Rightarrow> adb \<Rightarrow> (db_error + unit) \<times> adb" where
  "replace_google_sync_groups env conflict now u gs by db =
     sync_loop sync_conflict_retries 0 env conflict now u gs by db"

definition remove_user_from_all_groups :: "string \<Rightarrow> adb \<Rightarrow> nat \<times> adb" where
  "remove_user_from_all_groups u db =
     (length (filter (\<lambda>m. m_user m = u) (members db)),
      db\<lparr>members := filter (\<lambda>m. m_user m \<noteq> u) (members db)\<rparr>)"

definition count_members :: "string \<Rightarrow> adb \<Rightarrow> nat" where
  "count_members g db = length (filter (\<lambda>m. m_group m = g) (members db))"

definition members_delete_all_for_group :: "string \<Rightarrow> adb \<Rightarrow> nat \<times> adb" where
  "members_delete_all_for_group g db =
     (count_members g db, db\<lparr>members := filter (\<lambda>m. m_group m \<noteq> g) (members db)\<rparr>)"

definition list_group_names_for_user :: "string \<Rightarrow> adb \<Rightarrow> string list" where
  "list_group_names_for_user u db =
     concat (map (\<lambda>m. map ug_name (filter (\<lambda>r. ug_id r = m_group m) (ugroups db)))
       (filter (\<lambda>m. m_user m = u) (members db)))"

definition has_any_google_sync_membership :: "string \<Rightarrow> adb \<Rightarrow> bool" where
  "has_any_google_sync_membership u db \<longleftrightarrow>
     (\<exists>m\<in>set (members db). m_user m = u \<and> m_source m = google_source)"

definition google_sync_summary :: "string \<Rightarrow> adb \<Rightarrow> nat \<times> micros option" where
  "google_sync_summary u db =
     (let stamps = map m_at (filter (\<lambda>m. m_user m = u \<and> m_source m = google_source) (members db))
      in (length stamps, if stamps = [] then None else Some (foldr max (tl stamps) (hd stamps))))"

section \<open>Grants\<close>

definition per_type_column :: "string \<Rightarrow> string option" where
  "per_type_column t =
     map_of [(''table'', ''resource_id_table''), (''data_package'', ''resource_id_data_package''),
       (''memory_domain'', ''resource_id_memory_domain''), (''memory_item'', ''resource_id_memory_item''),
       (''recipe'', ''resource_id_recipe'')] t"

definition list_for_groups :: "string list \<Rightarrow> string option \<Rightarrow> adb \<Rightarrow> grant list" where
  "list_for_groups gs rtype db =
     (if gs = [] then []
      else sort_key (\<lambda>r. (g_type r, g_res r))
             (filter (\<lambda>r. g_group r \<in> set gs \<and>
                (case rtype of None \<Rightarrow> True | Some t \<Rightarrow> t = [] \<or> g_type r = t)) (grants db)))"

definition list_resource_ids_for_user :: "string \<Rightarrow> string \<Rightarrow> adb \<Rightarrow> string list" where
  "list_resource_ids_for_user u t db =
     remdups (concat (map (\<lambda>r. map (\<lambda>_. g_res r)
         (filter (\<lambda>m. m_group m = g_group r \<and> m_user m = u) (members db)))
       (filter (\<lambda>r. g_type r = t) (grants db))))"

definition get_grant :: "string \<Rightarrow> adb \<Rightarrow> grant option" where
  "get_grant i db = find (\<lambda>r. g_id r = i) (grants db)"

definition has_grant :: "string list \<Rightarrow> string \<Rightarrow> string \<Rightarrow> adb \<Rightarrow> bool" where
  "has_grant gs t res db \<longleftrightarrow>
     gs \<noteq> [] \<and> (\<exists>r\<in>set (grants db). g_group r \<in> set gs \<and> g_type r = t \<and> g_res r = res)"

definition grant_key_taken :: "string \<Rightarrow> string \<Rightarrow> string \<Rightarrow> adb \<Rightarrow> bool" where
  "grant_key_taken g t res db \<longleftrightarrow>
     (\<exists>r\<in>set (grants db). g_group r = g \<and> g_type r = t \<and> g_res r = res)"

text \<open>The primary key, the foreign key and the unique key \<open>(group_id, resource_type, resource_id)\<close>.\<close>

definition insert_grant :: "grant \<Rightarrow> adb \<Rightarrow> db_error + adb" where
  "insert_grant r db =
     (if get_grant (g_id r) db \<noteq> None \<or> \<not> has_group (g_group r) db
         \<or> grant_key_taken (g_group r) (g_type r) (g_res r) db
      then Inl DBConstraint
      else Inr (db\<lparr>grants := grants db @ [r]\<rparr>))"

definition new_grant ::
  "micros \<Rightarrow> string \<Rightarrow> string \<Rightarrow> string \<Rightarrow> string \<Rightarrow> string option \<Rightarrow> string \<Rightarrow> grant" where
  "new_grant now i g t res by req =
     \<lparr>g_id = i, g_group = g, g_type = t, g_res = res, g_req = Some req, g_at = now, g_by = by,
      g_typed = map_option (\<lambda>c. (c, res)) (per_type_column t)\<rparr>"

definition req_ok :: "string \<Rightarrow> bool" where
  "req_ok r \<longleftrightarrow> r = ''available'' \<or> r = ''required''"

definition create_grant ::
  "micros \<Rightarrow> string \<Rightarrow> string \<Rightarrow> string \<Rightarrow> string \<Rightarrow> string option \<Rightarrow> string option \<Rightarrow> adb
     \<Rightarrow> db_error + string \<times> adb" where
  "create_grant now uuid g t res by requirement db =
     (case requirement of
        None \<Rightarrow> rbind (insert_grant (new_grant now uuid g t res by ''available'') db)
                  (\<lambda>db'. Inr (uuid, db'))
      | Some req \<Rightarrow>
          if \<not> req_ok req then Inl DBValueError
          else rbind (insert_grant (new_grant now uuid g t res by req) db) (\<lambda>db'. Inr (uuid, db')))"

definition update_requirement :: "string \<Rightarrow> string \<Rightarrow> adb \<Rightarrow> db_error + (string option option) \<times> adb" where
  "update_requirement i req db =
     (if \<not> req_ok req then Inl DBValueError
      else case get_grant i db of
             None \<Rightarrow> Inr (None, db)
           | Some r \<Rightarrow> Inr (Some (g_req r),
               db\<lparr>grants := map (\<lambda>x. if g_id x = i then x\<lparr>g_req := Some req\<rparr> else x) (grants db)\<rparr>))"

text \<open>
  \<open>INSERT OR IGNORE\<close> skips on a primary or unique key; a missing group still violates the foreign
  key.
\<close>

definition ensure_grant ::
  "micros \<Rightarrow> string \<Rightarrow> string \<Rightarrow> string \<Rightarrow> string \<Rightarrow> string option \<Rightarrow> adb \<Rightarrow> db_error + bool \<times> adb" where
  "ensure_grant now uuid g t res by db =
     (if get_grant uuid db \<noteq> None \<or> grant_key_taken g t res db then Inr (grant_key_taken g t res db, db)
      else rbind (insert_grant (new_grant now uuid g t res by ''available'') db)
             (\<lambda>db'. Inr (grant_key_taken g t res db', db')))"

definition delete_grants :: "(grant \<Rightarrow> bool) \<Rightarrow> adb \<Rightarrow> nat \<times> adb" where
  "delete_grants P db =
     (length (filter P (grants db)), db\<lparr>grants := filter (\<lambda>r. \<not> P r) (grants db)\<rparr>)"

definition delete_grant :: "string \<Rightarrow> adb \<Rightarrow> bool \<times> adb" where
  "delete_grant i db = (let (n, db') = delete_grants (\<lambda>r. g_id r = i) db in (n \<noteq> 0, db'))"

definition delete_by_resource :: "string \<Rightarrow> string \<Rightarrow> adb \<Rightarrow> nat \<times> adb" where
  "delete_by_resource t res db = delete_grants (\<lambda>r. g_type r = t \<and> g_res r = res) db"

text \<open>\<open>split_part(resource_id, '/', 1)\<close>: the text before the first slash.\<close>

definition first_part :: "string \<Rightarrow> string" where
  "first_part s = takeWhile (\<lambda>c. c \<noteq> CHR ''/'') s"

definition delete_for_marketplace_plugins :: "string \<Rightarrow> adb \<Rightarrow> nat \<times> adb" where
  "delete_for_marketplace_plugins mk db =
     delete_grants (\<lambda>r. g_type r = ''marketplace_plugin'' \<and> first_part (g_res r) = mk) db"

definition grants_delete_all_for_group :: "string \<Rightarrow> adb \<Rightarrow> nat \<times> adb" where
  "grants_delete_all_for_group g db = delete_grants (\<lambda>r. g_group r = g) db"

definition count_for_group :: "string \<Rightarrow> adb \<Rightarrow> nat" where
  "count_for_group g db = length (filter (\<lambda>r. g_group r = g) (grants db))"

text \<open>
  The fan-out of the system plugins to one group; \<open>uuid i\<close> is the id drawn for the \<open>i\<close>-th insert.
\<close>

definition plugin_res :: "mplugin \<Rightarrow> string" where
  "plugin_res p = mp_market p @ ''/'' @ mp_name p"

fun fanout_loop ::
  "micros \<Rightarrow> (nat \<Rightarrow> string) \<Rightarrow> string \<Rightarrow> string option \<Rightarrow> nat \<Rightarrow> mplugin list \<Rightarrow> adb \<Rightarrow> nat \<times> adb" where
  "fanout_loop now uuid g by i [] db = (0, db)"
| "fanout_loop now uuid g by i (p # ps) db =
     (case insert_grant (new_grant now (uuid i) g ''marketplace_plugin'' (plugin_res p) by ''available'') db of
        Inl _ \<Rightarrow> fanout_loop now uuid g by (Suc i) ps db
      | Inr db' \<Rightarrow> (case fanout_loop now uuid g by (Suc i) ps db' of (n, db'') \<Rightarrow> (Suc n, db'')))"

definition active_system :: "mplugin \<Rightarrow> bool" where
  "active_system p \<longleftrightarrow> mp_system p \<and> \<not> mp_disabled p"

definition fanout_system_for_group ::
  "micros \<Rightarrow> (nat \<Rightarrow> string) \<Rightarrow> string \<Rightarrow> string option \<Rightarrow> adb \<Rightarrow> nat \<times> adb" where
  "fanout_system_for_group now uuid g by db =
     fanout_loop now uuid g by 0 (filter active_system (mplugins db)) db"

section \<open>Groups\<close>

definition get_group :: "string \<Rightarrow> adb \<Rightarrow> ugroup option" where
  "get_group i db = find (\<lambda>r. ug_id r = i) (ugroups db)"

definition get_group_by_name :: "string \<Rightarrow> adb \<Rightarrow> ugroup option" where
  "get_group_by_name nm db = find (\<lambda>r. ug_name r = nm) (ugroups db)"

definition list_names_by_ids :: "string list \<Rightarrow> adb \<Rightarrow> string list" where
  "list_names_by_ids gs db =
     (if gs = [] then [] else sort (map ug_name (filter (\<lambda>r. ug_id r \<in> set gs) (ugroups db))))"

text \<open>
  \<open>create\<close>: the insert (primary key \<open>id\<close>, unique \<open>name\<close>), then the fan-out of the system plugins,
  whose own constraint violations are swallowed row by row.
\<close>

definition create_group ::
  "micros \<Rightarrow> string \<Rightarrow> (nat \<Rightarrow> string) \<Rightarrow> string \<Rightarrow> string option \<Rightarrow> string option \<Rightarrow> bool \<Rightarrow> adb
     \<Rightarrow> db_error + ugroup option \<times> adb" where
  "create_group now gid uuid nm descr by is_system db =
     (if get_group gid db \<noteq> None \<or> get_group_by_name nm db \<noteq> None then Inl DBConstraint
      else let row = \<lparr>ug_id = gid, ug_name = nm, ug_descr = descr, ug_system = is_system,
                      ug_at = now, ug_by = by\<rparr>;
               db1 = db\<lparr>ugroups := ugroups db @ [row]\<rparr>;
               db2 = snd (fanout_system_for_group now uuid gid by db1)
           in Inr (get_group gid db2, db2))"

definition or_default :: "string option \<Rightarrow> string \<Rightarrow> string" where
  "or_default s d = (case s of None \<Rightarrow> d | Some t \<Rightarrow> if t = [] then d else t)"

definition ensure_group ::
  "micros \<Rightarrow> string \<Rightarrow> (nat \<Rightarrow> string) \<Rightarrow> string \<Rightarrow> string option \<Rightarrow> string \<Rightarrow> adb
     \<Rightarrow> db_error + ugroup option \<times> adb" where
  "ensure_group now gid uuid nm descr by db =
     (case get_group_by_name nm db of
        Some r \<Rightarrow> Inr (Some r, db)
      | None \<Rightarrow> create_group now gid uuid nm
                  (Some (or_default descr ''Auto-created from Google Workspace claim'')) (Some by) False db)"

definition set_system :: "string \<Rightarrow> adb \<Rightarrow> adb" where
  "set_system i db =
     db\<lparr>ugroups := map (\<lambda>r. if ug_id r = i then r\<lparr>ug_system := True\<rparr> else r) (ugroups db)\<rparr>"

definition ensure_system ::
  "micros \<Rightarrow> string \<Rightarrow> (nat \<Rightarrow> string) \<Rightarrow> string \<Rightarrow> string \<Rightarrow> adb \<Rightarrow> db_error + ugroup option \<times> adb" where
  "ensure_system now gid uuid nm descr db =
     (case get_group_by_name nm db of
        Some r \<Rightarrow>
          if ug_system r then Inr (Some r, db)
          else Inr (get_group (ug_id r) (set_system (ug_id r) db), set_system (ug_id r) db)
      | None \<Rightarrow> create_group now gid uuid nm (Some descr) None True db)"

text \<open>
  \<open>update\<close>: a rename of a system group is refused; the \<open>UPDATE\<close> violates the unique name when
  another row has it.
\<close>

definition update_group :: "string \<Rightarrow> string option \<Rightarrow> string option \<Rightarrow> adb \<Rightarrow> db_error + adb" where
  "update_group i nm descr db =
     (if (case get_group i db of None \<Rightarrow> False
          | Some r \<Rightarrow> ug_system r \<and> nm \<noteq> None \<and> nm \<noteq> Some (ug_name r))
      then Inl SystemGroupProtected
      else if nm = None \<and> descr = None then Inr db
      else if (case nm of None \<Rightarrow> False
               | Some n \<Rightarrow> get_group i db \<noteq> None \<and>
                   (\<exists>r\<in>set (ugroups db). ug_id r \<noteq> i \<and> ug_name r = n))
      then Inl DBConstraint
      else Inr (db\<lparr>ugroups := map (\<lambda>r. if ug_id r = i
             then r\<lparr>ug_name := (case nm of None \<Rightarrow> ug_name r | Some n \<Rightarrow> n),
                    ug_descr := (case descr of None \<Rightarrow> ug_descr r | Some d \<Rightarrow> Some d)\<rparr>
             else r) (ugroups db)\<rparr>))"

text \<open>\<open>delete\<close>: refused for a system group; the foreign keys refuse it while rows point at it.\<close>

definition delete_group :: "string \<Rightarrow> adb \<Rightarrow> db_error + adb" where
  "delete_group i db =
     (if (case get_group i db of None \<Rightarrow> False | Some r \<Rightarrow> ug_system r) then Inl SystemGroupProtected
      else if get_group i db \<noteq> None \<and> (0 < count_members i db \<or> 0 < count_for_group i db)
      then Inl DBConstraint
      else Inr (db\<lparr>ugroups := filter (\<lambda>r. ug_id r \<noteq> i) (ugroups db)\<rparr>))"

section \<open>Subscriptions\<close>

definition is_subscribed :: "string \<Rightarrow> string \<Rightarrow> string \<Rightarrow> adb \<Rightarrow> bool" where
  "is_subscribed u t res db \<longleftrightarrow>
     (\<exists>s\<in>set (subs db). sub_user s = u \<and> sub_type s = t \<and> sub_res s = res)"

definition new_sub :: "micros \<Rightarrow> string \<Rightarrow> string \<Rightarrow> string \<Rightarrow> subscription" where
  "new_sub now t res u = \<lparr>sub_user = u, sub_type = t, sub_res = res, sub_at = now\<rparr>"

definition subscribe_stack :: "micros \<Rightarrow> string \<Rightarrow> string \<Rightarrow> string \<Rightarrow> adb \<Rightarrow> bool \<times> adb" where
  "subscribe_stack now u t res db =
     (if is_subscribed u t res db then (False, db)
      else (True, db\<lparr>subs := subs db @ [new_sub now t res u]\<rparr>))"

definition count_subs :: "string \<Rightarrow> string \<Rightarrow> adb \<Rightarrow> nat" where
  "count_subs t res db = length (filter (\<lambda>s. sub_type s = t \<and> sub_res s = res) (subs db))"

text \<open>The soft-downgrade fan-out: one \<open>INSERT ... SELECT ... ON CONFLICT DO NOTHING\<close>.\<close>

definition subscribe_group_members :: "micros \<Rightarrow> string \<Rightarrow> string \<Rightarrow> string \<Rightarrow> adb \<Rightarrow> int \<times> adb" where
  "subscribe_group_members now g t res db =
     (let new = filter (\<lambda>u. \<not> is_subscribed u t res db)
                  (remdups (map m_user (filter (\<lambda>m. m_group m = g) (members db))));
          db' = db\<lparr>subs := subs db @ map (new_sub now t res) new\<rparr>
      in (int (count_subs t res db') - int (count_subs t res db), db'))"

definition unsubscribe_stack :: "string \<Rightarrow> string \<Rightarrow> string \<Rightarrow> adb \<Rightarrow> bool \<times> adb" where
  "unsubscribe_stack u t res db =
     (if \<not> is_subscribed u t res db then (False, db)
      else (True, db\<lparr>subs := filter (\<lambda>s. \<not> (sub_user s = u \<and> sub_type s = t \<and> sub_res s = res))
                        (subs db)\<rparr>))"

definition list_subs_for_user :: "string \<Rightarrow> string \<Rightarrow> adb \<Rightarrow> string list" where
  "list_subs_for_user u t db =
     map sub_res (sort_key (\<lambda>s. - sub_at s) (filter (\<lambda>s. sub_user s = u \<and> sub_type s = t) (subs db)))"

definition list_users_subscribed_to :: "string \<Rightarrow> string \<Rightarrow> adb \<Rightarrow> string list" where
  "list_users_subscribed_to t res db =
     remdups (map sub_user (filter (\<lambda>s. sub_type s = t \<and> sub_res s = res) (subs db)))"

section \<open>The tables' invariant\<close>

text \<open>
  What the keys of the schema promise: unique group ids and names, one membership per user and
  group, one grant per group and resource, one subscription per user and resource, no row that
  points at a missing group, and the two values of \<open>requirement\<close>.
\<close>

definition mkey :: "membership \<Rightarrow> string \<times> string" where
  "mkey m = (m_user m, m_group m)"

definition gkey :: "grant \<Rightarrow> string \<times> string \<times> string" where
  "gkey r = (g_group r, g_type r, g_res r)"

definition skey :: "subscription \<Rightarrow> string \<times> string \<times> string" where
  "skey s = (sub_user s, sub_type s, sub_res s)"

definition adb_inv :: "adb \<Rightarrow> bool" where
  "adb_inv db \<longleftrightarrow>
     distinct (map ug_id (ugroups db)) \<and> distinct (map ug_name (ugroups db)) \<and>
     distinct (map mkey (members db)) \<and> distinct (map g_id (grants db)) \<and>
     distinct (map gkey (grants db)) \<and> distinct (map skey (subs db)) \<and>
     list_all (\<lambda>m. has_group (m_group m) db) (members db) \<and>
     list_all (\<lambda>r. has_group (g_group r) db \<and>
        (g_req r = Some ''available'' \<or> g_req r = Some ''required'')) (grants db)"

text \<open>One operation of the repositories; reads are not operations.\<close>

datatype adb_op =
    AddMember micros string string string "string option"
  | RemoveMember string string "string option"
  | SyncGoogle "nat list" micros string "string list" string
  | RemoveUser string
  | DropGroupMembers string
  | CreateGrant micros string string string string "string option" "string option"
  | UpdateRequirement string string
  | EnsureGrant micros string string string string "string option"
  | DeleteGrant string
  | DeleteByResource string string
  | DeleteMarketplace string
  | DropGroupGrants string
  | Fanout micros "string list" string "string option"
  | CreateGroup micros string "string list" string "string option" "string option" bool
  | EnsureGroup micros string "string list" string "string option" string
  | EnsureSystem micros string "string list" string string
  | UpdateGroup string "string option" "string option"
  | DeleteGroup string
  | Subscribe micros string string string
  | SubscribeMembers micros string string string
  | Unsubscribe string string string

text \<open>The state an operation leaves: a raised exception leaves the tables as they were.\<close>

definition kept :: "adb \<Rightarrow> db_error + 'a \<times> adb \<Rightarrow> adb" where
  "kept db r = (case r of Inl _ \<Rightarrow> db | Inr (_, db') \<Rightarrow> db')"

definition nth_or :: "string list \<Rightarrow> nat \<Rightarrow> string" where
  "nth_or xs i = (if i < length xs then xs ! i else [])"

fun run_op :: "adb_op \<Rightarrow> adb \<Rightarrow> adb" where
  "run_op (AddMember now u g s by) db = add_member now u g s by db"
| "run_op (RemoveMember u g s) db = snd (remove_member u g s db)"
| "run_op (SyncGoogle lost now u gs by) db =
     snd (replace_google_sync_groups (\<lambda>_ d. d) (\<lambda>i. i \<in> set lost) now u gs by db)"
| "run_op (RemoveUser u) db = snd (remove_user_from_all_groups u db)"
| "run_op (DropGroupMembers g) db = snd (members_delete_all_for_group g db)"
| "run_op (CreateGrant now i g t res by req) db = kept db (create_grant now i g t res by req db)"
| "run_op (UpdateRequirement i req) db = kept db (update_requirement i req db)"
| "run_op (EnsureGrant now i g t res by) db = kept db (ensure_grant now i g t res by db)"
| "run_op (DeleteGrant i) db = snd (delete_grant i db)"
| "run_op (DeleteByResource t res) db = snd (delete_by_resource t res db)"
| "run_op (DeleteMarketplace mk) db = snd (delete_for_marketplace_plugins mk db)"
| "run_op (DropGroupGrants g) db = snd (grants_delete_all_for_group g db)"
| "run_op (Fanout now ids g by) db = snd (fanout_system_for_group now (nth_or ids) g by db)"
| "run_op (CreateGroup now gid ids nm d by sys) db = kept db (create_group now gid (nth_or ids) nm d by sys db)"
| "run_op (EnsureGroup now gid ids nm d by) db = kept db (ensure_group now gid (nth_or ids) nm d by db)"
| "run_op (EnsureSystem now gid ids nm d) db = kept db (ensure_system now gid (nth_or ids) nm d db)"
| "run_op (UpdateGroup i nm d) db = (case update_group i nm d db of Inl _ \<Rightarrow> db | Inr db' \<Rightarrow> db')"
| "run_op (DeleteGroup i) db = (case delete_group i db of Inl _ \<Rightarrow> db | Inr db' \<Rightarrow> db')"
| "run_op (Subscribe now u t res) db = snd (subscribe_stack now u t res db)"
| "run_op (SubscribeMembers now g t res) db = snd (subscribe_group_members now g t res db)"
| "run_op (Unsubscribe u t res) db = snd (unsubscribe_stack u t res db)"

section \<open>Every operation keeps the invariant\<close>

lemma has_group_frame [frame_simps]:
  "has_group g (db\<lparr>members := ms\<rparr>) = has_group g db"
  "has_group g (db\<lparr>grants := gs\<rparr>) = has_group g db"
  "has_group g (db\<lparr>subs := ss\<rparr>) = has_group g db"
  by (simp_all add: has_group_def)

lemma adb_inv_members:
  assumes "adb_inv db" "distinct (map mkey ms)" "list_all (\<lambda>m. has_group (m_group m) db) ms"
  shows "adb_inv (db\<lparr>members := ms\<rparr>)"
  using assms by (simp add: adb_inv_def frame_simps)

lemma adb_inv_members_filter: "adb_inv db \<Longrightarrow> adb_inv (db\<lparr>members := filter P (members db)\<rparr>)"
  by (rule adb_inv_members) (auto simp: adb_inv_def list_all_iff distinct_map_filter)

lemma adb_inv_grants_filter: "adb_inv db \<Longrightarrow> adb_inv (db\<lparr>grants := filter P (grants db)\<rparr>)"
  by (simp add: adb_inv_def frame_simps distinct_map_filter list_all_iff)

lemma insert_member_eq_Inr:
  "insert_member now u g s by db = Inr db' \<longleftrightarrow>
     \<not> has_membership u g db \<and> has_group g db \<and>
     db' = db\<lparr>members := members db @
              [\<lparr>m_user = u, m_group = g, m_source = s, m_at = now, m_by = by\<rparr>]\<rparr>"
  by (auto simp: insert_member_def)

lemma insert_member_inv: "adb_inv db \<Longrightarrow> insert_member now u g s by db = Inr db' \<Longrightarrow> adb_inv db'"
  unfolding insert_member_eq_Inr
  by (auto simp: adb_inv_def mkey_def has_membership_def frame_simps)

lemma add_member_inv: "adb_inv db \<Longrightarrow> adb_inv (add_member now u g s by db)"
  by (auto simp: add_member_def insert_member_inv split: sum.split)

lemma sync_inserts_inv: "adb_inv db \<Longrightarrow> sync_inserts now u gs by db = Inr db' \<Longrightarrow> adb_inv db'"
proof (induction gs arbitrary: db)
  case (Cons g gs)
  then show ?case
    by (cases "has_membership u g db") (auto simp: rbind_eq_Inr dest: insert_member_inv)
qed simp

lemma sync_attempt_inv: "adb_inv db \<Longrightarrow> sync_attempt now u gs by db = Inr db' \<Longrightarrow> adb_inv db'"
  unfolding sync_attempt_def using sync_inserts_inv adb_inv_members_filter by blast

lemma sync_loop_inv:
  assumes "\<And>i d. adb_inv d \<Longrightarrow> adb_inv (env i d)" "adb_inv db"
  shows "adb_inv (snd (sync_loop n i env conflict now u gs by db))"
  using assms(2)
proof (induction n arbitrary: i db)
  case (Suc n)
  then have "adb_inv (env i db)" using assms(1) by blast
  then show ?case using Suc.IH sync_attempt_inv by (auto simp: Let_def split: sum.split)
qed simp

lemma insert_grant_inv:
  assumes "adb_inv db" "insert_grant r db = Inr db'"
    and "g_req r = Some ''available'' \<or> g_req r = Some ''required''"
  shows "adb_inv db'"
proof -
  have db': "db' = db\<lparr>grants := grants db @ [r]\<rparr>" and "get_grant (g_id r) db = None"
    and g: "has_group (g_group r) db" and "\<not> grant_key_taken (g_group r) (g_type r) (g_res r) db"
    using assms(2) by (auto simp: insert_grant_def split: if_splits)
  then have "g_id r \<notin> g_id ` set (grants db)" "gkey r \<notin> gkey ` set (grants db)"
    by (auto simp: get_grant_def find_None_iff grant_key_taken_def gkey_def)
  then show ?thesis using assms(1,3) g by (simp add: adb_inv_def db' frame_simps)
qed

lemma new_grant_req [simp]: "g_req (new_grant now i g t res by req) = Some req"
  by (simp add: new_grant_def)

lemma create_grant_inv: "adb_inv db \<Longrightarrow> adb_inv (kept db (create_grant now i g t res by req db))"
  by (auto simp: kept_def create_grant_def rbind_eq_Inr req_ok_def insert_grant_inv
      split: sum.split option.split)

lemma ensure_grant_inv: "adb_inv db \<Longrightarrow> adb_inv (kept db (ensure_grant now i g t res by db))"
  by (auto simp: kept_def ensure_grant_def rbind_eq_Inr insert_grant_inv split: sum.split)

lemma update_requirement_inv: "adb_inv db \<Longrightarrow> adb_inv (kept db (update_requirement i req db))"
proof -
  assume inv: "adb_inv db"
  let ?f = "\<lambda>x. if g_id x = i then x\<lparr>g_req := Some req\<rparr> else x"
  have "map g_id (map ?f (grants db)) = map g_id (grants db)"
    "map gkey (map ?f (grants db)) = map gkey (grants db)"
    by (simp_all add: gkey_def)
  then have "req_ok req \<Longrightarrow> adb_inv (db\<lparr>grants := map ?f (grants db)\<rparr>)"
    using inv unfolding adb_inv_def
    by (auto simp: frame_simps req_ok_def list_all_iff simp del: map_map)
  then show ?thesis using inv by (simp add: kept_def update_requirement_def split: option.split)
qed

lemma delete_grants_inv: "adb_inv db \<Longrightarrow> adb_inv (snd (delete_grants P db))"
  by (simp add: delete_grants_def adb_inv_grants_filter)

lemma fanout_loop_inv: "adb_inv db \<Longrightarrow> adb_inv (snd (fanout_loop now uuid g by i ps db))"
proof (induction ps arbitrary: i db)
  case (Cons p ps)
  then show ?case by (auto simp: insert_grant_inv split: sum.split prod.split) (metis insert_grant_inv new_grant_req snd_conv)
qed simp

lemma insert_group_inv:
  assumes "adb_inv db" "get_group gid db = None" "get_group_by_name nm db = None"
    and "ug_id row = gid" "ug_name row = nm"
  shows "adb_inv (db\<lparr>ugroups := ugroups db @ [row]\<rparr>)"
  using assms
  by (auto simp: adb_inv_def get_group_def get_group_by_name_def find_None_iff list_all_iff has_group_def)

lemma create_group_inv: "adb_inv db \<Longrightarrow> adb_inv (kept db (create_group now gid uuid nm d by sys db))"
  by (auto simp: kept_def create_group_def Let_def fanout_system_for_group_def
      intro!: fanout_loop_inv insert_group_inv)

lemma map_ugroups_inv:
  assumes "adb_inv db" "\<And>r. ug_id (f r) = ug_id r" "distinct (map (\<lambda>r. ug_name (f r)) (ugroups db))"
  shows "adb_inv (db\<lparr>ugroups := map f (ugroups db)\<rparr>)"
  using assms by (simp add: adb_inv_def has_group_def comp_def list_all_iff)

lemma set_system_inv: "adb_inv db \<Longrightarrow> adb_inv (set_system i db)"
  unfolding set_system_def
proof (rule map_ugroups_inv)
  assume "adb_inv db"
  moreover have same: "(\<lambda>r. ug_name (if ug_id r = i then r\<lparr>ug_system := True\<rparr> else r)) = ug_name" by auto
  ultimately show "distinct (map (\<lambda>r. ug_name (if ug_id r = i then r\<lparr>ug_system := True\<rparr> else r)) (ugroups db))"
    unfolding same by (simp add: adb_inv_def)
qed auto

lemma rename_distinct:
  assumes "distinct (map ug_id rs)" "distinct (map ug_name rs)"
    and "\<forall>r\<in>set rs. ug_id r \<noteq> i \<longrightarrow> ug_name r \<noteq> n"
    and "\<And>r. ug_name (f r) = (if ug_id r = i then n else ug_name r)"
  shows "distinct (map (\<lambda>r. ug_name (f r)) rs)"
  using assms(1-3) by (induction rs) (auto simp: assms(4) image_iff)

lemma update_group_inv:
  assumes inv: "adb_inv db" and up: "update_group i nm d db = Inr db'"
  shows "adb_inv db'"
proof (cases "nm = None \<and> d = None \<or> get_group i db = None")
  case True
  have "get_group i db = None \<Longrightarrow> map (\<lambda>r. if ug_id r = i then g r else r) (ugroups db) = ugroups db" for g
    by (rule map_idI) (auto simp: get_group_def find_None_iff)
  then have "db' = db" using True up by (auto simp: update_group_def split: if_splits option.splits)
  then show ?thesis using inv by simp
next
  case False
  let ?f = "\<lambda>r. if ug_id r = i then r\<lparr>ug_name := (case nm of None \<Rightarrow> ug_name r | Some n \<Rightarrow> n),
                    ug_descr := (case d of None \<Rightarrow> ug_descr r | Some e \<Rightarrow> Some e)\<rparr> else r"
  have db': "db' = db\<lparr>ugroups := map ?f (ugroups db)\<rparr>"
    using False up unfolding update_group_def by (simp split: if_splits)
  have "distinct (map (\<lambda>r. ug_name (?f r)) (ugroups db))"
  proof (cases nm)
    case None
    then have same: "(\<lambda>r. ug_name (?f r)) = ug_name" by auto
    show ?thesis unfolding same using inv by (simp add: adb_inv_def)
  next
    case (Some n)
    have free: "\<forall>r\<in>set (ugroups db). ug_id r \<noteq> i \<longrightarrow> ug_name r \<noteq> n"
      using False up Some unfolding update_group_def by (auto split: if_splits)
    show ?thesis
      by (rule rename_distinct [OF _ _ free]) (use inv Some in \<open>auto simp: adb_inv_def\<close>)
  qed
  then show ?thesis unfolding db' by (intro map_ugroups_inv inv) auto
qed

lemma delete_group_inv: "adb_inv db \<Longrightarrow> delete_group i db = Inr db' \<Longrightarrow> adb_inv db'"
proof -
  assume inv: "adb_inv db" and del: "delete_group i db = Inr db'"
  have db': "db' = db\<lparr>ugroups := filter (\<lambda>r. ug_id r \<noteq> i) (ugroups db)\<rparr>"
    using del by (auto simp: delete_group_def split: if_splits)
  have none: "has_group i db \<Longrightarrow> (\<forall>m\<in>set (members db). m_group m \<noteq> i) \<and> (\<forall>r\<in>set (grants db). g_group r \<noteq> i)"
    using del by (auto simp: delete_group_def count_members_def count_for_group_def filter_empty_conv
        has_group_def get_group_def find_None_iff split: if_splits)
  have "has_group g db \<Longrightarrow> g \<noteq> i \<Longrightarrow> has_group g db'" for g by (auto simp: db' has_group_def)
  moreover have "\<forall>m\<in>set (members db). has_group (m_group m) db \<and> m_group m \<noteq> i"
    "\<forall>r\<in>set (grants db). has_group (g_group r) db \<and> g_group r \<noteq> i"
    using inv none by (auto simp: adb_inv_def list_all_iff)
  ultimately have "\<forall>m\<in>set (members db). has_group (m_group m) db'"
    "\<forall>r\<in>set (grants db). has_group (g_group r) db'" by auto
  then show ?thesis using inv by (simp add: adb_inv_def db' distinct_map_filter list_all_iff)
qed

lemma adb_inv_subs: "adb_inv db \<Longrightarrow> distinct (map skey ss) \<Longrightarrow> adb_inv (db\<lparr>subs := ss\<rparr>)"
  by (simp add: adb_inv_def frame_simps)

lemma subscribe_members_inv: "adb_inv db \<Longrightarrow> adb_inv (snd (subscribe_group_members now g t res db))"
proof -
  assume inv: "adb_inv db"
  let ?new = "filter (\<lambda>u. \<not> is_subscribed u t res db)
                (remdups (map m_user (filter (\<lambda>m. m_group m = g) (members db))))"
  have "skey \<circ> new_sub now t res = (\<lambda>u. (u, t, res))" by (auto simp: skey_def new_sub_def)
  then have "distinct (map skey (subs db @ map (new_sub now t res) ?new))"
    using inv by (auto simp: adb_inv_def distinct_map inj_on_def is_subscribed_def skey_def)
  then show ?thesis using inv by (simp add: subscribe_group_members_def Let_def adb_inv_subs)
qed

lemma subscribe_inv: "adb_inv db \<Longrightarrow> adb_inv (snd (subscribe_stack now u t res db))"
  by (auto simp: subscribe_stack_def adb_inv_def is_subscribed_def skey_def new_sub_def frame_simps)

lemma unsubscribe_inv: "adb_inv db \<Longrightarrow> adb_inv (snd (unsubscribe_stack u t res db))"
  by (auto simp: unsubscribe_stack_def adb_inv_def distinct_map_filter frame_simps)

lemma kept_Inr: "kept db (Inr (a, db')) = db'" and kept_Inl: "kept db (Inl e) = db"
  by (simp_all add: kept_def)

lemma ensure_group_inv: "adb_inv db \<Longrightarrow> adb_inv (kept db (ensure_group now gid uuid nm d by db))"
  using create_group_inv by (simp add: ensure_group_def kept_Inr split: option.split)

lemma ensure_system_inv: "adb_inv db \<Longrightarrow> adb_inv (kept db (ensure_system now gid uuid nm d db))"
  using create_group_inv set_system_inv by (simp add: ensure_system_def kept_Inr split: option.split)

lemma member_deletes_inv:
  assumes "adb_inv db"
  shows "adb_inv (snd (remove_member u g s db))" "adb_inv (snd (remove_user_from_all_groups u db))"
    "adb_inv (snd (members_delete_all_for_group g db))"
  using assms
  by (simp_all add: remove_member_def Let_def remove_user_from_all_groups_def
      members_delete_all_for_group_def adb_inv_members_filter)

lemma grant_deletes_inv:
  assumes "adb_inv db"
  shows "adb_inv (snd (delete_grant i db))" "adb_inv (snd (delete_by_resource t res db))"
    "adb_inv (snd (delete_for_marketplace_plugins mk db))" "adb_inv (snd (grants_delete_all_for_group g db))"
  using delete_grants_inv [OF assms]
  by (simp_all add: delete_grant_def delete_by_resource_def delete_for_marketplace_plugins_def
      grants_delete_all_for_group_def case_prod_beta)

lemma update_group_step_inv:
  "adb_inv db \<Longrightarrow> adb_inv (case update_group i nm d db of Inl _ \<Rightarrow> db | Inr db' \<Rightarrow> db')"
  by (cases "update_group i nm d db") (simp_all add: update_group_inv)

lemma delete_group_step_inv:
  "adb_inv db \<Longrightarrow> adb_inv (case delete_group i db of Inl _ \<Rightarrow> db | Inr db' \<Rightarrow> db')"
  by (cases "delete_group i db") (simp_all add: delete_group_inv)

lemmas op_invs =
  add_member_inv member_deletes_inv create_grant_inv update_requirement_inv ensure_grant_inv
  grant_deletes_inv create_group_inv ensure_group_inv ensure_system_inv update_group_step_inv delete_group_step_inv
  subscribe_inv subscribe_members_inv unsubscribe_inv

lemma sync_google_inv:
  "adb_inv db \<Longrightarrow> adb_inv (snd (replace_google_sync_groups (\<lambda>_ d. d) conflict now u gs b db))"
  unfolding replace_google_sync_groups_def by (rule sync_loop_inv)

lemma fanout_system_inv: "adb_inv db \<Longrightarrow> adb_inv (snd (fanout_system_for_group now uuid g w db))"
  unfolding fanout_system_for_group_def by (rule fanout_loop_inv)

lemma run_op_inv: "adb_inv db \<Longrightarrow> adb_inv (run_op op db)"
  by (cases op; simp only: run_op.simps; intro op_invs sync_google_inv fanout_system_inv)

text \<open>
  C13. Whatever sequence of repository calls runs (memberships, the Google refresh with its
  retries, grants and their fan-outs, groups, subscriptions; refused calls included), the tables
  keep their invariant: unique groups, one membership per user and group, one grant per group and
  resource, one subscription per user and resource, no row for a missing group, and a valid
  requirement on every grant.
\<close>

theorem auth_tables_invariant:
  assumes "adb_inv db"
  shows "adb_inv (fold run_op ops db)"
  using assms by (induction ops arbitrary: db) (simp_all add: run_op_inv)

definition empty_adb :: adb where
  "empty_adb = \<lparr>ugroups = [], members = [], grants = [], mplugins = [], subs = []\<rparr>"

theorem auth_tables_invariant_witness:
  "adb_inv (fold run_op
     [CreateGroup 1 ''g1'' [''x''] ''Admin'' None None True, AddMember 2 ''u'' ''g1'' ''admin'' None,
      CreateGrant 3 ''x'' ''g1'' ''table'' ''t1'' None (Some ''required''), DeleteGroup ''g1'']
     empty_adb)"
  by (rule auth_tables_invariant) (simp add: adb_inv_def empty_adb_def)

section \<open>The Google refresh\<close>

text \<open>The tables as the \<open>k\<close>-th attempt sees them, after what other sessions committed.\<close>

fun seen :: "(nat \<Rightarrow> adb \<Rightarrow> adb) \<Rightarrow> nat \<Rightarrow> adb \<Rightarrow> adb" where
  "seen env 0 db = env 0 db"
| "seen env (Suc k) db = env (Suc k) (seen env k db)"

definition google_row :: "string \<Rightarrow> membership \<Rightarrow> bool" where
  "google_row u m \<longleftrightarrow> m_user m = u \<and> m_source m = google_source"

lemma set_list_groups_for_user:
  "set (list_groups_for_user u db) = m_group ` {m \<in> set (members db). m_user m = u}"
  by (auto simp: list_groups_for_user_def)

lemma sync_inserts_effect:
  assumes "\<forall>g\<in>set gs. has_group g db"
  shows "\<exists>new. sync_inserts now u gs b db = Inr (db\<lparr>members := members db @ new\<rparr>) \<and>
           list_all (google_row u) new \<and>
           m_group ` {m \<in> set (members db @ new). m_user m = u} =
             m_group ` {m \<in> set (members db). m_user m = u} \<union> set gs"
  using assms
proof (induction gs arbitrary: db)
  case Nil
  show ?case by (rule exI [of _ "[]"]) simp
next
  case (Cons g gs)
  show ?case
  proof (cases "has_membership u g db")
    case True
    then have "g \<in> m_group ` {m \<in> set (members db). m_user m = u}" by (auto simp: has_membership_def)
    with True Cons show ?thesis by (auto simp: insert_absorb)
  next
    case False
    let ?m = "\<lparr>m_user = u, m_group = g, m_source = google_source, m_at = now, m_by = Some b\<rparr>"
    let ?db = "db\<lparr>members := members db @ [?m]\<rparr>"
    have ins: "insert_member now u g google_source (Some b) db = Inr ?db"
      using False Cons.prems by (simp add: insert_member_eq_Inr)
    have "\<forall>g\<in>set gs. has_group g ?db" using Cons.prems by (simp add: frame_simps)
    from Cons.IH [OF this] obtain new where
      new: "sync_inserts now u gs b ?db = Inr (?db\<lparr>members := members ?db @ new\<rparr>)"
        "list_all (google_row u) new"
        "m_group ` {m \<in> set (members ?db @ new). m_user m = u} =
           m_group ` {m \<in> set (members ?db). m_user m = u} \<union> set gs" by blast
    have "{m \<in> set (members ?db). m_user m = u} = insert ?m {m \<in> set (members db). m_user m = u}"
      by auto
    then have split: "m_group ` {m \<in> set (members ?db). m_user m = u} =
        insert g (m_group ` {m \<in> set (members db). m_user m = u})" by (simp only: image_insert) simp
    moreover have "google_row u ?m" by (simp add: google_row_def)
    ultimately show ?thesis
      by (intro exI [of _ "?m # new"]) (use False ins new in simp)
  qed
qed

lemma sync_loop_success:
  assumes "k < n" "\<forall>j<k. conflict (i + j)" "\<not> conflict (i + k)"
    and "sync_attempt now u gs b (seen (\<lambda>j. env (i + j)) k db) = Inr db'"
  shows "sync_loop n i env conflict now u gs b db = (Inr (), db')"
  using assms
proof (induction n arbitrary: i k db)
  case (Suc n)
  show ?case
  proof (cases k)
    case 0
    with Suc.prems show ?thesis by (simp add: Let_def)
  next
    case (Suc k')
    have shift: "seen (\<lambda>j. env (Suc i + j)) m (env i db) = seen (\<lambda>j. env (i + j)) (Suc m) db" for m
      by (induction m) simp_all
    have "sync_loop n (Suc i) env conflict now u gs b (env i db) = (Inr (), db')"
    proof (rule Suc.IH [of k'])
      show "k' < n" using Suc Suc.prems(1) by simp
      show "\<forall>j<k'. conflict (Suc i + j)" using Suc Suc.prems(2) by auto
      show "\<not> conflict (Suc i + k')" using Suc Suc.prems(3) by simp
      show "sync_attempt now u gs b (seen (\<lambda>j. env (Suc i + j)) k' (env i db)) = Inr db'"
        unfolding shift using Suc Suc.prems(4) by simp
    qed
    moreover have "conflict i" using Suc Suc.prems(2) by (metis add_0_right zero_less_Suc)
    ultimately show ?thesis by (simp add: Let_def)
  qed
qed simp

text \<open>
  The Google refresh, retried while it loses a write-write race: when one of its three attempts
  goes through and every group exists, the call returns, the user's groups become exactly the
  refreshed ones together with those held through another source, every other membership row (the
  user's manual and seeded rows, other users' rows) is kept in place and unchanged, and no other
  table is touched. The tables meant are those the successful attempt saw.
\<close>

theorem google_sync_exact:
  assumes "k < sync_conflict_retries" "\<forall>j<k. conflict j" "\<not> conflict k"
    and groups: "\<forall>g\<in>set gs. has_group g (seen env k db)"
  shows "\<exists>ms. replace_google_sync_groups env conflict now u gs b db =
             (Inr (), (seen env k db)\<lparr>members := ms\<rparr>) \<and>
           filter (\<lambda>m. \<not> google_row u m) ms =
             filter (\<lambda>m. \<not> google_row u m) (members (seen env k db)) \<and>
           set (list_groups_for_user u ((seen env k db)\<lparr>members := ms\<rparr>)) =
             set gs \<union> m_group ` {m \<in> set (members (seen env k db)). m_user m = u \<and> m_source m \<noteq> google_source}"
proof -
  let ?d = "seen env k db"
  let ?d1 = "?d\<lparr>members := filter (\<lambda>m. \<not> google_row u m) (members ?d)\<rparr>"
  have "\<forall>g\<in>set gs. has_group g ?d1" using groups by (simp add: frame_simps)
  from sync_inserts_effect [OF this] obtain new where
    new: "sync_inserts now u gs b ?d1 = Inr (?d1\<lparr>members := members ?d1 @ new\<rparr>)"
      "list_all (google_row u) new"
      "m_group ` {m \<in> set (members ?d1 @ new). m_user m = u} =
         m_group ` {m \<in> set (members ?d1). m_user m = u} \<union> set gs" by blast
  let ?ms = "members ?d1 @ new"
  have "sync_attempt now u gs b ?d = Inr (?d\<lparr>members := ?ms\<rparr>)"
    using new(1) by (simp add: sync_attempt_def google_row_def)
  then have "replace_google_sync_groups env conflict now u gs b db = (Inr (), ?d\<lparr>members := ?ms\<rparr>)"
    unfolding replace_google_sync_groups_def using assms(1-3) by (intro sync_loop_success) simp_all
  moreover have "filter (\<lambda>m. \<not> google_row u m) ?ms = filter (\<lambda>m. \<not> google_row u m) (members ?d)"
    using new(2) by (auto simp: filter_empty_conv list_all_iff)
  moreover have "{m \<in> set (members ?d1). m_user m = u} =
      {m \<in> set (members ?d). m_user m = u \<and> m_source m \<noteq> google_source}"
    by (auto simp: google_row_def)
  then have "set (list_groups_for_user u (?d\<lparr>members := ?ms\<rparr>)) =
      set gs \<union> m_group ` {m \<in> set (members ?d). m_user m = u \<and> m_source m \<noteq> google_source}"
    using new(3) unfolding set_list_groups_for_user by (simp add: Un_commute)
  ultimately show ?thesis by blast
qed

definition one_group :: adb where
  "one_group = \<lparr>ugroups = [\<lparr>ug_id = ''g'', ug_name = ''G'', ug_descr = None, ug_system = False,
     ug_at = 0, ug_by = None\<rparr>], members = [], grants = [], mplugins = [], subs = []\<rparr>"

theorem google_sync_exact_witness:
  "\<exists>ms. replace_google_sync_groups (\<lambda>_ d. d) (\<lambda>i. i = 0) 5 ''u'' [''g''] ''sync'' one_group =
             (Inr (), one_group\<lparr>members := ms\<rparr>) \<and>
        set (list_groups_for_user ''u'' (one_group\<lparr>members := ms\<rparr>)) = {''g''}"
proof -
  have "seen (\<lambda>_ d. d) 1 one_group = one_group" by (simp add: numeral_eq_Suc)
  then show ?thesis
    using google_sync_exact [of 1 "\<lambda>i. i = 0" "[''g'']" "\<lambda>_ d. d" one_group 5 "''u''" "''sync''"]
    by (force simp: sync_conflict_retries_def has_group_def one_group_def)
qed

section \<open>System groups\<close>

text \<open>\<open>get_by_name\<close> finds the row of a name whenever there is one, because names are unique.\<close>

lemma find_unique_iff:
  assumes "distinct (map f xs)"
  shows "find (\<lambda>x. f x = k) xs = Some r \<longleftrightarrow> r \<in> set xs \<and> f r = k"
  using assms by (induction xs) (auto simp: image_iff split: if_splits)

lemma get_group_by_name_iff:
  "adb_inv db \<Longrightarrow> get_group_by_name nm db = Some r \<longleftrightarrow> r \<in> set (ugroups db) \<and> ug_name r = nm"
  unfolding get_group_by_name_def by (intro find_unique_iff) (simp add: adb_inv_def)

lemma get_group_iff:
  "adb_inv db \<Longrightarrow> get_group i db = Some r \<longleftrightarrow> r \<in> set (ugroups db) \<and> ug_id r = i"
  unfolding get_group_def by (intro find_unique_iff) (simp add: adb_inv_def)

definition system_row :: "string \<Rightarrow> string \<Rightarrow> adb \<Rightarrow> bool" where
  "system_row i nm db \<longleftrightarrow> (\<exists>r\<in>set (ugroups db). ug_id r = i \<and> ug_name r = nm \<and> ug_system r)"

lemma ugroups_frame [frame_simps]:
  "ugroups (add_member now u g s b db) = ugroups db"
  "ugroups (snd (remove_member u g q db)) = ugroups db"
  "ugroups (snd (remove_user_from_all_groups u db)) = ugroups db"
  "ugroups (snd (members_delete_all_for_group g db)) = ugroups db"
  "ugroups (kept db (create_grant now i g t res b req db)) = ugroups db"
  "ugroups (kept db (update_requirement i r db)) = ugroups db"
  "ugroups (kept db (ensure_grant now i g t res b db)) = ugroups db"
  "ugroups (snd (delete_grants P db)) = ugroups db"
  "ugroups (snd (subscribe_stack now u t res db)) = ugroups db"
  "ugroups (snd (subscribe_group_members now g t res db)) = ugroups db"
  "ugroups (snd (unsubscribe_stack u t res db)) = ugroups db"
  by (simp_all add: add_member_def insert_member_def remove_member_def Let_def kept_def
      remove_user_from_all_groups_def members_delete_all_for_group_def create_grant_def
      insert_grant_def update_requirement_def ensure_grant_def delete_grants_def subscribe_stack_def
      subscribe_group_members_def unsubscribe_stack_def split: option.split)

lemma ugroups_sync_inserts: "sync_inserts now u gs b db = Inr db' \<Longrightarrow> ugroups db' = ugroups db"
proof (induction gs arbitrary: db)
  case (Cons g gs)
  then show ?case
    by (cases "has_membership u g db") (auto simp: rbind_eq_Inr insert_member_eq_Inr dest!: Cons.IH)
qed simp

lemma ugroups_sync_loop:
  "ugroups (snd (sync_loop n i (\<lambda>_ d. d) conflict now u gs b db)) = ugroups db"
proof (induction n arbitrary: i)
  case (Suc n)
  then show ?case
    by (auto simp: Let_def sync_attempt_def dest: ugroups_sync_inserts split: sum.split)
qed simp

lemma ugroups_fanout_loop: "ugroups (snd (fanout_loop now uuid g b i ps db)) = ugroups db"
proof (induction ps arbitrary: i db)
  case (Cons p ps)
  show ?case
    by (cases "insert_grant (new_grant now (uuid i) g ''marketplace_plugin'' (plugin_res p) b ''available'') db")
      (auto simp: Cons.IH case_prod_beta insert_grant_def split: if_splits)
qed simp

lemma system_row_cong: "ugroups db' = ugroups db \<Longrightarrow> system_row i nm db' = system_row i nm db"
  by (simp add: system_row_def)

lemma create_group_system_row:
  "system_row i nm db \<Longrightarrow> system_row i nm (kept db (create_group now gid uuid n d b sys db))"
  by (auto simp: kept_def create_group_def Let_def fanout_system_for_group_def system_row_def
      ugroups_fanout_loop)

lemma set_system_system_row: "system_row i nm db \<Longrightarrow> system_row i nm (set_system j db)"
  by (force simp: system_row_def set_system_def)

lemma update_group_ugroups:
  assumes "update_group j n d db = Inr db'" "r \<in> set (ugroups db)"
  shows "\<exists>r'\<in>set (ugroups db'). ug_id r' = ug_id r \<and> ug_system r' = ug_system r \<and>
           ug_name r' = (if ug_id r = j then (case n of None \<Rightarrow> ug_name r | Some m \<Rightarrow> m) else ug_name r)"
proof (cases "n = None \<and> d = None")
  case True
  then have "db' = db" using assms(1) by (auto simp: update_group_def split: if_splits option.splits)
  then show ?thesis using assms(2) True by (intro bexI [of _ r]) auto
next
  case False
  let ?f = "\<lambda>r. if ug_id r = j then r\<lparr>ug_name := (case n of None \<Rightarrow> ug_name r | Some n \<Rightarrow> n),
                    ug_descr := (case d of None \<Rightarrow> ug_descr r | Some e \<Rightarrow> Some e)\<rparr> else r"
  have "db' = db\<lparr>ugroups := map ?f (ugroups db)\<rparr>"
    using False assms(1) unfolding update_group_def by (simp split: if_splits)
  then show ?thesis using assms(2) by (intro bexI [of _ "?f r"]) auto
qed

lemma update_group_system_row:
  assumes "adb_inv db" "system_row i nm db"
  shows "system_row i nm (case update_group j n d db of Inl _ \<Rightarrow> db | Inr db' \<Rightarrow> db')"
proof (cases "update_group j n d db")
  case (Inr db')
  obtain r where r: "r \<in> set (ugroups db)" "ug_id r = i" "ug_name r = nm" "ug_system r"
    using assms(2) by (auto simp: system_row_def)
  have "get_group i db = Some r" using r assms(1) by (simp add: get_group_iff)
  then have "j = i \<Longrightarrow> n \<noteq> None \<Longrightarrow> n \<noteq> Some nm \<Longrightarrow> update_group j n d db = Inl SystemGroupProtected"
    using r by (simp add: update_group_def)
  then have "i = j \<Longrightarrow> n = None \<or> n = Some nm" using Inr by (metis sum.distinct(1))
  then have "(if ug_id r = j then (case n of None \<Rightarrow> ug_name r | Some m \<Rightarrow> m) else ug_name r) = nm"
    using r by (auto split: option.split)
  with update_group_ugroups [OF Inr r(1)] r show ?thesis
    unfolding Inr system_row_def by auto
qed (use assms in simp)

lemma delete_group_system_row:
  assumes "adb_inv db" "system_row i nm db"
  shows "system_row i nm (case delete_group j db of Inl _ \<Rightarrow> db | Inr db' \<Rightarrow> db')"
proof (cases "j = i")
  case True
  then have "delete_group j db = Inl SystemGroupProtected"
    using assms by (auto simp: delete_group_def system_row_def get_group_iff split: option.split)
      (metis get_group_iff option.distinct(1) option.inject)+
  then show ?thesis using assms by simp
next
  case False
  then show ?thesis using assms by (auto simp: delete_group_def system_row_def)
qed

lemma ensure_group_system_row:
  "system_row i nm db \<Longrightarrow> system_row i nm (kept db (ensure_group now gid uuid n d b db))"
  using create_group_system_row by (simp add: ensure_group_def kept_Inr split: option.split)

lemma ensure_system_system_row:
  "system_row i nm db \<Longrightarrow> system_row i nm (kept db (ensure_system now gid uuid n d db))"
  using create_group_system_row set_system_system_row
  by (simp add: ensure_system_def kept_Inr split: option.split)

lemma grant_deletes_ugroups [frame_simps]:
  "ugroups (snd (delete_grant i db)) = ugroups db"
  "ugroups (snd (delete_by_resource t res db)) = ugroups db"
  "ugroups (snd (delete_for_marketplace_plugins mk db)) = ugroups db"
  "ugroups (snd (grants_delete_all_for_group g db)) = ugroups db"
  by (simp_all add: delete_grant_def delete_by_resource_def delete_for_marketplace_plugins_def
      grants_delete_all_for_group_def delete_grants_def)

lemma run_op_system_row:
  assumes "adb_inv db" "system_row i nm db"
  shows "system_row i nm (run_op op db)"
proof (cases op)
  case (CreateGroup x1 x2 x3 x4 x5 x6 x7)
  then show ?thesis using assms by (simp add: create_group_system_row)
next
  case (EnsureGroup x1 x2 x3 x4 x5 x6)
  then show ?thesis using assms by (simp add: ensure_group_system_row)
next
  case (EnsureSystem x1 x2 x3 x4 x5)
  then show ?thesis using assms by (simp add: ensure_system_system_row)
next
  case (UpdateGroup x1 x2 x3)
  then show ?thesis using update_group_system_row [OF assms] by simp
next
  case (DeleteGroup x)
  then show ?thesis using delete_group_system_row [OF assms] by simp
qed (use assms(2) in \<open>simp_all add: frame_simps system_row_def ugroups_fanout_loop
       replace_google_sync_groups_def fanout_system_for_group_def ugroups_sync_loop\<close>)

lemma runs_system_row:
  "adb_inv db \<Longrightarrow> system_row i nm db \<Longrightarrow> adb_inv (fold run_op ops db) \<and> system_row i nm (fold run_op ops db)"
  by (induction ops arbitrary: db) (simp_all add: run_op_inv run_op_system_row)

text \<open>
  A system group cannot be renamed, deleted or shadowed: once a row with a name is a system
  group, looking that name up yields a system row with the same id after any sequence of repository
  calls. So the name \<open>Admin\<close>, which the authorization layer resolves on every check, always denotes
  the seeded group.
\<close>

theorem system_group_stable:
  assumes "adb_inv db" "get_group_by_name nm db = Some r" "ug_system r"
  shows "\<exists>r'. get_group_by_name nm (fold run_op ops db) = Some r' \<and> ug_id r' = ug_id r \<and> ug_system r'"
proof -
  have "system_row (ug_id r) nm db" using assms by (auto simp: system_row_def get_group_by_name_iff)
  from runs_system_row [OF assms(1) this, of ops] show ?thesis
    by (auto simp: system_row_def get_group_by_name_iff)
qed

definition admin_row :: ugroup where
  "admin_row = \<lparr>ug_id = ''a'', ug_name = ''Admin'', ug_descr = None, ug_system = True, ug_at = 0, ug_by = None\<rparr>"

theorem system_group_stable_witness:
  "\<exists>r'. get_group_by_name ''Admin''
          (fold run_op [DeleteGroup ''a'', UpdateGroup ''a'' (Some ''Root'') None,
             CreateGroup 1 ''b'' [] ''Admin'' None None False]
           (empty_adb\<lparr>ugroups := [admin_row]\<rparr>)) = Some r' \<and> ug_id r' = ''a'' \<and> ug_system r'"
  using system_group_stable [of "empty_adb\<lparr>ugroups := [admin_row]\<rparr>" "''Admin''" admin_row
      "[DeleteGroup ''a'', UpdateGroup ''a'' (Some ''Root'') None,
        CreateGroup 1 ''b'' [] ''Admin'' None None False]"]
  by (simp add: adb_inv_def empty_adb_def get_group_by_name_def admin_row_def)

text \<open>
  \<open>add_member\<close> reports nothing, and its effect depends on the group: adding to a group that does not
  exist leaves no membership, although the caller sees the same silent success as for a repeated add.
\<close>

lemma add_member_effect:
  "has_membership u g (add_member now u g s b db) \<longleftrightarrow> has_membership u g db \<or> has_group g db"
  by (auto simp: add_member_def insert_member_def has_membership_def)

end
