(* ===== verification/Access.thy ===== *)
theory Access
  imports AuthTables
begin

text \<open>
  The authorization layer: \<open>app/auth/access.py\<close>, the elevation gate of \<open>app/auth/elevation.py\<close>, the
  restricted principals of \<open>app/auth/session_principal.py\<close> and the two intersections that build
  them, \<open>src/grant_intersection.py\<close> and \<open>src/agent_scope_intersection.py\<close>. The tables are those of
  \<open>AuthTables\<close>, together with the further tables these functions read. The optional connection argument
  of the source selects which handle reads the same tables; it is a flag where the code branches on
  it. The request's context variables are the record \<open>reqctx\<close>, the module's caches \<open>aproc\<close>.
\<close>

section \<open>Tables, callers and request state\<close>

record user_row =
  usr_id :: string
  usr_email :: string
  usr_active :: bool
  usr_created :: "micros option"

record agent_row =
  ag_id :: string
  ag_owner :: string
  ag_deleted :: "micros option"
  tables_mode :: string
  plugins_mode :: string
  connections_mode :: string
  memory_mode :: string

record scope_item =
  sc_agent :: string
  item_type :: string
  item_id :: string

record corpus =
  co_id :: string
  co_name :: string
  co_by :: string
  co_deleted :: "micros option"

record table_row =
  tr_id :: string
  tr_name :: string
  tr_source :: "string option"
  tr_bucket :: "string option"
  tr_policy :: "string option"

text \<open>A data package or memory domain: the columns the resolvers look at.\<close>

record entity_row =
  e_id :: string
  e_name :: string
  e_status :: "string option"
  e_created :: "micros option"
  e_publisher :: "string option"
  e_deleted :: "micros option"

record rdb =
  auth :: adb
  users :: "user_row list"
  agents :: "agent_row list"
  agent_scope :: "scope_item list"
  corpora :: "corpus list"
  registry :: "table_row list"
  packages :: "entity_row list"
  domains :: "entity_row list"
  package_tables :: "(string \<times> string) list"

text \<open>
  The caller: the user dict (with the keys these functions read; \<open>None\<close> is an absent key), or one of
  the two restricted principals with its intersection.
\<close>

record user_dict =
  ud_id :: "string option"
  ud_email :: "string option"
  ud_surface :: "string option"

type_synonym grantmap = "string \<rightharpoonup> string set"

datatype caller =
    UserDict user_dict
  | SessionPrincipal string "string list" "string list" grantmap
  | AgentPrincipal string string string string grantmap

fun intersection_of :: "caller \<Rightarrow> grantmap" where
  "intersection_of (UserDict u) = Map.empty"
| "intersection_of (SessionPrincipal s us es m) = m"
| "intersection_of (AgentPrincipal s a ow oe m) = m"

fun is_principal :: "caller \<Rightarrow> bool" where
  "is_principal (UserDict u) = False"
| "is_principal (SessionPrincipal s us es m) = True"
| "is_principal (AgentPrincipal s a ow oe m) = True"

datatype http_error =
    Forbidden string
  | ServerError string
  | KeyError
  | TypeError
  | AttributeError

section \<open>Elevation\<close>

record reqctx =
  ctx_paused :: bool
  ctx_caller :: "string option"

definition ELEVATED :: string where "ELEVATED = ''elevated''"
definition PAUSED :: string where "PAUSED = ''paused''"

definition default_elevation :: "string option \<Rightarrow> string" where
  "default_elevation conf = (if lower (or_default conf ELEVATED) = PAUSED then PAUSED else ELEVATED)"

definition resolve_from_cookie :: "string option \<Rightarrow> string option \<Rightarrow> bool \<Rightarrow> bool" where
  "resolve_from_cookie conf cookie bearer_auth =
     (if cookie = Some PAUSED then True
      else if cookie = Some ELEVATED then False
      else if bearer_auth then False
      else default_elevation conf = PAUSED)"

definition request_is_noninteractive :: "string \<Rightarrow> bool \<Rightarrow> bool \<Rightarrow> bool" where
  "request_is_noninteractive authorization has_session_cookie has_sapi_header =
     (if prefix ''bearer '' (lower authorization) then True
      else has_sapi_header \<and> \<not> has_session_cookie)"

definition elevation_paused :: "reqctx \<Rightarrow> string option \<Rightarrow> bool" where
  "elevation_paused ctx subject =
     (if \<not> ctx_paused ctx then False
      else case subject of
             None \<Rightarrow> True
           | Some s \<Rightarrow> ctx_caller ctx = None \<or> ctx_caller ctx = Some s)"

section \<open>Groups and grants of a user\<close>

definition SYSTEM_ADMIN_GROUP :: string where "SYSTEM_ADMIN_GROUP = ''Admin''"

definition get_group_id_by_name :: "string \<Rightarrow> adb \<Rightarrow> string option" where
  "get_group_id_by_name nm db = map_option ug_id (get_group_by_name nm db)"

definition user_group_ids :: "string \<Rightarrow> adb \<Rightarrow> string list" where
  "user_group_ids u db = remdups (list_groups_for_user u db)"

definition is_user_admin :: "string \<Rightarrow> adb \<Rightarrow> bool" where
  "is_user_admin u db =
     (case get_group_id_by_name SYSTEM_ADMIN_GROUP db of
        None \<Rightarrow> False
      | Some admin_id \<Rightarrow> admin_id \<in> set (user_group_ids u db))"

definition allowed_ids_for_user :: "string \<Rightarrow> string \<Rightarrow> adb \<Rightarrow> string set" where
  "allowed_ids_for_user u rtype db =
     (let gs = user_group_ids u db
      in if gs = [] then {} else set (map g_res (list_for_groups gs (Some rtype) db)))"

definition required_store_entity_ids :: "string \<Rightarrow> adb \<Rightarrow> string set" where
  "required_store_entity_ids u db =
     (let gs = user_group_ids u db
      in if gs = [] then {}
         else set (map g_res (filter (\<lambda>r. or_default (g_req r) ''available'' = ''required'')
                (list_for_groups gs (Some ''store_entity'') db))))"

definition has_explicit_grant :: "string \<Rightarrow> string \<Rightarrow> string \<Rightarrow> adb \<Rightarrow> bool" where
  "has_explicit_grant u rtype res db =
     (let gs = user_group_ids u db in if gs = [] then False else has_grant gs rtype res db)"

text \<open>\<open>connectors/internal/access.py\<close>: the three internal data-source tables.\<close>

definition INTERNAL_TABLES :: "string list" where
  "INTERNAL_TABLES = [''agnes_sessions'', ''agnes_telemetry'', ''agnes_audit'']"

definition is_internal_table :: "string \<Rightarrow> bool" where
  "is_internal_table t \<longleftrightarrow> t \<in> set INTERNAL_TABLES"

section \<open>God-mode observability\<close>

text \<open>The module's dicts, in insertion order, and the log lines emitted (newest last).\<close>

record aproc =
  god_logged :: "((string \<times> string \<times> string) \<times> mono_time) list"
  god_grants :: "((string \<times> string) \<times> (mono_time \<times> string set)) list"
  god_log :: "(mono_time \<times> string \<times> string \<times> string) list"
  resync_last :: "string \<rightharpoonup> mono_time"

definition GOD_MODE_LOG_COOLDOWN :: rat where "GOD_MODE_LOG_COOLDOWN = 900"
definition GOD_MODE_CACHE_MAX :: nat where "GOD_MODE_CACHE_MAX = 4096"
definition GOD_MODE_GRANTS_TTL :: rat where "GOD_MODE_GRANTS_TTL = 5"

definition dict_set :: "'k \<Rightarrow> 'v \<Rightarrow> ('k \<times> 'v) list \<Rightarrow> ('k \<times> 'v) list" where
  "dict_set k v d = (if k \<in> fst ` set d then map (\<lambda>(k', v'). (k', if k' = k then v else v')) d else d @ [(k, v)])"

text \<open>\<open>conn\<close> tells whether the caller passed an explicit connection, which bypasses the memo.\<close>

definition god_mode_allowed_ids ::
  "bool \<Rightarrow> string \<Rightarrow> string \<Rightarrow> mono_time \<Rightarrow> adb \<Rightarrow> aproc \<Rightarrow> string set \<times> aproc" where
  "god_mode_allowed_ids conn u rtype now db p =
     (if conn then (allowed_ids_for_user u rtype db, p)
      else let fresh = (let ids = allowed_ids_for_user u rtype db;
                            d = (if GOD_MODE_CACHE_MAX \<le> length (god_grants p) then [] else god_grants p)
                        in (ids, p\<lparr>god_grants := dict_set (u, rtype) (now, ids) d\<rparr>))
           in case map_of (god_grants p) (u, rtype) of
                Some (stamp, ids) \<Rightarrow> if now - stamp < GOD_MODE_GRANTS_TTL then (ids, p) else fresh
              | None \<Rightarrow> fresh)"

definition note_god_mode_hit ::
  "bool \<Rightarrow> mono_time \<Rightarrow> string \<Rightarrow> string \<Rightarrow> string \<Rightarrow> adb \<Rightarrow> aproc \<Rightarrow> aproc" where
  "note_god_mode_hit conn now u rtype res db p =
     (let key = (u, rtype, res)
      in if (case map_of (god_logged p) key of None \<Rightarrow> False | Some t0 \<Rightarrow> now - t0 < GOD_MODE_LOG_COOLDOWN)
         then p
         else let (ids, p1) = god_mode_allowed_ids conn u rtype now db p;
                  d0 = god_logged p1;
                  d1 = (if GOD_MODE_CACHE_MAX \<le> length d0
                        then let d = filter (\<lambda>(_, t). \<not> t < now - GOD_MODE_LOG_COOLDOWN) d0
                             in if GOD_MODE_CACHE_MAX \<le> length d then [] else d
                        else d0);
                  p2 = p1\<lparr>god_logged := dict_set key now d1\<rparr>
              in if res \<in> ids then p2 else p2\<lparr>god_log := god_log p2 @ [(now, u, rtype, res)]\<rparr>)"

section \<open>Access checks\<close>

definition can_access ::
  "bool \<Rightarrow> mono_time \<Rightarrow> reqctx \<Rightarrow> string \<Rightarrow> string \<Rightarrow> string \<Rightarrow> adb \<Rightarrow> aproc \<Rightarrow> bool \<times> aproc" where
  "can_access conn now ctx u rtype res db p =
     (if rtype = ''table'' \<and> is_internal_table res then (True, p)
      else let gs = user_group_ids u db;
               is_admin = (case get_group_id_by_name SYSTEM_ADMIN_GROUP db of
                             None \<Rightarrow> False | Some a \<Rightarrow> a \<in> set gs)
           in if is_admin \<and> \<not> elevation_paused ctx (Some u)
              then (True, note_god_mode_hit conn now u rtype res db p)
              else if gs = [] then (False, p)
              else (has_grant gs rtype res db, p))"

definition can_access_session :: "caller \<Rightarrow> string \<Rightarrow> string \<Rightarrow> bool" where
  "can_access_session who rtype res \<longleftrightarrow>
     res \<in> (case intersection_of who rtype of None \<Rightarrow> {} | Some s \<Rightarrow> s)"

definition require_admin :: "reqctx \<Rightarrow> adb \<Rightarrow> caller \<Rightarrow> http_error + caller" where
  "require_admin ctx db user =
     (case user of
        UserDict d \<Rightarrow>
          (case ud_id d of
             None \<Rightarrow> Inl KeyError
           | Some u \<Rightarrow>
               if \<not> is_user_admin u db then Inl (Forbidden ''Admin access required'')
               else if elevation_paused ctx None then Inl (Forbidden ''admin_elevation_paused'')
               else Inr user)
      | _ \<Rightarrow> Inl (Forbidden ''Admin access required''))"

definition require_agent_profiles_enabled :: "bool \<Rightarrow> http_error + unit" where
  "require_agent_profiles_enabled enabled =
     (if \<not> enabled then Inl (Forbidden ''agent_profiles_disabled'') else Inr ())"

text \<open>
  \<open>access_denied_detail\<close>: a type whose \<open>id_format\<close> is a literal id is a whole-feature switch. Only
  \<open>chat\<close> has one.
\<close>

definition id_format :: "string \<Rightarrow> string option" where
  "id_format rtype = map_of
     [(''marketplace_plugin'', ''<marketplace_slug>/<plugin_name>''), (''table'', ''<table_id>''),
      (''data_package'', ''<package_id>''), (''semantic_model'', ''<model_id>''),
      (''memory_domain'', ''<memory_domain_id>''), (''memory_item'', ''<knowledge_item_id>''),
      (''recipe'', ''<recipe_id>''), (''chat'', ''chat''), (''slack_channel'', ''<channel_id>''),
      (''collection'', ''<corpus_id>''), (''knowledge_digest'', ''<digest_id>''),
      (''data_app'', ''<slug>''), (''corpus_file'', ''<corpus_file_id>''), (''agent'', ''<agent_id>''),
      (''store_entity'', ''<store_entity_id>'')] rtype"

text \<open>
  The detail's wording (with an ASCII dash): the friendly form names the feature's display name, the
  generic form the type and the quoted id (\<open>repr\<close> of the id, for an id without quotes or escapes).
\<close>

definition access_denied_detail :: "(string \<Rightarrow> string) \<Rightarrow> string \<Rightarrow> string \<Rightarrow> string" where
  "access_denied_detail display_name rtype res =
     (let f = py_strip (case id_format rtype of None \<Rightarrow> [] | Some s \<Rightarrow> s)
      in if f \<noteq> [] \<and> CHR ''<'' \<notin> set f \<and> res = f
         then ''Access denied to '' @ display_name rtype @ '' - it is not enabled for your account.''
         else ''Access denied to '' @ rtype @ '' '' @ [CHR 0x27] @ res @ [CHR 0x27])"

text \<open>A path template, split into literal text and the names of path parameters.\<close>

datatype template_part = Lit string | Field string

fun format_template :: "template_part list \<Rightarrow> (string \<rightharpoonup> string) \<Rightarrow> string option" where
  "format_template [] params = Some []"
| "format_template (Lit s # ps) params = map_option (\<lambda>r. s @ r) (format_template ps params)"
| "format_template (Field k # ps) params =
     (case params k of None \<Rightarrow> None | Some v \<Rightarrow> map_option (\<lambda>r. v @ r) (format_template ps params))"

section \<open>Re-sync on a miss, and the request dependencies\<close>

text \<open>
  \<open>configured\<close> tells whether one of the two environment variables is set; \<open>apply_groups\<close> is the call
  of \<open>apply_user_groups\<close> on the tables, \<open>None\<close> when it raises.
\<close>

definition RESYNC_COOLDOWN :: rat where "RESYNC_COOLDOWN = 60"

definition maybe_resync_google_groups ::
  "bool \<Rightarrow> (string \<Rightarrow> string \<Rightarrow> adb \<Rightarrow> adb option) \<Rightarrow> mono_time \<Rightarrow> string \<Rightarrow> string \<Rightarrow> adb \<Rightarrow> aproc
     \<Rightarrow> bool \<times> adb \<times> aproc" where
  "maybe_resync_google_groups configured apply_groups now u email db p =
     (if \<not> configured then (False, db, p)
      else if now - (case resync_last p u of None \<Rightarrow> 0 | Some t \<Rightarrow> t) < RESYNC_COOLDOWN then (False, db, p)
      else let p' = p\<lparr>resync_last := (resync_last p)(u \<mapsto> now)\<rparr>
           in case apply_groups u email db of
                None \<Rightarrow> (False, db, p')
              | Some db' \<Rightarrow> (True, db', p'))"

text \<open>The three clock readings of one request: the first check, the re-sync and the second check.\<close>

definition require_resource_access ::
  "bool \<Rightarrow> (string \<Rightarrow> string \<Rightarrow> adb \<Rightarrow> adb option) \<Rightarrow> (string \<Rightarrow> string) \<Rightarrow> mono_time \<times> mono_time \<times> mono_time
     \<Rightarrow> reqctx \<Rightarrow> string \<Rightarrow> template_part list \<Rightarrow> (string \<rightharpoonup> string) \<Rightarrow> caller \<Rightarrow> adb \<Rightarrow> aproc
     \<Rightarrow> (http_error + caller) \<times> adb \<times> aproc" where
  "require_resource_access configured apply_groups display_name clocks ctx rtype tmpl params user db p =
     (case format_template tmpl params of
        None \<Rightarrow> (Inl (ServerError ''require_resource_access''), db, p)
      | Some res \<Rightarrow>
          let (t1, t2, t3) = clocks;
              verdict = (\<lambda>ok. if ok then Inr user
                              else Inl (Forbidden (access_denied_detail display_name rtype res)))
          in case user of
               UserDict d \<Rightarrow>
                 (case ud_id d of
                    None \<Rightarrow> (Inl KeyError, db, p)
                  | Some u \<Rightarrow>
                      let (ok, p1) = can_access True t1 ctx u rtype res db p
                      in if ok then (verdict True, db, p1)
                         else let (again, db2, p2) =
                                    maybe_resync_google_groups configured apply_groups t2 u
                                      (case ud_email d of None \<Rightarrow> [] | Some e \<Rightarrow> e) db p1
                              in if \<not> again then (verdict False, db2, p2)
                                 else let (ok2, p3) = can_access True t3 ctx u rtype res db2 p2
                                      in (verdict ok2, db2, p3))
             | _ \<Rightarrow> (verdict (can_access_session user rtype res), db, p))"

section \<open>Collections\<close>

text \<open>\<open>file_corpora_repo().get\<close> and \<open>.list()\<close>; the list stops at its default limit of 200 rows.\<close>

definition get_corpus :: "string \<Rightarrow> rdb \<Rightarrow> corpus option" where
  "get_corpus i R = find (\<lambda>c. co_id c = i \<and> co_deleted c = None) (corpora R)"

definition list_corpora :: "nat \<Rightarrow> rdb \<Rightarrow> corpus list" where
  "list_corpora n R = take n (sort_key co_name (filter (\<lambda>c. co_deleted c = None) (corpora R)))"

definition can_access_collection ::
  "bool \<Rightarrow> mono_time \<Rightarrow> reqctx \<Rightarrow> string \<Rightarrow> string \<Rightarrow> rdb \<Rightarrow> aproc \<Rightarrow> bool \<times> aproc" where
  "can_access_collection conn now ctx u cid R p =
     (let (ok, p') = can_access conn now ctx u ''collection'' cid (auth R) p
      in if ok then (True, p')
         else ((case get_corpus cid R of None \<Rightarrow> False | Some c \<Rightarrow> co_by c = u), p'))"

text \<open>
  \<open>get_accessible_ids\<close> of \<open>src/rbac.py\<close>: the outer option is the sentinel \<open>None\<close>, every id.
\<close>

definition get_accessible_ids :: "caller \<Rightarrow> string \<Rightarrow> adb \<Rightarrow> string set option" where
  "get_accessible_ids user rtype db =
     (case user of
        UserDict d \<Rightarrow>
          (case ud_id d of
             None \<Rightarrow> Some {}
           | Some u \<Rightarrow>
               if u = [] then Some {}
               else if is_user_admin u db then None
               else Some (allowed_ids_for_user u rtype db))
      | _ \<Rightarrow> Some (case intersection_of user rtype of None \<Rightarrow> {} | Some s \<Rightarrow> s))"

text \<open>
  Only \<open>SessionPrincipal\<close> is tested for; an \<open>AgentPrincipal\<close> reaches \<open>user.get\<close>, which a dataclass does
  not have.
\<close>

definition accessible_collection_ids :: "caller \<Rightarrow> rdb \<Rightarrow> http_error + string set option" where
  "accessible_collection_ids user R =
     (case get_accessible_ids user ''collection'' (auth R) of
        None \<Rightarrow> Inr None
      | Some granted \<Rightarrow>
          (case user of
             SessionPrincipal s us es m \<Rightarrow> Inr (Some granted)
           | AgentPrincipal s a ow oe m \<Rightarrow> Inl AttributeError
           | UserDict d \<Rightarrow>
               (case ud_id d of
                  None \<Rightarrow> Inr (Some granted)
                | Some u \<Rightarrow>
                    if u = [] then Inr (Some granted)
                    else Inr (Some (granted \<union>
                           set (map co_id (filter (\<lambda>c. co_by c = u) (list_corpora 200 R))))))))"

definition require_collection_access ::
  "bool \<Rightarrow> (string \<Rightarrow> string \<Rightarrow> adb \<Rightarrow> adb option) \<Rightarrow> mono_time \<times> mono_time \<times> mono_time
     \<Rightarrow> reqctx \<Rightarrow> template_part list \<Rightarrow> (string \<rightharpoonup> string) \<Rightarrow> caller \<Rightarrow> rdb \<Rightarrow> aproc
     \<Rightarrow> (http_error + caller) \<times> rdb \<times> aproc" where
  "require_collection_access configured apply_groups clocks ctx tmpl params user R p =
     (case format_template tmpl params of
        None \<Rightarrow> (Inl (ServerError ''require_collection_access''), R, p)
      | Some res \<Rightarrow>
          let (t1, t2, t3) = clocks;
              verdict = (\<lambda>ok. if ok then Inr user
                 else Inl (Forbidden (''Access denied to collection '' @ [CHR 0x27] @ res @ [CHR 0x27])))
          in case user of
               SessionPrincipal s us es m \<Rightarrow> (verdict (can_access_session user ''collection'' res), R, p)
             | AgentPrincipal s a ow oe m \<Rightarrow> (Inl TypeError, R, p)
             | UserDict d \<Rightarrow>
                 (case ud_id d of
                    None \<Rightarrow> (Inl KeyError, R, p)
                  | Some u \<Rightarrow>
                      let (ok, p1) = can_access_collection True t1 ctx u res R p
                      in if ok then (verdict True, R, p1)
                         else let (again, db2, p2) =
                                    maybe_resync_google_groups configured apply_groups t2 u
                                      (case ud_email d of None \<Rightarrow> [] | Some e \<Rightarrow> e) (auth R) p1
                              in if \<not> again then (verdict False, R\<lparr>auth := db2\<rparr>, p2)
                                 else let (ok2, p3) = can_access_collection True t3 ctx u res (R\<lparr>auth := db2\<rparr>) p2
                                      in (verdict ok2, R\<lparr>auth := db2\<rparr>, p3)))"

section \<open>The intersections\<close>

definition resource_types :: "string list" where
  "resource_types =
     [''marketplace_plugin'', ''table'', ''data_package'', ''semantic_model'', ''memory_domain'',
      ''memory_item'', ''recipe'', ''chat'', ''slack_channel'', ''collection'', ''knowledge_digest'',
      ''data_app'', ''agent'', ''corpus_file'', ''store_entity'']"

text \<open>The participants' user ids, \<open>None\<close> at the first unknown email.\<close>

fun participant_ids :: "string list \<Rightarrow> user_row list \<Rightarrow> string list option" where
  "participant_ids [] us = Some []"
| "participant_ids (e # es) us =
     (case find (\<lambda>r. usr_email r = e) us of
        None \<Rightarrow> None
      | Some r \<Rightarrow> map_option (\<lambda>is. usr_id r # is) (participant_ids es us))"

fun intersect_all :: "string set option \<Rightarrow> string set list \<Rightarrow> string set option" where
  "intersect_all acc [] = acc"
| "intersect_all acc (s # ss) = intersect_all (Some (case acc of None \<Rightarrow> s | Some a \<Rightarrow> a \<inter> s)) ss"

definition compute_grant_intersection :: "string list \<Rightarrow> rdb \<Rightarrow> grantmap" where
  "compute_grant_intersection emails R =
     (if emails = [] then Map.empty
      else case participant_ids emails (users R) of
             None \<Rightarrow> Map.empty
           | Some ids \<Rightarrow>
               fold (\<lambda>rt m. case intersect_all None (map (\<lambda>u. allowed_ids_for_user u rt (auth R)) ids) of
                              None \<Rightarrow> m
                            | Some acc \<Rightarrow> if acc = {} then m else m(rt \<mapsto> acc))
                 resource_types Map.empty)"

definition MODE_TO_RESOURCE_TYPE :: "(string \<times> string \<times> string) list" where
  "MODE_TO_RESOURCE_TYPE =
     [(''tables_mode'', ''table'', ''table''), (''plugins_mode'', ''plugin'', ''marketplace_plugin''),
      (''memory_mode'', ''memory_domain'', ''memory_domain'')]"

text \<open>\<open>agent_row.get(mode_field)\<close>.\<close>

definition mode_of :: "string \<Rightarrow> agent_row \<Rightarrow> string option" where
  "mode_of f a = map_of [(''tables_mode'', tables_mode a), (''plugins_mode'', plugins_mode a),
     (''connections_mode'', connections_mode a), (''memory_mode'', memory_mode a)] f"

definition get_scope :: "string \<Rightarrow> rdb \<Rightarrow> scope_item list" where
  "get_scope i R = sort_key (\<lambda>s. (item_type s, item_id s)) (filter (\<lambda>s. sc_agent s = i) (agent_scope R))"

definition agent_scope_ids :: "string \<Rightarrow> string \<Rightarrow> rdb \<Rightarrow> string set" where
  "agent_scope_ids i it R = set (map item_id (filter (\<lambda>s. item_type s = it) (get_scope i R)))"

definition agent_scope_filter :: "string option \<Rightarrow> string \<Rightarrow> string \<Rightarrow> rdb \<Rightarrow> string set option" where
  "agent_scope_filter agent_id mode_field it R =
     (case agent_id of
        None \<Rightarrow> Some {}
      | Some i \<Rightarrow>
          if i = [] then Some {}
          else case find (\<lambda>a. ag_id a = i) (agents R) of
                 None \<Rightarrow> Some {}
               | Some a \<Rightarrow>
                   if ag_deleted a \<noteq> None then Some {}
                   else if mode_of mode_field a = Some ''all'' then None
                   else if mode_of mode_field a \<noteq> Some ''selected'' then Some {}
                   else Some (agent_scope_ids i it R))"

definition mode_fields :: "string list" where
  "mode_fields = [''tables_mode'', ''plugins_mode'', ''connections_mode'', ''memory_mode'']"

definition agent_narrows :: "agent_row \<Rightarrow> bool" where
  "agent_narrows a \<longleftrightarrow> list_ex (\<lambda>f. mode_of f a = Some ''selected'') mode_fields"

definition agent_is_passthrough :: "agent_row \<Rightarrow> bool" where
  "agent_is_passthrough a \<longleftrightarrow> list_all (\<lambda>f. mode_of f a = Some ''all'') mode_fields"

text \<open>The loop's body: the type's mode column, if it has one, and its three branches.\<close>

definition put_nonempty :: "string \<Rightarrow> string set \<Rightarrow> grantmap \<Rightarrow> grantmap" where
  "put_nonempty rt s m = (if s \<noteq> {} then m(rt \<mapsto> s) else m)"

definition narrow_step :: "string option \<Rightarrow> string set \<Rightarrow> string set \<Rightarrow> string \<Rightarrow> grantmap \<Rightarrow> grantmap" where
  "narrow_step mode owner_set agent_set rt m =
     (if mode = Some ''all'' then put_nonempty rt owner_set m
      else if mode = Some ''selected'' then put_nonempty rt (owner_set \<inter> agent_set) m
      else m(rt \<mapsto> {}))"

definition agent_type_step :: "string \<Rightarrow> agent_row \<Rightarrow> rdb \<Rightarrow> string \<Rightarrow> grantmap \<Rightarrow> grantmap" where
  "agent_type_step ow a R rt m =
     (case find (\<lambda>(mf, it, v). v = rt) MODE_TO_RESOURCE_TYPE of
        None \<Rightarrow> put_nonempty rt (allowed_ids_for_user ow rt (auth R)) m
      | Some (mf, it, v) \<Rightarrow>
          narrow_step (mode_of mf a) (allowed_ids_for_user ow rt (auth R))
            (agent_scope_ids (ag_id a) it R) rt m)"

definition compute_agent_intersection :: "string \<Rightarrow> agent_row option \<Rightarrow> rdb \<Rightarrow> grantmap" where
  "compute_agent_intersection ow agent R =
     (if ow = [] then Map.empty
      else case agent of
             None \<Rightarrow> Map.empty
           | Some a \<Rightarrow> fold (agent_type_step ow a R) resource_types Map.empty)"

section \<open>Grants and admin status\<close>

lemma set_user_group_ids [simp]: "set (user_group_ids u db) = set (list_groups_for_user u db)"
  by (simp add: user_group_ids_def)

lemma user_group_ids_Nil [simp]: "user_group_ids u db = [] \<longleftrightarrow> list_groups_for_user u db = []"
  by (simp add: user_group_ids_def)

lemma set_list_for_groups:
  "t \<noteq> [] \<Longrightarrow> set (list_for_groups gs (Some t) db) =
     {r \<in> set (grants db). g_group r \<in> set gs \<and> g_type r = t}"
  by (auto simp: list_for_groups_def)

lemma has_explicit_grant_iff:
  "has_explicit_grant u t res db \<longleftrightarrow>
     (\<exists>r\<in>set (grants db). g_group r \<in> set (list_groups_for_user u db) \<and> g_type r = t \<and> g_res r = res)"
  by (auto simp: has_explicit_grant_def has_grant_def Let_def)

lemma in_allowed_ids_iff:
  "t \<noteq> [] \<Longrightarrow> res \<in> allowed_ids_for_user u t db \<longleftrightarrow> has_explicit_grant u t res db"
  by (auto simp: allowed_ids_for_user_def Let_def set_list_for_groups has_explicit_grant_iff)

lemma is_user_admin_iff:
  "is_user_admin u db \<longleftrightarrow>
     (\<exists>a. get_group_id_by_name SYSTEM_ADMIN_GROUP db = Some a \<and> a \<in> set (list_groups_for_user u db))"
  by (auto simp: is_user_admin_def split: option.split)

text \<open>
  C4. The access decision. A caller may reach a resource exactly when it is one of the internal
  tables, or the caller is in the Admin group and has not paused their own elevation, or one of
  the caller's groups holds an explicit grant on it; the logging of admin bypasses and its caches
  never change the answer.
\<close>

theorem can_access_exact:
  "fst (can_access conn now ctx u rtype res db p) \<longleftrightarrow>
     (rtype = ''table'' \<and> is_internal_table res) \<or>
     (is_user_admin u db \<and> \<not> elevation_paused ctx (Some u)) \<or>
     has_explicit_grant u rtype res db"
proof -
  have "is_user_admin u db \<longleftrightarrow> (case get_group_id_by_name SYSTEM_ADMIN_GROUP db of
      None \<Rightarrow> False | Some a \<Rightarrow> a \<in> set (user_group_ids u db))" by (simp add: is_user_admin_def)
  then show ?thesis
    by (auto simp: can_access_def Let_def has_explicit_grant_def)
qed

lemma fst_can_access:
  "rtype \<noteq> ''table'' \<Longrightarrow> fst (can_access conn now ctx u rtype res db p) \<longleftrightarrow>
     (is_user_admin u db \<and> \<not> elevation_paused ctx (Some u)) \<or> has_explicit_grant u rtype res db"
  unfolding can_access_def is_user_admin_def has_explicit_grant_def by (auto simp: Let_def)

section \<open>Co-session participants\<close>

definition lookup_ids :: "grantmap \<Rightarrow> string \<Rightarrow> string set" where
  "lookup_ids m t = (case m t of None \<Rightarrow> {} | Some s \<Rightarrow> s)"

lemma can_access_session_iff: "can_access_session who t res \<longleftrightarrow> res \<in> lookup_ids (intersection_of who) t"
  by (simp add: can_access_session_def lookup_ids_def)

text \<open>
  A loop that writes at most its own key looks up, for each key, what its own step wrote.
\<close>

lemma fold_map_step:
  assumes "\<And>rt m. lookup_ids (step rt m) rt = f rt \<or> lookup_ids (step rt m) rt = lookup_ids m rt \<and> f rt = {}"
    and "\<And>rt m t. t \<noteq> rt \<Longrightarrow> lookup_ids (step rt m) t = lookup_ids m t"
    and "distinct rts" "\<forall>t\<in>set rts. lookup_ids m0 t = {}"
  shows "lookup_ids (fold step rts m0) t = (if t \<in> set rts then f t else lookup_ids m0 t)"
  using assms(3,4)
proof (induction rts arbitrary: m0)
  case (Cons rt rts)
  have own: "lookup_ids (step rt m0) rt = f rt" using assms(1) [of rt m0] Cons.prems(2) by auto
  have "t \<noteq> rt \<and> lookup_ids m0 t = {}" if "t \<in> set rts" for t using that Cons.prems by auto
  then have "\<forall>t\<in>set rts. lookup_ids (step rt m0) t = {}" using assms(2) by metis
  with Cons have "lookup_ids (fold step rts (step rt m0)) t =
      (if t \<in> set rts then f t else lookup_ids (step rt m0) t)" by simp
  then show ?case using own assms(2) Cons.prems(1) by auto
qed simp

lemma resource_types_facts: "distinct resource_types" "t \<in> set resource_types \<Longrightarrow> t \<noteq> []"
  by (auto simp: resource_types_def)

lemma intersect_all_Some: "intersect_all (Some a) ss = Some (a \<inter> \<Inter>(set ss))"
  by (induction ss arbitrary: a) auto

lemma intersect_all_None: "ss \<noteq> [] \<Longrightarrow> intersect_all None ss = Some (\<Inter>(set ss))"
  by (cases ss) (auto simp: intersect_all_Some)

lemma participant_ids_Some:
  "participant_ids es us = Some ids \<longleftrightarrow>
     list_all2 (\<lambda>e i. \<exists>r. find (\<lambda>r. usr_email r = e) us = Some r \<and> usr_id r = i) es ids"
proof (induction es arbitrary: ids)
  case (Cons e es)
  then show ?case by (cases ids) (auto split: option.split)
qed auto

lemma participant_ids_set:
  assumes "participant_ids es us = Some ids"
  shows "(\<forall>i\<in>set ids. P i) \<longleftrightarrow>
     (\<forall>e\<in>set es. \<exists>r. find (\<lambda>r. usr_email r = e) us = Some r \<and> P (usr_id r))"
proof -
  have "list_all2 (\<lambda>e i. \<exists>r. find (\<lambda>r. usr_email r = e) us = Some r \<and> usr_id r = i) es ids"
    using assms by (simp add: participant_ids_Some)
  then show ?thesis by (induction rule: list_all2_induct) auto
qed

lemma participant_ids_None:
  "participant_ids es us = None \<longleftrightarrow> (\<exists>e\<in>set es. find (\<lambda>r. usr_email r = e) us = None)"
  by (induction es) (auto split: option.split)

lemma lookup_grant_intersection:
  assumes "participant_ids emails (users R) = Some ids" "emails \<noteq> []" "t \<in> set resource_types"
  shows "lookup_ids (compute_grant_intersection emails R) t =
     (\<Inter>i\<in>set ids. allowed_ids_for_user i t (auth R))"
proof -
  have "ids \<noteq> []" using assms(1,2) by (auto simp: participant_ids_Some)
  then have inter: "intersect_all None (map (\<lambda>u. allowed_ids_for_user u rt (auth R)) ids) =
      Some (\<Inter>i\<in>set ids. allowed_ids_for_user i rt (auth R))" for rt
    by (simp add: intersect_all_None)
  show ?thesis using assms
    unfolding compute_grant_intersection_def
    by (simp add: inter, subst fold_map_step [where f = "\<lambda>rt. \<Inter>i\<in>set ids. allowed_ids_for_user i rt (auth R)"])
      (auto simp: lookup_ids_def resource_types_facts)
qed

lemma in_grant_intersection:
  "res \<in> lookup_ids (compute_grant_intersection emails R) t \<longleftrightarrow>
     emails \<noteq> [] \<and> t \<in> set resource_types \<and>
     (\<forall>e\<in>set emails. \<exists>r. find (\<lambda>r. usr_email r = e) (users R) = Some r \<and>
        has_explicit_grant (usr_id r) t res (auth R))"
proof (cases "emails = [] \<or> participant_ids emails (users R) = None")
  case True
  then have "compute_grant_intersection emails R = Map.empty"
    by (auto simp: compute_grant_intersection_def)
  moreover have "emails = [] \<or> (\<exists>e\<in>set emails. find (\<lambda>r. usr_email r = e) (users R) = None)"
    using True by (simp add: participant_ids_None)
  ultimately show ?thesis by (fastforce simp: lookup_ids_def)
next
  case False
  then obtain ids where ids: "participant_ids emails (users R) = Some ids" by auto
  show ?thesis
  proof (cases "t \<in> set resource_types")
    case True
    have "res \<in> lookup_ids (compute_grant_intersection emails R) t \<longleftrightarrow>
        (\<forall>i\<in>set ids. has_explicit_grant i t res (auth R))"
      using False True resource_types_facts(2) [OF True]
      by (simp add: lookup_grant_intersection [OF ids] in_allowed_ids_iff)
    then show ?thesis using False True participant_ids_set [OF ids] by simp
  next
    case outside: False
    have "lookup_ids (compute_grant_intersection emails R) t = {}"
      using False ids outside unfolding compute_grant_intersection_def
      by (simp, subst fold_map_step [where f = "\<lambda>rt. case intersect_all None
             (map (\<lambda>u. allowed_ids_for_user u rt (auth R)) ids) of None \<Rightarrow> {} | Some s \<Rightarrow> s"])
        (auto simp: lookup_ids_def resource_types_facts split: option.split)
    with outside show ?thesis by simp
  qed
qed

lemma has_explicit_grant_rows:
  "has_explicit_grant u t res db \<longleftrightarrow>
     (\<exists>g\<in>set (grants db). \<exists>m\<in>set (members db).
        m_user m = u \<and> m_group m = g_group g \<and> g_type g = t \<and> g_res g = res)"
  unfolding has_explicit_grant_iff list_groups_for_user_def by force

text \<open>
  C12. What a co-session may reach. If it reaches a resource, there is at least one participant, each is a
  known user, and each who is not in the Admin group is a member of a group with an explicit grant on it.
  If there are participants, each is known and each holds such a grant, it is reached. One unknown participant,
  or one plain member without the grant, denies it to all; without administrators the two halves say exactly
  which resources are reached. What an administrator without the grant contributes is left open: the
  documentation says everything, the code nothing (\<open>admin_participant_explicit_only\<close> below).
\<close>

theorem grant_intersection_exact:
  "(res \<in> lookup_ids (compute_grant_intersection emails R) t \<longrightarrow>
     emails \<noteq> [] \<and> t \<in> set resource_types \<and>
     (\<forall>e\<in>set emails. \<exists>r. find (\<lambda>r. usr_email r = e) (users R) = Some r \<and>
        (is_user_admin (usr_id r) (auth R) \<or>
         (\<exists>g\<in>set (grants (auth R)). \<exists>m\<in>set (members (auth R)).
            m_user m = usr_id r \<and> m_group m = g_group g \<and> g_type g = t \<and> g_res g = res)))) \<and>
   (emails \<noteq> [] \<and> t \<in> set resource_types \<and>
     (\<forall>e\<in>set emails. \<exists>r. find (\<lambda>r. usr_email r = e) (users R) = Some r \<and>
         (\<exists>g\<in>set (grants (auth R)). \<exists>m\<in>set (members (auth R)).
            m_user m = usr_id r \<and> m_group m = g_group g \<and> g_type g = t \<and> g_res g = res))
    \<longrightarrow> res \<in> lookup_ids (compute_grant_intersection emails R) t)"
  unfolding in_grant_intersection has_explicit_grant_rows by blast

text \<open>
  An administrator contributes no more than the explicit grants, although the header of
  \<open>src/grant_intersection.py\<close> promises the full set: a resource that the administrator reaches alone, by the
  Admin group only, is denied to every co-session the administrator takes part in.
\<close>

lemma admin_participant_explicit_only:
  assumes "find (\<lambda>r. usr_email r = e) (users R) = Some r" "is_user_admin (usr_id r) (auth R)"
    and "\<not> has_explicit_grant (usr_id r) t res (auth R)" "e \<in> set emails" "t \<noteq> ''table''"
  shows "res \<notin> lookup_ids (compute_grant_intersection emails R) t
    \<and> fst (can_access conn now \<lparr>ctx_paused = False, ctx_caller = None\<rparr> (usr_id r) t res (auth R) p)"
proof
  show "res \<notin> lookup_ids (compute_grant_intersection emails R) t"
    unfolding in_grant_intersection using assms(1,3,4) by (metis option.inject)
qed (use assms(2,5) in \<open>simp add: fst_can_access elevation_paused_def\<close>)

definition duo :: rdb where
  "duo = \<lparr>auth = one_group\<lparr>members :=
       [\<lparr>m_user = ''u1'', m_group = ''g'', m_source = ''admin'', m_at = 0, m_by = None\<rparr>,
        \<lparr>m_user = ''u2'', m_group = ''g'', m_source = ''admin'', m_at = 0, m_by = None\<rparr>],
       grants := [new_grant 0 ''x'' ''g'' ''table'' ''t1'' None ''available'']\<rparr>,
     users = [\<lparr>usr_id = ''u1'', usr_email = ''a@b'', usr_active = True, usr_created = Some 0\<rparr>,
       \<lparr>usr_id = ''u2'', usr_email = ''c@d'', usr_active = True, usr_created = Some 0\<rparr>],
     agents = [], agent_scope = [], corpora = [], registry = [], packages = [], domains = [],
     package_tables = []\<rparr>"

theorem grant_intersection_exact_witness:
  "''t1'' \<in> lookup_ids (compute_grant_intersection [''a@b'', ''c@d''] duo) ''table'' \<and>
   ''t1'' \<notin> lookup_ids (compute_grant_intersection [''a@b'', ''nobody''] duo) ''table''"
proof
  show "''t1'' \<in> lookup_ids (compute_grant_intersection [''a@b'', ''c@d''] duo) ''table''"
    by (rule grant_intersection_exact [THEN conjunct2, rule_format])
      (simp add: duo_def one_group_def new_grant_def resource_types_def)
  show "''t1'' \<notin> lookup_ids (compute_grant_intersection [''a@b'', ''nobody''] duo) ''table''"
    using grant_intersection_exact [THEN conjunct1, of "''t1''" "[''a@b'', ''nobody'']" duo "''table''"]
    by (auto simp: duo_def)
qed

section \<open>Agents\<close>

text \<open>What an agent row permits on a resource type, read off the three enforced modes.\<close>

definition mode_permits :: "string \<Rightarrow> string \<Rightarrow> string \<Rightarrow> string \<Rightarrow> rdb \<Rightarrow> bool" where
  "mode_permits mode ai it res R \<longleftrightarrow>
     mode = ''all'' \<or> (mode = ''selected'' \<and> res \<in> agent_scope_ids ai it R)"

definition agent_permits :: "agent_row \<Rightarrow> string \<Rightarrow> string \<Rightarrow> rdb \<Rightarrow> bool" where
  "agent_permits a t res R \<longleftrightarrow>
     (if t = ''table'' then mode_permits (tables_mode a) (ag_id a) ''table'' res R
      else if t = ''marketplace_plugin'' then mode_permits (plugins_mode a) (ag_id a) ''plugin'' res R
      else if t = ''memory_domain'' then mode_permits (memory_mode a) (ag_id a) ''memory_domain'' res R
      else True)"

lemma find_mode_type:
  "find (\<lambda>(mf, it, v). v = t) MODE_TO_RESOURCE_TYPE =
     (if t = ''table'' then Some (''tables_mode'', ''table'', t)
      else if t = ''marketplace_plugin'' then Some (''plugins_mode'', ''plugin'', t)
      else if t = ''memory_domain'' then Some (''memory_mode'', ''memory_domain'', t) else None)"
  by (auto simp: MODE_TO_RESOURCE_TYPE_def)

lemma mode_of_simps [simp]:
  "mode_of ''tables_mode'' a = Some (tables_mode a)" "mode_of ''plugins_mode'' a = Some (plugins_mode a)"
  "mode_of ''connections_mode'' a = Some (connections_mode a)" "mode_of ''memory_mode'' a = Some (memory_mode a)"
  by (simp_all add: mode_of_def)

definition agent_set :: "string \<Rightarrow> agent_row \<Rightarrow> rdb \<Rightarrow> string \<Rightarrow> string set" where
  "agent_set ow a R t = {res \<in> allowed_ids_for_user ow t (auth R). agent_permits a t res R}"

lemma put_nonempty_own:
  "lookup_ids (put_nonempty rt s m) rt = s \<or> lookup_ids (put_nonempty rt s m) rt = lookup_ids m rt \<and> s = {}"
  by (simp add: lookup_ids_def put_nonempty_def)

lemma narrow_step_own:
  "lookup_ids (narrow_step (Some mode) s (agent_scope_ids ai it R) rt m) rt = {r \<in> s. mode_permits mode ai it r R} \<or>
   lookup_ids (narrow_step (Some mode) s (agent_scope_ids ai it R) rt m) rt = lookup_ids m rt \<and>
     {r \<in> s. mode_permits mode ai it r R} = {}"
proof -
  consider "mode = ''all''" | "mode = ''selected''" | "mode \<noteq> ''all''" "mode \<noteq> ''selected''" by blast
  then show ?thesis
  proof cases
    case 1
    then show ?thesis using put_nonempty_own by (simp add: narrow_step_def mode_permits_def)
  next
    case 2
    then have "{r \<in> s. mode_permits mode ai it r R} = s \<inter> agent_scope_ids ai it R"
      by (auto simp: mode_permits_def)
    with 2 show ?thesis using put_nonempty_own by (simp add: narrow_step_def)
  next
    case 3
    then show ?thesis by (simp add: narrow_step_def mode_permits_def lookup_ids_def)
  qed
qed

lemma agent_type_step_own:
  "lookup_ids (agent_type_step ow a R rt m) rt = agent_set ow a R rt \<or>
   lookup_ids (agent_type_step ow a R rt m) rt = lookup_ids m rt \<and> agent_set ow a R rt = {}"
  using narrow_step_own put_nonempty_own
  unfolding agent_type_step_def find_mode_type agent_set_def agent_permits_def by simp

lemma agent_type_step_other:
  "t \<noteq> rt \<Longrightarrow> lookup_ids (agent_type_step ow a R rt m) t = lookup_ids m t"
  unfolding agent_type_step_def lookup_ids_def put_nonempty_def narrow_step_def
  by (auto split: option.split)

lemma lookup_agent_intersection:
  "lookup_ids (compute_agent_intersection ow (Some a) R) t =
     (if ow \<noteq> [] \<and> t \<in> set resource_types then agent_set ow a R t else {})"
  unfolding compute_agent_intersection_def
  using fold_map_step [of "agent_type_step ow a R" "agent_set ow a R", OF agent_type_step_own
      agent_type_step_other resource_types_facts(1), of Map.empty t]
  by (simp add: lookup_ids_def)

lemma no_agent_intersection: "lookup_ids (compute_agent_intersection ow None R) t = {}"
  by (simp add: compute_agent_intersection_def lookup_ids_def)

lemma in_agent_intersection:
  "res \<in> lookup_ids (compute_agent_intersection ow (Some a) R) t \<longleftrightarrow>
     ow \<noteq> [] \<and> t \<in> set resource_types \<and> has_explicit_grant ow t res (auth R) \<and> agent_permits a t res R"
  using resource_types_facts(2)
  by (auto simp: lookup_agent_intersection agent_set_def in_allowed_ids_iff)

text \<open>
  C11. An agent's authority is its owner's explicit grants cut down by the agent's own row: it holds
  a resource exactly when the owner's groups hold an explicit grant on it and the agent's mode for
  that type is \<open>all\<close>, or is \<open>selected\<close> with the resource in the agent's scope; a type the agent does
  not model passes through, any other mode value denies, and an owner who is an administrator
  gives the agent nothing beyond explicit grants.
\<close>

theorem agent_intersection_exact:
  "res \<in> lookup_ids (compute_agent_intersection ow agent R) t \<longleftrightarrow>
     ow \<noteq> [] \<and> t \<in> set resource_types \<and> has_explicit_grant ow t res (auth R) \<and>
     (\<exists>a. agent = Some a \<and> agent_permits a t res R)"
  by (cases agent) (simp_all add: in_agent_intersection no_agent_intersection)

lemma require_resource_access_principal:
  assumes "is_principal user"
    and "require_resource_access cfg ap dn clocks ctx rtype tmpl params user db p = (Inr user', db', p')"
  shows "\<exists>res. format_template tmpl params = Some res \<and> can_access_session user rtype res \<and> db' = db \<and> p' = p"
proof -
  obtain res where res: "format_template tmpl params = Some res"
    using assms(2) by (cases "format_template tmpl params") (auto simp: require_resource_access_def)
  then show ?thesis using assms
    by (cases user) (auto simp: require_resource_access_def Let_def split: if_splits prod.splits)
qed

definition solo_agent :: agent_row where
  "solo_agent = \<lparr>ag_id = ''ag'', ag_owner = ''u1'', ag_deleted = None, tables_mode = ''all'',
     plugins_mode = ''selected'', connections_mode = ''all'', memory_mode = ''all''\<rparr>"

definition no_caches :: aproc where
  "no_caches = \<lparr>god_logged = [], god_grants = [], god_log = [], resync_last = Map.empty\<rparr>"

section \<open>Collections\<close>

text \<open>
  The collection dependency tests for one of the two restricted principals only. With an
  agent's credential every collection request ends in a Python error instead of a decision (the
  dependency subscripts the principal, the list surface calls a method it lacks), whatever the
  agent's intersection allows, while a co-session holding the same intersection is answered.
\<close>

theorem agent_collection_request_crashes:
  "fst (require_collection_access cfg ap clocks ctx [Field k] [k \<mapsto> cid] (AgentPrincipal s ai ow oe m) R p) =
     Inl TypeError \<and>
   accessible_collection_ids (AgentPrincipal s ai ow oe m) R = Inl AttributeError \<and>
   (fst (require_collection_access cfg ap clocks ctx [Field k] [k \<mapsto> cid] (SessionPrincipal s us es m) R p) =
      Inr (SessionPrincipal s us es m) \<longleftrightarrow> cid \<in> lookup_ids m ''collection'') \<and>
   accessible_collection_ids (SessionPrincipal s us es m) R = Inr (Some (lookup_ids m ''collection''))"
  by (auto simp: require_collection_access_def accessible_collection_ids_def get_accessible_ids_def
      can_access_session_def lookup_ids_def Let_def split: prod.split)

lemma fst_can_access_collection:
  "fst (can_access_collection conn now ctx u cid R p) \<longleftrightarrow>
     (is_user_admin u (auth R) \<and> \<not> elevation_paused ctx (Some u)) \<or>
     has_explicit_grant u ''collection'' cid (auth R) \<or>
     (\<exists>c. get_corpus cid R = Some c \<and> co_by c = u)"
proof -
  have "fst (can_access_collection conn now ctx u cid R p) \<longleftrightarrow>
      fst (can_access conn now ctx u ''collection'' cid (auth R) p) \<or>
      (\<exists>c. get_corpus cid R = Some c \<and> co_by c = u)"
    by (auto simp: can_access_collection_def case_prod_beta split: option.split)
  then show ?thesis by (simp add: fst_can_access)
qed

text \<open>Two hundred corpora of another user whose names sort first, and one of \<open>u\<close>.\<close>

definition other_corpus :: "nat \<Rightarrow> corpus" where
  "other_corpus i = \<lparr>co_id = CHR ''x'' # nat_digits i, co_name = ''a'', co_by = ''other'', co_deleted = None\<rparr>"

definition own_corpus :: corpus where
  "own_corpus = \<lparr>co_id = ''mine'', co_name = ''b'', co_by = ''u'', co_deleted = None\<rparr>"

definition other_corpora :: "nat \<Rightarrow> corpus list" where
  "other_corpora n = map other_corpus [0..<n]"

definition many_corpora :: rdb where
  "many_corpora = \<lparr>auth = empty_adb, users = [], agents = [], agent_scope = [],
     corpora = other_corpora 200 @ [own_corpus],
     registry = [], packages = [], domains = [], package_tables = []\<rparr>"

lemma length_other_corpora [simp]: "length (other_corpora n) = n"
  by (simp add: other_corpora_def)

lemma other_corpora_rows:
  "c \<in> set (other_corpora n) \<Longrightarrow> co_id c \<noteq> ''mine'' \<and> co_name c = ''a'' \<and> co_by c = ''other'' \<and> co_deleted c = None"
  by (auto simp: other_corpora_def other_corpus_def)

lemma distinct_other_corpora: "distinct (map co_id (other_corpora n))"
proof -
  have "inj nat_digits"
    by (rule inj_on_inverseI [of _ "foldl (\<lambda>a c. 10 * a + digit_val c) 0"]) (rule nat_digits_value)
  then have "inj_on (\<lambda>i. CHR ''x'' # nat_digits i) {0..<n}" by (auto simp: inj_on_def)
  then show ?thesis by (simp add: other_corpora_def comp_def other_corpus_def distinct_map)
qed

lemma list_many_corpora: "list_corpora 200 many_corpora = other_corpora 200"
proof -
  have live: "filter (\<lambda>c. co_deleted c = None) (corpora many_corpora) = corpora many_corpora"
    using other_corpora_rows by (auto simp: many_corpora_def filter_id_conv own_corpus_def)
  have "map co_name (other_corpora n) = replicate n ''a''" for n
    by (simp add: other_corpora_def comp_def other_corpus_def map_replicate_const)
  then have "sorted (map co_name (other_corpora n @ [own_corpus]))" for n
    by (simp add: sorted_append own_corpus_def)
  then have "sort_key co_name (corpora many_corpora) = corpora many_corpora"
    by (intro sort_key_id_if_sorted) (simp add: many_corpora_def)
  then show ?thesis unfolding list_corpora_def live by (simp add: many_corpora_def)
qed

text \<open>
  The list of a user's collections is computed from the first 200 live corpora of the whole
  instance, by name: there are tables in which a user owns a corpus and may open it, while the set
  of collections that user may access, which every list and search surface uses, does not contain
  it.
\<close>

theorem owned_collection_not_listed:
  "\<exists>R u cid. fst (can_access_collection False 0 \<lparr>ctx_paused = False, ctx_caller = None\<rparr> u cid R no_caches) \<and>
     (\<exists>c\<in>set (corpora R). co_id c = cid \<and> co_by c = u \<and> co_deleted c = None) \<and>
     distinct (map co_id (corpora R)) \<and>
     (\<exists>ids. accessible_collection_ids (UserDict \<lparr>ud_id = Some u, ud_email = None, ud_surface = None\<rparr>) R =
        Inr (Some ids) \<and> cid \<notin> ids)"
proof -
  have own: "get_corpus ''mine'' many_corpora = Some own_corpus"
    using other_corpora_rows unfolding get_corpus_def many_corpora_def
    by (simp add: find_append_right own_corpus_def)
  have nil: "\<not> is_user_admin ''u'' (auth many_corpora)" "allowed_ids_for_user ''u'' t (auth many_corpora) = {}" for t
    by (simp_all add: is_user_admin_iff allowed_ids_for_user_def many_corpora_def empty_adb_def
        list_groups_for_user_def)
  have "''mine'' \<notin> co_id ` set (other_corpora n)" for n using other_corpora_rows by force
  then have "distinct (map co_id (corpora many_corpora))"
    using distinct_other_corpora by (simp add: many_corpora_def own_corpus_def)
  moreover have "filter (\<lambda>c. co_by c = ''u'') (other_corpora 200) = []"
    using other_corpora_rows by (auto simp: filter_empty_conv)
  then have "accessible_collection_ids (UserDict \<lparr>ud_id = Some ''u'', ud_email = None, ud_surface = None\<rparr>)
      many_corpora = Inr (Some {})"
    using nil by (simp add: accessible_collection_ids_def get_accessible_ids_def list_many_corpora)
  moreover have "own_corpus \<in> set (corpora many_corpora)" by (simp add: many_corpora_def)
  ultimately show ?thesis using own
    by (intro exI [of _ many_corpora] exI [of _ "''u''"] exI [of _ "''mine''"])
      (auto simp: fst_can_access_collection own_corpus_def intro!: bexI [of _ own_corpus])
qed

end
