(* ===== verification/GroupSync.thy ===== *)
theory GroupSync
  imports Access
begin

text \<open>
  The Google Workspace refresh of a user's groups, \<open>app/auth/group_sync.py\<close>. The Admin SDK call is a
  parameter (its result, or \<open>None\<close> when it raises); the three environment variables are arguments
  (the empty text when unset). Ids drawn for new groups and for the grants
  fanned out to them are functions of the position in the loop.
\<close>

section \<open>Model\<close>

definition SYSTEM_EVERYONE_GROUP :: string where "SYSTEM_EVERYONE_GROUP = ''Everyone''"

text \<open>The mock of \<open>GOOGLE_ADMIN_SDK_MOCK_GROUPS\<close>, else the real fetch.\<close>

definition fetch_user_groups :: "(string \<Rightarrow> string list) \<Rightarrow> string option \<Rightarrow> string \<Rightarrow> string list" where
  "fetch_user_groups fetch_real mock email =
     (case mock of
        Some s \<Rightarrow> filter (\<lambda>g. g \<noteq> []) (map py_strip (py_split (CHR '','') s))
      | None \<Rightarrow> fetch_real email)"

record sync_result =
  fetched :: "string list"
  relevant :: "string list"
  denied :: bool
  soft_failed :: bool
  applied :: bool

definition no_result :: sync_result where
  "no_result = \<lparr>fetched = [], relevant = [], denied = False, soft_failed = False, applied = False\<rparr>"

text \<open>The loop over the relevant emails: the two mapped system groups, else get-or-create by name.\<close>

definition system_ids :: "string \<Rightarrow> adb \<Rightarrow> string list" where
  "system_ids nm db = (case get_group_by_name nm db of None \<Rightarrow> [] | Some r \<Rightarrow> [ug_id r])"

fun collect_group_ids ::
  "micros \<Rightarrow> (nat \<Rightarrow> string) \<Rightarrow> (nat \<Rightarrow> nat \<Rightarrow> string) \<Rightarrow> string \<Rightarrow> string \<Rightarrow> nat \<Rightarrow> string list \<Rightarrow> adb
     \<Rightarrow> (db_error + string list) \<times> adb" where
  "collect_group_ids now gids uuids adm ever i [] db = (Inr [], db)"
| "collect_group_ids now gids uuids adm ever i (e # es) db =
     (let rest = (\<lambda>ids db1. case collect_group_ids now gids uuids adm ever (Suc i) es db1 of
                    (Inl er, db2) \<Rightarrow> (Inl er, db2)
                  | (Inr ids2, db2) \<Rightarrow> (Inr (ids @ ids2), db2))
      in if adm \<noteq> [] \<and> e = adm then rest (system_ids SYSTEM_ADMIN_GROUP db) db
         else if ever \<noteq> [] \<and> e = ever then rest (system_ids SYSTEM_EVERYONE_GROUP db) db
         else case ensure_group now (gids i) (uuids i) e None ''system:google-sync'' db of
                Inl er \<Rightarrow> (Inl er, db)
              | Inr (None, db1) \<Rightarrow> (Inl DBValueError, db1)
              | Inr (Some g, db1) \<Rightarrow> rest [ug_id g] db1)"

text \<open>The guarded block: the loop and the replacement; \<open>False\<close> when an exception was caught.\<close>

definition sync_write ::
  "micros \<Rightarrow> (nat \<Rightarrow> string) \<Rightarrow> (nat \<Rightarrow> nat \<Rightarrow> string) \<Rightarrow> (nat \<Rightarrow> bool) \<Rightarrow> string \<Rightarrow> string
     \<Rightarrow> string list \<Rightarrow> string \<Rightarrow> adb \<Rightarrow> bool \<times> adb" where
  "sync_write now gids uuids conflict adm ever rel u db =
     (case collect_group_ids now gids uuids adm ever 0 rel db of
        (Inl er, db1) \<Rightarrow> (False, db1)
      | (Inr ids, db1) \<Rightarrow>
          (case replace_google_sync_groups (\<lambda>_ d. d) conflict now u ids ''system:google-sync'' db1 of
             (Inl er, db2) \<Rightarrow> (False, db2)
           | (Inr _, db2) \<Rightarrow> (True, db2)))"

definition prefix_filter :: "string \<Rightarrow> string list \<Rightarrow> string list" where
  "prefix_filter pre fet = (if pre \<noteq> [] then filter (prefix pre) fet else fet)"

definition apply_user_groups ::
  "micros \<Rightarrow> (nat \<Rightarrow> string) \<Rightarrow> (nat \<Rightarrow> nat \<Rightarrow> string) \<Rightarrow> (nat \<Rightarrow> bool) \<Rightarrow> string \<Rightarrow> string \<Rightarrow> string
     \<Rightarrow> string list option \<Rightarrow> string \<Rightarrow> adb \<Rightarrow> sync_result \<times> adb" where
  "apply_user_groups now gids uuids conflict prefix_env admin_env everyone_env group_emails u db =
     (let pre = lower (py_strip prefix_env); adm = lower (py_strip admin_env);
          ever = lower (py_strip everyone_env)
      in case group_emails of
           None \<Rightarrow> (no_result\<lparr>soft_failed := True\<rparr>, db)
         | Some emails \<Rightarrow>
             if emails = [] then (no_result\<lparr>soft_failed := True\<rparr>, db)
             else let fet = map lower emails;
                      rel = prefix_filter pre fet;
                      r = no_result\<lparr>fetched := fet, relevant := rel\<rparr>
                  in if pre \<noteq> [] \<and> rel = [] then (r\<lparr>denied := True\<rparr>, db)
                     else case sync_write now gids uuids conflict adm ever rel u db of
                            (True, db2) \<Rightarrow> (r\<lparr>applied := True\<rparr>, db2)
                          | (False, db2) \<Rightarrow> (r\<lparr>soft_failed := True\<rparr>, db2))"

definition ensure_everyone_membership :: "micros \<Rightarrow> string \<Rightarrow> string \<Rightarrow> string \<Rightarrow> adb \<Rightarrow> bool \<times> adb" where
  "ensure_everyone_membership now everyone_env u by db =
     (if py_strip everyone_env \<noteq> [] then (False, db)
      else case get_group_by_name SYSTEM_EVERYONE_GROUP db of
             None \<Rightarrow> (False, db)
           | Some r \<Rightarrow> (True, add_member now u (ug_id r) ''system_seed'' (Some by) db))"

section \<open>What the loop collects\<close>

lemma lower_not_admin: "lower s \<noteq> SYSTEM_ADMIN_GROUP"
proof
  assume "lower s = SYSTEM_ADMIN_GROUP"
  then obtain c where "lower_char c = CHR ''A''"
    by (cases s) (auto simp: lower_def SYSTEM_ADMIN_GROUP_def)
  then have "(of_char (lower_char c) :: nat) = 65" by simp
  then show False by (auto simp: lower_char_def Let_def split: if_splits)
qed

lemma members_fanout_loop: "members (snd (fanout_loop now uuid g b i ps db)) = members db"
proof (induction ps arbitrary: i db)
  case (Cons p ps)
  show ?case
    by (cases "insert_grant (new_grant now (uuid i) g ''marketplace_plugin'' (plugin_res p) b ''available'') db")
      (auto simp: Cons.IH case_prod_beta insert_grant_def split: if_splits)
qed simp

lemma ensure_group_Inr:
  assumes "ensure_group now gid uuid nm d b db = Inr (Some g, db')" "adb_inv db"
  shows "members db' = members db" "set (ugroups db) \<subseteq> set (ugroups db')"
    "adb_inv db'" "g \<in> set (ugroups db')" "ug_name g = nm"
proof -
  show inv: "adb_inv db'"
    using ensure_group_inv [OF assms(2), of now gid uuid nm d b] assms(1) by (simp add: kept_Inr)
  show "members db' = members db" "set (ugroups db) \<subseteq> set (ugroups db')"
    using assms(1)
    by (auto simp: ensure_group_def create_group_def Let_def fanout_system_for_group_def
        members_fanout_loop ugroups_fanout_loop split: option.splits if_splits)
  have "g \<in> set (ugroups db') \<and> ug_name g = nm"
  proof (cases "get_group_by_name nm db")
    case None
    let ?row = "\<lparr>ug_id = gid, ug_name = nm,
        ug_descr = Some (or_default d ''Auto-created from Google Workspace claim''), ug_system = False,
        ug_at = now, ug_by = Some b\<rparr>"
    have g: "get_group gid db' = Some g" and rows: "ugroups db' = ugroups db @ [?row]"
      using assms(1) None
      by (auto simp: ensure_group_def create_group_def Let_def fanout_system_for_group_def
          ugroups_fanout_loop split: if_splits)
    have "get_group gid db' = Some ?row" using rows inv by (simp add: get_group_iff)
    with g rows show ?thesis by auto
  next
    case (Some r)
    with assms show ?thesis by (auto simp: ensure_group_def get_group_by_name_iff)
  qed
  then show "g \<in> set (ugroups db')" "ug_name g = nm" by simp_all
qed

lemma ensure_group_fields:
  assumes "ensure_group now gid uuid nm d b db = Inr (x, db')" "adb_inv db"
  shows "members db' = members db" "adb_inv db'" "set (ugroups db) \<subseteq> set (ugroups db')"
  using assms(1) ensure_group_inv [OF assms(2), of now gid uuid nm d b]
  by (auto simp: kept_Inr) (auto simp: ensure_group_def create_group_def Let_def fanout_system_for_group_def
        members_fanout_loop ugroups_fanout_loop split: option.splits if_splits)

text \<open>
  The loop never collects the Admin group's id by get-or-create: the emails are lower case and the
  group's name is not.
\<close>

definition plain_id :: "string \<Rightarrow> adb \<Rightarrow> bool" where
  "plain_id i db \<longleftrightarrow> (\<exists>r\<in>set (ugroups db). ug_id r = i \<and> ug_name r \<noteq> SYSTEM_ADMIN_GROUP)"

lemma plain_id_mono: "set (ugroups db) \<subseteq> set (ugroups db') \<Longrightarrow> plain_id i db \<Longrightarrow> plain_id i db'"
  by (auto simp: plain_id_def)

lemma everyone_plain:
  assumes "adb_inv db" "i \<in> set (system_ids SYSTEM_EVERYONE_GROUP db)"
  shows "plain_id i db"
proof -
  obtain r where r: "get_group_by_name SYSTEM_EVERYONE_GROUP db = Some r" "i = ug_id r"
    using assms(2) by (cases "get_group_by_name SYSTEM_EVERYONE_GROUP db") (auto simp: system_ids_def)
  then have "r \<in> set (ugroups db)" "ug_name r = SYSTEM_EVERYONE_GROUP"
    using assms(1) by (simp_all add: get_group_by_name_iff)
  then show ?thesis using r(2)
    by (auto simp: plain_id_def SYSTEM_EVERYONE_GROUP_def SYSTEM_ADMIN_GROUP_def)
qed

lemma collect_fields:
  assumes "adb_inv db" "collect_group_ids now gids uuids adm ever i es db = (res, db')"
  shows "members db' = members db \<and> adb_inv db' \<and> set (ugroups db) \<subseteq> set (ugroups db')"
  using assms
proof (induction es arbitrary: i db res)
  case (Cons e es)
  let ?sys = "adm \<noteq> [] \<and> e = adm \<or> ever \<noteq> [] \<and> e = ever"
  show ?case
  proof (cases ?sys)
    case True
    then obtain res2 where "collect_group_ids now gids uuids adm ever (Suc i) es db = (res2, db')"
      using Cons.prems(2) by (auto simp: Let_def split: if_splits prod.splits sum.splits)
    then show ?thesis using Cons by blast
  next
    case False
    show ?thesis
    proof (cases "ensure_group now (gids i) (uuids i) e None ''system:google-sync'' db")
      case (Inl er)
      then show ?thesis using False Cons.prems by auto
    next
      case (Inr pr)
      obtain x db1 where pr: "pr = (x, db1)" by (cases pr)
      note f = ensure_group_fields [OF Inr [unfolded pr] Cons.prems(1)]
      show ?thesis
      proof (cases x)
        case None
        then show ?thesis using False Inr pr f Cons.prems(2) by auto
      next
        case (Some g)
        then obtain res2 where "collect_group_ids now gids uuids adm ever (Suc i) es db1 = (res2, db')"
          using False Inr pr Cons.prems(2) by (auto simp: Let_def split: prod.splits sum.splits)
        from Cons.IH [OF f(2) this] f show ?thesis by auto
      qed
    qed
  qed
qed simp

lemma collect_ids:
  assumes "adb_inv db" "collect_group_ids now gids uuids adm ever i es db = (Inr ids, db')"
    and "j \<in> set ids" "\<forall>e\<in>set es. e = lower e"
  shows "plain_id j db' \<or> adm \<noteq> [] \<and> adm \<in> set es"
  using assms
proof (induction es arbitrary: i db ids)
  case (Cons e es)
  have later: "plain_id j db' \<or> adm \<noteq> [] \<and> adm \<in> set (e # es)"
    if rest: "collect_group_ids now gids uuids adm ever (Suc i) es db1 = (Inr ids2, db')"
      and inv: "adb_inv db1" and j: "j \<in> set ids2 \<or> plain_id j db1" for db1 ids2
    using j
  proof
    assume "j \<in> set ids2"
    with Cons.IH [OF inv rest] Cons.prems(4) show ?thesis by auto
  next
    assume "plain_id j db1"
    with collect_fields [OF inv rest] show ?thesis using plain_id_mono by blast
  qed
  show ?case
  proof (cases "adm \<noteq> [] \<and> e = adm")
    case False
    show ?thesis
    proof (cases "ever \<noteq> [] \<and> e = ever")
      case True
      obtain ids2 where "collect_group_ids now gids uuids adm ever (Suc i) es db = (Inr ids2, db')"
        "ids = system_ids SYSTEM_EVERYONE_GROUP db @ ids2"
        using False True Cons.prems(2) by (auto simp: Let_def split: prod.splits sum.splits if_splits)
      then show ?thesis using later [OF _ Cons.prems(1)] Cons.prems(1,3) everyone_plain by auto
    next
      case noever: False
      obtain g db1 ids2 where en: "ensure_group now (gids i) (uuids i) e None ''system:google-sync'' db = Inr (Some g, db1)"
        and rest: "collect_group_ids now gids uuids adm ever (Suc i) es db1 = (Inr ids2, db')"
        and ids: "ids = ug_id g # ids2"
        using False noever Cons.prems(2)
        by (auto simp: Let_def split: prod.splits sum.splits option.splits)
      note f = ensure_group_Inr [OF en Cons.prems(1)]
      have "ug_name g \<noteq> SYSTEM_ADMIN_GROUP" using f(5) Cons.prems(4) lower_not_admin by (metis list.set_intros(1))
      then have "plain_id (ug_id g) db1" using f(4) by (auto simp: plain_id_def)
      then show ?thesis using later [OF rest f(3)] ids Cons.prems(3) by auto
    qed
  qed auto
qed simp

section \<open>No escalation\<close>

lemma sync_inserts_groups:
  assumes "sync_inserts now u gs b db = Inr db'"
  shows "set (list_groups_for_user u db') = set (list_groups_for_user u db) \<union> set gs"
  using assms
proof (induction gs arbitrary: db)
  case (Cons g gs)
  show ?case
  proof (cases "has_membership u g db")
    case True
    then have "g \<in> set (list_groups_for_user u db)"
      by (auto simp: has_membership_def list_groups_for_user_def)
    with True Cons show ?thesis by auto
  next
    case False
    then obtain db1 where db1: "insert_member now u g google_source (Some b) db = Inr db1"
      "sync_inserts now u gs b db1 = Inr db'"
      using Cons.prems by (auto simp: rbind_eq_Inr)
    then have "set (list_groups_for_user u db1) = insert g (set (list_groups_for_user u db))"
      by (auto simp: insert_member_eq_Inr list_groups_for_user_def)
    with Cons.IH [OF db1(2)] show ?thesis by simp
  qed
qed simp

lemma sync_attempt_groups:
  assumes "sync_attempt now u gs b db = Inr db'"
  shows "set (list_groups_for_user u db') =
     m_group ` {m \<in> set (members db). m_user m = u \<and> m_source m \<noteq> google_source} \<union> set gs"
proof -
  let ?d = "db\<lparr>members := filter (\<lambda>m. \<not> (m_user m = u \<and> m_source m = google_source)) (members db)\<rparr>"
  have "set (list_groups_for_user u ?d) =
      m_group ` {m \<in> set (members db). m_user m = u \<and> m_source m \<noteq> google_source}"
    by (auto simp: list_groups_for_user_def)
  moreover have "sync_inserts now u gs b ?d = Inr db'" using assms by (simp only: sync_attempt_def)
  ultimately show ?thesis using sync_inserts_groups by simp
qed

lemma sync_loop_cases:
  assumes "sync_loop n i (\<lambda>_ d. d) conflict now u gs b db = (res, db')"
  shows "(res = Inr () \<and> sync_attempt now u gs b db = Inr db') \<or> ((\<exists>e. res = Inl e) \<and> db' = db)"
  using assms
proof (induction n arbitrary: i)
  case (Suc n)
  show ?case
  proof (cases "conflict i")
    case True
    with Suc.prems have "sync_loop n (Suc i) (\<lambda>_ d. d) conflict now u gs b db = (res, db')" by simp
    then show ?thesis by (rule Suc.IH)
  next
    case False
    with Suc.prems show ?thesis by (cases "sync_attempt now u gs b db") auto
  qed
qed auto

lemma sync_write_True:
  assumes "sync_write now gids uuids conflict adm ever rel u db = (True, db')"
  obtains ids db1 where "collect_group_ids now gids uuids adm ever 0 rel db = (Inr ids, db1)"
    "sync_attempt now u ids ''system:google-sync'' db1 = Inr db'"
proof -
  obtain x db1 where x: "collect_group_ids now gids uuids adm ever 0 rel db = (x, db1)" by (metis surj_pair)
  then obtain ids where ids: "x = Inr ids" using assms by (cases x) (simp_all add: sync_write_def)
  obtain y db2 where y: "replace_google_sync_groups (\<lambda>_ d. d) conflict now u ids ''system:google-sync'' db1 = (y, db2)"
    by (metis surj_pair)
  have "y = Inr ()" "db2 = db'" using assms x ids y by (cases y; simp add: sync_write_def)+
  then show ?thesis using that x ids y sync_loop_cases [of sync_conflict_retries 0]
    unfolding replace_google_sync_groups_def by blast
qed

lemma sync_write_False:
  assumes "adb_inv db" "sync_write now gids uuids conflict adm ever rel u db = (False, db')"
  shows "members db' = members db"
proof -
  obtain x db1 where x: "collect_group_ids now gids uuids adm ever 0 rel db = (x, db1)" by (metis surj_pair)
  have m: "members db1 = members db" using collect_fields [OF assms(1) x] by simp
  show ?thesis
  proof (cases x)
    case (Inr ids)
    obtain y db2 where y: "replace_google_sync_groups (\<lambda>_ d. d) conflict now u ids ''system:google-sync'' db1 = (y, db2)"
      by (metis surj_pair)
    have "y \<noteq> Inr ()" "db2 = db'" using assms(2) x Inr y by (cases y; simp add: sync_write_def)+
    then have "db' = db1" using y sync_loop_cases [of sync_conflict_retries 0]
      unfolding replace_google_sync_groups_def by blast
    then show ?thesis using m by simp
  qed (use assms(2) x m in \<open>simp add: sync_write_def\<close>)
qed

lemma apply_outcome:
  assumes "apply_user_groups now gids uuids conflict prefix_env admin_env everyone_env emails u db = (out, db')"
  shows "(\<not> applied out \<and> db' = db) \<or>
     ((\<forall>e\<in>set (relevant out). e = lower e) \<and>
      sync_write now gids uuids conflict (lower (py_strip admin_env)) (lower (py_strip everyone_env))
        (relevant out) u db = (applied out, db'))"
proof -
  have idem: "lower (lower x) = lower x" for x
    by (auto simp: lower_def lower_char_def Let_def)
  show ?thesis
  proof (cases emails)
    case None
    then show ?thesis using assms by (auto simp: apply_user_groups_def no_result_def)
  next
    case (Some es)
    define rel where "rel = prefix_filter (lower (py_strip prefix_env)) (map lower es)"
    have low: "\<forall>e\<in>set rel. e = lower e" using idem by (auto simp: rel_def prefix_filter_def)
    show ?thesis
    proof (cases "es = [] \<or> lower (py_strip prefix_env) \<noteq> [] \<and> rel = []")
      case True
      then show ?thesis using assms Some
        by (cases "es = []") (auto simp: apply_user_groups_def no_result_def Let_def rel_def)
    next
      case False
      obtain ok db2 where w: "sync_write now gids uuids conflict (lower (py_strip admin_env))
          (lower (py_strip everyone_env)) rel u db = (ok, db2)" by (metis surj_pair)
      have "applied out = ok \<and> relevant out = rel \<and> db' = db2"
        using assms Some False w
        by (cases ok) (auto simp: apply_user_groups_def no_result_def Let_def rel_def)
      with w low show ?thesis by simp
    qed
  qed
qed

text \<open>
  C36. The Workspace refresh cannot make a user an administrator by accident: if the user is in the
  Admin group afterwards, then they were already a member through a row that is not the
  refresh's own, or the configured admin email is one of the user's groups that passed the prefix
  filter. No Workspace group is ever resolved to the Admin group by its name. And unless the
  refresh reports that it applied, nobody's memberships changed.
\<close>

theorem google_sync_no_escalation:
  assumes inv: "adb_inv db" and sys: "get_group_by_name SYSTEM_ADMIN_GROUP db = Some r" "ug_system r"
    and run: "apply_user_groups now gids uuids conflict prefix_env admin_env everyone_env emails u db = (out, db')"
  shows "(\<not> applied out \<longrightarrow> members db' = members db) \<and>
     (is_user_admin u db' \<and> applied out \<longrightarrow>
        (\<exists>m\<in>set (members db). m_user m = u \<and> m_group m = ug_id r \<and> m_source m \<noteq> google_source) \<or>
        lower (py_strip admin_env) \<noteq> [] \<and> lower (py_strip admin_env) \<in> set (relevant out))"
proof (cases "applied out")
  case False
  with apply_outcome [OF run] have "members db' = members db" using sync_write_False [OF inv] by auto
  with False show ?thesis by simp
next
  case True
  let ?adm = "lower (py_strip admin_env)" and ?ever = "lower (py_strip everyone_env)"
  let ?by = "''system:google-sync''"
  have lows: "\<forall>e\<in>set (relevant out). e = lower e"
    and w: "sync_write now gids uuids conflict ?adm ?ever (relevant out) u db = (True, db')"
    using apply_outcome [OF run] True by simp_all
  obtain ids db1 where col: "collect_group_ids now gids uuids ?adm ?ever 0 (relevant out) db = (Inr ids, db1)"
    and att: "sync_attempt now u ids ?by db1 = Inr db'" by (rule sync_write_True [OF w])
  note f = collect_fields [OF inv col]
  have ug: "ugroups db' = ugroups db1" using att ugroups_sync_inserts unfolding sync_attempt_def by force
  have inv': "adb_inv db'" using att f sync_attempt_inv by blast
  have r: "r \<in> set (ugroups db')" "ug_name r = SYSTEM_ADMIN_GROUP"
    using sys(1) inv f ug by (auto simp: get_group_by_name_iff)
  then have adm: "get_group_by_name SYSTEM_ADMIN_GROUP db' = Some r" using inv' by (simp add: get_group_by_name_iff)
  have "r' = r" if "r' \<in> set (ugroups db1)" "ug_id r' = ug_id r" for r'
    using that r inv' ug get_group_iff [of db' "ug_id r"] by (metis option.inject)
  then have notplain: "\<not> plain_id (ug_id r) db1" using r(2) by (auto simp: plain_id_def)
  show ?thesis
  proof (intro conjI impI)
    assume "is_user_admin u db' \<and> applied out"
    then have "ug_id r \<in> set (list_groups_for_user u db')"
      using adm by (auto simp: is_user_admin_iff get_group_id_by_name_def)
    then have "ug_id r \<in> set ids \<or>
        ug_id r \<in> m_group ` {m \<in> set (members db). m_user m = u \<and> m_source m \<noteq> google_source}"
      using sync_attempt_groups [OF att] f by (simp only:) blast
    then consider "ug_id r \<in> set ids"
      | "\<exists>m\<in>set (members db). m_user m = u \<and> m_group m = ug_id r \<and> m_source m \<noteq> google_source"
      by fastforce
    then show "(\<exists>m\<in>set (members db). m_user m = u \<and> m_group m = ug_id r \<and> m_source m \<noteq> google_source) \<or>
        ?adm \<noteq> [] \<and> ?adm \<in> set (relevant out)"
      using collect_ids [OF inv col _ lows] notplain by cases auto
  qed (use True in simp)
qed

definition seeded :: adb where
  "seeded = empty_adb\<lparr>ugroups := [admin_row]\<rparr>"

theorem google_sync_no_escalation_witness:
  "\<not> is_user_admin ''u'' (snd (apply_user_groups 0 (\<lambda>_. ''n'') (\<lambda>_ _. ''k'') (\<lambda>_. False) [] [] []
       (Some [''Admin'', ''all@corp'']) ''u'' seeded))"
proof -
  obtain out db' where run: "apply_user_groups 0 (\<lambda>_. ''n'') (\<lambda>_ _. ''k'') (\<lambda>_. False) [] [] []
       (Some [''Admin'', ''all@corp'']) ''u'' seeded = (out, db')" by (metis surj_pair)
  have "adb_inv seeded" by (simp add: seeded_def adb_inv_def empty_adb_def)
  moreover have "get_group_by_name SYSTEM_ADMIN_GROUP seeded = Some admin_row" "ug_system admin_row"
    by (simp_all add: seeded_def get_group_by_name_def SYSTEM_ADMIN_GROUP_def admin_row_def)
  ultimately have "\<not> applied out \<Longrightarrow> members db' = []" "is_user_admin ''u'' db' \<Longrightarrow> applied out \<Longrightarrow> False"
    using google_sync_no_escalation [OF _ _ _ run]
    by (simp_all add: seeded_def empty_adb_def lower_def py_strip_def py_lstrip_def)
  then have "\<not> is_user_admin ''u'' db'"
    by (cases "applied out") (auto simp: is_user_admin_iff list_groups_for_user_def)
  then show ?thesis using run by simp
qed

end
