(* ===== verification/Stack.thy ===== *)
theory Stack
  imports Access
begin

text \<open>
  The stack resolver of \<open>app/services/stack_resolver.py\<close>: which data packages and memory domains are
  in a user's stack, which are kept as a local copy, and the two operations that subscribe and
  unsubscribe. \<open>auto\<close> is the value of \<open>get_stack_auto_membership()\<close>. An entry carries the fields the
  resolver computes; the display columns it copies (description, icon, colour, cover, category,
  owner, tags) are left out.
\<close>

section \<open>Entries\<close>

record resource_entry =
  re_id :: string
  re_name :: string
  re_status :: string
  re_badges :: "string list"
  re_publisher :: "string option"
  re_requirement :: string
  in_stack :: bool
  materialized :: bool

datatype stack_error =
    UnsupportedType
  | BadRequest string

definition days30 :: micros where "days30 = 30 * 24 * 3600 * 1000000"

definition new_badge :: "micros \<Rightarrow> entity_row \<Rightarrow> string list" where
  "new_badge now r =
     (case e_created r of None \<Rightarrow> [] | Some t \<Rightarrow> if now - t < days30 then [''new''] else [])"

definition make_entry :: "micros \<Rightarrow> string set \<Rightarrow> entity_row \<Rightarrow> resource_entry" where
  "make_entry now required_ids r =
     \<lparr>re_id = e_id r, re_name = e_name r, re_status = or_default (e_status r) ''prod'',
      re_badges = new_badge now r,
      re_publisher = (if e_publisher r \<in> {Some ''user'', Some ''organization''} then e_publisher r else None),
      re_requirement = (if e_id r \<in> required_ids then ''required'' else ''available''),
      in_stack = False, materialized = False\<rparr>"

text \<open>\<open>list(limit=100000)\<close> of the two repositories: live rows, ordered by name.\<close>

definition list_entities :: "nat \<Rightarrow> entity_row list \<Rightarrow> entity_row list" where
  "list_entities n rows = take n (sort_key e_name (filter (\<lambda>r. e_deleted r = None) rows))"

definition entities_of :: "string \<Rightarrow> rdb \<Rightarrow> entity_row list option" where
  "entities_of rtype R =
     (if rtype = ''data_package'' then Some (list_entities 100000 (packages R))
      else if rtype = ''memory_domain'' then Some (list_entities 100000 (domains R))
      else None)"

definition fetch_entries ::
  "micros \<Rightarrow> string \<Rightarrow> string set \<Rightarrow> string set \<Rightarrow> rdb \<Rightarrow> stack_error + resource_entry list" where
  "fetch_entries now rtype ids required_ids R =
     (if ids = {} then Inr []
      else case entities_of rtype R of
             None \<Rightarrow> Inl UnsupportedType
           | Some rows \<Rightarrow> Inr (map (make_entry now required_ids) (filter (\<lambda>r. e_id r \<in> ids) rows)))"

section \<open>The resolver\<close>

text \<open>The pair \<open>(required, available)\<close>; an id required by one grant is not available.\<close>

definition split_grants :: "string list \<Rightarrow> string \<Rightarrow> adb \<Rightarrow> string set \<times> string set" where
  "split_grants group_ids rtype db =
     (if group_ids = [] then ({}, {})
      else let rows = list_for_groups group_ids (Some rtype) db;
               required_ids = set (map g_res (filter (\<lambda>r. g_req r = Some ''required'') rows));
               available_ids = set (map g_res (filter (\<lambda>r. g_req r = Some ''available'') rows))
           in (required_ids, available_ids - required_ids))"

definition required_of :: "string \<Rightarrow> string \<Rightarrow> adb \<Rightarrow> string set" where
  "required_of u rtype db = fst (split_grants (list_groups_for_user u db) rtype db)"

definition available_of :: "string \<Rightarrow> string \<Rightarrow> adb \<Rightarrow> string set" where
  "available_of u rtype db = snd (split_grants (list_groups_for_user u db) rtype db)"

definition subscribed_ids :: "string \<Rightarrow> string \<Rightarrow> adb \<Rightarrow> string set" where
  "subscribed_ids u rtype db = set (list_subs_for_user u rtype db)"

definition stack_principal :: "micros \<Rightarrow> caller \<Rightarrow> string \<Rightarrow> rdb \<Rightarrow> stack_error + resource_entry list" where
  "stack_principal now who rtype R =
     (let ids = lookup_ids (intersection_of who) rtype
      in rbind (fetch_entries now rtype ids ids R)
           (\<lambda>es. Inr (map (\<lambda>e. e\<lparr>in_stack := True, materialized := True\<rparr>) es)))"

definition stack :: "micros \<Rightarrow> bool \<Rightarrow> string \<Rightarrow> string \<Rightarrow> rdb \<Rightarrow> stack_error + resource_entry list" where
  "stack now auto u rtype R =
     (let required_ids = required_of u rtype (auth R);
          available_ids = available_of u rtype (auth R);
          raw_subscribed = subscribed_ids u rtype (auth R);
          materialized_ids = (if is_user_admin u (auth R) then raw_subscribed
                              else raw_subscribed \<inter> available_ids);
          effective_ids = (if auto then required_ids \<union> available_ids \<union> materialized_ids
                           else required_ids \<union> materialized_ids)
      in rbind (fetch_entries now rtype effective_ids required_ids R)
           (\<lambda>es. Inr (map (\<lambda>e. e\<lparr>in_stack := True,
               materialized := re_id e \<in> required_ids \<or> re_id e \<in> materialized_ids\<rparr>) es)))"

definition browse :: "micros \<Rightarrow> bool \<Rightarrow> string \<Rightarrow> string \<Rightarrow> rdb \<Rightarrow> stack_error + resource_entry list" where
  "browse now auto u rtype R =
     (let required_ids = required_of u rtype (auth R);
          available_ids = available_of u rtype (auth R);
          subscribed = subscribed_ids u rtype (auth R)
      in rbind (fetch_entries now rtype (required_ids \<union> available_ids) required_ids R)
           (\<lambda>es. Inr (map (\<lambda>e. let mat = re_id e \<in> required_ids \<or> re_id e \<in> subscribed
               in e\<lparr>in_stack := auto \<or> mat, materialized := mat\<rparr>) es)))"

definition browse_admin :: "micros \<Rightarrow> bool \<Rightarrow> string \<Rightarrow> string \<Rightarrow> rdb \<Rightarrow> stack_error + resource_entry list" where
  "browse_admin now auto u rtype R =
     (case entities_of rtype R of
        None \<Rightarrow> Inl UnsupportedType
      | Some rows \<Rightarrow>
          let required_ids = required_of u rtype (auth R);
              available_ids = available_of u rtype (auth R);
              subscribed = subscribed_ids u rtype (auth R)
          in rbind (fetch_entries now rtype (set (map e_id rows)) required_ids R)
               (\<lambda>es. Inr (map (\<lambda>e. let mat = re_id e \<in> required_ids \<or> re_id e \<in> subscribed
                   in e\<lparr>in_stack := mat \<or> auto \<and> re_id e \<in> available_ids, materialized := mat\<rparr>) es)))"

definition is_required :: "string \<Rightarrow> string \<Rightarrow> string \<Rightarrow> adb \<Rightarrow> bool" where
  "is_required u rtype res db \<longleftrightarrow> res \<in> required_of u rtype db"

definition add_to_stack :: "micros \<Rightarrow> string \<Rightarrow> string \<Rightarrow> string \<Rightarrow> rdb \<Rightarrow> stack_error + rdb" where
  "add_to_stack now u rtype res R =
     (if is_required u rtype res (auth R) then Inl (BadRequest ''already_required'')
      else Inr (R\<lparr>auth := snd (subscribe_stack now u rtype res (auth R))\<rparr>))"

definition remove_from_stack :: "string \<Rightarrow> string \<Rightarrow> string \<Rightarrow> rdb \<Rightarrow> stack_error + rdb" where
  "remove_from_stack u rtype res R =
     (if is_required u rtype res (auth R) then Inl (BadRequest ''cannot_remove_required'')
      else Inr (R\<lparr>auth := snd (unsubscribe_stack u rtype res (auth R))\<rparr>))"

definition memory_item_is_required :: "string \<Rightarrow> string \<Rightarrow> bool \<Rightarrow> adb \<Rightarrow> bool" where
  "memory_item_is_required u item item_is_required db =
     (let gs = list_groups_for_user u db
      in if gs = [] then item_is_required
         else let rows = filter (\<lambda>r. g_res r = item) (list_for_groups gs (Some ''memory_item'') db)
              in if rows = [] then item_is_required
                 else Some ''required'' \<in> set (map g_req rows))"

section \<open>What the stack contains\<close>

definition granted_at :: "string \<Rightarrow> string \<Rightarrow> string \<Rightarrow> string \<Rightarrow> adb \<Rightarrow> bool" where
  "granted_at u rtype res req db \<longleftrightarrow>
     (\<exists>r\<in>set (grants db). g_group r \<in> set (list_groups_for_user u db) \<and> g_type r = rtype \<and>
        g_res r = res \<and> g_req r = Some req)"

lemma granted_rows:
  "t \<noteq> [] \<Longrightarrow> res \<in> g_res ` {r \<in> set (list_for_groups (list_groups_for_user u db) (Some t) db). g_req r = Some q} \<longleftrightarrow>
     granted_at u t res q db"
  by (auto simp: set_list_for_groups granted_at_def)

lemma not_granted_at_Nil: "list_groups_for_user u db = [] \<Longrightarrow> \<not> granted_at u t res q db"
  by (simp add: granted_at_def)

lemma in_required_of: "t \<noteq> [] \<Longrightarrow> res \<in> required_of u t db \<longleftrightarrow> granted_at u t res ''required'' db"
  using granted_rows [of t res u db "''required''"] not_granted_at_Nil
  by (auto simp: required_of_def split_grants_def Let_def)

lemma in_available_of:
  "t \<noteq> [] \<Longrightarrow> res \<in> available_of u t db \<longleftrightarrow>
     granted_at u t res ''available'' db \<and> \<not> granted_at u t res ''required'' db"
  using granted_rows [of t res u db "''required''"] granted_rows [of t res u db "''available''"] not_granted_at_Nil
  by (auto simp: available_of_def split_grants_def Let_def)

lemma in_subscribed_ids: "res \<in> subscribed_ids u t db \<longleftrightarrow> is_subscribed u t res db"
  by (auto simp: subscribed_ids_def list_subs_for_user_def is_subscribed_def)

lemma set_list_entities:
  "length rows \<le> n \<Longrightarrow> set (list_entities n rows) = {r \<in> set rows. e_deleted r = None}"
  by (simp add: list_entities_def le_trans [OF length_filter_le])

lemma make_entry_simps [simp]:
  "re_id (make_entry now req r) = e_id r"
  "re_requirement (make_entry now req r) = (if e_id r \<in> req then ''required'' else ''available'')"
  by (simp_all add: make_entry_def)

lemma fetch_entries_Inr:
  assumes "entities_of t R = Some rows"
  shows "fetch_entries now t ids req R = Inr (map (make_entry now req) (filter (\<lambda>r. e_id r \<in> ids) rows))"
  using assms by (simp add: fetch_entries_def)

lemma entities_of_auth [simp]: "entities_of t (R\<lparr>auth := d\<rparr>) = entities_of t R"
  by (simp add: entities_of_def)

lemma entities_of_type: "entities_of t R = Some rows \<Longrightarrow> t \<noteq> []"
  by (auto simp: entities_of_def split: if_splits)

text \<open>A user's subscription counts when it is backed by an available grant or the user is an admin.\<close>

definition local_copy :: "string \<Rightarrow> string \<Rightarrow> string \<Rightarrow> adb \<Rightarrow> bool" where
  "local_copy u t res db \<longleftrightarrow> granted_at u t res ''required'' db \<or>
     is_subscribed u t res db \<and> (is_user_admin u db \<or> granted_at u t res ''available'' db)"

definition in_stack_spec :: "bool \<Rightarrow> string \<Rightarrow> string \<Rightarrow> string \<Rightarrow> adb \<Rightarrow> bool" where
  "in_stack_spec auto u t res db \<longleftrightarrow> local_copy u t res db \<or> auto \<and> granted_at u t res ''available'' db"

lemma stack_entries:
  assumes rows: "entities_of t R = Some rows"
  shows "\<exists>es. stack now auto u t R = Inr es \<and>
           re_id ` set es = {i \<in> e_id ` set rows. in_stack_spec auto u t i (auth R)} \<and>
           (\<forall>e\<in>set es. in_stack e \<and> (materialized e \<longleftrightarrow> local_copy u t (re_id e) (auth R)) \<and>
              (re_requirement e = ''required'' \<longleftrightarrow> granted_at u t (re_id e) ''required'' (auth R)))"
proof -
  let ?req = "required_of u t (auth R)" and ?av = "available_of u t (auth R)"
  let ?sub = "subscribed_ids u t (auth R)"
  let ?mat = "if is_user_admin u (auth R) then ?sub else ?sub \<inter> ?av"
  let ?eff = "if auto then ?req \<union> ?av \<union> ?mat else ?req \<union> ?mat"
  let ?f = "\<lambda>e. e\<lparr>in_stack := True, materialized := re_id e \<in> ?req \<or> re_id e \<in> ?mat\<rparr>"
  let ?es = "map ?f (map (make_entry now ?req) (filter (\<lambda>r. e_id r \<in> ?eff) rows))"
  note mem = in_required_of [OF entities_of_type [OF rows]] in_available_of [OF entities_of_type [OF rows]]
    in_subscribed_ids
  have run: "stack now auto u t R = Inr ?es"
    unfolding stack_def by (simp only: Let_def fetch_entries_Inr [OF rows] rbind.simps)
  have mat: "i \<in> ?req \<or> i \<in> ?mat \<longleftrightarrow> local_copy u t i (auth R)" for i
    by (auto simp: mem local_copy_def)
  have eff: "i \<in> ?eff \<longleftrightarrow> in_stack_spec auto u t i (auth R)" for i
    by (auto simp: mem local_copy_def in_stack_spec_def)
  have "re_id ` set ?es = {i \<in> e_id ` set rows. i \<in> ?eff}" by force
  then have "re_id ` set ?es = {i \<in> e_id ` set rows. in_stack_spec auto u t i (auth R)}" by (simp only: eff)
  moreover have "\<forall>e\<in>set ?es. in_stack e \<and> (materialized e \<longleftrightarrow> local_copy u t (re_id e) (auth R)) \<and>
              (re_requirement e = ''required'' \<longleftrightarrow> granted_at u t (re_id e) ''required'' (auth R))"
  proof
    fix e assume "e \<in> set ?es"
    then obtain r where "e = ?f (make_entry now ?req r)" by auto
    then show "in_stack e \<and> (materialized e \<longleftrightarrow> local_copy u t (re_id e) (auth R)) \<and>
              (re_requirement e = ''required'' \<longleftrightarrow> granted_at u t (re_id e) ''required'' (auth R))"
      using mat [of "e_id r"] mem(1) by simp
  qed
  ultimately show ?thesis using run by blast
qed

text \<open>
  C37. The stack. For the two supported resource types the resolver returns, for every live row,
  an entry exactly when one of the user's groups requires it, or the user has subscribed to it and
  holds an available grant or is an administrator, or (in auto-membership mode) holds an available
  grant; an entry is marked as a local copy exactly in the first two cases, and as required exactly
  when some group requires it, whatever other grants on it say. A subscription whose grant is gone
  shows nothing to a non-administrator.
\<close>

theorem stack_exact:
  assumes "entities_of t R = Some rows"
  shows "\<exists>es. stack now auto u t R = Inr es \<and>
           (\<forall>i. i \<in> re_id ` set es \<longleftrightarrow> i \<in> e_id ` set rows \<and>
              (granted_at u t i ''required'' (auth R) \<or>
               is_subscribed u t i (auth R) \<and>
                 (is_user_admin u (auth R) \<or> granted_at u t i ''available'' (auth R)) \<or>
               auto \<and> granted_at u t i ''available'' (auth R))) \<and>
           (\<forall>e\<in>set es. in_stack e \<and>
              (materialized e \<longleftrightarrow> granted_at u t (re_id e) ''required'' (auth R) \<or>
                 is_subscribed u t (re_id e) (auth R) \<and>
                   (is_user_admin u (auth R) \<or> granted_at u t (re_id e) ''available'' (auth R))) \<and>
              (re_requirement e = ''required'' \<longleftrightarrow> granted_at u t (re_id e) ''required'' (auth R)))"
  using stack_entries [OF assms, of now auto u] unfolding in_stack_spec_def local_copy_def by auto

definition one_package :: rdb where
  "one_package = duo\<lparr>auth := (auth duo)\<lparr>grants := [new_grant 0 ''x'' ''g'' ''data_package'' ''p'' None ''required'']\<rparr>,
     packages := [\<lparr>e_id = ''p'', e_name = ''P'', e_status = None, e_created = None, e_publisher = None,
       e_deleted = None\<rparr>]\<rparr>"

lemma one_package_entities: "entities_of ''data_package'' one_package = Some (packages one_package)"
  by (simp add: entities_of_def list_entities_def one_package_def duo_def)

lemma one_package_granted: "granted_at ''u1'' ''data_package'' ''p'' ''required'' (auth one_package)"
  by (simp add: granted_at_def one_package_def duo_def one_group_def new_grant_def list_groups_for_user_def)

theorem stack_exact_witness:
  "\<exists>es. stack 0 False ''u1'' ''data_package'' one_package = Inr es \<and> ''p'' \<in> re_id ` set es"
proof -
  have "''p'' \<in> e_id ` set (packages one_package)" by (simp add: one_package_def)
  with one_package_granted stack_exact [OF one_package_entities, of 0 False "''u1''"] show ?thesis by meson
qed

section \<open>Downgrading a required grant\<close>

lemma subscribe_group_members_effect:
  assumes "m \<in> set (members db)" "m_group m = g"
  shows "is_subscribed (m_user m) t res (snd (subscribe_group_members now g t res db))"
proof -
  let ?new = "filter (\<lambda>u. \<not> is_subscribed u t res db)
      (remdups (map m_user (filter (\<lambda>m. m_group m = g) (members db))))"
  have rows: "subs (snd (subscribe_group_members now g t res db)) = subs db @ map (new_sub now t res) ?new"
    by (simp add: subscribe_group_members_def Let_def)
  show ?thesis
  proof (cases "is_subscribed (m_user m) t res db")
    case True
    then show ?thesis using rows by (auto simp: is_subscribed_def)
  next
    case False
    then have "m_user m \<in> set ?new" using assms by auto
    then have "new_sub now t res (m_user m) \<in> set (subs (snd (subscribe_group_members now g t res db)))"
      using rows by simp
    then show ?thesis unfolding is_subscribed_def
      by (intro bexI [of _ "new_sub now t res (m_user m)"]) (simp_all add: new_sub_def)
  qed
qed

lemma subscribe_group_members_frame [simp]:
  "members (snd (subscribe_group_members now g t res db)) = members db"
  "grants (snd (subscribe_group_members now g t res db)) = grants db"
  "ugroups (snd (subscribe_group_members now g t res db)) = ugroups db"
  by (simp_all add: subscribe_group_members_def Let_def)

lemma update_requirement_effect:
  assumes "get_grant i db = Some r"
  shows "members (kept db (update_requirement i ''available'' db)) = members db"
    "r\<lparr>g_req := Some ''available''\<rparr> \<in> set (grants (kept db (update_requirement i ''available'' db)))"
proof -
  have "r \<in> set (grants db)" "g_id r = i"
    using assms by (auto simp: get_grant_def find_Some_iff)
  then show "members (kept db (update_requirement i ''available'' db)) = members db"
    "r\<lparr>g_req := Some ''available''\<rparr> \<in> set (grants (kept db (update_requirement i ''available'' db)))"
    using assms by (auto simp: update_requirement_def req_ok_def kept_Inr image_iff intro!: bexI [of _ r])
qed

text \<open>
  The soft downgrade. In the classic membership mode, lowering a grant from required to
  available and fanning subscriptions out to the group keeps the resource in the stack of every
  member of that group, still marked as a local copy, whatever the member's other grants and
  subscriptions are.
\<close>

theorem downgrade_keeps_stack:
  assumes rows: "entities_of (g_type r) R = Some rows" "g_res r \<in> e_id ` set rows"
    and grant: "get_grant i (auth R) = Some r"
    and member: "m \<in> set (members (auth R))" "m_group m = g_group r"
    and R': "R' = R\<lparr>auth := snd (subscribe_group_members now (g_group r) (g_type r) (g_res r)
                (kept (auth R) (update_requirement i ''available'' (auth R))))\<rparr>"
  shows "\<exists>es e. stack now False (m_user m) (g_type r) R' = Inr es \<and> e \<in> set es \<and>
           re_id e = g_res r \<and> materialized e"
proof -
  let ?db1 = "kept (auth R) (update_requirement i ''available'' (auth R))"
  note eff = update_requirement_effect [OF grant]
  have sub: "is_subscribed (m_user m) (g_type r) (g_res r) (auth R')"
    unfolding R' using subscribe_group_members_effect [of m ?db1] member eff(1) by simp
  have "m_group m \<in> set (list_groups_for_user (m_user m) (auth R'))"
    unfolding R' set_list_groups_for_user using member(1) eff(1) by simp
  then have "granted_at (m_user m) (g_type r) (g_res r) ''available'' (auth R')"
    unfolding granted_at_def using eff(2) member(2)
    by (intro bexI [of _ "r\<lparr>g_req := Some ''available''\<rparr>"]) (simp_all add: R')
  with sub have loc: "local_copy (m_user m) (g_type r) (g_res r) (auth R')" by (simp add: local_copy_def)
  have rows': "entities_of (g_type r) R' = Some rows"
    using rows(1) by (simp add: R')
  from stack_entries [OF rows', of now False "m_user m"] obtain es where
    es: "stack now False (m_user m) (g_type r) R' = Inr es"
      "re_id ` set es = {i \<in> e_id ` set rows. in_stack_spec False (m_user m) (g_type r) i (auth R')}"
      "\<forall>e\<in>set es. materialized e \<longleftrightarrow> local_copy (m_user m) (g_type r) (re_id e) (auth R')" by blast
  have "g_res r \<in> re_id ` set es" using es(2) rows(2) loc by (simp add: in_stack_spec_def)
  then obtain e where e: "e \<in> set es" "re_id e = g_res r" by (metis imageE)
  then have "materialized e" using es(3) loc by simp
  with e es(1) show ?thesis by blast
qed

theorem downgrade_keeps_stack_witness:
  "\<exists>es e. stack 0 False ''u1'' ''data_package''
       (one_package\<lparr>auth := snd (subscribe_group_members 0 ''g'' ''data_package'' ''p''
          (kept (auth one_package) (update_requirement ''x'' ''available'' (auth one_package))))\<rparr>) = Inr es \<and>
     e \<in> set es \<and> re_id e = ''p'' \<and> materialized e"
proof -
  let ?r = "new_grant 0 ''x'' ''g'' ''data_package'' ''p'' None ''required''"
  let ?m = "\<lparr>m_user = ''u1'', m_group = ''g'', m_source = ''admin'', m_at = 0, m_by = None\<rparr>"
  have "g_type ?r = ''data_package''" "g_res ?r = ''p''" "g_group ?r = ''g''"
    by (simp_all add: new_grant_def)
  moreover have "get_grant ''x'' (auth one_package) = Some ?r" "?m \<in> set (members (auth one_package))"
    "''p'' \<in> e_id ` set (packages one_package)"
    by (simp_all add: one_package_def duo_def one_group_def get_grant_def new_grant_def)
  ultimately show ?thesis
    using downgrade_keeps_stack [of ?r one_package "packages one_package" "''x''" ?m _ 0]
      one_package_entities by simp
qed

end
