(* ===== verification/TableAccess.thy ===== *)
theory TableAccess
  imports Stack
begin

text \<open>
  Table-level authorization, \<open>src/rbac.py\<close>: the single check \<open>can_access_table\<close>, the list
  \<open>get_accessible_tables\<close> and the dependency \<open>require_table_access\<close>. The list is modelled by its set
  of ids: its order comes from iterating a set and from a query without an order. \<open>auto\<close>, \<open>clock\<close> and
  \<open>now\<close> are the stack mode, the wall clock and the monotonic clock.
\<close>

section \<open>Model\<close>

definition credential_surface :: "caller \<Rightarrow> string" where
  "credential_surface user =
     (case user of
        UserDict d \<Rightarrow> if or_default (ud_surface d) ''all'' = ''all'' then ''all'' else ''stack''
      | _ \<Rightarrow> ''all'')"

definition table_not_in_stack_message :: "string \<Rightarrow> string" where
  "table_not_in_stack_message t =
     ''Table '' @ [CHR 0x27] @ t @ [CHR 0x27] @ '' is not in your stack. Ask an admin to add it '' @
     ''to a Data Package you have access to (Required or in your stack), '' @
     ''then run '' @ [CHR 0x60] @ ''agnes pull'' @ [CHR 0x60] @ '' to refresh.''"

text \<open>The two package queries: the second filters deleted packages, the first does not.\<close>

definition list_packages_of_table :: "string \<Rightarrow> rdb \<Rightarrow> entity_row list" where
  "list_packages_of_table t R =
     sort_key e_name (concat (map (\<lambda>(pid, tid). filter (\<lambda>p. e_id p = pid) (packages R))
       (filter (\<lambda>(pid, tid). tid = t) (package_tables R))))"

definition list_member_table_ids :: "string set \<Rightarrow> rdb \<Rightarrow> string list" where
  "list_member_table_ids ids R =
     (if ids = {} then []
      else remdups (map snd (filter (\<lambda>(pid, tid). pid \<in> ids \<and>
        list_ex (\<lambda>p. e_id p = pid \<and> e_deleted p = None) (packages R)) (package_tables R))))"

definition get_table :: "string \<Rightarrow> rdb \<Rightarrow> table_row option" where
  "get_table t R = find (\<lambda>r. tr_id r = t) (registry R)"

definition is_collection_table :: "table_row \<Rightarrow> bool" where
  "is_collection_table r \<longleftrightarrow> or_default (tr_source r) [] = ''collection''"

definition stack_gate :: "micros \<Rightarrow> bool \<Rightarrow> string \<Rightarrow> string \<Rightarrow> rdb \<Rightarrow> stack_error + bool" where
  "stack_gate clock auto u t R =
     rbind (stack clock auto u ''data_package'' R)
       (\<lambda>es. if es = [] then Inr False
             else Inr (re_id ` set es \<inter> e_id ` set (list_packages_of_table t R) \<noteq> {}))"

definition can_access_table ::
  "bool \<Rightarrow> mono_time \<Rightarrow> micros \<Rightarrow> bool \<Rightarrow> reqctx \<Rightarrow> caller \<Rightarrow> string \<Rightarrow> rdb \<Rightarrow> aproc
     \<Rightarrow> (stack_error + bool) \<times> aproc" where
  "can_access_table conn now clock auto ctx user t R p =
     (if is_internal_table t then (Inr True, p)
      else case user of
             UserDict d \<Rightarrow>
               (case ud_id d of
                  None \<Rightarrow> (Inr False, p)
                | Some u \<Rightarrow>
                    if u = [] then (Inr False, p)
                    else if is_user_admin u (auth R) \<and> credential_surface user = ''all''
                    then (Inr True, p)
                    else let (via_collection, p') =
                           (case get_table t R of
                              None \<Rightarrow> (False, p)
                            | Some row \<Rightarrow>
                                if is_collection_table row
                                then can_access_collection conn now ctx u (or_default (tr_bucket row) []) R p
                                else (False, p))
                         in if via_collection then (Inr True, p') else (stack_gate clock auto u t R, p'))
           | _ \<Rightarrow> (Inr (can_access_session user ''table'' t), p))"

datatype table_error = StackErr stack_error | HttpErr http_error

definition require_table_access ::
  "bool \<Rightarrow> mono_time \<Rightarrow> micros \<Rightarrow> bool \<Rightarrow> reqctx \<Rightarrow> caller \<Rightarrow> string \<Rightarrow> rdb \<Rightarrow> aproc
     \<Rightarrow> (table_error + unit) \<times> aproc" where
  "require_table_access conn now clock auto ctx user t R p =
     (case can_access_table conn now clock auto ctx user t R p of
        (Inl e, p') \<Rightarrow> (Inl (StackErr e), p')
      | (Inr ok, p') \<Rightarrow>
          (if ok then Inr () else Inl (HttpErr (Forbidden (table_not_in_stack_message t))), p'))"

definition collection_tables :: "string set \<Rightarrow> rdb \<Rightarrow> string set" where
  "collection_tables corpora_ids R =
     set (map tr_id (filter (\<lambda>r. is_collection_table r \<and>
       (case tr_bucket r of None \<Rightarrow> False | Some b \<Rightarrow> b \<in> corpora_ids) \<and> tr_id r \<noteq> []) (registry R)))"

definition get_accessible_tables ::
  "micros \<Rightarrow> bool \<Rightarrow> caller \<Rightarrow> rdb \<Rightarrow> table_error + string set option" where
  "get_accessible_tables clock auto user R =
     (case user of
        UserDict d \<Rightarrow>
          (case ud_id d of
             None \<Rightarrow> Inr (Some {})
           | Some u \<Rightarrow>
               if u = [] then Inr (Some {})
               else if is_user_admin u (auth R) \<and> credential_surface user = ''all'' then Inr None
               else case stack clock auto u ''data_package'' R of
                      Inl e \<Rightarrow> Inl (StackErr e)
                    | Inr es \<Rightarrow>
                        let result = (if es = [] then {} else set (list_member_table_ids (re_id ` set es) R))
                        in case accessible_collection_ids user R of
                             Inl e \<Rightarrow> Inl (HttpErr e)
                           | Inr None \<Rightarrow> Inr (Some (result \<union> set INTERNAL_TABLES))
                           | Inr (Some ids) \<Rightarrow>
                               Inr (Some (result \<union> collection_tables ids R \<union> set INTERNAL_TABLES)))
      | _ \<Rightarrow> Inr (Some (lookup_ids (intersection_of user) ''table'' \<union> set INTERNAL_TABLES)))"

section \<open>The stack gate\<close>

lemma stack_data_package:
  obtains es where "stack clock auto u ''data_package'' R = Inr es"
    "re_id ` set es = {i \<in> e_id ` set (list_entities 100000 (packages R)). in_stack_spec auto u ''data_package'' i (auth R)}"
proof -
  have "entities_of ''data_package'' R = Some (list_entities 100000 (packages R))"
    by (simp add: entities_of_def)
  from stack_entries [OF this, of clock auto u] that show thesis by blast
qed

lemma list_entities_live: "r \<in> set (list_entities n rows) \<Longrightarrow> r \<in> set rows \<and> e_deleted r = None"
  by (auto simp: list_entities_def dest!: in_set_takeD)

lemma packages_of_table_ids:
  "e_id ` set (list_packages_of_table t R) =
     {i. (i, t) \<in> set (package_tables R) \<and> (\<exists>p\<in>set (packages R). e_id p = i)}"
proof -
  have "set (list_packages_of_table t R) =
      {p \<in> set (packages R). (e_id p, t) \<in> set (package_tables R)}"
    by (auto simp: list_packages_of_table_def)
  then show ?thesis by auto
qed

lemma member_table_ids:
  "t \<in> set (list_member_table_ids ids R) \<longleftrightarrow>
     (\<exists>i\<in>ids. (i, t) \<in> set (package_tables R) \<and> (\<exists>p\<in>set (packages R). e_id p = i \<and> e_deleted p = None))"
proof (cases "ids = {}")
  case False
  then have "set (list_member_table_ids ids R) = snd ` {x \<in> set (package_tables R). fst x \<in> ids \<and>
      (\<exists>p\<in>set (packages R). e_id p = fst x \<and> e_deleted p = None)}"
    by (simp add: list_member_table_ids_def case_prod_beta list_ex_iff)
  then show ?thesis by force
qed (simp add: list_member_table_ids_def)

text \<open>The packages of the stack are live, so the two package queries agree on them.\<close>

lemma stack_gate_tables:
  assumes "stack clock auto u ''data_package'' R = Inr es"
  shows "stack_gate clock auto u t R = Inr (t \<in> set (if es = [] then [] else list_member_table_ids (re_id ` set es) R))"
proof -
  obtain es' where es': "stack clock auto u ''data_package'' R = Inr es'"
    "re_id ` set es' = {i \<in> e_id ` set (list_entities 100000 (packages R)). in_stack_spec auto u ''data_package'' i (auth R)}"
    by (rule stack_data_package)
  have "es' = es" using es'(1) assms by simp
  have live: "\<exists>p\<in>set (packages R). e_id p = i \<and> e_deleted p = None" if "i \<in> re_id ` set es" for i
  proof -
    have "i \<in> e_id ` set (list_entities 100000 (packages R))" using es'(2) that \<open>es' = es\<close> by simp
    then show ?thesis using list_entities_live by auto
  qed
  have "re_id ` set es \<inter> e_id ` set (list_packages_of_table t R) \<noteq> {} \<longleftrightarrow>
      (\<exists>i\<in>re_id ` set es. (i, t) \<in> set (package_tables R) \<and> (\<exists>p\<in>set (packages R). e_id p = i))"
    unfolding packages_of_table_ids by blast
  also have "\<dots> \<longleftrightarrow> (\<exists>i\<in>re_id ` set es. (i, t) \<in> set (package_tables R))" using live by blast
  also have "\<dots> \<longleftrightarrow> es \<noteq> [] \<and> t \<in> set (list_member_table_ids (re_id ` set es) R)"
    using live unfolding member_table_ids by auto
  finally show ?thesis using assms by (simp add: stack_gate_def)
qed

section \<open>The check and the list agree\<close>

definition owned :: "string \<Rightarrow> rdb \<Rightarrow> string set" where
  "owned u R = co_id ` {c \<in> set (corpora R). co_deleted c = None \<and> co_by c = u}"

lemma get_corpus_owned:
  assumes "distinct (map co_id (corpora R))"
  shows "(\<exists>c. get_corpus i R = Some c \<and> co_by c = u) \<longleftrightarrow> i \<in> owned u R"
  using find_unique_cond [OF assms, of i "\<lambda>c. co_deleted c = None"]
  unfolding get_corpus_def owned_def by auto

text \<open>
  What the tables of an instance satisfy: ids are primary keys, and every uploaded table names its collection.
\<close>

definition keyed_instance :: "rdb \<Rightarrow> bool" where
  "keyed_instance R \<longleftrightarrow> distinct (map co_id (corpora R)) \<and> distinct (map tr_id (registry R)) \<and>
     list_all (\<lambda>r. tr_id r \<noteq> [] \<and> (is_collection_table r \<longrightarrow> tr_bucket r \<noteq> None \<and> tr_bucket r \<noteq> Some [])) (registry R)"

lemma in_collection_tables:
  assumes "keyed_instance R"
  shows "t \<in> collection_tables ids R \<longleftrightarrow>
     (\<exists>r. get_table t R = Some r \<and> is_collection_table r \<and> or_default (tr_bucket r) [] \<in> ids)"
proof -
  have reg: "distinct (map tr_id (registry R))"
    and rows: "\<And>r. r \<in> set (registry R) \<Longrightarrow> tr_id r \<noteq> [] \<and>
      (is_collection_table r \<longrightarrow> (\<exists>b. tr_bucket r = Some b \<and> b \<noteq> []))"
    using assms by (auto simp: keyed_instance_def list_all_iff)
  have "get_table t R = Some r \<longleftrightarrow> r \<in> set (registry R) \<and> tr_id r = t" for r
    unfolding get_table_def using find_unique_iff [OF reg] .
  then have rhs: "(\<exists>r. get_table t R = Some r \<and> is_collection_table r \<and> or_default (tr_bucket r) [] \<in> ids) \<longleftrightarrow>
      (\<exists>r\<in>set (registry R). tr_id r = t \<and> is_collection_table r \<and> or_default (tr_bucket r) [] \<in> ids)" by auto
  have "(case tr_bucket r of None \<Rightarrow> False | Some b \<Rightarrow> b \<in> ids) \<and> tr_id r \<noteq> [] \<longleftrightarrow> or_default (tr_bucket r) [] \<in> ids"
    if "r \<in> set (registry R)" "is_collection_table r" for r
    using rows [OF that(1)] that(2) by (auto simp: or_default_def)
  then have "t \<in> collection_tables ids R \<longleftrightarrow>
      (\<exists>r\<in>set (registry R). tr_id r = t \<and> is_collection_table r \<and> or_default (tr_bucket r) [] \<in> ids)"
    unfolding collection_tables_def set_map set_filter by (auto simp: image_iff)
  then show ?thesis unfolding rhs .
qed

lemma collection_tables_rows:
  assumes "keyed_instance R"
  shows "t \<in> collection_tables ids R \<longleftrightarrow>
     (\<exists>r\<in>set (registry R). tr_id r = t \<and> is_collection_table r \<and> (\<exists>b\<in>ids. tr_bucket r = Some b))"
  using assms by (auto simp: collection_tables_def keyed_instance_def list_all_iff image_iff split: option.splits)

lemma collection_tables_Un: "collection_tables (A \<union> B) R = collection_tables A R \<union> collection_tables B R"
  by (auto simp: collection_tables_def split: option.splits)

text \<open>The collections of a user that the listing of the first 200 shows, and those it does not.\<close>

definition owned_listed :: "string \<Rightarrow> rdb \<Rightarrow> string set" where
  "owned_listed u R = co_id ` {c \<in> set (list_corpora 200 R). co_by c = u}"

definition owned_unlisted :: "string \<Rightarrow> rdb \<Rightarrow> string set" where
  "owned_unlisted u R = co_id ` {c \<in> set (corpora R). co_deleted c = None \<and> co_by c = u \<and> c \<notin> set (list_corpora 200 R)}"

lemma owned_split: "owned u R = owned_listed u R \<union> owned_unlisted u R"
  by (auto simp: owned_def owned_listed_def owned_unlisted_def list_corpora_def dest: in_set_takeD)

lemma owned_unlisted_few:
  "length (filter (\<lambda>c. co_deleted c = None) (corpora R)) \<le> 200 \<Longrightarrow> owned_unlisted u R = {}"
  by (auto simp: owned_unlisted_def list_corpora_def)

lemma accessible_collections_non_admin:
  assumes "\<not> is_user_admin u (auth R)" "u \<noteq> []" "ud_id d = Some u"
  shows "accessible_collection_ids (UserDict d) R =
     Inr (Some (allowed_ids_for_user u ''collection'' (auth R) \<union> owned_listed u R))"
  using assms by (simp add: accessible_collection_ids_def get_accessible_ids_def owned_listed_def)

text \<open>
  C10. For a user who is not an administrator, the check and the list agree up to one gap: a table passes
  \<open>can_access_table\<close> exactly when it is in \<open>get_accessible_tables\<close>, in both membership modes, whichever of
  the three routes (internal table, shared or owned collection, data package in the stack) admits it and whatever
  deleted packages still list it, or when it was uploaded to a live collection of the user that is not among the first
  200 of the instance by name, where the listing stops. On an instance of at most 200 live collections they
  agree on every table. Assumed of the tables: ids are unique, and every uploaded table names its collection.
\<close>

theorem table_access_consistent:
  assumes R: "keyed_instance R" and u: "ud_id d = Some u" "u \<noteq> []" and na: "\<not> is_user_admin u (auth R)"
  shows "\<exists>ids. get_accessible_tables clock auto (UserDict d) R = Inr (Some ids) \<and>
     (\<forall>t. fst (can_access_table conn now clock auto ctx (UserDict d) t R p) = Inr (t \<in> ids \<or>
        (\<exists>r\<in>set (registry R). \<exists>c\<in>set (corpora R).
           tr_id r = t \<and> is_collection_table r \<and> tr_bucket r = Some (co_id c) \<and>
           co_deleted c = None \<and> co_by c = u \<and> c \<notin> set (list_corpora 200 R)))) \<and>
     (length (filter (\<lambda>c. co_deleted c = None) (corpora R)) \<le> 200 \<longrightarrow>
        (\<forall>t. fst (can_access_table conn now clock auto ctx (UserDict d) t R p) = Inr (t \<in> ids)))"
proof -
  obtain es where es: "stack clock auto u ''data_package'' R = Inr es" by (rule stack_data_package)
  let ?pk = "set (if es = [] then [] else list_member_table_ids (re_id ` set es) R)"
  let ?granted = "allowed_ids_for_user u ''collection'' (auth R)"
  let ?cols = "?granted \<union> owned u R"
  let ?ids = "?pk \<union> collection_tables (?granted \<union> owned_listed u R) R \<union> set INTERNAL_TABLES"
  have list: "get_accessible_tables clock auto (UserDict d) R = Inr (Some ?ids)"
    using u na es accessible_collections_non_admin [OF na u(2,1)]
    by (auto simp: get_accessible_tables_def Let_def)
  have col: "fst (can_access_collection conn now ctx u i R p) \<longleftrightarrow> i \<in> ?cols" for i
    using na R by (simp add: fst_can_access_collection get_corpus_owned keyed_instance_def in_allowed_ids_iff)
  have check: "fst (can_access_table conn now clock auto ctx (UserDict d) t R p) =
      Inr (t \<in> ?ids \<or> t \<in> collection_tables (owned_unlisted u R) R)" for t
  proof (cases "is_internal_table t")
    case True
    then show ?thesis by (simp add: can_access_table_def is_internal_table_def)
  next
    case False
    let ?via = "\<exists>r. get_table t R = Some r \<and> is_collection_table r \<and> or_default (tr_bucket r) [] \<in> ?cols"
    have "fst (can_access_table conn now clock auto ctx (UserDict d) t R p) = Inr (?via \<or> t \<in> ?pk)"
      using False u na stack_gate_tables [OF es, of t] col
      by (cases "get_table t R") (auto simp: can_access_table_def case_prod_beta Let_def)
    moreover have "?via \<longleftrightarrow> t \<in> collection_tables ?cols R" using in_collection_tables [OF R] by simp
    moreover have "t \<notin> set INTERNAL_TABLES" using False by (simp add: is_internal_table_def)
    ultimately show ?thesis by (auto simp: owned_split collection_tables_Un)
  qed
  have gap: "t \<in> collection_tables (owned_unlisted u R) R \<longleftrightarrow>
      (\<exists>r\<in>set (registry R). \<exists>c\<in>set (corpora R).
         tr_id r = t \<and> is_collection_table r \<and> tr_bucket r = Some (co_id c) \<and>
         co_deleted c = None \<and> co_by c = u \<and> c \<notin> set (list_corpora 200 R))" for t
    unfolding collection_tables_rows [OF R] owned_unlisted_def by blast
  have "collection_tables {} R = {}" by (simp add: collection_tables_def split: option.splits)
  then have few: "fst (can_access_table conn now clock auto ctx (UserDict d) t R p) = Inr (t \<in> ?ids)"
    if "length (filter (\<lambda>c. co_deleted c = None) (corpora R)) \<le> 200" for t
    using check [of t] owned_unlisted_few [OF that, of u] by simp
  show ?thesis
    by (intro exI [of _ ?ids] conjI allI impI list few) (simp_all only: check gap)
qed

definition analyst :: user_dict where
  "analyst = \<lparr>ud_id = Some ''u1'', ud_email = None, ud_surface = None\<rparr>"

definition no_ctx :: reqctx where
  "no_ctx = \<lparr>ctx_paused = False, ctx_caller = None\<rparr>"

theorem table_access_consistent_witness:
  "\<exists>ids. get_accessible_tables 0 False (UserDict analyst) (one_package\<lparr>package_tables := [(''p'', ''t1'')]\<rparr>) =
     Inr (Some ids) \<and>
     fst (can_access_table False 0 0 False no_ctx (UserDict analyst) ''t1''
       (one_package\<lparr>package_tables := [(''p'', ''t1'')]\<rparr>) no_caches) = Inr (''t1'' \<in> ids)"
proof -
  let ?R = "one_package\<lparr>package_tables := [(''p'', ''t1'')]\<rparr>"
  have "keyed_instance ?R" by (simp add: keyed_instance_def one_package_def duo_def)
  moreover have "\<not> is_user_admin ''u1'' (auth ?R)"
    by (simp add: is_user_admin_iff get_group_id_by_name_def get_group_by_name_def one_package_def duo_def
        one_group_def SYSTEM_ADMIN_GROUP_def)
  moreover have "ud_id analyst = Some ''u1''" "''u1'' \<noteq> []" by (simp_all add: analyst_def)
  moreover have "length (filter (\<lambda>c. co_deleted c = None) (corpora ?R)) \<le> 200"
    by (simp add: one_package_def duo_def)
  ultimately show ?thesis
    using table_access_consistent [of ?R analyst "''u1''" 0 False False 0 no_ctx no_caches] by blast
qed

section \<open>Where an administrator's answers differ\<close>

lemma admin_collections:
  assumes "ud_id d = Some u" "u \<noteq> []" "is_user_admin u (auth R)"
  shows "accessible_collection_ids (UserDict d) R = Inr None"
  using assms by (simp add: accessible_collection_ids_def get_accessible_ids_def)

text \<open>
  For an administrator on a credential narrowed to the stack, the check and the list disagree:
  every uploaded table that no data package contains passes \<open>can_access_table\<close>, because the
  collection route still honours the Admin group, while \<open>get_accessible_tables\<close> lists none of them,
  because the collection set it consults is the sentinel for "all", which it skips.
\<close>

theorem stack_surface_admin_inconsistent:
  assumes u: "ud_id d = Some u" "u \<noteq> []" "is_user_admin u (auth R)"
    and surface: "credential_surface (UserDict d) = ''stack''" and "\<not> elevation_paused ctx (Some u)"
    and t: "get_table t R = Some row" "is_collection_table row" "\<not> is_internal_table t"
      "\<forall>i. (i, t) \<notin> set (package_tables R)"
  shows "fst (can_access_table conn now clock auto ctx (UserDict d) t R p) = Inr True \<and>
     (\<exists>ids. get_accessible_tables clock auto (UserDict d) R = Inr (Some ids) \<and> t \<notin> ids)"
proof
  have "fst (can_access_collection conn now ctx u (or_default (tr_bucket row) []) R p)"
    using u(3) assms(5) by (simp add: fst_can_access_collection)
  then show "fst (can_access_table conn now clock auto ctx (UserDict d) t R p) = Inr True"
    using u surface t by (auto simp: can_access_table_def Let_def case_prod_beta)
  obtain es where es: "stack clock auto u ''data_package'' R = Inr es" by (rule stack_data_package)
  let ?pk = "if es = [] then {} else set (list_member_table_ids (re_id ` set es) R)"
  have "get_accessible_tables clock auto (UserDict d) R = Inr (Some (?pk \<union> set INTERNAL_TABLES))"
    using u surface es admin_collections [OF u] by (auto simp: get_accessible_tables_def Let_def)
  moreover have "t \<notin> ?pk" using t(4) by (auto simp: member_table_ids)
  ultimately show "\<exists>ids. get_accessible_tables clock auto (UserDict d) R = Inr (Some ids) \<and> t \<notin> ids"
    using t(3) by (auto simp: is_internal_table_def)
qed

text \<open>An instance with one administrator and one uploaded table.\<close>

definition boss :: "string option \<Rightarrow> user_dict" where
  "boss surface = \<lparr>ud_id = Some ''b'', ud_email = None, ud_surface = surface\<rparr>"

definition boss_tables :: rdb where
  "boss_tables = duo\<lparr>auth := empty_adb\<lparr>ugroups := [admin_row], members :=
       [\<lparr>m_user = ''b'', m_group = ''a'', m_source = ''system_seed'', m_at = 0, m_by = None\<rparr>]\<rparr>,
     registry := [\<lparr>tr_id = ''up'', tr_name = ''Up'', tr_source = Some ''collection'', tr_bucket = Some ''c'', tr_policy = None\<rparr>]\<rparr>"

lemma boss_is_admin: "is_user_admin ''b'' (auth boss_tables)"
  by (simp add: is_user_admin_iff get_group_id_by_name_def get_group_by_name_def boss_tables_def
      empty_adb_def admin_row_def SYSTEM_ADMIN_GROUP_def list_groups_for_user_def)

theorem stack_surface_admin_inconsistent_witness:
  "fst (can_access_table False 0 0 True no_ctx (UserDict (boss (Some ''stack''))) ''up'' boss_tables no_caches) =
     Inr True \<and>
   (\<exists>ids. get_accessible_tables 0 True (UserDict (boss (Some ''stack''))) boss_tables = Inr (Some ids) \<and> ''up'' \<notin> ids)"
proof (rule stack_surface_admin_inconsistent [OF _ _ boss_is_admin])
  show "get_table ''up'' boss_tables =
      Some \<lparr>tr_id = ''up'', tr_name = ''Up'', tr_source = Some ''collection'', tr_bucket = Some ''c'', tr_policy = None\<rparr>"
    by (simp add: get_table_def boss_tables_def)
qed (simp_all add: boss_def credential_surface_def or_default_def elevation_paused_def no_ctx_def
    is_collection_table_def is_internal_table_def INTERNAL_TABLES_def boss_tables_def duo_def)

text \<open>
  Pausing elevation does not narrow tables: while an administrator on an unrestricted
  credential has paused their own elevation, the admin dependency refuses them and the generic
  check falls back to their explicit grants, but every table still passes \<open>can_access_table\<close>, the
  list of tables is still the sentinel for "all", and so is the set of accessible ids of every
  resource type.
\<close>

theorem paused_admin_keeps_tables:
  assumes u: "ud_id d = Some u" "u \<noteq> []" "is_user_admin u (auth R)"
    and surface: "credential_surface (UserDict d) = ''all''" and paused: "elevation_paused ctx (Some u)"
  shows "require_admin ctx (auth R) (UserDict d) = Inl (Forbidden ''admin_elevation_paused'') \<and>
     (fst (can_access conn now ctx u ''table'' t (auth R) p) \<longleftrightarrow>
        is_internal_table t \<or> has_explicit_grant u ''table'' t (auth R)) \<and>
     fst (can_access_table conn now clock auto ctx (UserDict d) t R p) = Inr True \<and>
     get_accessible_tables clock auto (UserDict d) R = Inr None \<and>
     get_accessible_ids (UserDict d) rtype (auth R) = None"
proof -
  have "elevation_paused ctx None" using paused by (auto simp: elevation_paused_def split: if_splits)
  then have adm: "require_admin ctx (auth R) (UserDict d) = Inl (Forbidden ''admin_elevation_paused'')"
    using u by (simp add: require_admin_def)
  have gen: "fst (can_access conn now ctx u ''table'' t (auth R) p) \<longleftrightarrow>
        is_internal_table t \<or> has_explicit_grant u ''table'' t (auth R)"
    using paused by (auto simp: can_access_def Let_def has_explicit_grant_def)
  show ?thesis using adm gen u surface
    by (auto simp: can_access_table_def get_accessible_tables_def get_accessible_ids_def)
qed

theorem paused_admin_keeps_tables_witness:
  "require_admin \<lparr>ctx_paused = True, ctx_caller = Some ''b''\<rparr> (auth boss_tables) (UserDict (boss None)) =
     Inl (Forbidden ''admin_elevation_paused'') \<and>
   fst (can_access_table False 0 0 True \<lparr>ctx_paused = True, ctx_caller = Some ''b''\<rparr> (UserDict (boss None))
     ''up'' boss_tables no_caches) = Inr True"
proof -
  have "credential_surface (UserDict (boss None)) = ''all''" "ud_id (boss None) = Some ''b''"
    "elevation_paused \<lparr>ctx_paused = True, ctx_caller = Some ''b''\<rparr> (Some ''b'')"
    by (simp_all add: boss_def credential_surface_def or_default_def elevation_paused_def)
  then show ?thesis using paused_admin_keeps_tables [OF _ _ boss_is_admin] by simp
qed

section \<open>Restricted principals on the table surfaces\<close>

text \<open>
  What the surfaces rely on when the caller is a restricted principal: the intersection it carries
  never holds more than some entitlement. Both intersections promise this, each for its own
  entitlement, and the consequences are proved once.
\<close>

locale restricted_authority =
  fixes authority :: "rdb \<Rightarrow> grantmap" and entitled :: "rdb \<Rightarrow> string \<Rightarrow> string \<Rightarrow> bool"
  assumes within: "res \<in> lookup_ids (authority R) t \<Longrightarrow> entitled R t res"
begin

lemma session_within:
  "intersection_of who = authority R \<Longrightarrow> can_access_session who t res \<Longrightarrow> entitled R t res"
  by (simp add: can_access_session_iff within)

lemma request_within:
  assumes "is_principal who" "intersection_of who = authority R"
    and "require_resource_access cfg ap dn clocks ctx t tmpl params who (auth R) p = (Inr who', db', p')"
  shows "\<exists>res. format_template tmpl params = Some res \<and> entitled R t res"
  using require_resource_access_principal [OF assms(1,3)] session_within [OF assms(2)] by blast

lemma table_within:
  assumes "is_principal who" "intersection_of who = authority R"
    and "fst (can_access_table conn now clock auto ctx who t R p) = Inr True"
  shows "is_internal_table t \<or> entitled R ''table'' t"
proof -
  have "is_internal_table t \<or> can_access_session who ''table'' t"
    using assms(1,3) by (cases who) (auto simp: can_access_table_def split: if_splits)
  then show ?thesis using session_within [OF assms(2)] by blast
qed

lemma listed_within:
  assumes "is_principal who" "intersection_of who = authority R"
  shows "\<exists>ids. get_accessible_tables clock auto who R = Inr (Some ids) \<and>
     (\<forall>t\<in>ids. is_internal_table t \<or> entitled R ''table'' t)"
  using assms within by (cases who) (auto simp: get_accessible_tables_def is_internal_table_def)

lemma stack_within:
  assumes "intersection_of who = authority R" "stack_principal now who t R = Inr es" "e \<in> set es"
  shows "entitled R t (re_id e)"
proof -
  have "re_id e \<in> lookup_ids (authority R) t"
    using assms by (auto simp: stack_principal_def Let_def rbind_eq_Inr fetch_entries_def
        split: if_splits option.splits)
  then show ?thesis by (rule within)
qed

end

definition agent_entitled :: "string \<Rightarrow> agent_row \<Rightarrow> rdb \<Rightarrow> string \<Rightarrow> string \<Rightarrow> bool" where
  "agent_entitled ow a R t res \<longleftrightarrow> has_explicit_grant ow t res (auth R) \<and> agent_permits a t res R"

definition all_entitled :: "string list \<Rightarrow> rdb \<Rightarrow> string \<Rightarrow> string \<Rightarrow> bool" where
  "all_entitled emails R t res \<longleftrightarrow>
     (\<forall>e\<in>set emails. \<exists>r\<in>set (users R). usr_email r = e \<and> has_explicit_grant (usr_id r) t res (auth R))"

interpretation agent_auth: restricted_authority "compute_agent_intersection ow (Some a)" "agent_entitled ow a"
  for ow a
  by unfold_locales (simp add: in_agent_intersection agent_entitled_def)

interpretation co_auth: restricted_authority "compute_grant_intersection emails" "all_entitled emails"
  for emails
proof unfold_locales
  fix R t res assume "res \<in> lookup_ids (compute_grant_intersection emails R) t"
  then have "\<forall>e\<in>set emails. \<exists>r. find (\<lambda>r. usr_email r = e) (users R) = Some r \<and>
      has_explicit_grant (usr_id r) t res (auth R)" by (simp add: in_grant_intersection)
  then show "all_entitled emails R t res"
    unfolding all_entitled_def by (metis (mono_tags, lifting) find_Some_iff nth_mem)
qed

end
