(* ===== verification/DbState.thy ===== *)
theory DbState
  imports Prelude
begin

text \<open>
  The state machine of the app-state database backend, \<open>src/db_state_machine.py\<close>: the backends and
  their transitions, the overlay file \<open>instance.yaml\<close> with the process's parse-once cache, and the
  migration lock. PyYAML is not part of the repository: its parser and printer are the parameters
  \<open>safe_load\<close> and \<open>safe_dump\<close>.
\<close>

section \<open>Backends and transitions\<close>

datatype backend_state =
    DUCKDB | SIDE_CAR | CLOUD | DUCKDB_QUACK
  | SIDE_CAR_IN_PROGRESS | CLOUD_IN_PROGRESS | DUCKDB_QUACK_IN_PROGRESS

fun backend_value :: "backend_state \<Rightarrow> string" where
  "backend_value DUCKDB = ''duckdb''"
| "backend_value SIDE_CAR = ''side_car''"
| "backend_value CLOUD = ''cloud''"
| "backend_value DUCKDB_QUACK = ''duckdb_quack''"
| "backend_value SIDE_CAR_IN_PROGRESS = ''side_car_in_progress''"
| "backend_value CLOUD_IN_PROGRESS = ''cloud_in_progress''"
| "backend_value DUCKDB_QUACK_IN_PROGRESS = ''duckdb_quack_in_progress''"

definition all_backends :: "backend_state list" where
  "all_backends = [DUCKDB, SIDE_CAR, CLOUD, DUCKDB_QUACK, SIDE_CAR_IN_PROGRESS, CLOUD_IN_PROGRESS,
     DUCKDB_QUACK_IN_PROGRESS]"

definition STABLE_BACKENDS :: "backend_state list" where
  "STABLE_BACKENDS = [DUCKDB, SIDE_CAR, CLOUD, DUCKDB_QUACK]"

fun allowed_transitions :: "backend_state \<Rightarrow> backend_state list" where
  "allowed_transitions DUCKDB = filter (\<lambda>b. b \<noteq> DUCKDB) STABLE_BACKENDS"
| "allowed_transitions SIDE_CAR = filter (\<lambda>b. b \<noteq> SIDE_CAR) STABLE_BACKENDS"
| "allowed_transitions CLOUD = filter (\<lambda>b. b \<noteq> CLOUD) STABLE_BACKENDS"
| "allowed_transitions DUCKDB_QUACK = filter (\<lambda>b. b \<noteq> DUCKDB_QUACK) STABLE_BACKENDS"
| "allowed_transitions SIDE_CAR_IN_PROGRESS = [SIDE_CAR]"
| "allowed_transitions CLOUD_IN_PROGRESS = [CLOUD]"
| "allowed_transitions DUCKDB_QUACK_IN_PROGRESS = [DUCKDB_QUACK]"

definition NOT_YET_SUPPORTED_TARGETS :: "backend_state list" where
  "NOT_YET_SUPPORTED_TARGETS = [DUCKDB_QUACK, DUCKDB_QUACK_IN_PROGRESS]"

datatype transition_error = InvalidTransition | BackendNotYetSupported

definition validate_transition :: "backend_state \<Rightarrow> backend_state \<Rightarrow> transition_error + unit" where
  "validate_transition current target =
     (if target \<notin> set (allowed_transitions current) then Inl InvalidTransition
      else if target \<in> set NOT_YET_SUPPORTED_TARGETS then Inl BackendNotYetSupported
      else Inr ())"

section \<open>The overlay file\<close>

datatype ykey = KStr string | KInt int | KBool bool | KNull

datatype yval =
    YNull | YBool bool | YInt int | YStr string | YList "yval list" | YMap "ykey \<rightharpoonup> yval"

datatype overlay_error = YAMLError | AttributeErr | ValueErr | TypeErr

type_synonym yaml_load = "string \<Rightarrow> overlay_error + yval"
type_synonym yaml_dump = "yval \<Rightarrow> string"

text \<open>\<open>v or {}\<close>.\<close>

fun or_empty :: "yval \<Rightarrow> yval" where
  "or_empty YNull = YMap Map.empty"
| "or_empty (YBool b) = (if b then YBool b else YMap Map.empty)"
| "or_empty (YInt i) = (if i = 0 then YMap Map.empty else YInt i)"
| "or_empty (YStr s) = (if s = [] then YMap Map.empty else YStr s)"
| "or_empty (YList xs) = (if xs = [] then YMap Map.empty else YList xs)"
| "or_empty (YMap m) = YMap m"

text \<open>\<open>v.get(k)\<close> with a default; only a dict has the method.\<close>

fun yget :: "yval \<Rightarrow> string \<Rightarrow> yval \<Rightarrow> overlay_error + yval" where
  "yget (YMap m) k d = Inr (case m (KStr k) of None \<Rightarrow> d | Some v \<Rightarrow> v)"
| "yget v k d = Inl AttributeErr"

text \<open>
  \<open>dict(v)\<close>: a dict is copied, a list must hold pairs, other values raise. (A mapping of two keys
  inside such a list, which Python would unpack as a pair, is treated like the other wrong items.)
\<close>

fun hashable :: "yval \<Rightarrow> ykey option" where
  "hashable YNull = Some KNull"
| "hashable (YBool b) = Some (KBool b)"
| "hashable (YInt i) = Some (KInt i)"
| "hashable (YStr s) = Some (KStr s)"
| "hashable v = None"

fun dict_pairs :: "yval list \<Rightarrow> (ykey \<rightharpoonup> yval) \<Rightarrow> overlay_error + (ykey \<rightharpoonup> yval)" where
  "dict_pairs [] m = Inr m"
| "dict_pairs (YList [k, v] # xs) m =
     (case hashable k of None \<Rightarrow> Inl TypeErr | Some k' \<Rightarrow> dict_pairs xs (m(k' \<mapsto> v)))"
| "dict_pairs (YStr [a, b] # xs) m = dict_pairs xs (m(KStr [a] \<mapsto> YStr [b]))"
| "dict_pairs (YList ys # xs) m = Inl ValueErr"
| "dict_pairs (YStr s # xs) m = Inl ValueErr"
| "dict_pairs (v # xs) m = Inl TypeErr"

fun py_dict :: "yval \<Rightarrow> overlay_error + (ykey \<rightharpoonup> yval)" where
  "py_dict (YMap m) = Inr m"
| "py_dict (YList xs) = dict_pairs xs Map.empty"
| "py_dict (YStr s) = (if s = [] then Inr Map.empty else Inl ValueErr)"
| "py_dict v = Inl TypeErr"

text \<open>
  The host as the module sees it: the overlay's content and mode, and the process's cache. A url is
  whatever YAML value the file holds; \<open>YNull\<close> is Python's \<open>None\<close>.
\<close>

record db_host =
  overlay :: "(string \<times> nat) option"
  state_cache :: "(backend_state \<times> yval) option"

definition reset_backend_state_cache :: "db_host \<Rightarrow> db_host" where
  "reset_backend_state_cache h = h\<lparr>state_cache := None\<rparr>"

text \<open>\<open>BackendState(s)\<close>, with the fallback for an unknown value.\<close>

definition parse_backend :: "yval \<Rightarrow> backend_state" where
  "parse_backend v =
     (case v of
        YStr s \<Rightarrow> (case find (\<lambda>b. backend_value b = s) all_backends of None \<Rightarrow> DUCKDB | Some b \<Rightarrow> b)
      | _ \<Rightarrow> DUCKDB)"

definition parse_overlay :: "yval \<Rightarrow> overlay_error + backend_state \<times> yval" where
  "parse_overlay data =
     rbind (yget (or_empty data) ''database'' YNull) (\<lambda>raw.
     rbind (yget (or_empty raw) ''backend'' (YStr ''duckdb'')) (\<lambda>backend.
     rbind (yget (or_empty raw) ''url'' YNull) (\<lambda>url.
       Inr (parse_backend backend, url))))"

definition read_backend_state :: "yaml_load \<Rightarrow> db_host \<Rightarrow> (overlay_error + backend_state \<times> yval) \<times> db_host" where
  "read_backend_state safe_load h =
     (case state_cache h of
        Some r \<Rightarrow> (Inr r, h)
      | None \<Rightarrow>
          (case overlay h of
             None \<Rightarrow> (Inr (DUCKDB, YNull), h\<lparr>state_cache := Some (DUCKDB, YNull)\<rparr>)
           | Some (text, mode) \<Rightarrow>
               (case safe_load text of
                  Inl e \<Rightarrow> if e = YAMLError then (Inr (DUCKDB, YNull), h) else (Inl e, h)
                | Inr data \<Rightarrow>
                    (case parse_overlay data of
                       Inl e \<Rightarrow> (Inl e, h)
                     | Inr r \<Rightarrow> (Inr r, h\<lparr>state_cache := Some r\<rparr>)))))"

text \<open>The \<open>url\<close> argument: the sentinel, \<open>None\<close>, or a text.\<close>

datatype url_arg = KeepUrl | DropUrl | SetUrl string

definition set_url :: "url_arg \<Rightarrow> (ykey \<rightharpoonup> yval) \<Rightarrow> (ykey \<rightharpoonup> yval)" where
  "set_url url db =
     (case url of
        KeepUrl \<Rightarrow> db
      | DropUrl \<Rightarrow> db(KStr ''url'' := None)
      | SetUrl s \<Rightarrow> db(KStr ''url'' \<mapsto> YStr s))"

definition load_overlay :: "yaml_load \<Rightarrow> db_host \<Rightarrow> overlay_error + (ykey \<rightharpoonup> yval)" where
  "load_overlay safe_load h =
     (case overlay h of
        None \<Rightarrow> Inr Map.empty
      | Some (text, mode) \<Rightarrow>
          rbind (safe_load text) (\<lambda>d. case or_empty d of YMap m \<Rightarrow> Inr m | _ \<Rightarrow> Inl AttributeErr))"

text \<open>The document written: the loaded one with its \<open>database\<close> key replaced.\<close>

definition new_overlay :: "backend_state \<Rightarrow> url_arg \<Rightarrow> (ykey \<rightharpoonup> yval) \<Rightarrow> overlay_error + (ykey \<rightharpoonup> yval)" where
  "new_overlay target url data =
     rbind (py_dict (or_empty (case data (KStr ''database'') of None \<Rightarrow> YNull | Some v \<Rightarrow> v))) (\<lambda>db.
       Inr (data(KStr ''database'' \<mapsto>
         YMap (set_url url (db(KStr ''backend'' \<mapsto> YStr (backend_value target)))))))"

text \<open>The temporary file gets mode 0600 before it replaces the overlay.\<close>

definition write_backend_state ::
  "yaml_load \<Rightarrow> yaml_dump \<Rightarrow> backend_state \<Rightarrow> url_arg \<Rightarrow> db_host \<Rightarrow> (overlay_error + unit) \<times> db_host" where
  "write_backend_state safe_load safe_dump target url h =
     (case rbind (load_overlay safe_load h) (new_overlay target url) of
        Inl e \<Rightarrow> (Inl e, h)
      | Inr data \<Rightarrow> (Inr (), reset_backend_state_cache (h\<lparr>overlay := Some (safe_dump (YMap data), 384)\<rparr>)))"

section \<open>The migration lock\<close>

text \<open>
  \<open>MigrationLock\<close> objects, numbered, each in a process of its own, and the kernel's record of which
  open file description holds the exclusive lock. Every \<open>__enter__\<close> opens the lock file afresh. A
  process that dies loses its descriptors.
\<close>

record mlock =
  held :: bool
  mfd :: "nat option"

record lock_world =
  owner :: "(nat \<times> nat) option"
  next_fd :: nat
  locks :: "nat \<Rightarrow> mlock"

datatype lock_error = MigrationInProgress

definition lock_enter :: "nat \<Rightarrow> lock_world \<Rightarrow> (lock_error + unit) \<times> lock_world" where
  "lock_enter i w =
     (let fd = next_fd w; w1 = w\<lparr>next_fd := Suc fd\<rparr>
      in if owner w \<noteq> None
         then (Inl MigrationInProgress, w1\<lparr>locks := (locks w)(i := (locks w i)\<lparr>mfd := None\<rparr>)\<rparr>)
         else (Inr (), w1\<lparr>owner := Some (i, fd), locks := (locks w)(i := \<lparr>held = True, mfd = Some fd\<rparr>)\<rparr>))"

definition lock_exit :: "nat \<Rightarrow> lock_world \<Rightarrow> lock_world" where
  "lock_exit i w =
     (case mfd (locks w i) of
        None \<Rightarrow> w\<lparr>locks := (locks w)(i := (locks w i)\<lparr>held := False\<rparr>)\<rparr>
      | Some fd \<Rightarrow> w\<lparr>owner := (if owner w = Some (i, fd) then None else owner w),
                     locks := (locks w)(i := \<lparr>held = False, mfd = None\<rparr>)\<rparr>)"

definition process_dies :: "nat \<Rightarrow> lock_world \<Rightarrow> lock_world" where
  "process_dies i w =
     w\<lparr>owner := (case owner w of None \<Rightarrow> None | Some (j, fd) \<Rightarrow> if j = i then None else Some (j, fd)),
       locks := (locks w)(i := \<lparr>held = False, mfd = None\<rparr>)\<rparr>"

definition init_world :: lock_world where
  "init_world = \<lparr>owner = None, next_fd = 0, locks = (\<lambda>_. \<lparr>held = False, mfd = None\<rparr>)\<rparr>"

inductive lock_reach :: "lock_world \<Rightarrow> bool" where
  start: "lock_reach init_world"
| enter: "lock_reach w \<Longrightarrow> lock_reach (snd (lock_enter i w))"
| exit: "lock_reach w \<Longrightarrow> lock_reach (lock_exit i w)"
| dies: "lock_reach w \<Longrightarrow> lock_reach (process_dies i w)"

section \<open>Transitions\<close>

text \<open>
  A validated transition goes to a different runnable stable backend; from an in-progress state only
  to the backend that migration was for, and never to the placeholder.
\<close>

fun stable_of :: "backend_state \<Rightarrow> backend_state" where
  "stable_of SIDE_CAR_IN_PROGRESS = SIDE_CAR"
| "stable_of CLOUD_IN_PROGRESS = CLOUD"
| "stable_of DUCKDB_QUACK_IN_PROGRESS = DUCKDB_QUACK"
| "stable_of b = b"

lemma validate_transition_ok:
  "validate_transition c b = Inr () \<longleftrightarrow>
     b \<in> {DUCKDB, SIDE_CAR, CLOUD} \<and> b \<noteq> c \<and> (c \<in> set STABLE_BACKENDS \<or> b = stable_of c)"
  by (cases c; cases b) (simp_all add: validate_transition_def STABLE_BACKENDS_def NOT_YET_SUPPORTED_TARGETS_def)

lemma in_progress_one_exit:
  "c \<notin> set STABLE_BACKENDS \<Longrightarrow> b \<in> set (allowed_transitions c) \<longleftrightarrow> b = stable_of c"
  by (cases c; cases b) (simp_all add: STABLE_BACKENDS_def)

section \<open>Writing and reading back\<close>

lemma parse_backend_value [simp]: "parse_backend (YStr (backend_value b)) = b"
  by (cases b) (simp_all add: parse_backend_def all_backends_def)

definition url_after :: "url_arg \<Rightarrow> (ykey \<rightharpoonup> yval) \<Rightarrow> yval" where
  "url_after url db =
     (case url of
        KeepUrl \<Rightarrow> (case db (KStr ''url'') of None \<Rightarrow> YNull | Some v \<Rightarrow> v)
      | DropUrl \<Rightarrow> YNull
      | SetUrl s \<Rightarrow> YStr s)"

lemma parse_written:
  "parse_overlay (YMap (data(KStr ''database'' \<mapsto>
     YMap (set_url url (db(KStr ''backend'' \<mapsto> YStr (backend_value target))))))) = Inr (target, url_after url db)"
  by (cases url) (simp_all add: parse_overlay_def set_url_def url_after_def)

text \<open>
  C39. Writing the backend state and reading it back. If the overlay is absent or a document whose
  \<open>database\<close> part is a mapping, and the printed document parses back, then the write succeeds, the
  file has mode 0600, and the next read, from disk, returns the written backend and the url the
  argument asked for: the previous one, none, or the given one; a later read returns the same from
  the cache. Every other key of the document, and every other key of its \<open>database\<close> part, is kept.
\<close>

theorem backend_state_roundtrip:
  assumes load: "load_overlay safe_load h = Inr data"
    and db: "py_dict (or_empty (case data (KStr ''database'') of None \<Rightarrow> YNull | Some v \<Rightarrow> v)) = Inr db"
    and parse_back: "\<And>doc. new_overlay target url data = Inr doc \<Longrightarrow> safe_load (safe_dump (YMap doc)) = Inr (YMap doc)"
  shows "\<exists>h1 doc db1 text. write_backend_state safe_load safe_dump target url h = (Inr (), h1) \<and>
     overlay h1 = Some (text, 384) \<and> safe_load text = Inr (YMap doc) \<and>
     doc (KStr ''database'') = Some (YMap db1) \<and> (\<forall>k. k \<noteq> KStr ''database'' \<longrightarrow> doc k = data k) \<and>
     (\<forall>k. k \<noteq> KStr ''backend'' \<and> k \<noteq> KStr ''url'' \<longrightarrow> db1 k = db k) \<and>
     fst (read_backend_state safe_load h1) = Inr (target, url_after url db) \<and>
     read_backend_state safe_load (snd (read_backend_state safe_load h1)) =
       (Inr (target, url_after url db), snd (read_backend_state safe_load h1))"
proof -
  let ?db1 = "set_url url (db(KStr ''backend'' \<mapsto> YStr (backend_value target)))"
  let ?doc = "data(KStr ''database'' \<mapsto> YMap ?db1)"
  let ?h1 = "reset_backend_state_cache (h\<lparr>overlay := Some (safe_dump (YMap ?doc), 384)\<rparr>)"
  have doc: "new_overlay target url data = Inr ?doc" using db by (simp add: new_overlay_def)
  have pb: "safe_load (safe_dump (YMap ?doc)) = Inr (YMap ?doc)" by (rule parse_back [OF doc])
  have w: "write_backend_state safe_load safe_dump target url h = (Inr (), ?h1)"
    using load doc by (simp add: write_backend_state_def)
  have "read_backend_state safe_load ?h1 =
      (Inr (target, url_after url db), ?h1\<lparr>state_cache := Some (target, url_after url db)\<rparr>)"
    using pb parse_written [of data url db target]
    by (simp add: read_backend_state_def reset_backend_state_cache_def del: fun_upd_apply)
  then have r: "fst (read_backend_state safe_load ?h1) = Inr (target, url_after url db)"
    "read_backend_state safe_load (snd (read_backend_state safe_load ?h1)) =
       (Inr (target, url_after url db), snd (read_backend_state safe_load ?h1))"
    by (simp_all add: read_backend_state_def)
  have keys: "\<forall>k. k \<noteq> KStr ''backend'' \<and> k \<noteq> KStr ''url'' \<longrightarrow> ?db1 k = db k"
    by (cases url) (simp_all add: set_url_def)
  have ov: "overlay ?h1 = Some (safe_dump (YMap ?doc), 384)" by (simp add: reset_backend_state_cache_def)
  show ?thesis
    by (rule exI [of _ ?h1], rule exI [of _ ?doc], rule exI [of _ ?db1], rule exI [of _ "safe_dump (YMap ?doc)"])
      (use w ov pb keys r in simp)
qed

definition fresh_host :: db_host where
  "fresh_host = \<lparr>overlay = None, state_cache = Some (DUCKDB, YNull)\<rparr>"

definition one_doc :: "ykey \<rightharpoonup> yval" where
  "one_doc = [KStr ''database'' \<mapsto>
     YMap [KStr ''backend'' \<mapsto> YStr ''side_car'', KStr ''url'' \<mapsto> YStr ''pg'']]"

definition one_load :: yaml_load where
  "one_load s = (if s = ''doc'' then Inr (YMap one_doc) else Inl YAMLError)"

theorem backend_state_roundtrip_witness:
  "fst (read_backend_state one_load
     (snd (write_backend_state one_load (\<lambda>_. ''doc'') SIDE_CAR (SetUrl ''pg'') fresh_host))) =
   Inr (SIDE_CAR, YStr ''pg'')"
proof -
  have "load_overlay one_load fresh_host = Inr Map.empty" by (simp add: load_overlay_def fresh_host_def)
  moreover have "new_overlay SIDE_CAR (SetUrl ''pg'') Map.empty = Inr one_doc"
    by (simp add: new_overlay_def set_url_def one_doc_def)
  ultimately show ?thesis
    using backend_state_roundtrip [of one_load fresh_host Map.empty Map.empty SIDE_CAR "SetUrl ''pg''" "\<lambda>_. ''doc''"]
    by (fastforce simp: one_load_def url_after_def)
qed

section \<open>The lock excludes\<close>

definition lock_inv :: "lock_world \<Rightarrow> bool" where
  "lock_inv w \<longleftrightarrow> (\<forall>i. (held (locks w i) \<longrightarrow> (\<exists>fd. owner w = Some (i, fd))) \<and>
     (\<forall>fd. mfd (locks w i) = Some fd \<longrightarrow> owner w = Some (i, fd)))"

lemma lock_inv_enter: "lock_inv w \<Longrightarrow> lock_inv (snd (lock_enter i w))"
  by (auto simp: lock_inv_def lock_enter_def Let_def)

lemma lock_invI:
  assumes "\<And>i. held (locks w i) \<Longrightarrow> \<exists>fd. owner w = Some (i, fd)"
    and "\<And>i fd. mfd (locks w i) = Some fd \<Longrightarrow> owner w = Some (i, fd)"
  shows "lock_inv w"
  using assms by (simp add: lock_inv_def)

lemma lock_inv_held: "lock_inv w \<Longrightarrow> held (locks w i) \<Longrightarrow> \<exists>fd. owner w = Some (i, fd)"
  by (simp add: lock_inv_def)

lemma lock_inv_fd: "lock_inv w \<Longrightarrow> mfd (locks w i) = Some fd \<Longrightarrow> owner w = Some (i, fd)"
  by (simp add: lock_inv_def)

lemma lock_inv_exit: "lock_inv w \<Longrightarrow> lock_inv (lock_exit i w)"
  by (rule lock_invI)
    (auto simp: lock_exit_def split: option.splits if_splits dest: lock_inv_held lock_inv_fd)

lemma lock_inv_dies: "lock_inv w \<Longrightarrow> lock_inv (process_dies i w)"
  by (rule lock_invI)
    (auto simp: process_dies_def split: option.splits if_splits dest: lock_inv_held lock_inv_fd)

lemma lock_reach_inv: "lock_reach w \<Longrightarrow> lock_inv w"
proof (induction rule: lock_reach.induct)
  case start
  then show ?case by (simp add: lock_inv_def init_world_def)
qed (simp_all add: lock_inv_enter lock_inv_exit lock_inv_dies)

text \<open>
  The migration lock. In every state reachable by any interleaving of entering, leaving and
  dying processes, at most one object holds the lock; while one does, every attempt to enter, its
  own included, raises; once the holder that still has its descriptor leaves, or its process dies,
  the next attempt succeeds.
\<close>

theorem migration_lock_exclusive:
  assumes "lock_reach w" "held (locks w i)"
  shows "(\<forall>j. held (locks w j) \<longrightarrow> j = i) \<and> (\<forall>j. fst (lock_enter j w) = Inl MigrationInProgress) \<and>
     (mfd (locks w i) \<noteq> None \<longrightarrow> (\<forall>j. fst (lock_enter j (lock_exit i w)) = Inr ())) \<and>
     (\<forall>j. fst (lock_enter j (process_dies i w)) = Inr ())"
proof -
  have inv: "lock_inv w" using assms(1) by (rule lock_reach_inv)
  then obtain fd where own: "owner w = Some (i, fd)" using assms(2) by (auto simp: lock_inv_def)
  have one: "\<forall>j. held (locks w j) \<longrightarrow> j = i" using own lock_inv_held [OF inv] by auto
  have "\<forall>j. fst (lock_enter j w) = Inl MigrationInProgress" using own by (simp add: lock_enter_def Let_def)
  moreover have "owner (lock_exit i w) = None" if "mfd (locks w i) \<noteq> None"
    using that lock_inv_fd [OF inv] by (auto simp: lock_exit_def)
  moreover have "owner (process_dies i w) = None" using own by (simp add: process_dies_def)
  ultimately show ?thesis using one by (simp add: lock_enter_def Let_def)
qed

theorem migration_lock_exclusive_witness:
  "fst (lock_enter 7 (snd (lock_enter 3 init_world))) = Inl MigrationInProgress \<and>
   fst (lock_enter 7 (lock_exit 3 (snd (lock_enter 3 init_world)))) = Inr ()"
proof -
  let ?w = "snd (lock_enter 3 init_world)"
  have "lock_reach ?w" by (intro lock_reach.intros)
  moreover have "held (locks ?w 3)" "mfd (locks ?w 3) \<noteq> None"
    by (simp_all add: lock_enter_def init_world_def Let_def)
  ultimately show ?thesis using migration_lock_exclusive [of ?w 3] by blast
qed

end
