(* ===== verification/SqlText.thy ===== *)
theory SqlText
  imports Prelude
begin

text \<open>
  SQL text. \<open>quote_ident\<close> is \<open>src/sql_ident.py\<close>, the one identifier quoter of the code base, and
  \<open>quote_literal\<close> the quoting of a string value that its clients share. \<open>sql_tokens\<close> is the lexical
  grammar of the SQL standard as far as the generated statements use it: double-quoted identifiers,
  single-quoted strings, words, and single-character symbols. It is the reference against which
  quoting is judged: text built from quoted pieces reads back as exactly the tokens that were meant,
  whatever characters the quoted names and values contain.
\<close>

section \<open>Quoting\<close>

text \<open>\<open>s.replace(q, q + q)\<close> for one quote character.\<close>

definition double_quotes :: "char \<Rightarrow> string \<Rightarrow> string" where
  "double_quotes q s = concat (map (\<lambda>c. if c = q then [q, q] else [c]) s)"

abbreviation dq :: char where "dq \<equiv> CHR 34"
abbreviation sq :: char where "sq \<equiv> CHR 39"

definition quote_ident :: "string \<Rightarrow> string" where
  "quote_ident name = [dq] @ double_quotes dq name @ [dq]"

definition quote_literal :: "string \<Rightarrow> string" where
  "quote_literal s = [sq] @ double_quotes sq s @ [sq]"

lemma double_quotes_Nil [simp]: "double_quotes q [] = []"
  by (simp add: double_quotes_def)

lemma double_quotes_Cons [simp]:
  "double_quotes q (c # s) = (if c = q then [q, q] else [c]) @ double_quotes q s"
  by (simp add: double_quotes_def)

section \<open>Reading tokens\<close>

datatype token = TWord string | TIdent string | TStr string | TSym char

text \<open>The rest of a quoted token after its opening quote: its value and the text after it.\<close>

fun quoted :: "char \<Rightarrow> string \<Rightarrow> (string \<times> string) option" where
  "quoted q [] = None"
| "quoted q [c] = (if c = q then Some ([], []) else None)"
| "quoted q (c # d # cs) =
     (if c = q then
        if d = q then map_option (\<lambda>(v, r). (q # v, r)) (quoted q cs) else Some ([], d # cs)
      else map_option (\<lambda>(v, r). (c # v, r)) (quoted q (d # cs)))"

definition word_char :: "char \<Rightarrow> bool" where
  "word_char c \<longleftrightarrow>
     (let n = (of_char c :: nat) in
        48 \<le> n \<and> n \<le> 57 \<or> 65 \<le> n \<and> n \<le> 90 \<or> 97 \<le> n \<and> n \<le> 122 \<or> n = 95 \<or> n = 36 \<or> n = 46)"

text \<open>The two ways a comment opens. No generated text has one outside quotes, and none is read.\<close>

definition opens_comment :: "char \<Rightarrow> string \<Rightarrow> bool" where
  "opens_comment c cs \<longleftrightarrow>
     c = CHR ''-'' \<and> take 1 cs = ''-'' \<or> c = CHR ''/'' \<and> take 1 cs = ''*''"

lemma quoted_shorter: "quoted q s = Some (v, r) \<Longrightarrow> length r < length s"
  by (induction q s arbitrary: v rule: quoted.induct) (fastforce split: if_splits)+

function sql_tokens :: "string \<Rightarrow> token list option" where
  "sql_tokens [] = Some []"
| "sql_tokens (c # cs) =
     (if is_space c then sql_tokens cs
      else if c = dq then
        (case quoted dq cs of None \<Rightarrow> None | Some (v, r) \<Rightarrow> map_option ((#) (TIdent v)) (sql_tokens r))
      else if c = sq then
        (case quoted sq cs of None \<Rightarrow> None | Some (v, r) \<Rightarrow> map_option ((#) (TStr v)) (sql_tokens r))
      else if word_char c then
        map_option ((#) (TWord (c # takeWhile word_char cs))) (sql_tokens (dropWhile word_char cs))
      else if opens_comment c cs then None
      else map_option ((#) (TSym c)) (sql_tokens cs))"
  by pat_completeness auto
termination
  by (relation "measure length") (auto dest: quoted_shorter simp: length_dropWhile_le le_imp_less_Suc)

section \<open>Concatenation of token texts\<close>

text \<open>
  Two texts read independently of one another where they meet at a separator, a character that is
  neither part of a word nor a quote nor half of a comment opening.
\<close>

definition is_sep :: "char \<Rightarrow> bool" where
  "is_sep c \<longleftrightarrow> \<not> word_char c \<and> c \<notin> {dq, sq, CHR ''-'', CHR ''/'', CHR ''*''}"

definition seam :: "string \<Rightarrow> string \<Rightarrow> bool" where
  "seam a b \<longleftrightarrow> a = [] \<or> b = [] \<or> is_sep (last a) \<or> is_sep (hd b)"

lemma quoted_double:
  "r = [] \<or> hd r \<noteq> q \<Longrightarrow> quoted q (double_quotes q s @ q # r) = Some (s, r)"
proof (induction s)
  case Nil
  then show ?case by (cases r) auto
next
  case (Cons c s)
  show ?case
  proof (cases "c = q")
    case True
    with Cons show ?thesis by simp
  next
    case False
    obtain d ds where "double_quotes q s @ q # r = d # ds" by (cases "double_quotes q s") auto
    with Cons False show ?thesis by (simp split: option.splits)
  qed
qed

lemma quoted_suffix: "quoted q s = Some (v, r) \<Longrightarrow> \<exists>p. s = p @ q # r"
proof (induction q s arbitrary: v rule: quoted.induct)
  case (3 q c d cs)
  show ?case
  proof (cases "c = q")
    case True
    show ?thesis
    proof (cases "d = q")
      case True
      with 3 \<open>c = q\<close> obtain v' where "quoted q cs = Some (v', r)" by auto
      with 3 \<open>c = q\<close> True obtain p where "cs = p @ q # r" by blast
      then have "c # d # cs = (c # d # p) @ q # r" by simp
      then show ?thesis by blast
    next
      case False
      with 3 \<open>c = q\<close> have "c # d # cs = [] @ q # r" by simp
      then show ?thesis by blast
    qed
  next
    case False
    with 3 obtain v' where "quoted q (d # cs) = Some (v', r)" by auto
    with 3 False obtain p where "d # cs = p @ q # r" by blast
    then have "c # d # cs = (c # p) @ q # r" by simp
    then show ?thesis by blast
  qed
qed (auto split: if_splits)

lemma quoted_append:
  "quoted q s = Some (v, r) \<Longrightarrow> r \<noteq> [] \<or> t = [] \<or> hd t \<noteq> q \<Longrightarrow> quoted q (s @ t) = Some (v, r @ t)"
proof (induction q s arbitrary: v rule: quoted.induct)
  case (2 q c)
  then show ?case by (cases t) (auto split: if_splits)
next
  case (3 q c d cs)
  then show ?case by (auto split: if_splits)
qed simp

lemma seam_quoted:
  assumes "quoted q cs = Some (v, r)" "seam (c # cs) b" "q = dq \<or> q = sq"
  shows "seam r b" "r \<noteq> [] \<or> b = [] \<or> hd b \<noteq> q"
proof -
  obtain p where p: "cs = p @ q # r" using quoted_suffix [OF assms(1)] by blast
  have "\<not> is_sep q" using assms(3) by (auto simp: is_sep_def)
  then show "seam r b" using assms(2) p by (auto simp: seam_def split: if_splits)
  show "r \<noteq> [] \<or> b = [] \<or> hd b \<noteq> q"
    using assms(2) p \<open>\<not> is_sep q\<close> by (auto simp: seam_def split: if_splits)
qed

lemma seam_word:
  assumes "word_char c" "seam (c # cs) b"
  shows "takeWhile word_char (cs @ b) = takeWhile word_char cs"
    and "dropWhile word_char (cs @ b) = dropWhile word_char cs @ b"
    and "seam (dropWhile word_char cs) b"
proof -
  have all: "b = [] \<or> \<not> word_char (hd b)" if "\<forall>x\<in>set cs. word_char x"
  proof -
    have "word_char (last (c # cs))" using assms(1) that by (cases cs) auto
    then show ?thesis using assms(2) by (auto simp: seam_def is_sep_def)
  qed
  have "takeWhile word_char (cs @ b) = takeWhile word_char cs
      \<and> dropWhile word_char (cs @ b) = dropWhile word_char cs @ b"
  proof (cases "\<forall>x\<in>set cs. word_char x")
    case True
    then have "takeWhile word_char b = []" "dropWhile word_char b = b"
      using all by (cases b; simp)+
    with True show ?thesis by (simp add: takeWhile_eq_all_conv [THEN iffD2])
  next
    case False
    then obtain x where "x \<in> set cs" "\<not> word_char x" by blast
    then show ?thesis by (simp add: takeWhile_append1 dropWhile_append1)
  qed
  then show "takeWhile word_char (cs @ b) = takeWhile word_char cs"
    and "dropWhile word_char (cs @ b) = dropWhile word_char cs @ b" by simp_all
  show "seam (dropWhile word_char cs) b"
  proof (cases "dropWhile word_char cs = []")
    case False
    then have "last (dropWhile word_char cs) = last (c # cs)"
      by (metis dropWhile_eq_Nil_conv last.simps list.set(1) empty_iff last_appendR takeWhile_dropWhile_id)
    with assms(2) show ?thesis by (simp add: seam_def)
  qed (simp add: seam_def)
qed

lemma sql_tokens_append:
  "sql_tokens a = Some ta \<Longrightarrow> seam a b \<Longrightarrow> sql_tokens (a @ b) = map_option ((@) ta) (sql_tokens b)"
proof (induction a arbitrary: ta rule: sql_tokens.induct)
  case 1
  then show ?case by (cases "sql_tokens b") auto
next
  case (2 c cs)
  have tl: "seam cs b" using "2.prems"(2) by (auto simp: seam_def split: if_splits)
  consider (sp) "is_space c" | (d) "\<not> is_space c" "c = dq" | (s) "\<not> is_space c" "c = sq"
    | (w) "\<not> is_space c" "c \<noteq> dq" "c \<noteq> sq" "word_char c"
    | (y) "\<not> is_space c" "c \<noteq> dq" "c \<noteq> sq" "\<not> word_char c" by blast
  then show ?case
  proof cases
    case sp
    with 2 tl show ?thesis by simp
  next
    case d
    with 2 obtain v r tr where q: "quoted dq cs = Some (v, r)" "sql_tokens r = Some tr" "ta = TIdent v # tr"
      by (auto split: option.splits)
    note sm = seam_quoted [OF q(1) "2.prems"(2)]
    have "sql_tokens (r @ b) = map_option ((@) tr) (sql_tokens b)"
      using "2.IH"(2) d q sm(1) by simp
    with d q quoted_append [OF q(1)] sm(2) show ?thesis by (simp add: option.map_comp comp_def)
  next
    case s
    with 2 obtain v r tr where q: "quoted sq cs = Some (v, r)" "sql_tokens r = Some tr" "ta = TStr v # tr"
      by (auto split: option.splits)
    note sm = seam_quoted [OF q(1) "2.prems"(2)]
    have "sql_tokens (r @ b) = map_option ((@) tr) (sql_tokens b)"
      using "2.IH"(3) s q sm(1) by simp
    with s q quoted_append [OF q(1)] sm(2) show ?thesis by (simp add: option.map_comp comp_def)
  next
    case w
    note sw = seam_word [OF w(4) "2.prems"(2)]
    from w 2 obtain tr where q: "sql_tokens (dropWhile word_char cs) = Some tr"
      "ta = TWord (c # takeWhile word_char cs) # tr" by auto
    have "sql_tokens (dropWhile word_char cs @ b) = map_option ((@) tr) (sql_tokens b)"
      using "2.IH"(4) w q sw(3) by simp
    with w q sw(1,2) show ?thesis by (simp add: option.map_comp comp_def)
  next
    case y
    with 2 tl obtain tr where "\<not> opens_comment c cs" "sql_tokens cs = Some tr" "ta = TSym c # tr"
      by (auto split: if_splits)
    moreover have "\<not> opens_comment c (cs @ b)"
      using \<open>\<not> opens_comment c cs\<close> "2.prems"(2)
      by (cases cs; cases b) (auto simp: opens_comment_def seam_def is_sep_def)
    ultimately show ?thesis using y 2 tl by (simp add: option.map_comp comp_def)
  qed
qed

lemma sql_tokens_join:
  "sql_tokens a = Some ta \<Longrightarrow> sql_tokens b = Some tb \<Longrightarrow> seam a b \<Longrightarrow> sql_tokens (a @ b) = Some (ta @ tb)"
  by (simp add: sql_tokens_append)

text \<open>A quoted identifier and a quoted string each read as one token that carries the original text.\<close>

lemma sql_tokens_quote_ident [simp]: "sql_tokens (quote_ident s) = Some [TIdent s]"
  using quoted_double [of "[]" dq s] by (simp add: quote_ident_def is_space_def)

lemma sql_tokens_quote_literal [simp]: "sql_tokens (quote_literal s) = Some [TStr s]"
  using quoted_double [of "[]" sq s] by (simp add: quote_literal_def is_space_def)

lemma quote_ident_inj: "quote_ident a = quote_ident b \<longleftrightarrow> a = b"
  by (metis sql_tokens_quote_ident option.inject list.inject token.inject(2))

text \<open>Reading a text whose fixed part ends, or whose next fixed part begins, at a separator.\<close>

lemma tokens_fixed_then:
  "sql_tokens f = Some tf \<Longrightarrow> f \<noteq> [] \<Longrightarrow> is_sep (last f) \<Longrightarrow> sql_tokens b = Some tb \<Longrightarrow>
     sql_tokens (f @ b) = Some (tf @ tb)"
  by (rule sql_tokens_join) (simp_all add: seam_def)

lemma tokens_then_fixed:
  "sql_tokens a = Some ta \<Longrightarrow> f \<noteq> [] \<Longrightarrow> is_sep (hd f) \<Longrightarrow> sql_tokens (f @ b) = Some tb \<Longrightarrow>
     sql_tokens (a @ f @ b) = Some (ta @ tb)"
  by (rule sql_tokens_join) (simp_all add: seam_def)

lemma tokens_then_end:
  "sql_tokens a = Some ta \<Longrightarrow> f \<noteq> [] \<Longrightarrow> is_sep (hd f) \<Longrightarrow> sql_tokens f = Some tf \<Longrightarrow>
     sql_tokens (a @ f) = Some (ta @ tf)"
  by (rule sql_tokens_join) (simp_all add: seam_def)

lemma tokens_word:
  "w \<noteq> [] \<Longrightarrow> list_all word_char w \<Longrightarrow> sql_tokens w = Some [TWord w]"
proof (cases w)
  case (Cons c cs)
  moreover assume "list_all word_char w"
  moreover have "\<not> is_space c" "c \<noteq> dq" "c \<noteq> sq" if "word_char c"
    using that by (auto simp: word_char_def is_space_def)
  ultimately show ?thesis
    by (simp add: list_all_iff takeWhile_eq_all_conv [THEN iffD2] dropWhile_eq_Nil_conv [THEN iffD2])
qed simp

lemma digits_are_word: "list_all word_char (nat_digits n)"
  using nat_digits_are_digits [of n] by (auto simp: list_all_iff is_digit_def word_char_def)

text \<open>\<open>str.upper\<close> on ASCII text.\<close>

definition upper_char :: "char \<Rightarrow> char" where
  "upper_char c = (let n = (of_char c :: nat) in if 97 \<le> n \<and> n \<le> 122 then char_of (n - 32) else c)"

definition upper :: "string \<Rightarrow> string" where
  "upper s = map upper_char s"

text \<open>\<open>sep.join(parts)\<close>.\<close>

fun py_join :: "string \<Rightarrow> string list \<Rightarrow> string" where
  "py_join sep [] = []"
| "py_join sep [x] = x"
| "py_join sep (x # y # ys) = x @ sep @ py_join sep (y # ys)"

fun tokens_join :: "token list \<Rightarrow> token list list \<Rightarrow> token list" where
  "tokens_join sep [] = []"
| "tokens_join sep [x] = x"
| "tokens_join sep (x # y # ys) = x @ sep @ tokens_join sep (y # ys)"

lemma sql_tokens_py_join:
  assumes "sql_tokens sep = Some ts" "sep \<noteq> []" "is_sep (hd sep)" "is_sep (last sep)"
  shows "list_all2 (\<lambda>x t. sql_tokens x = Some t) xs ts' \<Longrightarrow>
    sql_tokens (py_join sep xs) = Some (tokens_join ts ts')"
proof (induction xs arbitrary: ts' rule: py_join.induct [of "\<lambda>_. _" sep])
  case (3 sep' x y ys)
  then obtain t u us where ts': "ts' = t # u # us" "sql_tokens x = Some t"
    "list_all2 (\<lambda>x t. sql_tokens x = Some t) (y # ys) (u # us)"
    by (auto simp: list_all2_Cons1)
  have "sql_tokens (sep @ py_join sep (y # ys)) = Some (ts @ tokens_join ts (u # us))"
    using tokens_fixed_then [OF assms(1,2,4)] 3 ts'(3) by blast
  with tokens_then_fixed [OF ts'(2) assms(2,3)] show ?case by (simp add: ts'(1))
qed (auto simp: list_all2_Cons1)

declare sql_tokens.simps [simp del]

end
