(* ===== verification/PolicyQuery.thy ===== *)
theory PolicyQuery
  imports SqlText
begin

text \<open>
  The query language the access-policy builder writes, as a reference for its text: abstract syntax,
  the tokens of a query, a parser with its round trip, and the three-valued semantics of a query on
  one row. The comparison of values, membership in a list of groups and \<open>md5\<close> belong to the database
  engine and are parameters (\<open>engine\<close>).
\<close>

section \<open>Abstract syntax\<close>

datatype alit = AStr string | AWord string | ANeg string

datatype acond =
  AFalse | AContainsCol string | AContainsLit alit | AEqVar string string | AEqLit string alit
| AIn string "alit list"

datatype fallback = FStr string | FNull "token list"

datatype aexpr = ACol string | ANull "token list" | AMd5 string | ACase "acond list" string fallback

record aquery =
  q_projs :: "(aexpr \<times> string option) list"
  q_table :: string
  q_or :: bool
  q_conds :: "acond list"

section \<open>Its tokens\<close>

fun alit_tokens :: "alit \<Rightarrow> token list" where
  "alit_tokens (AStr s) = [TStr s]"
| "alit_tokens (AWord w) = [TWord w]"
| "alit_tokens (ANeg w) = [TSym CHR ''-'', TWord w]"

abbreviation contains_open :: "token list" where
  "contains_open \<equiv> [TWord ''list_contains'', TSym CHR ''('', TWord ''$user_groups'', TSym CHR '','']"

abbreviation cast_open :: "token list" where
  "cast_open \<equiv> [TWord ''CAST'', TSym CHR ''('', TWord ''NULL'', TWord ''AS'']"

fun acond_tokens :: "acond \<Rightarrow> token list" where
  "acond_tokens AFalse = [TWord ''FALSE'']"
| "acond_tokens (AContainsCol c) = contains_open @ [TIdent c, TSym CHR '')'']"
| "acond_tokens (AContainsLit l) = contains_open @ alit_tokens l @ [TSym CHR '')'']"
| "acond_tokens (AEqVar c v) = [TIdent c, TSym CHR ''='', TWord v]"
| "acond_tokens (AEqLit c l) = [TIdent c, TSym CHR ''=''] @ alit_tokens l"
| "acond_tokens (AIn c ls) =
     [TIdent c, TWord ''IN'', TSym CHR ''(''] @ tokens_join [TSym CHR '',''] (map alit_tokens ls) @ [TSym CHR '')'']"

definition aconds_tokens :: "string \<Rightarrow> acond list \<Rightarrow> token list" where
  "aconds_tokens sep cs = tokens_join [TWord sep] (map acond_tokens cs)"

fun fallback_tokens :: "fallback \<Rightarrow> token list" where
  "fallback_tokens (FStr s) = [TStr s]"
| "fallback_tokens (FNull ty) = cast_open @ ty @ [TSym CHR '')'']"

fun aexpr_tokens :: "aexpr \<Rightarrow> token list" where
  "aexpr_tokens (ACol c) = [TIdent c]"
| "aexpr_tokens (ANull ty) = cast_open @ ty @ [TSym CHR '')'']"
| "aexpr_tokens (AMd5 c) = [TWord ''md5'', TSym CHR ''('', TIdent c, TSym CHR '')'']"
| "aexpr_tokens (ACase cs c f) =
     [TWord ''CASE'', TWord ''WHEN''] @ aconds_tokens ''OR'' cs @ [TWord ''THEN'', TIdent c, TWord ''ELSE'']
     @ fallback_tokens f @ [TWord ''END'']"

fun proj_tokens :: "aexpr \<times> string option \<Rightarrow> token list" where
  "proj_tokens (x, None) = aexpr_tokens x"
| "proj_tokens (x, Some a) = aexpr_tokens x @ [TWord ''AS'', TIdent a]"

definition query_tokens :: "aquery \<Rightarrow> token list" where
  "query_tokens q =
     [TWord ''SELECT''] @ tokens_join [TSym CHR '',''] (map proj_tokens (q_projs q))
     @ [TWord ''FROM'', TIdent (q_table q)]
     @ (if q_conds q = [] then []
        else [TWord ''WHERE''] @ aconds_tokens (if q_or q then ''OR'' else ''AND'') (q_conds q))"

section \<open>Its parser\<close>

definition eat :: "token list \<Rightarrow> token list \<Rightarrow> token list option" where
  "eat ks ts = (if take (length ks) ts = ks then Some (drop (length ks) ts) else None)"

fun parse_alit :: "token list \<Rightarrow> (alit \<times> token list) option" where
  "parse_alit (TStr s # ts) = Some (AStr s, ts)"
| "parse_alit (TWord w # ts) = Some (AWord w, ts)"
| "parse_alit (TSym c # TWord w # ts) = (if c = CHR ''-'' then Some (ANeg w, ts) else None)"
| "parse_alit ts = None"

text \<open>The number bounds the elements read; the length of the input is always enough.\<close>

fun parse_alits :: "nat \<Rightarrow> token list \<Rightarrow> (alit list \<times> token list) option" where
  "parse_alits 0 ts = None"
| "parse_alits (Suc n) ts =
     (case parse_alit ts of
        None \<Rightarrow> None
      | Some (l, r) \<Rightarrow>
          (case r of
             TSym c # r' \<Rightarrow>
               if c = CHR '')'' then Some ([l], r')
               else if c = CHR '','' then map_option (\<lambda>(ls, r''). (l # ls, r'')) (parse_alits n r')
               else None
           | _ \<Rightarrow> None))"

definition close_paren :: "('a \<times> token list) option \<Rightarrow> ('a \<times> token list) option" where
  "close_paren p = (case p of Some (x, TSym c # r) \<Rightarrow> if c = CHR '')'' then Some (x, r) else None | _ \<Rightarrow> None)"

definition parse_acond :: "token list \<Rightarrow> (acond \<times> token list) option" where
  "parse_acond ts =
     (case ts of
        TIdent c # TSym s # r \<Rightarrow>
          if s \<noteq> CHR ''='' then None
          else (case r of
             TWord v # r' \<Rightarrow>
               if take 1 v = ''$'' then Some (AEqVar c v, r') else Some (AEqLit c (AWord v), r')
           | _ \<Rightarrow> map_option (\<lambda>(l, r'). (AEqLit c l, r')) (parse_alit r))
      | TIdent c # r \<Rightarrow>
          (case eat [TWord ''IN'', TSym CHR ''(''] r of
             None \<Rightarrow> None
           | Some r' \<Rightarrow> map_option (\<lambda>(ls, r''). (AIn c ls, r'')) (parse_alits (length r') r'))
      | _ \<Rightarrow>
          (case eat [TWord ''FALSE''] ts of
             Some r \<Rightarrow> Some (AFalse, r)
           | None \<Rightarrow>
               (case eat contains_open ts of
                  None \<Rightarrow> None
                | Some (TIdent c # r) \<Rightarrow> close_paren (Some (AContainsCol c, r))
                | Some r \<Rightarrow> close_paren (map_option (\<lambda>(l, r'). (AContainsLit l, r')) (parse_alit r)))))"

fun parse_aconds :: "nat \<Rightarrow> string \<Rightarrow> token list \<Rightarrow> (acond list \<times> token list) option" where
  "parse_aconds 0 sep ts = None"
| "parse_aconds (Suc n) sep ts =
     (case parse_acond ts of
        None \<Rightarrow> None
      | Some (c, r) \<Rightarrow>
          (case eat [TWord sep] r of
             Some r' \<Rightarrow> map_option (\<lambda>(cs, r''). (c # cs, r'')) (parse_aconds n sep r')
           | None \<Rightarrow> Some ([c], r)))"

text \<open>A type up to the parenthesis that closes the cast around it.\<close>

fun take_type :: "nat \<Rightarrow> token list \<Rightarrow> (token list \<times> token list) option" where
  "take_type d [] = None"
| "take_type d (t # ts) =
     (if t = TSym CHR '')'' then
        if d = 0 then Some ([], ts) else map_option (\<lambda>(ty, r). (t # ty, r)) (take_type (d - 1) ts)
      else map_option (\<lambda>(ty, r). (t # ty, r)) (take_type (if t = TSym CHR ''('' then Suc d else d) ts))"

definition parse_fallback :: "token list \<Rightarrow> (fallback \<times> token list) option" where
  "parse_fallback ts =
     (case ts of
        TStr s # r \<Rightarrow> Some (FStr s, r)
      | _ \<Rightarrow> (case eat cast_open ts of
               None \<Rightarrow> None
             | Some r \<Rightarrow> map_option (\<lambda>(ty, r'). (FNull ty, r')) (take_type 0 r)))"

definition parse_case :: "token list \<Rightarrow> (aexpr \<times> token list) option" where
  "parse_case ts =
     (case parse_aconds (length ts) ''OR'' ts of
        Some (cs, TWord t # TIdent c # TWord el # r) \<Rightarrow>
          if t = ''THEN'' \<and> el = ''ELSE'' then
            (case parse_fallback r of
               None \<Rightarrow> None
             | Some (f, r') \<Rightarrow> map_option (\<lambda>r''. (ACase cs c f, r'')) (eat [TWord ''END''] r'))
          else None
      | _ \<Rightarrow> None)"

definition parse_aexpr :: "token list \<Rightarrow> (aexpr \<times> token list) option" where
  "parse_aexpr ts =
     (case ts of
        TIdent c # r \<Rightarrow> Some (ACol c, r)
      | _ \<Rightarrow>
          (case eat cast_open ts of
             Some r \<Rightarrow> map_option (\<lambda>(ty, r'). (ANull ty, r')) (take_type 0 r)
           | None \<Rightarrow>
               (case eat [TWord ''md5'', TSym CHR ''(''] ts of
                  Some (TIdent c # r) \<Rightarrow> close_paren (Some (AMd5 c, r))
                | Some _ \<Rightarrow> None
                | None \<Rightarrow>
                    (case eat [TWord ''CASE'', TWord ''WHEN''] ts of
                       None \<Rightarrow> None
                     | Some r \<Rightarrow> parse_case r))))"

definition parse_proj :: "token list \<Rightarrow> ((aexpr \<times> string option) \<times> token list) option" where
  "parse_proj ts =
     (case parse_aexpr ts of
        None \<Rightarrow> None
      | Some (x, TWord w # TIdent a # r) \<Rightarrow>
          if w = ''AS'' then Some ((x, Some a), r) else Some ((x, None), TWord w # TIdent a # r)
      | Some (x, r) \<Rightarrow> Some ((x, None), r))"

fun parse_projs :: "nat \<Rightarrow> token list \<Rightarrow> ((aexpr \<times> string option) list \<times> token list) option" where
  "parse_projs 0 ts = None"
| "parse_projs (Suc n) ts =
     (case parse_proj ts of
        None \<Rightarrow> None
      | Some (p, r) \<Rightarrow>
          (case eat [TSym CHR '',''] r of
             Some r' \<Rightarrow> map_option (\<lambda>(ps, r''). (p # ps, r'')) (parse_projs n r')
           | None \<Rightarrow> Some ([p], r)))"

text \<open>The condition list: the first connective decides how the whole list is joined.\<close>

definition parse_where :: "token list \<Rightarrow> (bool \<times> acond list) option" where
  "parse_where ts =
     (case parse_aconds (length ts) ''OR'' ts of
        Some (cs, []) \<Rightarrow> Some (length cs > 1, cs)
      | _ \<Rightarrow> (case parse_aconds (length ts) ''AND'' ts of
               Some (cs, []) \<Rightarrow> Some (False, cs)
             | _ \<Rightarrow> None))"

definition parse_query :: "token list \<Rightarrow> aquery option" where
  "parse_query ts =
     (case eat [TWord ''SELECT''] ts of
        None \<Rightarrow> None
      | Some r \<Rightarrow>
          (case parse_projs (length r) r of
             Some (ps, TWord w # TIdent t # r') \<Rightarrow>
               if w \<noteq> ''FROM'' then None
               else if r' = [] then Some \<lparr>q_projs = ps, q_table = t, q_or = False, q_conds = []\<rparr>
               else (case eat [TWord ''WHERE''] r' of
                  None \<Rightarrow> None
                | Some r'' \<Rightarrow>
                    map_option (\<lambda>(b, cs). \<lparr>q_projs = ps, q_table = t, q_or = b, q_conds = cs\<rparr>) (parse_where r''))
           | _ \<Rightarrow> None))"


section \<open>The parser reads what was written\<close>

text \<open>
  Words that could be taken for something else are kept apart: a compared word does not start like
  a bind marker, and the parentheses of a type are balanced.
\<close>

fun balanced :: "nat \<Rightarrow> token list \<Rightarrow> bool" where
  "balanced d [] = (d = 0)"
| "balanced d (t # ts) =
     (if t = TSym CHR '')'' then d > 0 \<and> balanced (d - 1) ts
      else balanced (if t = TSym CHR ''('' then Suc d else d) ts)"

fun wf_alit :: "alit \<Rightarrow> bool" where
  "wf_alit (AWord w) = (take 1 w \<noteq> ''$'')"
| "wf_alit _ = True"

fun wf_acond :: "acond \<Rightarrow> bool" where
  "wf_acond (AEqVar c v) = (take 1 v = ''$'')"
| "wf_acond (AEqLit c l) = wf_alit l"
| "wf_acond (AIn c ls) = (ls \<noteq> [])"
| "wf_acond _ = True"

fun wf_fallback :: "fallback \<Rightarrow> bool" where
  "wf_fallback (FStr s) = True"
| "wf_fallback (FNull ty) = balanced 0 ty"

fun wf_aexpr :: "aexpr \<Rightarrow> bool" where
  "wf_aexpr (ANull ty) = balanced 0 ty"
| "wf_aexpr (ACase cs c f) = (cs \<noteq> [] \<and> list_all wf_acond cs \<and> wf_fallback f)"
| "wf_aexpr _ = True"

definition wf_query :: "aquery \<Rightarrow> bool" where
  "wf_query q \<longleftrightarrow>
     q_projs q \<noteq> [] \<and> list_all (\<lambda>p. wf_aexpr (fst p)) (q_projs q)
     \<and> list_all wf_acond (q_conds q) \<and> (q_or q \<longrightarrow> length (q_conds q) > 1)"

lemma eat_append [simp]: "eat ks (ks @ r) = Some r"
  by (simp add: eat_def)

lemma eat_Cons [simp]: "eat (k # ks) (t # ts) = (if k = t then eat ks ts else None)"
  by (simp add: eat_def)

lemma eat_Nil [simp]: "eat [] ts = Some ts" "eat (k # ks) [] = None"
  by (simp_all add: eat_def)

lemma parse_alit_tokens [simp]: "parse_alit (alit_tokens l @ r) = Some (l, r)"
  by (cases l) simp_all

lemma parse_alits_tokens:
  "ls \<noteq> [] \<Longrightarrow> length ls \<le> n \<Longrightarrow>
     parse_alits n (tokens_join [TSym CHR '',''] (map alit_tokens ls) @ TSym CHR '')'' # r) = Some (ls, r)"
proof (induction ls arbitrary: n)
  case (Cons l ls)
  then obtain m where n: "n = Suc m" by (cases n) auto
  show ?case
  proof (cases ls)
    case Nil
    then show ?thesis by (simp add: n)
  next
    case (Cons l' ls')
    with Cons.IH [of m] Cons.prems n show ?thesis by simp
  qed
qed simp

lemma alit_tokens_nonempty: "alit_tokens l \<noteq> []"
  by (cases l) simp_all

lemma length_tokens_join:
  "\<forall>x\<in>set xs. f x \<noteq> [] \<Longrightarrow> length xs \<le> length (tokens_join sep (map f xs))"
proof (induction xs)
  case (Cons x xs)
  then have "1 \<le> length (f x)" "length xs \<le> length (tokens_join sep (map f xs))"
    by (simp_all add: Suc_le_eq)
  then show ?case by (cases xs) simp_all
qed simp

lemma parse_acond_tokens:
  "wf_acond c \<Longrightarrow> parse_acond (acond_tokens c @ r) = Some (c, r)"
proof (cases c)
  case (AContainsLit l)
  then show ?thesis by (cases l) (simp_all add: parse_acond_def close_paren_def)
next
  case (AEqLit c' l)
  moreover assume "wf_acond c"
  ultimately show ?thesis by (cases l) (simp_all add: parse_acond_def)
next
  case (AIn c' ls)
  moreover assume "wf_acond c"
  moreover have "length ls \<le> length (tokens_join [TSym CHR '',''] (map alit_tokens ls) @ TSym CHR '')'' # r)"
    using length_tokens_join [of ls alit_tokens] alit_tokens_nonempty by (simp add: le_SucI trans_le_add1)
  ultimately show ?thesis using parse_alits_tokens [of ls]
    by (simp add: parse_acond_def del: parse_alits.simps)
qed (simp_all add: parse_acond_def close_paren_def)

lemma acond_tokens_nonempty: "acond_tokens c \<noteq> []"
  by (cases c) simp_all

lemma parse_aconds_tokens:
  assumes "eat [TWord sep] r = None"
  shows "cs \<noteq> [] \<Longrightarrow> list_all wf_acond cs \<Longrightarrow> length cs \<le> n \<Longrightarrow>
    parse_aconds n sep (aconds_tokens sep cs @ r) = Some (cs, r)"
proof (induction cs arbitrary: n)
  case (Cons c cs)
  then obtain m where n: "n = Suc m" by (cases n) auto
  show ?case
  proof (cases cs)
    case Nil
    with Cons.prems assms show ?thesis by (simp add: n aconds_tokens_def parse_acond_tokens)
  next
    case (Cons c' cs')
    with Cons.IH [of m] Cons.prems n show ?thesis by (simp add: aconds_tokens_def parse_acond_tokens)
  qed
qed simp

lemma aconds_tokens_length: "length cs \<le> length (aconds_tokens sep cs)"
  unfolding aconds_tokens_def by (rule length_tokens_join) (simp add: acond_tokens_nonempty)

lemma take_type_balanced:
  "balanced d ty \<Longrightarrow> take_type d (ty @ TSym CHR '')'' # r) = Some (ty, r)"
  by (induction d ty rule: balanced.induct) (auto split: if_splits)

lemma parse_fallback_tokens:
  "wf_fallback f \<Longrightarrow> parse_fallback (fallback_tokens f @ r) = Some (f, r)"
  by (cases f) (simp_all add: parse_fallback_def take_type_balanced)

lemma parse_case_tokens:
  assumes "cs \<noteq> []" "list_all wf_acond cs" "wf_fallback f"
  shows "parse_case (aconds_tokens ''OR'' cs @ TWord ''THEN'' # TIdent c # TWord ''ELSE'' #
           fallback_tokens f @ TWord ''END'' # r) = Some (ACase cs c f, r)"
proof -
  let ?r = "TWord ''THEN'' # TIdent c # TWord ''ELSE'' # fallback_tokens f @ TWord ''END'' # r"
  have "parse_aconds (length (aconds_tokens ''OR'' cs @ ?r)) ''OR'' (aconds_tokens ''OR'' cs @ ?r)
      = Some (cs, ?r)"
    using assms aconds_tokens_length [of cs "''OR''"]
    by (intro parse_aconds_tokens) (simp_all add: trans_le_add1)
  with assms show ?thesis by (simp add: parse_case_def parse_fallback_tokens)
qed

lemma parse_aexpr_tokens:
  "wf_aexpr x \<Longrightarrow> parse_aexpr (aexpr_tokens x @ r) = Some (x, r)"
  by (cases x) (simp_all add: parse_aexpr_def take_type_balanced close_paren_def parse_case_tokens)

lemma parse_proj_tokens:
  assumes "wf_aexpr (fst p)" "r \<noteq> []" "hd r \<noteq> TWord ''AS''"
  shows "parse_proj (proj_tokens p @ r) = Some (p, r)"
proof -
  obtain x a where p: "p = (x, a)" by force
  obtain t ts where r: "r = t # ts" using assms(2) by (cases r) auto
  show ?thesis
  proof (cases a)
    case None
    with assms p r show ?thesis
      by (cases t; cases ts rule: list.exhaust) (auto simp: parse_proj_def parse_aexpr_tokens split: token.splits)
  next
    case (Some a')
    with assms p show ?thesis by (simp add: parse_proj_def parse_aexpr_tokens)
  qed
qed

lemma parse_projs_tokens:
  assumes "r \<noteq> []" "hd r \<notin> {TWord ''AS'', TSym CHR '',''}"
  shows "ps \<noteq> [] \<Longrightarrow> list_all (\<lambda>p. wf_aexpr (fst p)) ps \<Longrightarrow> length ps \<le> n \<Longrightarrow>
    parse_projs n (tokens_join [TSym CHR '',''] (map proj_tokens ps) @ r) = Some (ps, r)"
proof (induction ps arbitrary: n)
  case (Cons p ps)
  then obtain m where n: "n = Suc m" by (cases n) auto
  show ?case
  proof (cases ps)
    case Nil
    have "eat [TSym CHR '',''] r = None" using assms by (cases r) auto
    with Nil Cons.prems assms show ?thesis by (simp add: n parse_proj_tokens)
  next
    case (Cons p' ps')
    with Cons.IH [of m] Cons.prems n show ?thesis by (simp add: parse_proj_tokens)
  qed
qed simp

lemma proj_tokens_nonempty: "proj_tokens p \<noteq> []"
proof -
  obtain x a where "p = (x, a)" by force
  moreover have "aexpr_tokens x \<noteq> []" by (cases x) simp_all
  ultimately show ?thesis by (cases a) simp_all
qed

lemma parse_where_or:
  assumes "list_all wf_acond cs" "length cs > 1"
  shows "parse_where (aconds_tokens ''OR'' cs) = Some (True, cs)"
proof -
  have "parse_aconds (length (aconds_tokens ''OR'' cs)) ''OR'' (aconds_tokens ''OR'' cs @ []) = Some (cs, [])"
    using assms aconds_tokens_length by (intro parse_aconds_tokens) auto
  with assms(2) show ?thesis by (simp add: parse_where_def)
qed

lemma parse_where_and:
  assumes "list_all wf_acond cs" "cs \<noteq> []"
  shows "parse_where (aconds_tokens ''AND'' cs) = Some (False, cs)"
proof (cases "length cs = 1")
  case True
  then obtain c where c: "cs = [c]" by (cases cs) auto
  have "parse_aconds (length (acond_tokens c)) ''OR'' (aconds_tokens ''OR'' cs @ []) = Some (cs, [])"
    using assms aconds_tokens_length [of cs "''OR''"] by (intro parse_aconds_tokens) (auto simp: c aconds_tokens_def)
  then show ?thesis by (simp add: parse_where_def c aconds_tokens_def)
next
  case False
  with assms(2) obtain c d ds where c: "cs = c # d # ds" by (cases cs; cases "tl cs") auto
  obtain n where n: "length (aconds_tokens ''AND'' cs) = Suc n"
    using aconds_tokens_length [of cs "''AND''"] assms(2) by (cases "length (aconds_tokens ''AND'' cs)") auto
  have or: "parse_aconds (Suc n) ''OR'' (aconds_tokens ''AND'' cs)
      = Some ([c], TWord ''AND'' # aconds_tokens ''AND'' (d # ds))"
    using assms(1) by (simp add: c aconds_tokens_def parse_acond_tokens)
  have "parse_aconds (Suc n) ''AND'' (aconds_tokens ''AND'' cs @ []) = Some (cs, [])"
    using assms aconds_tokens_length [of cs "''AND''"] n by (intro parse_aconds_tokens) auto
  with or n show ?thesis by (simp add: parse_where_def del: parse_aconds.simps)
qed

lemma parse_query_tokens:
  assumes "wf_query q"
  shows "parse_query (query_tokens q) = Some q"
proof -
  let ?w = "if q_conds q = [] then []
        else [TWord ''WHERE''] @ aconds_tokens (if q_or q then ''OR'' else ''AND'') (q_conds q)"
  let ?r = "TWord ''FROM'' # TIdent (q_table q) # ?w"
  let ?ts = "tokens_join [TSym CHR '',''] (map proj_tokens (q_projs q)) @ ?r"
  have "length (q_projs q) \<le> length ?ts"
    using length_tokens_join [of "q_projs q" proj_tokens "[TSym CHR '','']"] proj_tokens_nonempty
    by (metis length_append trans_le_add1)
  then have "parse_projs (length ?ts) ?ts = Some (q_projs q, ?r)"
    using assms by (intro parse_projs_tokens) (simp_all add: wf_query_def)
  moreover have "q_conds q \<noteq> [] \<Longrightarrow>
      parse_where (aconds_tokens (if q_or q then ''OR'' else ''AND'') (q_conds q)) = Some (q_or q, q_conds q)"
    using assms parse_where_or parse_where_and by (simp add: wf_query_def)
  moreover have "query_tokens q = TWord ''SELECT'' # ?ts" by (simp add: query_tokens_def)
  moreover have "q_conds q = [] \<Longrightarrow> \<not> q_or q" using assms by (auto simp: wf_query_def)
  ultimately show ?thesis
    by (cases "q_conds q = []") (simp_all add: parse_query_def)
qed

section \<open>Semantics\<close>

text \<open>
  A row maps column names to values. A condition is true, false or unknown (\<open>None\<close>); a row is
  returned, and a \<open>CASE\<close> branch taken, only when its condition is true.
\<close>

datatype val = VNull | VBool bool | VInt int | VFloat string | VStr string | VOther string

record engine =
  e_eq :: "val \<Rightarrow> val \<Rightarrow> bool option"
  e_contains :: "string list \<Rightarrow> val \<Rightarrow> bool option"
  e_md5 :: "val \<Rightarrow> val"

record bindings =
  b_email :: val
  b_id :: val
  b_groups :: "string list"

fun kleene_or :: "bool option list \<Rightarrow> bool option" where
  "kleene_or [] = Some False"
| "kleene_or (x # xs) =
     (if x = Some True then Some True
      else if x = Some False then kleene_or xs
      else if kleene_or xs = Some True then Some True else None)"

fun kleene_and :: "bool option list \<Rightarrow> bool option" where
  "kleene_and [] = Some True"
| "kleene_and (x # xs) =
     (if x = Some False then Some False
      else if x = Some True then kleene_and xs
      else if kleene_and xs = Some False then Some False else None)"

lemma kleene_or_true: "kleene_or xs = Some True \<longleftrightarrow> Some True \<in> set xs"
  by (induction xs) auto

lemma kleene_and_true: "kleene_and xs = Some True \<longleftrightarrow> set xs \<subseteq> {Some True}"
  by (induction xs) auto

definition number_val :: "string \<Rightarrow> val" where
  "number_val w = (case int_body False 0 w of Some n \<Rightarrow> VInt (int n) | None \<Rightarrow> VFloat w)"

fun alit_val :: "alit \<Rightarrow> val" where
  "alit_val (AStr s) = VStr s"
| "alit_val (AWord w) =
     (if w = ''NULL'' then VNull else if w = ''TRUE'' then VBool True else if w = ''FALSE'' then VBool False
      else number_val w)"
| "alit_val (ANeg w) = (case number_val w of VInt i \<Rightarrow> VInt (- i) | _ \<Rightarrow> VFloat (CHR ''-'' # w))"

fun acond_val :: "engine \<Rightarrow> bindings \<Rightarrow> (string \<Rightarrow> val) \<Rightarrow> acond \<Rightarrow> bool option" where
  "acond_val e b row AFalse = Some False"
| "acond_val e b row (AContainsCol c) = e_contains e (b_groups b) (row c)"
| "acond_val e b row (AContainsLit l) = e_contains e (b_groups b) (alit_val l)"
| "acond_val e b row (AEqVar c v) =
     e_eq e (row c) (if v = ''$user_email'' then b_email b else if v = ''$user_id'' then b_id b else VNull)"
| "acond_val e b row (AEqLit c l) = e_eq e (row c) (alit_val l)"
| "acond_val e b row (AIn c ls) = kleene_or (map (\<lambda>l. e_eq e (row c) (alit_val l)) ls)"

fun fallback_val :: "fallback \<Rightarrow> val" where
  "fallback_val (FStr s) = VStr s"
| "fallback_val (FNull ty) = VNull"

fun aexpr_val :: "engine \<Rightarrow> bindings \<Rightarrow> (string \<Rightarrow> val) \<Rightarrow> aexpr \<Rightarrow> val" where
  "aexpr_val e b row (ACol c) = row c"
| "aexpr_val e b row (ANull ty) = VNull"
| "aexpr_val e b row (AMd5 c) = e_md5 e (row c)"
| "aexpr_val e b row (ACase cs c f) =
     (if kleene_or (map (acond_val e b row) cs) = Some True then row c else fallback_val f)"

fun proj_name :: "aexpr \<times> string option \<Rightarrow> string" where
  "proj_name (x, Some a) = a"
| "proj_name (ACol c, None) = c"
| "proj_name (x, None) = ''''"

definition run_query :: "aquery \<Rightarrow> engine \<Rightarrow> bindings \<Rightarrow> (string \<Rightarrow> val) \<Rightarrow> (string \<times> val) list option" where
  "run_query q e b row =
     (if q_conds q = []
         \<or> (if q_or q then kleene_or else kleene_and) (map (acond_val e b row) (q_conds q)) = Some True
      then Some (map (\<lambda>p. (proj_name p, aexpr_val e b row (fst p))) (q_projs q))
      else None)"

end
