(* ===== verification/PolicyCompile.thy ===== *)
theory PolicyCompile
  imports PolicyQuery
begin

text \<open>
  The access-policy builder, \<open>src/access_policy_compile.py\<close>: a structured specification of row rules
  and column masks becomes the text of one DuckDB query. The first part translates the generator,
  string for string. The second part shows that the text parses back, with the parser of
  \<open>PolicyQuery\<close>, to a query whose result is the abstract policy: the rows the rules admit, the
  columns in table order, each with its mask.
\<close>

section \<open>Specifications\<close>

text \<open>
  JSON scalars. A float is its \<open>str\<close> text with the flag of being non-zero, and a nested list or
  dict is its \<open>str\<close> text.
\<close>

datatype lit = LNone | LBool bool | LInt int | LFloat string bool | LStr string | LObj string

fun lit_truthy :: "lit \<Rightarrow> bool" where
  "lit_truthy LNone = False"
| "lit_truthy (LBool b) = b"
| "lit_truthy (LInt i) = (i \<noteq> 0)"
| "lit_truthy (LFloat t nz) = nz"
| "lit_truthy (LStr s) = (s \<noteq> [])"
| "lit_truthy (LObj t) = (t \<notin> {''[]'', ''{}''})"

text \<open>The value of a rule: a scalar, or a sequence with the text \<open>str\<close> gives for it.\<close>

datatype rule_value = RLit lit | RSeq "lit list" string

record row_rule =
  rr_column :: "string option"
  rr_op :: "string option"
  rr_value :: rule_value

text \<open>A mask is its choice, or a dict with a choice and the groups that see the plain value.\<close>

datatype group_field = GSeq "lit list" | GOne lit

datatype mask = MChoice string | MDict "string option" "group_field option" "lit option"

datatype column_desc = CName string | CDict "string option" "string option" | CPair string string | COther

record policy_spec =
  ps_table :: "string option"
  ps_row_rules :: "row_rule list"
  ps_row_combine :: "string option"
  ps_column_masks :: "(string \<times> mask) list"

record compiled_policy =
  cp_sql :: string
  cp_excluded :: "string list"
  cp_derived :: "string list"
  cp_warnings :: "string list"

datatype compile_error =
  UnknownMask string | UnknownRowOp "string option" | NoColumns | BadDescriptor | MissingKey string | NotIterable

section \<open>The generator\<close>

definition ID_TOKENS :: "string \<rightharpoonup> string" where
  "ID_TOKENS = [''eq_caller_email'' \<mapsto> ''$user_email'', ''eq_caller_id'' \<mapsto> ''$user_id'']"

definition TEXT_TYPE_KEYWORDS :: "string list" where
  "TEXT_TYPE_KEYWORDS = [''VARCHAR'', ''TEXT'', ''STRING'']"

fun mask_choice :: "mask \<Rightarrow> string" where
  "mask_choice (MDict c gs g) = (case c of None \<Rightarrow> [] | Some s \<Rightarrow> s)"
| "mask_choice (MChoice s) = s"

fun sql_literal :: "lit \<Rightarrow> string" where
  "sql_literal LNone = ''NULL''"
| "sql_literal (LBool b) = (if b then ''TRUE'' else ''FALSE'')"
| "sql_literal (LInt i) = py_str_int i"
| "sql_literal (LFloat t nz) = t"
| "sql_literal (LStr s) = quote_literal s"
| "sql_literal (LObj t) = quote_literal t"

fun normalize_column :: "column_desc \<Rightarrow> compile_error + (string \<times> string)" where
  "normalize_column (CName c) = Inr (c, ''VARCHAR'')"
| "normalize_column (CDict n t) =
     (case n of None \<Rightarrow> Inl (MissingKey ''name'')
      | Some n' \<Rightarrow> Inr (n', case t of None \<Rightarrow> ''VARCHAR'' | Some t' \<Rightarrow> t'))"
| "normalize_column (CPair n t) = Inr (n, t)"
| "normalize_column COther = Inl BadDescriptor"

fun normalize_columns :: "column_desc list \<Rightarrow> compile_error + (string \<times> string) list" where
  "normalize_columns [] = Inr []"
| "normalize_columns (c # cs) =
     rbind (normalize_column c) (\<lambda>p. rbind (normalize_columns cs) (\<lambda>ps. Inr (p # ps)))"

definition is_text_type :: "string \<Rightarrow> bool" where
  "is_text_type col_type =
     (if col_type = [] then False
      else let up = upper (py_strip col_type) in
        if CHR ''['' \<in> set up \<or> CHR ''<'' \<in> set up
           \<or> prefix ''STRUCT'' up \<or> prefix ''MAP'' up \<or> prefix ''LIST'' up \<or> prefix ''ARRAY'' up
        then False
        else py_strip (takeWhile (\<lambda>c. c \<noteq> CHR ''('') up) \<in> set TEXT_TYPE_KEYWORDS)"

definition group_test :: "lit \<Rightarrow> string" where
  "group_test g = ''list_contains($user_groups, '' @ sql_literal g @ '')''"

definition unmask_condition :: "lit list \<Rightarrow> string" where
  "unmask_condition gs =
     (if gs = [] then ''FALSE''
      else let tests = map group_test gs in
        if length tests > 1 then py_join '' OR '' tests else hd tests)"

fun unmask_groups :: "mask \<Rightarrow> lit list" where
  "unmask_groups (MDict c gs g) =
     (case gs of
        Some (GSeq ls) \<Rightarrow> filter lit_truthy ls
      | Some (GOne l) \<Rightarrow> filter lit_truthy [l]
      | None \<Rightarrow> (case g of Some l \<Rightarrow> if lit_truthy l then [l] else [] | None \<Rightarrow> []))"
| "unmask_groups (MChoice s) = []"

definition masked_fallback :: "string \<Rightarrow> string" where
  "masked_fallback col_type =
     (if is_text_type col_type then sql_literal (LStr ''*****'')
      else ''CAST(NULL AS '' @ col_type @ '')'')"

text \<open>\<open>rule.get('value') or []\<close>, iterated.\<close>

fun in_values :: "rule_value \<Rightarrow> compile_error + lit list" where
  "in_values (RSeq ls t) = Inr ls"
| "in_values (RLit (LStr s)) = Inr (map (\<lambda>c. LStr [c]) s)"
| "in_values (RLit l) = (if lit_truthy l then Inl NotIterable else Inr [])"

fun value_literal :: "rule_value \<Rightarrow> string" where
  "value_literal (RLit l) = sql_literal l"
| "value_literal (RSeq ls t) = quote_literal t"

definition predicate_sql :: "string \<Rightarrow> row_rule \<Rightarrow> compile_error + string" where
  "predicate_sql column rule =
     (let col = quote_ident column in
      if rr_op rule = Some ''in_caller_groups'' then Inr (''list_contains($user_groups, '' @ col @ '')'')
      else case Option.bind (rr_op rule) ID_TOKENS of
        Some tok \<Rightarrow> Inr (col @ '' = '' @ tok)
      | None \<Rightarrow>
          if rr_op rule = Some ''eq'' then Inr (col @ '' = '' @ value_literal (rr_value rule))
          else if rr_op rule = Some ''in'' then
            rbind (in_values (rr_value rule)) (\<lambda>vals.
              Inr (col @ '' IN ('' @ py_join '', '' (map sql_literal vals) @ '')''))
          else Inl (UnknownRowOp (rr_op rule)))"

fun predicates :: "row_rule list \<Rightarrow> compile_error + string list" where
  "predicates [] = Inr []"
| "predicates (r # rs) =
     (case rr_column r of
        None \<Rightarrow> Inl (MissingKey ''column'')
      | Some c \<Rightarrow> rbind (predicate_sql c r) (\<lambda>p. rbind (predicates rs) (\<lambda>ps. Inr (p # ps))))"

text \<open>The loop over \<open>column_masks\<close>, with the lists it grows and the dict of expressions.\<close>

record mask_acc =
  ma_warnings :: "string list"
  ma_excluded :: "string list"
  ma_derived :: "string list"
  ma_exprs :: "string \<rightharpoonup> string"

definition col_type_of :: "(string \<times> string) list \<Rightarrow> string \<Rightarrow> string" where
  "col_type_of cols col =
     (case map_of (rev cols) col of
        None \<Rightarrow> ''VARCHAR'' | Some t \<Rightarrow> if t = [] then ''VARCHAR'' else t)"

definition mask_expr :: "mask \<Rightarrow> string \<Rightarrow> string \<Rightarrow> compile_error + string" where
  "mask_expr raw col col_type =
     (let choice = mask_choice raw; q = quote_ident col in
      if choice = ''nullify'' then Inr (''CAST(NULL AS '' @ col_type @ '') AS '' @ q)
      else if choice = ''hash'' then Inr (''md5('' @ q @ '') AS '' @ q)
      else if choice = ''unmask'' then
        Inr (''CASE WHEN '' @ unmask_condition (unmask_groups raw) @ '' THEN '' @ q @ '' ELSE ''
             @ masked_fallback col_type @ '' END AS '' @ q)
      else Inl (UnknownMask choice))"

fun mask_loop :: "(string \<times> string) list \<Rightarrow> (string \<times> mask) list \<Rightarrow> mask_acc \<Rightarrow> compile_error + mask_acc" where
  "mask_loop cols [] acc = Inr acc"
| "mask_loop cols ((col, raw) # ms) acc =
     (if col \<notin> fst ` set cols then
        mask_loop cols ms (acc\<lparr>ma_warnings := ma_warnings acc @ [''unknown column ignored: '' @ col]\<rparr>)
      else if mask_choice raw = ''show'' then mask_loop cols ms acc
      else
        let acc' = acc\<lparr>ma_excluded := ma_excluded acc @ [col]\<rparr> in
        if mask_choice raw = ''hide'' then mask_loop cols ms acc'
        else rbind (mask_expr raw col (col_type_of cols col)) (\<lambda>expr.
          mask_loop cols ms
            (acc'\<lparr>ma_derived := ma_derived acc @ [col], ma_exprs := (ma_exprs acc)(col \<mapsto> expr)\<rparr>)))"

definition init_acc :: mask_acc where
  "init_acc = \<lparr>ma_warnings = [], ma_excluded = [], ma_derived = [], ma_exprs = Map.empty\<rparr>"

fun projections :: "(string \<times> string) list \<Rightarrow> mask_acc \<Rightarrow> string list" where
  "projections [] acc = []"
| "projections ((name, t) # cols) acc =
     (case ma_exprs acc name of
        Some expr \<Rightarrow> [expr]
      | None \<Rightarrow> if name \<notin> set (ma_excluded acc) then [quote_ident name] else [])
     @ projections cols acc"

definition known_rule :: "(string \<times> string) list \<Rightarrow> row_rule \<Rightarrow> bool" where
  "known_rule cols r = (case rr_column r of None \<Rightarrow> False | Some c \<Rightarrow> c \<in> fst ` set cols)"

definition column_text :: "row_rule \<Rightarrow> string" where
  "column_text r = (case rr_column r of None \<Rightarrow> ''None'' | Some c \<Rightarrow> c)"

definition full_table_warning :: string where
  "full_table_warning =
     ''This policy returns the full table to every caller -- nothing is filtered or masked.''"

definition compile_policy :: "policy_spec \<Rightarrow> column_desc list \<Rightarrow> compile_error + compiled_policy" where
  "compile_policy spec columns =
     rbind (normalize_columns columns) (\<lambda>cols.
     rbind (mask_loop cols (ps_column_masks spec) init_acc) (\<lambda>acc.
     let projs = projections cols acc in
     if projs = [] then Inl NoColumns
     else
       let rules = filter (known_rule cols) (ps_row_rules spec);
           dropped = filter (\<lambda>r. \<not> known_rule cols r) (ps_row_rules spec);
           warnings = ma_warnings acc @ map (\<lambda>r. ''unknown column ignored: '' @ column_text r) dropped;
           joiner = (if ps_row_combine spec = Some ''or'' then '' OR '' else '' AND '') in
       rbind (predicates rules) (\<lambda>preds.
       let where_sql = (if rules = [] then [] else '' WHERE '' @ py_join joiner preds) in
       case ps_table spec of
         None \<Rightarrow> Inl (MissingKey ''table'')
       | Some table \<Rightarrow>
           Inr \<lparr>cp_sql = ''SELECT '' @ py_join '', '' projs @ '' FROM '' @ quote_ident table @ where_sql,
                cp_excluded = ma_excluded acc,
                cp_derived = ma_derived acc,
                cp_warnings = warnings @
                  (if rules = [] \<and> ma_excluded acc = [] \<and> ma_derived acc = [] then [full_table_warning] else [])\<rparr>)))"

section \<open>The policy a specification means\<close>

fun lit_val :: "lit \<Rightarrow> val" where
  "lit_val LNone = VNull"
| "lit_val (LBool b) = VBool b"
| "lit_val (LInt i) = VInt i"
| "lit_val (LFloat t nz) = VFloat t"
| "lit_val (LStr s) = VStr s"
| "lit_val (LObj t) = VStr t"

definition rule_holds :: "engine \<Rightarrow> bindings \<Rightarrow> (string \<Rightarrow> val) \<Rightarrow> string \<Rightarrow> row_rule \<Rightarrow> bool option" where
  "rule_holds e b row c r =
     (let v = row c in
      if rr_op r = Some ''in_caller_groups'' then e_contains e (b_groups b) v
      else if rr_op r = Some ''eq_caller_email'' then e_eq e v (b_email b)
      else if rr_op r = Some ''eq_caller_id'' then e_eq e v (b_id b)
      else if rr_op r = Some ''eq'' then
        e_eq e v (case rr_value r of RLit l \<Rightarrow> lit_val l | RSeq ls t \<Rightarrow> VStr t)
      else (case in_values (rr_value r) of
          Inr ls \<Rightarrow> kleene_or (map (\<lambda>l. e_eq e v (lit_val l)) ls) | Inl x \<Rightarrow> Some False))"

definition admits :: "policy_spec \<Rightarrow> (string \<times> string) list \<Rightarrow> engine \<Rightarrow> bindings \<Rightarrow> (string \<Rightarrow> val) \<Rightarrow> bool" where
  "admits spec cols e b row =
     (let rules = filter (known_rule cols) (ps_row_rules spec);
          holds = (\<lambda>r. rule_holds e b row (column_text r) r = Some True) in
      if ps_row_combine spec = Some ''or'' \<and> rules \<noteq> [] then list_ex holds rules else list_all holds rules)"

definition unmask_allowed :: "engine \<Rightarrow> bindings \<Rightarrow> mask \<Rightarrow> bool" where
  "unmask_allowed e b m = list_ex (\<lambda>g. e_contains e (b_groups b) (lit_val g) = Some True) (unmask_groups m)"

definition masked_val :: "engine \<Rightarrow> bindings \<Rightarrow> mask \<Rightarrow> string \<Rightarrow> val \<Rightarrow> val" where
  "masked_val e b m col_type v =
     (if mask_choice m = ''nullify'' then VNull
      else if mask_choice m = ''hash'' then e_md5 e v
      else if unmask_allowed e b m then v
      else if is_text_type col_type then VStr ''*****'' else VNull)"

definition shown_column ::
  "policy_spec \<Rightarrow> (string \<times> string) list \<Rightarrow> engine \<Rightarrow> bindings \<Rightarrow> (string \<Rightarrow> val) \<Rightarrow> string \<Rightarrow> (string \<times> val) list" where
  "shown_column spec cols e b row name =
     (case map_of (ps_column_masks spec) name of
        None \<Rightarrow> [(name, row name)]
      | Some m \<Rightarrow>
          if mask_choice m = ''show'' then [(name, row name)]
          else if mask_choice m = ''hide'' then []
          else [(name, masked_val e b m (col_type_of cols name) (row name))])"

definition policy_view ::
  "policy_spec \<Rightarrow> (string \<times> string) list \<Rightarrow> engine \<Rightarrow> bindings \<Rightarrow> (string \<Rightarrow> val) \<Rightarrow> (string \<times> val) list option" where
  "policy_view spec cols e b row =
     (if admits spec cols e b row then Some (concat (map (\<lambda>c. shown_column spec cols e b row (fst c)) cols)) else None)"

text \<open>
  What the reading back of the text relies on. Columns and masks have one entry per name, as a
  DESCRIBE and a dict have. The text of a type, which the generator copies from the DESCRIBE, is a
  token sequence with balanced parentheses. A float prints as one word with at most a sign in front;
  and an \<open>in\<close> rule has a value, since \<open>IN ()\<close> is not SQL.
\<close>

fun wf_lit :: "lit \<Rightarrow> bool" where
  "wf_lit (LFloat t nz) =
     (let w = (if take 1 t = ''-'' then tl t else t) in
        w \<noteq> [] \<and> list_all word_char w \<and> take 1 w \<noteq> ''$'' \<and> int_body False 0 w = None
        \<and> w \<noteq> ''NULL'' \<and> w \<noteq> ''TRUE'' \<and> w \<noteq> ''FALSE'')"
| "wf_lit _ = True"

definition wf_rule :: "row_rule \<Rightarrow> bool" where
  "wf_rule r =
     ((case rr_value r of RLit l \<Rightarrow> wf_lit l | RSeq ls t \<Rightarrow> list_all wf_lit ls)
      \<and> (rr_op r = Some ''in'' \<longrightarrow> in_values (rr_value r) \<noteq> Inr []))"

definition type_text_ok :: "string \<Rightarrow> bool" where
  "type_text_ok t = (case sql_tokens t of None \<Rightarrow> False | Some ts \<Rightarrow> balanced 0 ts)"

definition wf_spec :: "policy_spec \<Rightarrow> (string \<times> string) list \<Rightarrow> bool" where
  "wf_spec spec cols =
     (distinct (map fst cols) \<and> distinct (map fst (ps_column_masks spec))
      \<and> list_all (\<lambda>(n, t). type_text_ok (col_type_of cols n)) cols
      \<and> list_all (\<lambda>(n, m). list_all wf_lit (unmask_groups m)) (ps_column_masks spec)
      \<and> list_all wf_rule (ps_row_rules spec))"

text \<open>
  The type a projection has, as the tokens of its type: a cast has the type it names, \<open>md5\<close> gives
  text, and a \<open>CASE\<close> has a type when its two branches agree. A string agrees with the text types of DuckDB only, which are read
  off the tokens of the type: one of their names, alone or with a modifier in parentheses, and no brackets of an array.
\<close>

fun text_type :: "token list \<Rightarrow> bool" where
  "text_type (TWord w # ts) \<longleftrightarrow>
     upper w \<in> {''VARCHAR'', ''CHAR'', ''BPCHAR'', ''TEXT'', ''STRING''}
     \<and> (ts = [] \<or> hd ts = TSym CHR ''('') \<and> TSym CHR ''['' \<notin> set ts"
| "text_type ts \<longleftrightarrow> False"

fun expr_type :: "(string \<Rightarrow> string) \<Rightarrow> aexpr \<Rightarrow> token list option" where
  "expr_type \<Gamma> (ACol c) = sql_tokens (\<Gamma> c)"
| "expr_type \<Gamma> (ANull ty) = Some ty"
| "expr_type \<Gamma> (AMd5 c) = Some [TWord ''VARCHAR'']"
| "expr_type \<Gamma> (ACase cs c (FNull ty)) = (if sql_tokens (\<Gamma> c) = Some ty then Some ty else None)"
| "expr_type \<Gamma> (ACase cs c (FStr s)) =
     (case sql_tokens (\<Gamma> c) of None \<Rightarrow> None | Some ty \<Rightarrow> if text_type ty then Some ty else None)"

definition mask_type :: "mask \<Rightarrow> string \<Rightarrow> token list option" where
  "mask_type m ty = (if mask_choice m = ''hash'' then Some [TWord ''VARCHAR''] else sql_tokens ty)"

definition typed_column ::
  "policy_spec \<Rightarrow> (string \<times> string) list \<Rightarrow> string \<Rightarrow> (string \<times> token list option) list" where
  "typed_column spec cols name =
     (case map_of (ps_column_masks spec) name of
        None \<Rightarrow> [(name, sql_tokens (col_type_of cols name))]
      | Some m \<Rightarrow> if mask_choice m = ''hide'' then [] else [(name, mask_type m (col_type_of cols name))])"

section \<open>The text reads back as its literals, conditions and projections\<close>

fun lit_ast :: "lit \<Rightarrow> alit" where
  "lit_ast LNone = AWord ''NULL''"
| "lit_ast (LBool b) = AWord (if b then ''TRUE'' else ''FALSE'')"
| "lit_ast (LInt i) = (if i < 0 then ANeg (nat_digits (nat (- i))) else AWord (nat_digits (nat i)))"
| "lit_ast (LFloat t nz) = (if take 1 t = ''-'' then ANeg (tl t) else AWord t)"
| "lit_ast (LStr s) = AStr s"
| "lit_ast (LObj t) = AStr t"

lemma tokens_minus: "w \<noteq> [] \<Longrightarrow> list_all word_char w \<Longrightarrow> sql_tokens (CHR ''-'' # w) = Some [TSym CHR ''-'', TWord w]"
proof -
  assume w: "w \<noteq> []" "list_all word_char w"
  then have "\<not> opens_comment CHR ''-'' w"
    by (cases w) (auto simp: opens_comment_def word_char_def)
  then show ?thesis using tokens_word [OF w] by (simp add: sql_tokens.simps is_space_def word_char_def)
qed

lemma sql_tokens_literal:
  assumes "wf_lit l"
  shows "sql_tokens (sql_literal l) = Some (alit_tokens (lit_ast l))"
proof (cases l)
  case LNone
  have "sql_tokens ''NULL'' = Some [TWord ''NULL'']" by code_simp
  with LNone show ?thesis by simp
next
  case (LBool b)
  have "sql_tokens ''TRUE'' = Some [TWord ''TRUE'']" "sql_tokens ''FALSE'' = Some [TWord ''FALSE'']"
    by code_simp+
  with LBool show ?thesis by simp
next
  case (LInt i)
  then show ?thesis by (simp add: py_str_int_def tokens_minus tokens_word digits_are_word)
next
  case (LFloat t nz)
  show ?thesis
  proof (cases "take 1 t = ''-''")
    case True
    then have "t = CHR ''-'' # tl t" by (cases t) auto
    with True LFloat assms show ?thesis using tokens_minus [of "tl t"] by (simp add: Let_def)
  next
    case False
    with LFloat assms show ?thesis by (simp add: Let_def tokens_word)
  qed
qed simp_all

lemma nat_digits_not_word [simp]:
  "nat_digits n \<noteq> ''NULL''" "nat_digits n \<noteq> ''TRUE''" "nat_digits n \<noteq> ''FALSE''" "take 1 (nat_digits n) \<noteq> ''$''"
  using nat_digits_are_digits [of n] nat_digits_nonempty [of n]
  by (auto simp: is_digit_def take_Suc list_all_iff) (cases "nat_digits n"; auto)

lemma alit_val_lit_ast:
  assumes "wf_lit l"
  shows "alit_val (lit_ast l) = lit_val l" "wf_alit (lit_ast l)"
proof -
  have "alit_val (lit_ast l) = lit_val l \<and> wf_alit (lit_ast l)"
  proof (cases l)
    case (LFloat t nz)
    show ?thesis
    proof (cases "take 1 t = ''-''")
      case True
      then have "t = CHR ''-'' # tl t" by (cases t) auto
      with True LFloat assms show ?thesis by (simp add: Let_def number_val_def)
    next
      case False
      with LFloat assms show ?thesis by (simp add: Let_def number_val_def)
    qed
  qed (simp_all add: number_val_def int_body_nat_digits nat_digits_not_word(4) [simplified])
  then show "alit_val (lit_ast l) = lit_val l" "wf_alit (lit_ast l)" by simp_all
qed

text \<open>The fixed texts of the generator and their tokens.\<close>

lemma fixed_tokens:
  "sql_tokens ''list_contains($user_groups, '' = Some contains_open"
  "sql_tokens ''CAST(NULL AS '' = Some cast_open"
  "sql_tokens '')'' = Some [TSym CHR '')'']"
  "sql_tokens '', '' = Some [TSym CHR '','']"
  "sql_tokens '' = '' = Some [TSym CHR ''='']"
  "sql_tokens '' IN ('' = Some [TWord ''IN'', TSym CHR ''('']"
  "sql_tokens '' OR '' = Some [TWord ''OR'']"
  "sql_tokens '' AND '' = Some [TWord ''AND'']"
  "sql_tokens '') AS '' = Some [TSym CHR '')'', TWord ''AS'']"
  "sql_tokens ''md5('' = Some [TWord ''md5'', TSym CHR ''('']"
  "sql_tokens ''CASE WHEN '' = Some [TWord ''CASE'', TWord ''WHEN'']"
  "sql_tokens '' THEN '' = Some [TWord ''THEN'']"
  "sql_tokens '' ELSE '' = Some [TWord ''ELSE'']"
  "sql_tokens '' END AS '' = Some [TWord ''END'', TWord ''AS'']"
  "sql_tokens ''SELECT '' = Some [TWord ''SELECT'']"
  "sql_tokens '' FROM '' = Some [TWord ''FROM'']"
  "sql_tokens '' WHERE '' = Some [TWord ''WHERE'']"
  "sql_tokens ''FALSE'' = Some [TWord ''FALSE'']"
  "sql_tokens ''$user_email'' = Some [TWord ''$user_email'']"
  "sql_tokens ''$user_id'' = Some [TWord ''$user_id'']"
  by code_simp+

lemma seps [simp]:
  "is_sep CHR '' ''" "is_sep CHR ''(''" "is_sep CHR '')''" "is_sep CHR '',''"
  by code_simp+

text \<open>\<open>prefix @ middle @ suffix\<close> with fixed ends.\<close>

lemma tokens_between:
  assumes "sql_tokens f = Some tf" "f \<noteq> []" "is_sep (last f)" "sql_tokens a = Some ta"
    "g \<noteq> []" "is_sep (hd g)" "sql_tokens (g @ b) = Some tb"
  shows "sql_tokens (f @ a @ g @ b) = Some (tf @ ta @ tb)"
  by (rule tokens_fixed_then [OF assms(1,2,3)]) (rule tokens_then_fixed [OF assms(4,5,6,7)])

lemma sql_tokens_literals:
  assumes "list_all wf_lit ls"
  shows "sql_tokens (py_join '', '' (map sql_literal ls))
    = Some (tokens_join [TSym CHR '',''] (map alit_tokens (map lit_ast ls)))"
proof (rule sql_tokens_py_join)
  show "list_all2 (\<lambda>x t. sql_tokens x = Some t) (map sql_literal ls) (map alit_tokens (map lit_ast ls))"
    using assms by (induction ls) (simp_all add: sql_tokens_literal)
qed (simp_all add: fixed_tokens)

lemma value_literal_reads:
  assumes "case v of RLit l \<Rightarrow> wf_lit l | RSeq ls t \<Rightarrow> list_all wf_lit ls"
  shows "\<exists>a. sql_tokens (value_literal v) = Some (alit_tokens a) \<and> wf_alit a
    \<and> alit_val a = (case v of RLit l \<Rightarrow> lit_val l | RSeq ls t \<Rightarrow> VStr t)"
proof (cases v)
  case (RLit l)
  with assms show ?thesis
    by (intro exI [of _ "lit_ast l"]) (simp add: sql_tokens_literal alit_val_lit_ast)
next
  case (RSeq ls t)
  then show ?thesis by (intro exI [of _ "AStr t"]) simp
qed

lemma wf_rule_in_values: "wf_rule r \<Longrightarrow> in_values (rr_value r) = Inr ls \<Longrightarrow> list_all wf_lit ls"
  by (cases "rr_value r" rule: in_values.cases)
    (auto simp: wf_rule_def list_all_iff split: if_splits)

lemma predicate_reads:
  assumes "predicate_sql c r = Inr p" "wf_rule r"
  shows "\<exists>a. sql_tokens p = Some (acond_tokens a) \<and> wf_acond a
    \<and> (\<forall>e b row. acond_val e b row a = rule_holds e b row c r)"
proof -
  have id: "sql_tokens (quote_ident c @ '' = '' @ x) = Some ([TIdent c, TSym CHR ''=''] @ tx)"
    if "sql_tokens x = Some tx" for x tx
  proof -
    have "sql_tokens ('' = '' @ x) = Some ([TSym CHR ''=''] @ tx)"
      using that by (intro tokens_fixed_then fixed_tokens) simp_all
    then show ?thesis using tokens_then_fixed [OF sql_tokens_quote_ident, of "'' = ''" x _ c] by simp
  qed
  consider (gr) "rr_op r = Some ''in_caller_groups''" | (em) "rr_op r = Some ''eq_caller_email''"
    | (i) "rr_op r = Some ''eq_caller_id''" | (eq) "rr_op r = Some ''eq''" | (inn) "rr_op r = Some ''in''"
    using assms(1) by (cases "rr_op r") (auto simp: predicate_sql_def ID_TOKENS_def Let_def split: if_splits)
  then show ?thesis
  proof cases
    case gr
    have "sql_tokens (''list_contains($user_groups, '' @ quote_ident c @ '')'' @ [])
        = Some (contains_open @ [TIdent c] @ [TSym CHR '')''])"
      by (rule tokens_between) (simp_all add: fixed_tokens)
    with gr assms show ?thesis
      by (intro exI [of _ "AContainsCol c"]) (simp add: predicate_sql_def rule_holds_def)
  next
    case em
    with assms id [OF fixed_tokens(19)] show ?thesis
      by (intro exI [of _ "AEqVar c ''$user_email''"]) (simp add: predicate_sql_def rule_holds_def ID_TOKENS_def)
  next
    case i
    with assms id [OF fixed_tokens(20)] show ?thesis
      by (intro exI [of _ "AEqVar c ''$user_id''"]) (simp add: predicate_sql_def rule_holds_def ID_TOKENS_def)
  next
    case eq
    from assms(2) obtain a where a: "sql_tokens (value_literal (rr_value r)) = Some (alit_tokens a)"
      "wf_alit a" "alit_val a = (case rr_value r of RLit l \<Rightarrow> lit_val l | RSeq ls t \<Rightarrow> VStr t)"
      using value_literal_reads [of "rr_value r"] by (auto simp: wf_rule_def)
    with eq assms id [OF a(1)] show ?thesis
      by (intro exI [of _ "AEqLit c a"]) (simp add: predicate_sql_def rule_holds_def ID_TOKENS_def)
  next
    case inn
    from inn assms(1) obtain ls where ls: "in_values (rr_value r) = Inr ls"
      "p = quote_ident c @ '' IN ('' @ py_join '', '' (map sql_literal ls) @ '')''"
      by (auto simp: predicate_sql_def ID_TOKENS_def rbind_eq_Inr)
    note wf = wf_rule_in_values [OF assms(2) ls(1)]
    have ne: "ls \<noteq> []" using inn assms(2) ls(1) by (simp add: wf_rule_def)
    have "sql_tokens ('' IN ('' @ py_join '', '' (map sql_literal ls) @ '')'' @ [])
        = Some ([TWord ''IN'', TSym CHR ''(''] @ tokens_join [TSym CHR '',''] (map alit_tokens (map lit_ast ls)) @ [TSym CHR '')''])"
      by (rule tokens_between [OF _ _ _ sql_tokens_literals [OF wf]]) (simp_all add: fixed_tokens)
    then have "sql_tokens p = Some (acond_tokens (AIn c (map lit_ast ls)))"
      using tokens_then_fixed [OF sql_tokens_quote_ident, of "'' IN (''" "py_join '', '' (map sql_literal ls) @ '')''" _ c]
      by (simp add: ls(2))
    moreover have "acond_val e b row (AIn c (map lit_ast ls)) = rule_holds e b row c r" for e b row
      using inn ls(1) wf
      by (auto simp: rule_holds_def list_all_iff alit_val_lit_ast intro!: arg_cong [where f = kleene_or])
    ultimately show ?thesis using ne by (intro exI [of _ "AIn c (map lit_ast ls)"]) simp
  qed
qed

subsection \<open>Masks\<close>

lemma group_test_reads:
  "wf_lit g \<Longrightarrow> sql_tokens (group_test g) = Some (acond_tokens (AContainsLit (lit_ast g)))"
  using tokens_between [OF fixed_tokens(1) _ _ sql_tokens_literal, of g "'')''" "[]"]
  by (simp add: group_test_def fixed_tokens)

lemma unmask_condition_join:
  "gs \<noteq> [] \<Longrightarrow> unmask_condition gs = py_join '' OR '' (map group_test gs)"
  by (cases gs; cases "tl gs") (auto simp: unmask_condition_def)

definition unmask_conds :: "lit list \<Rightarrow> acond list" where
  "unmask_conds gs = (if gs = [] then [AFalse] else map (AContainsLit \<circ> lit_ast) gs)"

lemma unmask_condition_reads:
  assumes "list_all wf_lit gs"
  shows "sql_tokens (unmask_condition gs) = Some (aconds_tokens ''OR'' (unmask_conds gs))"
proof (cases "gs = []")
  case True
  then show ?thesis by (simp add: unmask_condition_def unmask_conds_def aconds_tokens_def fixed_tokens)
next
  case False
  have "list_all2 (\<lambda>x t. sql_tokens x = Some t) (map group_test gs) (map acond_tokens (unmask_conds gs))"
    using assms False by (simp add: unmask_conds_def list_all_iff list_all2_conv_all_nth group_test_reads
        del: acond_tokens.simps)
  then have "sql_tokens (py_join '' OR '' (map group_test gs)) = Some (tokens_join [TWord ''OR''] (map acond_tokens (unmask_conds gs)))"
    by (intro sql_tokens_py_join) (simp_all add: fixed_tokens)
  with False show ?thesis by (simp add: unmask_condition_join aconds_tokens_def)
qed

lemma unmask_conds_val:
  assumes "list_all wf_lit (unmask_groups m)"
  shows "kleene_or (map (acond_val e b row) (unmask_conds (unmask_groups m))) = Some True \<longleftrightarrow> unmask_allowed e b m"
  using assms by (cases "unmask_groups m = []")
    (auto simp: unmask_conds_def unmask_allowed_def kleene_or_true list_all_iff list_ex_iff
      alit_val_lit_ast image_iff, metis)

lemma cast_null_reads:
  "sql_tokens ty = Some tt \<Longrightarrow> sql_tokens (''CAST(NULL AS '' @ ty @ '')'') = Some (cast_open @ tt @ [TSym CHR '')''])"
  using tokens_between [OF fixed_tokens(2) _ _ _ _ _, of ty tt "'')''" "[]"] by (simp add: fixed_tokens)

text \<open>What the generator takes for text is a text type.\<close>

lemma sql_tokens_spaces: "list_all is_space sp \<Longrightarrow> sql_tokens (sp @ s) = sql_tokens s"
  by (induction sp) (simp_all add: sql_tokens.simps)

lemma sql_tokens_sym: "sql_tokens s = Some ts \<Longrightarrow> TSym c \<in> set ts \<Longrightarrow> c \<in> set s"
proof (induction s arbitrary: ts rule: sql_tokens.induct)
  case 1
  then show ?case by (simp add: sql_tokens.simps)
next
  case (2 d cs)
  consider (sp) "is_space d" | (d) "\<not> is_space d" "d = dq" | (s) "\<not> is_space d" "d = sq"
    | (w) "\<not> is_space d" "d \<noteq> dq" "d \<noteq> sq" "word_char d"
    | (y) "\<not> is_space d" "d \<noteq> dq" "d \<noteq> sq" "\<not> word_char d" by blast
  then show ?case
  proof cases
    case sp
    with 2 show ?thesis by (simp add: sql_tokens.simps)
  next
    case d
    with 2 obtain v r tr where q: "quoted dq cs = Some (v, r)" "sql_tokens r = Some tr" "ts = TIdent v # tr"
      by (auto simp: sql_tokens.simps split: option.splits)
    then have "c \<in> set r" using "2.IH"(2) d "2.prems"(2) by simp
    then show ?thesis using quoted_suffix [OF q(1)] by auto
  next
    case s
    with 2 obtain v r tr where q: "quoted sq cs = Some (v, r)" "sql_tokens r = Some tr" "ts = TStr v # tr"
      by (auto simp: sql_tokens.simps split: option.splits)
    then have "c \<in> set r" using "2.IH"(3) s "2.prems"(2) by simp
    then show ?thesis using quoted_suffix [OF q(1)] by auto
  next
    case w
    with 2 have "c \<in> set (dropWhile word_char cs)" by (auto simp: sql_tokens.simps)
    then show ?thesis by (auto dest: set_dropWhileD)
  next
    case y
    with 2 show ?thesis by (auto simp: sql_tokens.simps split: if_splits)
  qed
qed

lemma upper_char_code:
  "(of_char (upper_char c) :: nat) = (let n = of_char c in if 97 \<le> n \<and> n \<le> 122 then n - 32 else n)"
  by (auto simp: upper_char_def Let_def)

lemma char_by_code: "c = d \<longleftrightarrow> (of_char c :: nat) = of_char d"
  by simp

lemma upper_char_fixed:
  "upper_char c = CHR ''('' \<longleftrightarrow> c = CHR ''(''" "upper_char c = CHR ''['' \<longleftrightarrow> c = CHR ''[''"
  "is_space (upper_char c) \<longleftrightarrow> is_space c"
  unfolding char_by_code is_space_def upper_char_code by (auto simp: Let_def)

lemma upper_letter_word: "65 \<le> (of_char (upper_char c) :: nat) \<Longrightarrow> (of_char (upper_char c) :: nat) \<le> 90 \<Longrightarrow> word_char c"
  unfolding upper_char_code word_char_def by (simp add: Let_def split: if_splits)

lemma py_strip_split:
  obtains a b where "s = a @ py_strip s @ b" "list_all is_space a" "list_all is_space b"
proof -
  let ?t = "dropWhile is_space s"
  have "rev ?t = takeWhile is_space (rev ?t) @ dropWhile is_space (rev ?t)" by simp
  then have "?t = py_strip s @ rev (takeWhile is_space (rev ?t))"
    unfolding py_strip_def py_lstrip_def by (metis rev_append rev_rev_ident)
  then have "s = takeWhile is_space s @ py_strip s @ rev (takeWhile is_space (rev ?t))"
    by (metis takeWhile_dropWhile_id)
  then show thesis
    by (rule that) (auto simp: list_all_iff dest: set_takeWhileD)
qed

lemma py_strip_upper: "py_strip (upper s) = upper (py_strip s)"
  by (simp add: py_strip_def py_lstrip_def upper_def dropWhile_map rev_map comp_def upper_char_fixed(3))

lemma space_is_sep: "is_space c \<Longrightarrow> is_sep c"
  by (auto simp: is_sep_def is_space_def word_char_def char_by_code)

lemma text_keywords_letters:
  "k \<in> set TEXT_TYPE_KEYWORDS \<Longrightarrow> k \<noteq> [] \<and> (\<forall>c\<in>set k. 65 \<le> (of_char c :: nat) \<and> (of_char c :: nat) \<le> 90)"
  by (auto simp: TEXT_TYPE_KEYWORDS_def)

text \<open>The text of such a type: spaces, the keyword, and after more spaces nothing or a parenthesis; no bracket anywhere.\<close>

lemma is_text_type_split:
  assumes "is_text_type ty"
  obtains a w sp y where "ty = a @ w @ sp @ y" "list_all is_space a" "list_all is_space sp"
    "upper w \<in> set TEXT_TYPE_KEYWORDS" "y = [] \<or> hd y = CHR ''(''" "CHR ''['' \<notin> set ty"
proof -
  define t where "t = py_strip ty"
  define x where "x = takeWhile (\<lambda>c. c \<noteq> CHR ''('') t"
  define y where "y = dropWhile (\<lambda>c. c \<noteq> CHR ''('') t"
  define w where "w = py_strip x"
  have code: "CHR ''['' \<notin> set (upper t)" "py_strip (takeWhile (\<lambda>c. c \<noteq> CHR ''('') (upper t)) \<in> set TEXT_TYPE_KEYWORDS"
    using assms unfolding t_def by (auto simp: is_text_type_def Let_def split: if_splits)
  obtain a b where ab: "ty = a @ t @ b" "list_all is_space a" "list_all is_space b"
    by (rule py_strip_split [of ty, folded t_def])
  obtain a' b' where ab': "x = a' @ w @ b'" "list_all is_space a'" "list_all is_space b'"
    by (rule py_strip_split [of x, folded w_def])
  have t: "t = x @ y" by (simp add: x_def y_def)
  have "takeWhile (\<lambda>c. c \<noteq> CHR ''('') (upper t) = upper x"
    by (simp add: x_def upper_def takeWhile_map comp_def upper_char_fixed(1))
  then have w: "upper w \<in> set TEXT_TYPE_KEYWORDS" using code(2) by (simp add: w_def py_strip_upper)
  have y: "y = [] \<or> hd y = CHR ''(''"
    using hd_dropWhile [of "\<lambda>c. c \<noteq> CHR ''(''" t, folded y_def] by auto
  have "\<not> is_space (CHR ''['')" by (simp add: is_space_def)
  then have "CHR ''['' \<notin> set a" "CHR ''['' \<notin> set b" using ab(2,3) by (auto simp: list_all_iff)
  moreover have "CHR ''['' \<notin> set t"
  proof
    assume "CHR ''['' \<in> set t"
    then have "upper_char (CHR ''['') \<in> set (upper t)" by (simp add: upper_def)
    then show False using code(1) upper_char_fixed(2) [of "CHR ''[''"] by simp
  qed
  ultimately have bracket: "CHR ''['' \<notin> set ty" unfolding ab(1) by simp
  show thesis
  proof (cases "y = []")
    case True
    have "ty = (a @ a') @ w @ (b' @ b) @ []" using ab(1) ab'(1) t True by simp
    then show thesis by (rule that) (simp_all add: ab(2,3) ab'(2,3) w bracket)
  next
    case False
    have "ty = (a @ a') @ w @ b' @ (y @ b)" using ab(1) ab'(1) t by simp
    then show thesis by (rule that) (use ab(2) ab'(2,3) w y False bracket in simp_all)
  qed
qed

lemma is_text_type_tokens:
  assumes "is_text_type ty" "sql_tokens ty = Some ts"
  shows "text_type ts"
proof -
  obtain a w sp y where ty: "ty = a @ w @ sp @ y" "list_all is_space a" "list_all is_space sp"
    "upper w \<in> set TEXT_TYPE_KEYWORDS" "y = [] \<or> hd y = CHR ''(''" "CHR ''['' \<notin> set ty"
    by (rule is_text_type_split [OF assms(1)])
  have k: "upper w \<noteq> []" "\<forall>c\<in>set (upper w). 65 \<le> (of_char c :: nat) \<and> (of_char c :: nat) \<le> 90"
    using text_keywords_letters [OF ty(4)] by blast+
  then have "list_all word_char w" using upper_letter_word by (simp add: upper_def list_all_iff)
  then have word: "sql_tokens w = Some [TWord w]" using k(1) by (intro tokens_word) (simp_all add: upper_def)
  have "seam w (sp @ y)"
    using ty(3,5) space_is_sep by (cases sp) (auto simp: seam_def is_sep_def word_char_def)
  then have "sql_tokens ty = map_option ((@) [TWord w]) (sql_tokens y)"
    using sql_tokens_append [OF word] ty(1) sql_tokens_spaces ty(2,3) by simp
  then obtain tl where tl: "sql_tokens y = Some tl" "ts = TWord w # tl"
    using assms(2) by (cases "sql_tokens y") auto
  have "tl = [] \<or> hd tl = TSym CHR ''(''"
  proof (cases y)
    case Nil
    then show ?thesis using tl(1) by (simp add: sql_tokens.simps)
  next
    case (Cons c cs)
    then have "sql_tokens y = map_option ((#) (TSym CHR ''('')) (sql_tokens cs)"
      using ty(5) by (simp add: sql_tokens.simps is_space_def word_char_def opens_comment_def)
    then show ?thesis using tl(1) by (cases "sql_tokens cs") auto
  qed
  moreover have "TSym CHR ''['' \<notin> set ts" using sql_tokens_sym [OF assms(2)] ty(6) by blast
  ultimately show ?thesis using ty(4) unfolding tl(2) by (auto simp: TEXT_TYPE_KEYWORDS_def)
qed

lemma masked_fallback_reads:
  assumes "type_text_ok ty"
  shows "\<exists>f. sql_tokens (masked_fallback ty) = Some (fallback_tokens f) \<and> wf_fallback f
    \<and> fallback_val f = (if is_text_type ty then VStr ''*****'' else VNull)
    \<and> (\<forall>\<Gamma> cs c. \<Gamma> c = ty \<longrightarrow> expr_type \<Gamma> (ACase cs c f) = sql_tokens ty)"
proof -
  obtain tt where tt: "sql_tokens ty = Some tt" "balanced 0 tt"
    using assms by (auto simp: type_text_ok_def split: option.splits)
  show ?thesis
  proof (cases "is_text_type ty")
    case True
    then show ?thesis using tt(1) is_text_type_tokens [OF True tt(1)]
      by (intro exI [of _ "FStr ''*****''"]) (simp add: masked_fallback_def)
  next
    case False
    with cast_null_reads [OF tt(1)] tt show ?thesis
      by (intro exI [of _ "FNull tt"]) (simp add: masked_fallback_def)
  qed
qed

lemma as_column_reads:
  assumes "sql_tokens x = Some tx" "sql_tokens f = Some tf" "f \<noteq> []" "is_sep (hd f)" "is_sep (last f)"
  shows "sql_tokens (x @ f @ quote_ident col) = Some (tx @ tf @ [TIdent col])"
  using tokens_then_fixed [OF assms(1,3,4) tokens_fixed_then [OF assms(2,3,5) sql_tokens_quote_ident]] .

lemma mask_expr_reads:
  assumes "mask_expr m col ty = Inr x" "type_text_ok ty" "list_all wf_lit (unmask_groups m)"
  shows "\<exists>a. sql_tokens x = Some (proj_tokens (a, Some col)) \<and> wf_aexpr a
    \<and> (\<forall>e b row. aexpr_val e b row a = masked_val e b m ty (row col))
    \<and> (\<forall>\<Gamma>. \<Gamma> col = ty \<longrightarrow> expr_type \<Gamma> a = mask_type m ty)"
proof -
  consider (n) "mask_choice m = ''nullify''" | (h) "mask_choice m = ''hash''" | (u) "mask_choice m = ''unmask''"
    using assms(1) by (auto simp: mask_expr_def Let_def split: if_splits)
  then show ?thesis
  proof cases
    case n
    obtain tt where tt: "sql_tokens ty = Some tt" "balanced 0 tt"
      using assms by (auto simp: type_text_ok_def split: option.splits)
    have "sql_tokens (''CAST(NULL AS '' @ ty @ '') AS '' @ quote_ident col)
        = Some (cast_open @ tt @ [TSym CHR '')'', TWord ''AS''] @ [TIdent col])"
      by (rule tokens_fixed_then [OF fixed_tokens(2) _ _ as_column_reads [OF tt(1)]])
        (simp_all add: fixed_tokens)
    with n tt assms(1) show ?thesis
      by (intro exI [of _ "ANull tt"]) (auto simp: mask_expr_def masked_val_def mask_type_def Let_def)
  next
    case h
    have "sql_tokens (''md5('' @ quote_ident col @ '') AS '' @ quote_ident col)
        = Some ([TWord ''md5'', TSym CHR ''(''] @ [TIdent col] @ [TSym CHR '')'', TWord ''AS''] @ [TIdent col])"
      by (rule tokens_fixed_then [OF fixed_tokens(10) _ _ as_column_reads [OF sql_tokens_quote_ident]])
        (simp_all add: fixed_tokens)
    with h assms(1) show ?thesis
      by (intro exI [of _ "AMd5 col"]) (auto simp: mask_expr_def masked_val_def mask_type_def Let_def)
  next
    case u
    obtain f where f: "sql_tokens (masked_fallback ty) = Some (fallback_tokens f)" "wf_fallback f"
      "fallback_val f = (if is_text_type ty then VStr ''*****'' else VNull)"
      "\<forall>\<Gamma> cs c. \<Gamma> c = ty \<longrightarrow> expr_type \<Gamma> (ACase cs c f) = sql_tokens ty"
      using masked_fallback_reads [OF assms(2)] by blast
    let ?cs = "unmask_conds (unmask_groups m)"
    let ?tail = "masked_fallback ty @ '' END AS '' @ quote_ident col"
    have t1: "sql_tokens ?tail = Some (fallback_tokens f @ [TWord ''END'', TWord ''AS''] @ [TIdent col])"
      by (rule as_column_reads [OF f(1)]) (simp_all add: fixed_tokens)
    have t2: "sql_tokens (quote_ident col @ '' ELSE '' @ ?tail) = Some ([TIdent col] @ [TWord ''ELSE''] @
        fallback_tokens f @ [TWord ''END'', TWord ''AS''] @ [TIdent col])"
      by (rule tokens_then_fixed [OF sql_tokens_quote_ident _ _ tokens_fixed_then [OF fixed_tokens(13) _ _ t1]]) simp_all
    have t3: "sql_tokens ('' THEN '' @ quote_ident col @ '' ELSE '' @ ?tail) = Some ([TWord ''THEN''] @ [TIdent col] @ [TWord ''ELSE''] @
        fallback_tokens f @ [TWord ''END'', TWord ''AS''] @ [TIdent col])"
      by (rule tokens_fixed_then [OF fixed_tokens(12) _ _ t2]) simp_all
    have "sql_tokens (''CASE WHEN '' @ unmask_condition (unmask_groups m) @ '' THEN '' @ quote_ident col @ '' ELSE '' @ ?tail)
        = Some ([TWord ''CASE'', TWord ''WHEN''] @ aconds_tokens ''OR'' ?cs @ [TWord ''THEN''] @ [TIdent col] @ [TWord ''ELSE''] @
        fallback_tokens f @ [TWord ''END'', TWord ''AS''] @ [TIdent col])"
      by (rule tokens_between [OF fixed_tokens(11) _ _ unmask_condition_reads [OF assms(3)] _ _ t3]) simp_all
    moreover have "wf_aexpr (ACase ?cs col f)"
      using f(2) by (simp add: unmask_conds_def list_all_iff)
    ultimately show ?thesis using u assms(1,3) f(3,4)
      by (intro exI [of _ "ACase ?cs col f"])
        (auto simp: mask_expr_def masked_val_def mask_type_def unmask_conds_val Let_def)
  qed
qed

subsection \<open>The loop over the masks\<close>

text \<open>What the loop leaves for one column of the table.\<close>

definition mask_outcome :: "(string \<times> string) list \<Rightarrow> mask option \<Rightarrow> string \<Rightarrow> mask_acc \<Rightarrow> mask_acc \<Rightarrow> bool" where
  "mask_outcome cols mo name acc acc' \<longleftrightarrow>
     (case mo of
        None \<Rightarrow> ma_exprs acc' name = ma_exprs acc name \<and> (name \<in> set (ma_excluded acc') \<longleftrightarrow> name \<in> set (ma_excluded acc))
      | Some m \<Rightarrow>
          if mask_choice m = ''show'' then
            ma_exprs acc' name = ma_exprs acc name \<and> (name \<in> set (ma_excluded acc') \<longleftrightarrow> name \<in> set (ma_excluded acc))
          else if mask_choice m = ''hide'' then ma_exprs acc' name = ma_exprs acc name \<and> name \<in> set (ma_excluded acc')
          else (\<exists>x. mask_expr m name (col_type_of cols name) = Inr x \<and> ma_exprs acc' name = Some x))"

lemma mask_outcome_tail:
  assumes "mask_outcome cols mo name acc1 acc'" "ma_exprs acc1 name = ma_exprs acc name"
    "name \<in> set (ma_excluded acc1) \<longleftrightarrow> name \<in> set (ma_excluded acc)"
  shows "mask_outcome cols mo name acc acc'"
  using assms by (auto simp: mask_outcome_def split: option.splits if_splits)

lemma mask_loop_outcome:
  assumes "mask_loop cols ms acc = Inr acc'" "distinct (map fst ms)" "name \<in> fst ` set cols"
  shows "mask_outcome cols (map_of ms name) name acc acc'"
  using assms
proof (induction cols ms acc rule: mask_loop.induct)
  case (1 cols acc)
  then show ?case by (simp add: mask_outcome_def)
next
  case (2 cols col raw ms acc)
  have fresh: "map_of ms col = None" using "2.prems"(2) by (simp add: map_of_eq_None_iff)
  have ds: "distinct (map fst ms)" using "2.prems"(2) by simp
  consider (unk) "col \<notin> fst ` set cols"
    | (sh) "col \<in> fst ` set cols" "mask_choice raw = ''show''"
    | (hi) "col \<in> fst ` set cols" "mask_choice raw = ''hide''"
    | (ex) x where "col \<in> fst ` set cols" "mask_choice raw \<noteq> ''show''" "mask_choice raw \<noteq> ''hide''"
        "mask_expr raw col (col_type_of cols col) = Inr x"
    using "2.prems"(1) by (auto simp: Let_def rbind_eq_Inr split: if_splits)
  then show ?case
  proof cases
    case unk
    then have "mask_outcome cols (map_of ms name) name
        (acc\<lparr>ma_warnings := ma_warnings acc @ [''unknown column ignored: '' @ col]\<rparr>) acc'"
      using 2 ds by simp
    moreover have "name \<noteq> col" using unk "2.prems"(3) by auto
    ultimately show ?thesis by (auto simp: mask_outcome_def split: option.splits)
  next
    case sh
    then have "mask_outcome cols (map_of ms name) name acc acc'" using 2 ds by simp
    with sh fresh show ?thesis by (cases "name = col") (simp_all add: mask_outcome_def)
  next
    case hi
    let ?acc = "acc\<lparr>ma_excluded := ma_excluded acc @ [col]\<rparr>"
    have "mask_outcome cols (map_of ms name) name ?acc acc'" using hi 2 ds by simp
    with hi fresh show ?thesis
      by (cases "name = col") (simp_all add: mask_outcome_def split: option.splits)
  next
    case ex
    let ?acc = "acc\<lparr>ma_excluded := ma_excluded acc @ [col], ma_derived := ma_derived acc @ [col],
      ma_exprs := (ma_exprs acc)(col \<mapsto> x)\<rparr>"
    have "mask_outcome cols (map_of ms name) name ?acc acc'"
      using ex 2 ds by (simp add: Let_def)
    with ex fresh show ?thesis
      by (cases "name = col") (simp_all add: mask_outcome_def split: option.splits)
  qed
qed

text \<open>The projections read as a list of expressions, one per shown column and in table order.\<close>

lemma column_reads:
  assumes wf: "wf_spec spec cols" and n: "name \<in> fst ` set cols"
    and lp: "mask_loop cols (ps_column_masks spec) init_acc = Inr acc"
  shows "\<exists>ps. list_all2 (\<lambda>x p. sql_tokens x = Some (proj_tokens p))
            (case ma_exprs acc name of Some expr \<Rightarrow> [expr]
             | None \<Rightarrow> if name \<notin> set (ma_excluded acc) then [quote_ident name] else []) ps
      \<and> list_all (\<lambda>p. wf_aexpr (fst p)) ps
      \<and> (\<forall>e b row. map (\<lambda>p. (proj_name p, aexpr_val e b row (fst p))) ps = shown_column spec cols e b row name)
      \<and> map (\<lambda>p. (proj_name p, expr_type (col_type_of cols) (fst p))) ps = typed_column spec cols name"
proof -
  let ?mo = "map_of (ps_column_masks spec) name"
  have out: "mask_outcome cols ?mo name init_acc acc"
    using mask_loop_outcome [OF lp _ n] wf by (simp add: wf_spec_def)
  show ?thesis
  proof (cases "?mo = None \<or> (\<exists>m. ?mo = Some m \<and> mask_choice m = ''show'')")
    case True
    then have "ma_exprs acc name = None" "name \<notin> set (ma_excluded acc)"
      using out by (auto simp: mask_outcome_def init_acc_def)
    with True show ?thesis by (intro exI [of _ "[(ACol name, None)]"]) (auto simp: shown_column_def typed_column_def mask_type_def)
  next
    case False
    then obtain m where m: "?mo = Some m" "mask_choice m \<noteq> ''show''" by auto
    show ?thesis
    proof (cases "mask_choice m = ''hide''")
      case True
      then have "ma_exprs acc name = None" "name \<in> set (ma_excluded acc)"
        using out m by (auto simp: mask_outcome_def init_acc_def)
      with True m show ?thesis by (intro exI [of _ "[]"]) (simp add: shown_column_def typed_column_def)
    next
      case False
      then obtain x where x: "mask_expr m name (col_type_of cols name) = Inr x" "ma_exprs acc name = Some x"
        using out m by (auto simp: mask_outcome_def)
      have "type_text_ok (col_type_of cols name)"
        using wf n by (auto simp: wf_spec_def list_all_iff)
      moreover have "list_all wf_lit (unmask_groups m)"
        using wf map_of_SomeD [OF m(1)] by (auto simp: wf_spec_def list_all_iff)
      ultimately obtain a where "sql_tokens x = Some (proj_tokens (a, Some name))" "wf_aexpr a"
        "\<forall>e b row. aexpr_val e b row a = masked_val e b m (col_type_of cols name) (row name)"
        "expr_type (col_type_of cols) a = mask_type m (col_type_of cols name)"
        using mask_expr_reads [OF x(1)] by blast
      with False m x show ?thesis
        by (intro exI [of _ "[(a, Some name)]"]) (simp add: shown_column_def typed_column_def)
    qed
  qed
qed

lemma projections_read:
  assumes wf: "wf_spec spec cols" and lp: "mask_loop cols (ps_column_masks spec) init_acc = Inr acc"
  shows "set cs \<subseteq> set cols \<Longrightarrow>
    \<exists>ps. list_all2 (\<lambda>x p. sql_tokens x = Some (proj_tokens p)) (projections cs acc) ps
      \<and> list_all (\<lambda>p. wf_aexpr (fst p)) ps
      \<and> (\<forall>e b row. map (\<lambda>p. (proj_name p, aexpr_val e b row (fst p))) ps
           = concat (map (\<lambda>c. shown_column spec cols e b row (fst c)) cs))
      \<and> map (\<lambda>p. (proj_name p, expr_type (col_type_of cols) (fst p))) ps = concat (map (\<lambda>c. typed_column spec cols (fst c)) cs)"
proof (induction cs)
  case Nil
  then show ?case by (intro exI [of _ "[]"]) simp
next
  case (Cons c cs)
  obtain name t where c: "c = (name, t)" by force
  have "name \<in> fst ` set cols" using Cons.prems c by force
  from column_reads [OF wf this lp] obtain ps where ps: "list_all2 (\<lambda>x p. sql_tokens x = Some (proj_tokens p))
            (case ma_exprs acc name of Some expr \<Rightarrow> [expr]
             | None \<Rightarrow> if name \<notin> set (ma_excluded acc) then [quote_ident name] else []) ps"
      "list_all (\<lambda>p. wf_aexpr (fst p)) ps"
      "\<forall>e b row. map (\<lambda>p. (proj_name p, aexpr_val e b row (fst p))) ps = shown_column spec cols e b row name"
      "map (\<lambda>p. (proj_name p, expr_type (col_type_of cols) (fst p))) ps = typed_column spec cols name" by blast
  have "set cs \<subseteq> set cols" using Cons.prems by simp
  from Cons.IH [OF this] obtain qs where qs: "list_all2 (\<lambda>x p. sql_tokens x = Some (proj_tokens p)) (projections cs acc) qs"
      "list_all (\<lambda>p. wf_aexpr (fst p)) qs"
      "\<forall>e b row. map (\<lambda>p. (proj_name p, aexpr_val e b row (fst p))) qs
           = concat (map (\<lambda>c. shown_column spec cols e b row (fst c)) cs)"
      "map (\<lambda>p. (proj_name p, expr_type (col_type_of cols) (fst p))) qs = concat (map (\<lambda>c. typed_column spec cols (fst c)) cs)" by blast
  have "list_all2 (\<lambda>x p. sql_tokens x = Some (proj_tokens p)) (projections (c # cs) acc) (ps @ qs)"
    unfolding c projections.simps by (rule list_all2_appendI [OF ps(1) qs(1)])
  with ps qs c show ?case by (intro exI [of _ "ps @ qs"]) simp
qed

lemma predicates_read:
  "predicates rs = Inr ps \<Longrightarrow> list_all wf_rule rs \<Longrightarrow>
     \<exists>cs. list_all2 (\<lambda>x c. sql_tokens x = Some (acond_tokens c)) ps cs \<and> list_all wf_acond cs
       \<and> (\<forall>e b row. map (acond_val e b row) cs = map (\<lambda>r. rule_holds e b row (column_text r) r) rs)"
proof (induction rs arbitrary: ps)
  case Nil
  then show ?case by (intro exI [of _ "[]"]) simp
next
  case (Cons r rs)
  then obtain c p ps' where p: "rr_column r = Some c" "predicate_sql c r = Inr p" "predicates rs = Inr ps'" "ps = p # ps'"
    by (auto simp: rbind_eq_Inr split: option.splits)
  from predicate_reads [OF p(2)] Cons.prems obtain a where "sql_tokens p = Some (acond_tokens a)" "wf_acond a"
      "\<forall>e b row. acond_val e b row a = rule_holds e b row c r" by auto
  moreover from Cons.IH [OF p(3)] Cons.prems obtain cs where
    "list_all2 (\<lambda>x c. sql_tokens x = Some (acond_tokens c)) ps' cs" "list_all wf_acond cs"
    "\<forall>e b row. map (acond_val e b row) cs = map (\<lambda>r. rule_holds e b row (column_text r) r) rs" by auto
  ultimately show ?case using p by (intro exI [of _ "a # cs"]) (simp add: column_text_def)
qed

lemma list_all2_tokens:
  "list_all2 (\<lambda>x p. sql_tokens x = Some (f p)) xs ps \<Longrightarrow> list_all2 (\<lambda>x t. sql_tokens x = Some t) xs (map f ps)"
  by (simp add: list_all2_map2)

lemma where_clause_reads:
  assumes "list_all2 (\<lambda>x c. sql_tokens x = Some (acond_tokens c)) preds cs"
  shows "sql_tokens ('' WHERE '' @ py_join (if d then '' OR '' else '' AND '') preds)
    = Some (TWord ''WHERE'' # aconds_tokens (if d then ''OR'' else ''AND'') cs)"
proof -
  have "sql_tokens (py_join (if d then '' OR '' else '' AND '') preds)
      = Some (tokens_join [TWord (if d then ''OR'' else ''AND'')] (map acond_tokens cs))"
    using list_all2_tokens [OF assms] by (intro sql_tokens_py_join) (simp_all add: fixed_tokens)
  from tokens_fixed_then [OF fixed_tokens(17) _ _ this] show ?thesis by (simp add: aconds_tokens_def)
qed

lemma tokens_join_single: "length cs \<le> 1 \<Longrightarrow> tokens_join s (map f cs) = tokens_join s' (map f cs)"
  by (cases cs; cases "tl cs") auto

text \<open>The result of a successful compilation, taken apart.\<close>

lemma compile_policy_InrE:
  assumes "compile_policy spec columns = Inr cp"
  obtains cols acc preds table where
    "normalize_columns columns = Inr cols"
    "mask_loop cols (ps_column_masks spec) init_acc = Inr acc"
    "projections cols acc \<noteq> []"
    "predicates (filter (known_rule cols) (ps_row_rules spec)) = Inr preds"
    "ps_table spec = Some table"
    "cp_sql cp = ''SELECT '' @ py_join '', '' (projections cols acc) @ '' FROM '' @ quote_ident table @
       (if filter (known_rule cols) (ps_row_rules spec) = [] then []
        else '' WHERE '' @ py_join (if ps_row_combine spec = Some ''or'' then '' OR '' else '' AND '') preds)"
    "cp_excluded cp = ma_excluded acc" "cp_derived cp = ma_derived acc"
    "set (ma_warnings acc) \<union>
       (\<lambda>r. ''unknown column ignored: '' @ column_text r) ` {r \<in> set (ps_row_rules spec). \<not> known_rule cols r}
       \<subseteq> set (cp_warnings cp)"
proof -
  from assms obtain cols where c: "normalize_columns columns = Inr cols"
    by (auto simp: compile_policy_def rbind_eq_Inr)
  with assms obtain acc where a: "mask_loop cols (ps_column_masks spec) init_acc = Inr acc"
    by (auto simp: compile_policy_def rbind_eq_Inr)
  with assms c have p: "projections cols acc \<noteq> []"
    by (auto simp: compile_policy_def)
  with assms c a obtain preds where r: "predicates (filter (known_rule cols) (ps_row_rules spec)) = Inr preds"
    by (auto simp: compile_policy_def Let_def rbind_eq_Inr)
  with assms c a p obtain table where t: "ps_table spec = Some table"
    by (auto simp: compile_policy_def Let_def split: option.splits)
  show thesis
    by (rule that [OF c a p r t])
      (use assms c a p r t in \<open>auto simp: compile_policy_def Let_def\<close>)
qed

lemma admits_query:
  assumes "\<forall>e b row. map (acond_val e b row) cs
      = map (\<lambda>r. rule_holds e b row (column_text r) r) (filter (known_rule cols) (ps_row_rules spec))"
    and "d \<longleftrightarrow> ps_row_combine spec = Some ''or'' \<and> length cs > 1"
  shows "cs = [] \<or> (if d then kleene_or else kleene_and) (map (acond_val e b row) cs) = Some True
    \<longleftrightarrow> admits spec cols e b row"
proof -
  let ?rs = "filter (known_rule cols) (ps_row_rules spec)"
  let ?h = "\<lambda>r. rule_holds e b row (column_text r) r"
  have vals: "map (acond_val e b row) cs = map ?h ?rs" using assms(1) by blast
  have len: "length cs = length ?rs" using arg_cong [OF vals, of length] by simp
  have nil: "cs = [] \<longleftrightarrow> ?rs = []" using len by (metis length_0_conv)
  have one: "length ?rs = 1 \<Longrightarrow> list_ex P ?rs \<longleftrightarrow> list_all P ?rs" for P
    by (cases ?rs) auto
  have or: "kleene_or (map ?h ?rs) = Some True \<longleftrightarrow> list_ex (\<lambda>r. ?h r = Some True) ?rs"
    unfolding kleene_or_true set_map list_ex_iff image_iff by metis
  have an: "kleene_and (map ?h ?rs) = Some True \<longleftrightarrow> list_all (\<lambda>r. ?h r = Some True) ?rs"
    unfolding kleene_and_true set_map list_all_iff by blast
  show ?thesis
  proof (cases "?rs = []")
    case True
    then show ?thesis using nil by (simp add: admits_def)
  next
    case False
    then have "length ?rs = 1 \<or> length ?rs > 1" by (cases ?rs) auto
    then show ?thesis
      using False nil vals or an one assms(2) len unfolding admits_def Let_def by auto
  qed
qed

lemma compile_policy_reads:
  assumes cp: "compile_policy spec columns = Inr cp" and nc: "normalize_columns columns = Inr cols"
    and wf: "wf_spec spec cols"
  shows "\<exists>q. sql_tokens (cp_sql cp) = Some (query_tokens q) \<and> wf_query q \<and> Some (q_table q) = ps_table spec
    \<and> (\<forall>e b row. run_query q e b row = policy_view spec cols e b row)
    \<and> map (\<lambda>p. (proj_name p, expr_type (col_type_of cols) (fst p))) (q_projs q)
        = concat (map (\<lambda>c. typed_column spec cols (fst c)) cols)"
proof -
  from cp obtain acc preds table where
    lp: "mask_loop cols (ps_column_masks spec) init_acc = Inr acc" and ne: "projections cols acc \<noteq> []"
    and pr: "predicates (filter (known_rule cols) (ps_row_rules spec)) = Inr preds"
    and tb: "ps_table spec = Some table"
    and sql: "cp_sql cp = ''SELECT '' @ py_join '', '' (projections cols acc) @ '' FROM '' @ quote_ident table @
       (if filter (known_rule cols) (ps_row_rules spec) = [] then []
        else '' WHERE '' @ py_join (if ps_row_combine spec = Some ''or'' then '' OR '' else '' AND '') preds)"
    using nc by (elim compile_policy_InrE) simp
  let ?rs = "filter (known_rule cols) (ps_row_rules spec)"
  let ?d = "ps_row_combine spec = Some ''or''"
  obtain ps where ps: "list_all2 (\<lambda>x p. sql_tokens x = Some (proj_tokens p)) (projections cols acc) ps"
      "list_all (\<lambda>p. wf_aexpr (fst p)) ps"
      "\<forall>e b row. map (\<lambda>p. (proj_name p, aexpr_val e b row (fst p))) ps
           = concat (map (\<lambda>c. shown_column spec cols e b row (fst c)) cols)"
      "map (\<lambda>p. (proj_name p, expr_type (col_type_of cols) (fst p))) ps = concat (map (\<lambda>c. typed_column spec cols (fst c)) cols)"
    using projections_read [OF wf lp, of cols] by blast
  have "list_all wf_rule ?rs" using wf by (auto simp: wf_spec_def list_all_iff)
  from predicates_read [OF pr this] obtain cs where
    cs: "list_all2 (\<lambda>x c. sql_tokens x = Some (acond_tokens c)) preds cs" "list_all wf_acond cs"
       "\<forall>e b row. map (acond_val e b row) cs = map (\<lambda>r. rule_holds e b row (column_text r) r) ?rs" by blast
  have "length cs = length ?rs" using cs(3) by (metis length_map)
  then have nil: "?rs = [] \<longleftrightarrow> cs = []" by (metis length_0_conv)
  define q where "q = \<lparr>q_projs = ps, q_table = table, q_or = (?d \<and> length cs > 1), q_conds = cs\<rparr>"
  have wh: "sql_tokens (if ?rs = [] then [] else '' WHERE '' @ py_join (if ?d then '' OR '' else '' AND '') preds)
      = Some (if cs = [] then [] else TWord ''WHERE'' # aconds_tokens (if q_or q then ''OR'' else ''AND'') cs)"
  proof (cases "length cs > 1")
    case True
    with where_clause_reads [OF cs(1), of ?d] nil show ?thesis by (auto simp: q_def)
  next
    case False
    then have "aconds_tokens (if ?d then ''OR'' else ''AND'') cs = aconds_tokens ''AND'' cs"
      unfolding aconds_tokens_def by (intro tokens_join_single) simp
    with False where_clause_reads [OF cs(1), of ?d] nil show ?thesis by (simp add: q_def sql_tokens.simps)
  qed
  let ?w = "if ?rs = [] then [] else '' WHERE '' @ py_join (if ?d then '' OR '' else '' AND '') preds"
  let ?tw = "if cs = [] then [] else TWord ''WHERE'' # aconds_tokens (if q_or q then ''OR'' else ''AND'') cs"
  have "sql_tokens (quote_ident table @ ?w) = Some ([TIdent table] @ ?tw)"
    by (rule sql_tokens_join [OF sql_tokens_quote_ident wh]) (simp add: seam_def)
  from tokens_fixed_then [OF fixed_tokens(16) _ _ this]
  have fr: "sql_tokens ('' FROM '' @ quote_ident table @ ?w) = Some ([TWord ''FROM''] @ [TIdent table] @ ?tw)"
    by simp
  have "sql_tokens (py_join '', '' (projections cols acc)) = Some (tokens_join [TSym CHR '',''] (map proj_tokens ps))"
    using list_all2_tokens [OF ps(1)] by (intro sql_tokens_py_join) (simp_all add: fixed_tokens)
  from tokens_between [OF fixed_tokens(15) _ _ this _ _ fr]
  have "sql_tokens (cp_sql cp) = Some (query_tokens q)"
    unfolding sql by (simp add: query_tokens_def q_def)
  moreover have "ps \<noteq> []" using ne ps(1) by auto
  then have "wf_query q" using ps(2) cs(2) by (auto simp: wf_query_def q_def)
  moreover have "run_query q e b row = policy_view spec cols e b row" for e b row
    using admits_query [OF cs(3), of "q_or q" e b row] ps(3) by (simp add: run_query_def policy_view_def q_def)
  ultimately show ?thesis using tb ps(4) by (intro exI [of _ q]) (simp add: q_def)
qed

section \<open>What the compiled text guarantees\<close>

definition parse_policy :: "string \<Rightarrow> aquery option" where
  "parse_policy sql = Option.bind (sql_tokens sql) parse_query"

lemma compile_policy_parses:
  assumes "compile_policy spec columns = Inr cp" "normalize_columns columns = Inr cols" "wf_spec spec cols"
  obtains q where "parse_policy (cp_sql cp) = Some q" "Some (q_table q) = ps_table spec"
    "\<forall>e b row. run_query q e b row = policy_view spec cols e b row"
    "map (\<lambda>p. (proj_name p, expr_type (col_type_of cols) (fst p))) (q_projs q)
        = concat (map (\<lambda>c. typed_column spec cols (fst c)) cols)"
proof -
  from compile_policy_reads [OF assms] obtain q where q: "sql_tokens (cp_sql cp) = Some (query_tokens q)"
    "wf_query q" "Some (q_table q) = ps_table spec"
    "\<forall>e b row. run_query q e b row = policy_view spec cols e b row"
    "map (\<lambda>p. (proj_name p, expr_type (col_type_of cols) (fst p))) (q_projs q)
        = concat (map (\<lambda>c. typed_column spec cols (fst c)) cols)" by blast
  have "parse_policy (cp_sql cp) = Some q" by (simp add: parse_policy_def q(1) parse_query_tokens [OF q(2)])
  with q(3-5) that show thesis by blast
qed

text \<open>The values an output depends on: a rule reads its own column only.\<close>

lemma rule_holds_cong: "row c = row' c \<Longrightarrow> rule_holds e b row c r = rule_holds e b row' c r"
  by (simp add: rule_holds_def)

lemma admits_cong:
  assumes "\<forall>r\<in>set (ps_row_rules spec). known_rule cols r \<longrightarrow> row (column_text r) = row' (column_text r)"
  shows "admits spec cols e b row = admits spec cols e b row'"
proof -
  have h: "rule_holds e b row (column_text r) r = rule_holds e b row' (column_text r) r"
    if "r \<in> set (filter (known_rule cols) (ps_row_rules spec))" for r
    using assms that by (intro rule_holds_cong) simp
  show ?thesis unfolding admits_def Let_def list_ex_iff list_all_iff using h by auto
qed

definition sealed :: "policy_spec \<Rightarrow> engine \<Rightarrow> bindings \<Rightarrow> string \<Rightarrow> bool" where
  "sealed spec e b c =
     ((case map_of (ps_column_masks spec) c of
         None \<Rightarrow> False
       | Some m \<Rightarrow> mask_choice m = ''hide'' \<or> mask_choice m = ''nullify''
           \<or> mask_choice m = ''unmask'' \<and> \<not> unmask_allowed e b m)
      \<and> list_all (\<lambda>r. rr_column r \<noteq> Some c) (ps_row_rules spec))"

lemma policy_view_sealed:
  assumes "sealed spec e b c"
  shows "policy_view spec cols e b (row(c := v)) = policy_view spec cols e b row"
proof -
  have "admits spec cols e b (row(c := v)) = admits spec cols e b row"
    using assms by (intro admits_cong)
      (auto simp: sealed_def list_all_iff known_rule_def column_text_def split: option.splits)
  moreover have "shown_column spec cols e b (row(c := v)) n = shown_column spec cols e b row n" for n
    using assms by (auto simp: sealed_def shown_column_def masked_val_def split: option.splits)
  ultimately show ?thesis by (simp add: policy_view_def)
qed

text \<open>
  C1. The text the builder writes means the policy it was given. Read back by an independent parser,
  the compiled SQL is one query on the named table, and on every row, for every caller and every
  engine, its result is the abstract policy: the row is returned exactly when the rules on known
  columns admit it, with the unmasked columns and the masked ones in table order. No name, literal or
  group name, whatever quotes it holds, changes the shape of the statement.
\<close>

theorem policy_compile_refines:
  assumes "compile_policy spec columns = Inr cp"
    and "normalize_columns columns = Inr cols"
    and "wf_spec spec cols"
  shows "\<exists>q. parse_policy (cp_sql cp) = Some q \<and> Some (q_table q) = ps_table spec
    \<and> (\<forall>e b row. run_query q e b row = policy_view spec cols e b row)"
  by (rule compile_policy_parses [OF assms]) (intro exI conjI)

definition demo_columns :: "column_desc list" where
  "demo_columns = [CName ''id'', CPair ''a \" OR 1=1'' ''DECIMAL(10,2)'', CDict (Some ''mail'') None]"

definition demo_cols :: "(string \<times> string) list" where
  "demo_cols = [(''id'', ''VARCHAR''), (''a \" OR 1=1'', ''DECIMAL(10,2)''), (''mail'', ''VARCHAR'')]"

definition demo_spec :: policy_spec where
  "demo_spec =
     \<lparr>ps_table = Some ''inv'',
      ps_row_rules = [\<lparr>rr_column = Some ''id'', rr_op = Some ''eq'', rr_value = RLit (LStr [CHR ''o'', sq])\<rparr>,
                      \<lparr>rr_column = Some ''mail'', rr_op = Some ''in_caller_groups'', rr_value = RLit LNone\<rparr>],
      ps_row_combine = Some ''or'',
      ps_column_masks = [(''mail'', MDict (Some ''unmask'') None (Some (LStr ''hr''))), (''a \" OR 1=1'', MChoice ''nullify'')]\<rparr>"

lemma demo_columns_normalized: "normalize_columns demo_columns = Inr demo_cols"
  by (simp add: demo_columns_def demo_cols_def)

lemma demo_wf: "wf_spec demo_spec demo_cols"
  by code_simp

lemma demo_compiles: "\<exists>cp. compile_policy demo_spec demo_columns = Inr cp"
proof -
  have "(case compile_policy demo_spec demo_columns of Inr cp \<Rightarrow> True | Inl _ \<Rightarrow> False) = True"
    by code_simp
  then show ?thesis by (auto split: sum.splits)
qed

theorem policy_compile_refines_witness:
  "\<exists>cp q. compile_policy demo_spec demo_columns = Inr cp \<and> parse_policy (cp_sql cp) = Some q
     \<and> q_table q = ''inv'' \<and> run_query q = policy_view demo_spec demo_cols"
proof -
  obtain cp where cp: "compile_policy demo_spec demo_columns = Inr cp" using demo_compiles by blast
  have "ps_table demo_spec = Some ''inv''" by (simp add: demo_spec_def)
  with policy_compile_refines [OF cp demo_columns_normalized demo_wf] cp show ?thesis
    by (metis (no_types, lifting) ext option.inject)
qed

text \<open>
  C27. The compiled projection is well typed and keeps the schema: the columns come out in table order,
  each once, none of them hidden, and every one has the type the table gives it, except that a hashed
  column is text. In particular the two branches of an unmasking \<open>CASE\<close> agree: a redaction string stands only
  where the type of the column is by its tokens a text type, never a number and never an array of text.
\<close>

theorem policy_columns_typed:
  assumes "compile_policy spec columns = Inr cp"
    and "normalize_columns columns = Inr cols"
    and "wf_spec spec cols"
  shows "\<exists>q. parse_policy (cp_sql cp) = Some q
    \<and> map (\<lambda>p. (proj_name p, expr_type (col_type_of cols) (fst p))) (q_projs q)
        = concat (map (\<lambda>c. typed_column spec cols (fst c)) cols)"
  by (rule compile_policy_parses [OF assms]) (intro exI conjI)

theorem policy_columns_typed_witness:
  "\<exists>cp q. compile_policy demo_spec demo_columns = Inr cp \<and> parse_policy (cp_sql cp) = Some q
     \<and> map (\<lambda>p. (proj_name p, expr_type (col_type_of demo_cols) (fst p))) (q_projs q)
        = [(''id'', Some [TWord ''VARCHAR'']),
           (''a \" OR 1=1'', Some [TWord ''DECIMAL'', TSym CHR ''('', TWord ''10'', TSym CHR '','', TWord ''2'', TSym CHR '')'']),
           (''mail'', Some [TWord ''VARCHAR''])]"
proof -
  obtain cp where cp: "compile_policy demo_spec demo_columns = Inr cp" using demo_compiles by blast
  have "concat (map (\<lambda>c. typed_column demo_spec demo_cols (fst c)) demo_cols)
      = [(''id'', Some [TWord ''VARCHAR'']),
         (''a \" OR 1=1'', Some [TWord ''DECIMAL'', TSym CHR ''('', TWord ''10'', TSym CHR '','', TWord ''2'', TSym CHR '')'']),
         (''mail'', Some [TWord ''VARCHAR''])]"
    by code_simp
  note typed = this
  obtain q where "parse_policy (cp_sql cp) = Some q"
    "map (\<lambda>p. (proj_name p, expr_type (col_type_of demo_cols) (fst p))) (q_projs q)
        = concat (map (\<lambda>c. typed_column demo_spec demo_cols (fst c)) demo_cols)"
    using policy_columns_typed [OF cp demo_columns_normalized demo_wf] by blast
  with cp show ?thesis unfolding typed by (intro exI conjI)
qed

text \<open>
  C26. A sealed column does not leak. When a column is hidden, nulled, or unmasked for groups the caller
  is in none of, and no row rule reads it, the rows and values the compiled SQL returns to that caller
  do not depend on the column at all: changing its value changes nothing.
\<close>

theorem sealed_column_noninterference:
  assumes "compile_policy spec columns = Inr cp"
    and "normalize_columns columns = Inr cols"
    and "wf_spec spec cols"
    and "sealed spec e b c"
  shows "\<exists>q. parse_policy (cp_sql cp) = Some q \<and> (\<forall>row v. run_query q e b (row(c := v)) = run_query q e b row)"
proof -
  obtain q where "parse_policy (cp_sql cp) = Some q" "\<forall>e b row. run_query q e b row = policy_view spec cols e b row"
    by (rule compile_policy_parses [OF assms(1-3)])
  then show ?thesis using policy_view_sealed [OF assms(4)] by auto
qed

definition demo_engine :: engine where
  "demo_engine =
     \<lparr>e_eq = (\<lambda>x y. if x = VNull \<or> y = VNull then None else Some (x = y)),
      e_contains = (\<lambda>gs v. case v of VStr s \<Rightarrow> Some (s \<in> set gs) | _ \<Rightarrow> None),
      e_md5 = (\<lambda>v. VStr ''digest'')\<rparr>"

definition demo_bindings :: bindings where
  "demo_bindings = \<lparr>b_email = VStr ''a'', b_id = VStr ''u1'', b_groups = [''sales'']\<rparr>"

theorem sealed_column_noninterference_witness:
  "\<exists>cp q. compile_policy demo_spec demo_columns = Inr cp \<and> parse_policy (cp_sql cp) = Some q
     \<and> run_query q demo_engine demo_bindings ((\<lambda>_. VNull)(''a \" OR 1=1'' := VInt 7))
       = run_query q demo_engine demo_bindings (\<lambda>_. VNull)"
proof -
  obtain cp where cp: "compile_policy demo_spec demo_columns = Inr cp" using demo_compiles by blast
  have "sealed demo_spec demo_engine demo_bindings ''a \" OR 1=1''"
    by (simp add: sealed_def demo_spec_def)
  from sealed_column_noninterference [OF cp demo_columns_normalized demo_wf this] cp show ?thesis by blast
qed

section \<open>Warnings\<close>

lemma mask_loop_warnings:
  assumes "mask_loop cols ms acc = Inr acc'"
  shows "set (ma_warnings acc') = set (ma_warnings acc) \<union>
    (\<lambda>p. ''unknown column ignored: '' @ fst p) ` {p \<in> set ms. fst p \<notin> fst ` set cols}"
  using assms
proof (induction cols ms acc rule: mask_loop.induct)
  case (2 cols col raw ms acc)
  have split: "{p \<in> set ((col, raw) # ms). fst p \<notin> fst ` set cols}
      = (if col \<in> fst ` set cols then {} else {(col, raw)}) \<union> {p \<in> set ms. fst p \<notin> fst ` set cols}"
    by (simp add: set_eq_iff) metis
  show ?case
  proof (cases "col \<in> fst ` set cols")
    case False
    with 2 show ?thesis unfolding split by auto
  next
    case True
    have "set (ma_warnings acc') = set (ma_warnings acc) \<union>
        (\<lambda>p. ''unknown column ignored: '' @ fst p) ` {p \<in> set ms. fst p \<notin> fst ` set cols}"
      using True 2 by (auto simp: Let_def rbind_eq_Inr split: if_splits)
    with True show ?thesis unfolding split by simp
  qed
qed simp

lemma mask_loop_shows_all:
  assumes "mask_loop cols ms acc = Inr acc'"
    and "\<forall>(c, m)\<in>set ms. c \<in> fst ` set cols \<longrightarrow> mask_choice m = ''show''"
  shows "ma_excluded acc' = ma_excluded acc \<and> ma_derived acc' = ma_derived acc"
  using assms by (induction cols ms acc rule: mask_loop.induct) (auto split: if_splits)

lemma compile_policy_full_table:
  assumes "compile_policy spec columns = Inr cp" "normalize_columns columns = Inr cols"
    and "filter (known_rule cols) (ps_row_rules spec) = []"
    and "\<forall>(c, m)\<in>set (ps_column_masks spec). c \<in> fst ` set cols \<longrightarrow> mask_choice m = ''show''"
  shows "full_table_warning \<in> set (cp_warnings cp)"
proof -
  obtain acc where "mask_loop cols (ps_column_masks spec) init_acc = Inr acc"
    using assms(1,2) by (auto simp: compile_policy_def rbind_eq_Inr)
  with mask_loop_shows_all [OF this assms(4)] assms(1,2,3) show ?thesis
    by (auto simp: compile_policy_def init_acc_def Let_def split: if_splits option.splits)
qed

text \<open>
  Nothing of a specification is dropped in silence. A rule or a mask on a column the table does not
  have leaves no trace in the SQL, but each one leaves a warning that names it; and when nothing is left
  that filters or masks, the result carries the warning that every caller reads the full table.
\<close>

theorem policy_drops_are_warned:
  assumes "compile_policy spec columns = Inr cp"
    and "normalize_columns columns = Inr cols"
  shows "(\<forall>r\<in>set (ps_row_rules spec). \<not> known_rule cols r \<longrightarrow>
            ''unknown column ignored: '' @ column_text r \<in> set (cp_warnings cp))
    \<and> (\<forall>(c, m)\<in>set (ps_column_masks spec). c \<notin> fst ` set cols \<longrightarrow>
            ''unknown column ignored: '' @ c \<in> set (cp_warnings cp))
    \<and> (filter (known_rule cols) (ps_row_rules spec) = []
        \<and> (\<forall>(c, m)\<in>set (ps_column_masks spec). c \<in> fst ` set cols \<longrightarrow> mask_choice m = ''show'')
        \<longrightarrow> full_table_warning \<in> set (cp_warnings cp))"
proof -
  obtain acc where acc: "mask_loop cols (ps_column_masks spec) init_acc = Inr acc"
    "set (ma_warnings acc) \<union>
       (\<lambda>r. ''unknown column ignored: '' @ column_text r) ` {r \<in> set (ps_row_rules spec). \<not> known_rule cols r}
       \<subseteq> set (cp_warnings cp)"
    using assms(2) by (auto intro: compile_policy_InrE [OF assms(1)])
  have ms: "''unknown column ignored: '' @ c \<in> set (ma_warnings acc)"
    if "(c, m) \<in> set (ps_column_masks spec)" "c \<notin> fst ` set cols" for c m
    unfolding mask_loop_warnings [OF acc(1)] using that by (intro UnI2 image_eqI [of _ _ "(c, m)"]) auto
  show ?thesis
    using acc(2) ms compile_policy_full_table [OF assms] by (intro conjI) blast+
qed

theorem policy_drops_are_warned_witness:
  "\<exists>cp. compile_policy \<lparr>ps_table = Some ''t'', ps_row_rules = [\<lparr>rr_column = Some ''regoin'', rr_op = Some ''eq'', rr_value = RLit (LInt 1)\<rparr>],
        ps_row_combine = None, ps_column_masks = []\<rparr> [CName ''region''] = Inr cp
     \<and> ''unknown column ignored: regoin'' \<in> set (cp_warnings cp) \<and> full_table_warning \<in> set (cp_warnings cp)"
proof -
  let ?r = "\<lparr>rr_column = Some ''regoin'', rr_op = Some ''eq'', rr_value = RLit (LInt 1)\<rparr>"
  let ?s = "\<lparr>ps_table = Some ''t'', ps_row_rules = [?r], ps_row_combine = None, ps_column_masks = []\<rparr>"
  obtain cp where cp: "compile_policy ?s [CName ''region''] = Inr cp"
    by (simp add: compile_policy_def init_acc_def known_rule_def)
  from policy_drops_are_warned [OF cp, of "[(''region'', ''VARCHAR'')]"] cp show ?thesis
    by (simp add: known_rule_def column_text_def)
qed

end
