(* ===== verification/Policy.thy ===== *)
theory Policy
  imports TableAccess SqlText "HOL-Library.List_Lexorder" "HOL-Library.Char_ord"
begin

text \<open>
  The access-policy resolver, \<open>src/access_policy.py\<close>: the relation a caller may read instead of a
  table, its bind parameters, the rewriting of a caller's SQL, the response-cache identity and the
  disclosure envelope. sqlglot is a third-party parser and enters as the record \<open>sqlglot\<close>: parsing, the
  nodes the code walks over, transpiling, and the printing of a statement in which some table nodes
  were replaced. A replaced node prints as a sentinel, a fresh name drawn per node, which the code then
  replaces by the policy text; here the sentinel is the position of its node.
\<close>

section \<open>Exceptions and relations\<close>

datatype policy_exn =
  PolicyIdentityUnresolvable string | PolicyError string | PolicyNameCollision string | ValueError string

datatype bind_value = BText "string option" | BList "string list"

record policied_rel =
  relation_sql :: string
  params :: "string \<rightharpoonup> bind_value"
  policied :: bool
  rel_table_id :: string

record table_node =
  tn_name :: string
  tn_alias :: "string option"

datatype piece = Txt string | Sentinel nat

record 'st sqlglot =
  parse_one :: "string \<Rightarrow> string \<Rightarrow> 'st option"
  find_tables :: "'st \<Rightarrow> table_node list"
  cte_aliases :: "'st \<Rightarrow> string list"
  subquery_aliases :: "'st \<Rightarrow> string list"
  placeholders :: "'st \<Rightarrow> string list"
  transpile :: "string \<Rightarrow> string \<Rightarrow> string list option"
  print_sql :: "string \<Rightarrow> 'st \<Rightarrow> (nat \<rightharpoonup> string) \<Rightarrow> piece list"

section \<open>Resolution\<close>

definition KNOWN_VARIABLES :: "string list" where
  "KNOWN_VARIABLES = [''user_email'', ''user_id'', ''user_groups'']"

definition PATTERN_METACHARACTERS :: "char list" where
  "PATTERN_METACHARACTERS = [CHR 37, CHR 95]"

definition get_table_by_name :: "string \<Rightarrow> rdb \<Rightarrow> table_row option" where
  "get_table_by_name n R = find (\<lambda>r. tr_name r = n) (registry R)"

definition resolve_table_row :: "rdb \<Rightarrow> string \<Rightarrow> policy_exn + table_row" where
  "resolve_table_row R t =
     (case get_table t R of
        Some row \<Rightarrow> Inr row
      | None \<Rightarrow> (case get_table_by_name t R of Some row \<Rightarrow> Inr row | None \<Rightarrow> Inl (PolicyError t)))"

definition is_admin_bypass :: "rdb \<Rightarrow> caller \<Rightarrow> bool" where
  "is_admin_bypass R p =
     (case p of
        UserDict d \<Rightarrow>
          (case ud_id d of
             None \<Rightarrow> False
           | Some u \<Rightarrow> u \<noteq> [] \<and> is_user_admin u (auth R) \<and> credential_surface p = ''all'')
      | _ \<Rightarrow> False)"

definition live_groups :: "rdb \<Rightarrow> string option \<Rightarrow> string list" where
  "live_groups R u =
     (case u of None \<Rightarrow> [] | Some v \<Rightarrow> if v = [] then [] else list_group_names_for_user v (auth R))"

text \<open>The user id and email a policy binds; the groups are \<open>live_groups\<close> of the same id.\<close>

definition resolve_identity :: "caller \<Rightarrow> string \<Rightarrow> policy_exn + (string option \<times> string option)" where
  "resolve_identity p t =
     (case p of
        SessionPrincipal s us es m \<Rightarrow> Inl (PolicyIdentityUnresolvable t)
      | AgentPrincipal s a owner owner_email m \<Rightarrow> Inr (Some owner, Some owner_email)
      | UserDict d \<Rightarrow> Inr (ud_id d, ud_email d))"

definition referenced_variables :: "'st sqlglot \<Rightarrow> string \<Rightarrow> string \<Rightarrow> policy_exn + string set" where
  "referenced_variables sg policy_sql t =
     (case parse_one sg ''duckdb'' policy_sql of
        None \<Rightarrow> Inl (PolicyError t)
      | Some st \<Rightarrow> Inr {v \<in> set (placeholders sg st). v \<in> set KNOWN_VARIABLES})"

definition transpile_policy :: "'st sqlglot \<Rightarrow> string \<Rightarrow> string \<Rightarrow> string \<Rightarrow> policy_exn + string" where
  "transpile_policy sg target policy_sql t =
     (case transpile sg target policy_sql of
        None \<Rightarrow> Inl (PolicyError t)
      | Some [] \<Rightarrow> Inl (PolicyError t)
      | Some (s # ss) \<Rightarrow> Inr s)"

definition has_metachar :: "string \<Rightarrow> bool" where
  "has_metachar name = list_ex (\<lambda>ch. ch \<in> set name) PATTERN_METACHARACTERS"

definition bind_groups :: "rdb \<Rightarrow> string option \<Rightarrow> string set \<Rightarrow> string \<Rightarrow> policy_exn + (string \<rightharpoonup> bind_value)" where
  "bind_groups R u referenced t =
     (if ''user_groups'' \<notin> referenced then Inr Map.empty
      else let groups = live_groups R u in
        if list_ex has_metachar groups then Inl (PolicyError t)
        else Inr [''user_groups'' \<mapsto> BList groups])"

definition base_view_sql :: "table_row \<Rightarrow> string" where
  "base_view_sql row = ''SELECT * FROM '' @ quote_ident (tr_name row)"

definition policied_relation ::
  "'st sqlglot \<Rightarrow> rdb \<Rightarrow> string \<Rightarrow> string \<Rightarrow> caller \<Rightarrow> policy_exn + policied_rel" where
  "policied_relation sg R dialect t p =
     (if dialect \<notin> {''duckdb'', ''bigquery'', ''databricks''} then Inl (ValueError dialect)
      else rbind (resolve_table_row R t) (\<lambda>row.
        let passthrough = \<lparr>relation_sql = base_view_sql row, params = Map.empty, policied = False,
                           rel_table_id = tr_id row\<rparr>;
            policy_sql = or_default (tr_policy row) [] in
        if policy_sql = [] then Inr passthrough
        else if is_admin_bypass R p then Inr passthrough
        else rbind (resolve_identity p (tr_id row)) (\<lambda>(user_id, user_email).
          rbind (referenced_variables sg policy_sql (tr_id row)) (\<lambda>referenced.
          rbind (bind_groups R user_id referenced (tr_id row)) (\<lambda>groups.
          rbind (if dialect = ''bigquery'' \<or> dialect = ''databricks''
                 then transpile_policy sg dialect policy_sql (tr_id row) else Inr policy_sql) (\<lambda>sql.
            Inr \<lparr>relation_sql = sql,
                 params = (if ''user_email'' \<in> referenced then [''user_email'' \<mapsto> BText user_email] else Map.empty)
                   ++ (if ''user_id'' \<in> referenced then [''user_id'' \<mapsto> BText user_id] else Map.empty)
                   ++ groups,
                 policied = True, rel_table_id = tr_id row\<rparr>))))))"

section \<open>Rewriting a caller's SQL\<close>

definition ident_start :: "char \<Rightarrow> bool" where
  "ident_start c =
     (let n = (of_char c :: nat) in 65 \<le> n \<and> n \<le> 90 \<or> 97 \<le> n \<and> n \<le> 122 \<or> n = 95)"

definition ident_char :: "char \<Rightarrow> bool" where
  "ident_char c \<longleftrightarrow> ident_start c \<or> is_digit c"

text \<open>\<open>_IDENTIFIER_RE.finditer\<close>.\<close>

function ident_words :: "string \<Rightarrow> string list" where
  "ident_words [] = []"
| "ident_words (c # cs) =
     (if ident_start c then (c # takeWhile ident_char cs) # ident_words (dropWhile ident_char cs)
      else ident_words cs)"
  by pat_completeness auto
termination by (relation "measure length") (auto simp: length_dropWhile_le le_imp_less_Suc)

declare ident_words.simps [simp del]

type_synonym resolver = "string \<Rightarrow> caller \<Rightarrow> policy_exn + policied_rel"

fun scan_words :: "resolver \<Rightarrow> caller \<Rightarrow> string set \<Rightarrow> string list \<Rightarrow> policy_exn + string option" where
  "scan_words resolve p known [] = Inr None"
| "scan_words resolve p known (w # ws) =
     (if lower w \<in> known then scan_words resolve p known ws
      else case resolve w p of
        Inl (PolicyError t) \<Rightarrow> scan_words resolve p (insert (lower w) known) ws
      | Inl e \<Rightarrow> Inl e
      | Inr rel \<Rightarrow>
          if policied rel then Inr (Some (rel_table_id rel))
          else scan_words resolve p (insert (lower w) known) ws)"

definition scan_unparseable_for_policied_table :: "string \<Rightarrow> caller \<Rightarrow> resolver \<Rightarrow> policy_exn + string option" where
  "scan_unparseable_for_policied_table sql p resolve = scan_words resolve p {} (ident_words sql)"

text \<open>\<open>dict.setdefault\<close> over a sequence: the first spelling of each lowercased name, in order.\<close>

fun first_spellings :: "string list \<Rightarrow> string set \<Rightarrow> (string \<times> string) list" where
  "first_spellings [] known = []"
| "first_spellings (n # ns) known =
     (if lower n \<in> known then first_spellings ns known
      else (lower n, n) # first_spellings ns (insert (lower n) known))"

definition shadow_names :: "'st sqlglot \<Rightarrow> 'st \<Rightarrow> string list" where
  "shadow_names sg st = remdups (filter (\<lambda>n. n \<noteq> []) (cte_aliases sg st @ subquery_aliases sg st))"

definition candidate_names :: "'st sqlglot \<Rightarrow> 'st \<Rightarrow> (string \<times> string) list" where
  "candidate_names sg st =
     first_spellings (filter (\<lambda>n. n \<noteq> []) (map tn_name (find_tables sg st)) @ shadow_names sg st) {}"

fun resolve_candidates ::
  "resolver \<Rightarrow> caller \<Rightarrow> string set \<Rightarrow> (string \<times> string) list \<Rightarrow> policy_exn + (string \<times> policied_rel) list" where
  "resolve_candidates resolve p shadow [] = Inr []"
| "resolve_candidates resolve p shadow ((low, name) # cs) =
     (case resolve name p of
        Inl (PolicyError t) \<Rightarrow> resolve_candidates resolve p shadow cs
      | Inl e \<Rightarrow> Inl e
      | Inr rel \<Rightarrow>
          if \<not> policied rel then resolve_candidates resolve p shadow cs
          else if low \<in> shadow then Inl (PolicyNameCollision (rel_table_id rel))
          else rbind (resolve_candidates resolve p shadow cs) (\<lambda>m. Inr ((low, rel) # m)))"

definition node_relation :: "(string \<times> policied_rel) list \<Rightarrow> table_node \<Rightarrow> policied_rel option" where
  "node_relation relations n = (if tn_name n = [] then None else map_of relations (lower (tn_name n)))"

text \<open>The parameters and ids the loop over the nodes collects.\<close>

fun substitute :: "(string \<times> policied_rel) list \<Rightarrow> table_node list \<Rightarrow> (string \<rightharpoonup> bind_value) \<Rightarrow> string list
    \<Rightarrow> (string \<rightharpoonup> bind_value) \<times> string list" where
  "substitute relations [] ps ids = (ps, ids)"
| "substitute relations (n # ns) ps ids =
     (case node_relation relations n of
        None \<Rightarrow> substitute relations ns ps ids
      | Some rel \<Rightarrow>
          substitute relations ns (ps ++ params rel)
            (if rel_table_id rel \<in> set ids then ids else ids @ [rel_table_id rel]))"

text \<open>The replaced nodes with the alias each is given, and the text with its sentinels filled in.\<close>

definition replaced_nodes :: "(string \<times> policied_rel) list \<Rightarrow> table_node list \<Rightarrow> nat \<rightharpoonup> string" where
  "replaced_nodes relations ns k =
     (if k < length ns then
        map_option (\<lambda>_. case tn_alias (ns ! k) of Some a \<Rightarrow> a | None \<Rightarrow> tn_name (ns ! k)) (node_relation relations (ns ! k))
      else None)"

definition splice_policies :: "(string \<times> policied_rel) list \<Rightarrow> table_node list \<Rightarrow> piece list \<Rightarrow> string" where
  "splice_policies relations ns ps =
     concat (map (\<lambda>x. case x of
         Txt s \<Rightarrow> s
       | Sentinel k \<Rightarrow>
           (if k < length ns then case node_relation relations (ns ! k) of None \<Rightarrow> [] | Some rel \<Rightarrow> relation_sql rel
            else [])) ps)"

definition rewrite_sql ::
  "'st sqlglot \<Rightarrow> resolver \<Rightarrow> string \<Rightarrow> string \<Rightarrow> caller
     \<Rightarrow> policy_exn + (string \<times> (string \<rightharpoonup> bind_value) \<times> string list)" where
  "rewrite_sql sg resolve dialect sql p =
     (case parse_one sg dialect sql of
        None \<Rightarrow>
          rbind (scan_unparseable_for_policied_table sql p resolve) (\<lambda>found.
            case found of Some t \<Rightarrow> Inl (PolicyError t) | None \<Rightarrow> Inr (sql, Map.empty, []))
      | Some st \<Rightarrow>
          rbind (resolve_candidates resolve p (lower ` set (shadow_names sg st)) (candidate_names sg st)) (\<lambda>relations.
            if relations = [] then Inr (sql, Map.empty, [])
            else
              let ns = find_tables sg st; (ps, ids) = substitute relations ns Map.empty [] in
              Inr (splice_policies relations ns (print_sql sg dialect st (replaced_nodes relations ns)), ps, ids)))"

section \<open>Guards, caches and disclosure\<close>

fun unique_columns :: "string list \<Rightarrow> string set \<Rightarrow> bool" where
  "unique_columns [] known = True"
| "unique_columns (n # ns) known = (lower n \<notin> known \<and> unique_columns ns (insert (lower n) known))"

definition assert_unique_output_columns :: "string list \<Rightarrow> string \<Rightarrow> policy_exn + unit" where
  "assert_unique_output_columns names t = (if unique_columns names {} then Inr () else Inl (PolicyError t))"

text \<open>The read-path guard; \<open>describe\<close> gives the output columns the engine reports, or fails.\<close>

fun assert_policied_reads_unique ::
  "(string \<Rightarrow> (string \<rightharpoonup> bind_value) \<Rightarrow> string list option) \<Rightarrow> resolver \<Rightarrow> string list \<Rightarrow> caller \<Rightarrow> policy_exn + unit" where
  "assert_policied_reads_unique describe resolve [] p = Inr ()"
| "assert_policied_reads_unique describe resolve (t # ts) p =
     rbind (resolve t p) (\<lambda>rel.
       if \<not> policied rel then assert_policied_reads_unique describe resolve ts p
       else case describe (relation_sql rel) (params rel) of
         None \<Rightarrow> Inl (PolicyError t)
       | Some cols \<Rightarrow>
           rbind (assert_unique_output_columns cols t) (\<lambda>_. assert_policied_reads_unique describe resolve ts p))"

definition assert_policy_substitution_complete :: "string list \<Rightarrow> string list \<Rightarrow> policy_exn + unit" where
  "assert_policy_substitution_complete expected actual =
     (case filter (\<lambda>t. t \<notin> set actual) expected of [] \<Rightarrow> Inr () | t # ts \<Rightarrow> Inl (PolicyError t))"

definition table_is_registered :: "rdb \<Rightarrow> string \<Rightarrow> bool" where
  "table_is_registered R t \<longleftrightarrow> get_table t R \<noteq> None \<or> get_table_by_name t R \<noteq> None"

text \<open>\<open>dict.fromkeys\<close>: first occurrences, in order.\<close>

fun first_occurrences :: "string list \<Rightarrow> string set \<Rightarrow> string list" where
  "first_occurrences [] known = []"
| "first_occurrences (x # xs) known =
     (if x \<in> known then first_occurrences xs known else x # first_occurrences xs (insert x known))"

definition row_scope_payload :: "string list \<Rightarrow> (string list \<times> string) option" where
  "row_scope_payload ids0 =
     (let ids = first_occurrences ids0 {} in
      if ids = [] then None
      else Some (ids, ''rows in '' @ py_join '', '' (map (\<lambda>i. [sq] @ i @ [sq]) ids)
             @ '' are filtered by an access policy -- this is your slice, not the whole table''))"

definition policy_cache_identity :: "rdb \<Rightarrow> caller \<Rightarrow> string \<Rightarrow> policy_exn + (string option \<times> string list)" where
  "policy_cache_identity R p t =
     rbind (resolve_identity p t) (\<lambda>(user_id, user_email). Inr (user_id, sort (live_groups R user_id)))"

section \<open>What a relation contains\<close>

lemma bind_groups_Inr:
  "bind_groups R u referenced t = Inr g \<longleftrightarrow>
     (if ''user_groups'' \<in> referenced
      then \<not> list_ex has_metachar (live_groups R u) \<and> g = [''user_groups'' \<mapsto> BList (live_groups R u)]
      else g = Map.empty)"
  by (auto simp: bind_groups_def Let_def)

lemma referenced_variables_Inr:
  "referenced_variables sg pol t = Inr vs \<longleftrightarrow>
     (\<exists>st. parse_one sg ''duckdb'' pol = Some st \<and> vs = set (placeholders sg st) \<inter> set KNOWN_VARIABLES)"
  by (auto simp: referenced_variables_def split: option.splits)

text \<open>The values a caller binds.\<close>

definition identity_binds :: "rdb \<Rightarrow> string option \<Rightarrow> string option \<Rightarrow> string \<rightharpoonup> bind_value" where
  "identity_binds R u e =
     [''user_email'' \<mapsto> BText e, ''user_id'' \<mapsto> BText u, ''user_groups'' \<mapsto> BList (live_groups R u)]"

lemma policied_relation_policied:
  assumes "policied_relation sg R d t p = Inr rel" "policied rel"
  obtains row u e st where
    "resolve_table_row R t = Inr row" "or_default (tr_policy row) [] \<noteq> []" "\<not> is_admin_bypass R p"
    "resolve_identity p (tr_id row) = Inr (u, e)" "rel_table_id rel = tr_id row"
    "parse_one sg ''duckdb'' (or_default (tr_policy row) []) = Some st"
    "params rel = identity_binds R u e |` (set (placeholders sg st) \<inter> set KNOWN_VARIABLES)"
    "''user_groups'' \<in> set (placeholders sg st) \<longrightarrow> \<not> list_ex has_metachar (live_groups R u)"
    "d = ''duckdb'' \<longrightarrow> relation_sql rel = or_default (tr_policy row) []"
proof -
  from assms(1) obtain row where row: "resolve_table_row R t = Inr row"
    by (auto simp: policied_relation_def rbind_eq_Inr split: if_splits)
  let ?pol = "or_default (tr_policy row) []"
  have pol: "?pol \<noteq> []" "\<not> is_admin_bypass R p"
    using assms row by (auto simp: policied_relation_def Let_def split: if_splits)
  with assms row obtain u e where id: "resolve_identity p (tr_id row) = Inr (u, e)"
    by (cases "resolve_identity p (tr_id row)") (auto simp: policied_relation_def Let_def split: if_splits)
  with assms row pol obtain vs where vs: "referenced_variables sg ?pol (tr_id row) = Inr vs"
    by (cases "referenced_variables sg ?pol (tr_id row)")
      (auto simp: policied_relation_def Let_def split: if_splits)
  with assms row pol id obtain g where g: "bind_groups R u vs (tr_id row) = Inr g"
    by (cases "bind_groups R u vs (tr_id row)") (auto simp: policied_relation_def Let_def split: if_splits)
  from vs obtain st where st: "parse_one sg ''duckdb'' ?pol = Some st"
    "vs = set (placeholders sg st) \<inter> set KNOWN_VARIABLES"
    by (auto simp: referenced_variables_Inr)
  from assms row pol id vs g obtain sql where sql: "d = ''duckdb'' \<longrightarrow> sql = ?pol"
    "rel = \<lparr>relation_sql = sql,
                 params = (if ''user_email'' \<in> vs then [''user_email'' \<mapsto> BText e] else Map.empty)
                   ++ (if ''user_id'' \<in> vs then [''user_id'' \<mapsto> BText u] else Map.empty)
                   ++ g,
                 policied = True, rel_table_id = tr_id row\<rparr>"
    by (auto simp: policied_relation_def Let_def rbind_eq_Inr split: if_splits)
  have "params rel = identity_binds R u e |` vs"
    using g st(2) unfolding sql(2) bind_groups_Inr
    by (auto simp: identity_binds_def restrict_map_def map_add_def KNOWN_VARIABLES_def fun_eq_iff split: if_splits)
  moreover have "''user_groups'' \<in> set (placeholders sg st) \<longrightarrow> \<not> list_ex has_metachar (live_groups R u)"
    using g st(2) by (auto simp: bind_groups_Inr KNOWN_VARIABLES_def split: if_splits)
  ultimately show thesis using that [OF row pol id _ st(1)] sql st(2) by simp
qed

lemma policied_relation_passthrough:
  assumes "policied_relation sg R d t p = Inr rel" "\<not> policied rel"
  shows "\<exists>row. resolve_table_row R t = Inr row \<and> (or_default (tr_policy row) [] = [] \<or> is_admin_bypass R p)
    \<and> rel = \<lparr>relation_sql = base_view_sql row, params = Map.empty, policied = False, rel_table_id = tr_id row\<rparr>"
  using assms by (auto simp: policied_relation_def Let_def rbind_eq_Inr split: if_splits)

text \<open>
  The reference the resolver is judged against, in terms of the tables and of the caller alone: who reads past policies, on
  whose behalf a caller asks, the groups of that person, and the values a policy may name.
\<close>

definition unrestricted_admin :: "rdb \<Rightarrow> caller \<Rightarrow> bool" where
  "unrestricted_admin R p \<longleftrightarrow>
     (\<exists>c u g. p = UserDict c \<and> ud_id c = Some u \<and> u \<noteq> [] \<and> ud_surface c \<in> {None, Some [], Some ''all''}
        \<and> find (\<lambda>g. ug_name g = ''Admin'') (ugroups (auth R)) = Some g
        \<and> (\<exists>m\<in>set (members (auth R)). m_user m = u \<and> m_group m = ug_id g))"

fun asks_for :: "caller \<Rightarrow> string option \<Rightarrow> string option \<Rightarrow> bool" where
  "asks_for (UserDict c) u e \<longleftrightarrow> u = ud_id c \<and> e = ud_email c"
| "asks_for (AgentPrincipal s ag owner owner_email m) u e \<longleftrightarrow> u = Some owner \<and> e = Some owner_email"
| "asks_for (SessionPrincipal s us es m) u e \<longleftrightarrow> False"

definition group_names_of :: "rdb \<Rightarrow> string option \<Rightarrow> string set" where
  "group_names_of R u =
     {ug_name g | g m. g \<in> set (ugroups (auth R)) \<and> m \<in> set (members (auth R)) \<and> m_group m = ug_id g
        \<and> u = Some (m_user m) \<and> m_user m \<noteq> []}"

definition policy_values :: "string option \<Rightarrow> string option \<Rightarrow> string list \<Rightarrow> string set \<Rightarrow> string \<rightharpoonup> bind_value" where
  "policy_values u e gs vars x =
     (if x \<notin> vars then None
      else if x = ''user_email'' then Some (BText e)
      else if x = ''user_id'' then Some (BText u)
      else if x = ''user_groups'' then Some (BList gs)
      else None)"

lemma admin_bypass_rows: "is_admin_bypass R p = unrestricted_admin R p"
proof -
  have surface: "credential_surface (UserDict c) = ''all'' \<longleftrightarrow> ud_surface c \<in> {None, Some [], Some ''all''}" for c
    by (cases "ud_surface c") (auto simp: credential_surface_def or_default_def)
  have groups: "i \<in> set (list_groups_for_user u db) \<longleftrightarrow> (\<exists>m\<in>set (members db). m_user m = u \<and> m_group m = i)" for i u db
    by (auto simp: list_groups_for_user_def)
  have admin: "is_user_admin u (auth R) \<longleftrightarrow>
      (\<exists>g. find (\<lambda>g. ug_name g = ''Admin'') (ugroups (auth R)) = Some g
         \<and> (\<exists>m\<in>set (members (auth R)). m_user m = u \<and> m_group m = ug_id g))" for u
    by (auto simp: is_user_admin_iff get_group_id_by_name_def get_group_by_name_def SYSTEM_ADMIN_GROUP_def groups)
  show ?thesis
    by (cases p) (auto simp: is_admin_bypass_def unrestricted_admin_def surface admin split: option.splits)
qed

lemma live_groups_rows: "set (live_groups R u) = group_names_of R u"
proof (cases "u = None \<or> u = Some []")
  case True
  then show ?thesis by (auto simp: live_groups_def group_names_of_def)
next
  case False
  then obtain v where v: "u = Some v" "v \<noteq> []" by auto
  have "n \<in> set (live_groups R u) \<longleftrightarrow> (\<exists>m\<in>set (members (auth R)). m_user m = v \<and>
      (\<exists>g\<in>set (ugroups (auth R)). ug_id g = m_group m \<and> ug_name g = n))" for n
    using v by (auto simp: live_groups_def list_group_names_for_user_def image_iff)
  moreover have "n \<in> group_names_of R u \<longleftrightarrow> (\<exists>m\<in>set (members (auth R)). m_user m = v \<and>
      (\<exists>g\<in>set (ugroups (auth R)). ug_id g = m_group m \<and> ug_name g = n))" for n
    using v unfolding group_names_of_def v(1) mem_Collect_eq option.inject by metis
  ultimately show ?thesis by blast
qed

lemma resolve_identity_rows: "resolve_identity p t = Inr (u, e) \<longleftrightarrow> asks_for p u e"
  by (cases p) (auto simp: resolve_identity_def)

lemma identity_binds_values:
  "identity_binds R u e |` (V \<inter> set KNOWN_VARIABLES) = policy_values u e (live_groups R u) V"
  by (auto simp: identity_binds_def restrict_map_def KNOWN_VARIABLES_def policy_values_def fun_eq_iff)

lemma resolve_table_row_rows:
  assumes "resolve_table_row R t = Inr row"
  shows "row \<in> set (registry R)" "tr_id row = t \<or> tr_name row = t \<and> (\<forall>r\<in>set (registry R). tr_id r \<noteq> t)"
proof -
  have "row \<in> set (registry R) \<and> (tr_id row = t \<or> tr_name row = t \<and> (\<forall>r\<in>set (registry R). tr_id r \<noteq> t))"
  proof (cases "find (\<lambda>r. tr_id r = t) (registry R)")
    case None
    then have "find (\<lambda>r. tr_name r = t) (registry R) = Some row"
      using assms by (simp add: resolve_table_row_def get_table_def get_table_by_name_def split: option.splits)
    from find_SomeD [OF this] None show ?thesis by (simp add: find_None_iff)
  next
    case (Some row')
    then have "row' = row" using assms by (simp add: resolve_table_row_def get_table_def)
    with find_SomeD [OF Some] show ?thesis by simp
  qed
  then show "row \<in> set (registry R)" "tr_id row = t \<or> tr_name row = t \<and> (\<forall>r\<in>set (registry R). tr_id r \<noteq> t)"
    by simp_all
qed

lemma no_policy_iff: "or_default (tr_policy row) [] = [] \<longleftrightarrow> tr_policy row \<in> {None, Some []}"
  "tr_policy row \<notin> {None, Some []} \<longleftrightarrow> tr_policy row = Some (or_default (tr_policy row) []) \<and> or_default (tr_policy row) [] \<noteq> []"
  by (cases "tr_policy row"; auto simp: or_default_def)+

text \<open>
  C25. What the resolver gives a caller to read instead of a table. The answer is about the registered table of that id
  or, where there is none, of that name. It is the whole table exactly if the table has no policy or the caller is a
  member of the Admin group on a credential whose surface is not narrowed; an agent or a co-session never gets the
  whole of a table with a policy. Otherwise it is the policy, verbatim on DuckDB, with values for the variables it
  mentions and for nothing else: the email and the id of the user, or of the owner where an agent asks, and the names of the
  groups that person is a member of, none of which has a pattern character. A co-session gets no answer from a
  policy.
\<close>

theorem policied_relation_exact:
  assumes "policied_relation sg R d t p = Inr rel"
  shows "\<exists>row. row \<in> set (registry R)
    \<and> (tr_id row = t \<or> tr_name row = t \<and> (\<forall>r\<in>set (registry R). tr_id r \<noteq> t))
    \<and> rel_table_id rel = tr_id row
    \<and> (\<not> policied rel \<longleftrightarrow> tr_policy row \<in> {None, Some []} \<or> unrestricted_admin R p)
    \<and> (if \<not> policied rel
       then relation_sql rel = ''SELECT * FROM '' @ quote_ident (tr_name row) \<and> params rel = Map.empty
       else (\<exists>pol st u e gs. tr_policy row = Some pol \<and> (d = ''duckdb'' \<longrightarrow> relation_sql rel = pol)
              \<and> parse_one sg ''duckdb'' pol = Some st
              \<and> asks_for p u e \<and> set gs = group_names_of R u
              \<and> params rel = policy_values u e gs (set (placeholders sg st))
              \<and> (''user_groups'' \<in> set (placeholders sg st) \<longrightarrow>
                    (\<forall>g\<in>set gs. CHR ''%'' \<notin> set g \<and> CHR ''_'' \<notin> set g))))"
proof (cases "policied rel")
  case True
  obtain row u e st where r: "resolve_table_row R t = Inr row" "or_default (tr_policy row) [] \<noteq> []" "\<not> is_admin_bypass R p"
    "resolve_identity p (tr_id row) = Inr (u, e)" "rel_table_id rel = tr_id row"
    "parse_one sg ''duckdb'' (or_default (tr_policy row) []) = Some st"
    "params rel = identity_binds R u e |` (set (placeholders sg st) \<inter> set KNOWN_VARIABLES)"
    "''user_groups'' \<in> set (placeholders sg st) \<longrightarrow> \<not> list_ex has_metachar (live_groups R u)"
    "d = ''duckdb'' \<longrightarrow> relation_sql rel = or_default (tr_policy row) []"
    by (rule policied_relation_policied [OF assms True])
  have pol: "tr_policy row \<notin> {None, Some []}" using r(2) unfolding no_policy_iff(1) .
  have meta: "''user_groups'' \<in> set (placeholders sg st) \<longrightarrow>
      (\<forall>g\<in>set (live_groups R u). CHR ''%'' \<notin> set g \<and> CHR ''_'' \<notin> set g)"
    using r(8) by (simp add: list_ex_iff has_metachar_def PATTERN_METACHARACTERS_def)
  have whole: "\<not> policied rel \<longleftrightarrow> tr_policy row \<in> {None, Some []} \<or> unrestricted_admin R p"
    using True pol r(3) unfolding admin_bypass_rows by blast
  have body: "tr_policy row = Some (or_default (tr_policy row) [])" using pol unfolding no_policy_iff(2) ..
  have "\<exists>pol st u e gs. tr_policy row = Some pol \<and> (d = ''duckdb'' \<longrightarrow> relation_sql rel = pol)
      \<and> parse_one sg ''duckdb'' pol = Some st \<and> asks_for p u e \<and> set gs = group_names_of R u
      \<and> params rel = policy_values u e gs (set (placeholders sg st))
      \<and> (''user_groups'' \<in> set (placeholders sg st) \<longrightarrow> (\<forall>g\<in>set gs. CHR ''%'' \<notin> set g \<and> CHR ''_'' \<notin> set g))"
    using body r(9,6) r(4) [unfolded resolve_identity_rows] live_groups_rows r(7) [unfolded identity_binds_values] meta
    by (intro exI conjI)
  then show ?thesis
    using resolve_table_row_rows [OF r(1)] r(5) whole True
    by (intro exI [of _ row] conjI) (simp_all only: not_True_eq_False if_False)
next
  case False
  then obtain row where r: "resolve_table_row R t = Inr row" "or_default (tr_policy row) [] = [] \<or> is_admin_bypass R p"
    "rel = \<lparr>relation_sql = base_view_sql row, params = Map.empty, policied = False, rel_table_id = tr_id row\<rparr>"
    using policied_relation_passthrough [OF assms] by blast
  show ?thesis
  proof (intro exI [of _ row] conjI)
    show "row \<in> set (registry R)" "tr_id row = t \<or> tr_name row = t \<and> (\<forall>r\<in>set (registry R). tr_id r \<noteq> t)"
      by (rule resolve_table_row_rows [OF r(1)])+
    show "\<not> policied rel \<longleftrightarrow> tr_policy row \<in> {None, Some []} \<or> unrestricted_admin R p"
      using False r(2) unfolding no_policy_iff(1) admin_bypass_rows by blast
  qed (use r(3) in \<open>simp_all add: base_view_sql_def\<close>)
qed

text \<open>
  An agent reads a policied table as its owner and never with the owner's administrator bypass: for
  every table its relation is the one its owner gets on a credential narrowed to the stack. A session
  with several participants has no identity to bind, and is refused wherever there is a policy.
\<close>

theorem agent_reads_as_owner:
  "policied_relation sg R d t (AgentPrincipal s a ow oe m)
     = policied_relation sg R d t (UserDict \<lparr>ud_id = Some ow, ud_email = Some oe, ud_surface = Some ''stack''\<rparr>)
   \<and> (d \<in> {''duckdb'', ''bigquery'', ''databricks''} \<and> resolve_table_row R t = Inr row
        \<and> or_default (tr_policy row) [] \<noteq> []
      \<longrightarrow> policied_relation sg R d t (SessionPrincipal s us es m) = Inl (PolicyIdentityUnresolvable (tr_id row)))"
proof -
  let ?u = "UserDict \<lparr>ud_id = Some ow, ud_email = Some oe, ud_surface = Some ''stack''\<rparr>"
  have nb: "is_admin_bypass R ?u = False" "is_admin_bypass R (AgentPrincipal s a ow oe m) = False"
    "is_admin_bypass R (SessionPrincipal s us es m) = False"
    by (simp_all add: is_admin_bypass_def credential_surface_def or_default_def)
  have id: "resolve_identity ?u x = resolve_identity (AgentPrincipal s a ow oe m) x"
    "resolve_identity (SessionPrincipal s us es m) x = Inl (PolicyIdentityUnresolvable x)" for x
    by (simp_all add: resolve_identity_def)
  show ?thesis unfolding policied_relation_def nb id by auto
qed

section \<open>What a rewritten statement reads\<close>





















section \<open>Where enforcement fails open\<close>

text \<open>A statement that reads one table and introduces no name of its own.\<close>

definition reads_only :: "'st sqlglot \<Rightarrow> 'st \<Rightarrow> string \<Rightarrow> bool" where
  "reads_only sg st t \<longleftrightarrow>
     map tn_name (find_tables sg st) = [t] \<and> t \<noteq> [] \<and> cte_aliases sg st = [] \<and> subquery_aliases sg st = []"

lemma reads_only_candidates: "reads_only sg st t \<Longrightarrow> candidate_names sg st = [(lower t, t)] \<and> shadow_names sg st = []"
  by (simp add: reads_only_def candidate_names_def shadow_names_def)

lemma rewrite_swallows:
  assumes "parse_one sg d sql = Some st" "reads_only sg st t" "resolve t p = Inl (PolicyError x)"
  shows "rewrite_sql sg resolve d sql p = Inr (sql, Map.empty, [])"
  using assms reads_only_candidates [OF assms(2)] by (simp add: rewrite_sql_def)

lemma rewrite_replaces:
  assumes "parse_one sg d sql = Some st" "reads_only sg st t" "resolve t p = Inr rel" "policied rel"
  shows "\<exists>sql'. rewrite_sql sg resolve d sql p = Inr (sql', params rel, [rel_table_id rel])"
proof -
  obtain n where "find_tables sg st = [n]" "tn_name n = t" "t \<noteq> []"
    using assms(2) by (auto simp: reads_only_def)
  then show ?thesis using assms reads_only_candidates [OF assms(2)]
    by (simp add: rewrite_sql_def node_relation_def Let_def)
qed

text \<open>
  A group name with an underscore or a percent sign switches a policy off. For such a member the resolver
  refuses the table with a \<open>PolicyError\<close>, as it means to; but the rewrite takes every \<open>PolicyError\<close> for an
  unregistered name, so the statement goes on unchanged, with no policied table reported, and reads the whole
  table.
\<close>

theorem wildcard_group_unfiltered:
  assumes "resolve_table_row R t = Inr row"
    and "or_default (tr_policy row) [] = pol" "pol \<noteq> []"
    and "parse_one sg ''duckdb'' pol = Some pst" "''user_groups'' \<in> set (placeholders sg pst)"
    and "ud_id d = Some u" "\<not> is_admin_bypass R (UserDict d)"
    and "list_ex has_metachar (live_groups R (Some u))"
    and "parse_one sg ''duckdb'' sql = Some st" "reads_only sg st t"
  shows "policied_relation sg R ''duckdb'' t (UserDict d) = Inl (PolicyError (tr_id row))
    \<and> rewrite_sql sg (policied_relation sg R ''duckdb'') ''duckdb'' sql (UserDict d) = Inr (sql, Map.empty, [])"
proof -
  have "policied_relation sg R ''duckdb'' t (UserDict d) = Inl (PolicyError (tr_id row))"
    using assms(1-8)
    by (simp add: policied_relation_def resolve_identity_def referenced_variables_def KNOWN_VARIABLES_def
        bind_groups_def)
  with rewrite_swallows [OF assms(9,10), of "policied_relation sg R ''duckdb''"] show ?thesis by blast
qed

text \<open>
  A change of case switches a policy off. The rewrite means to match names without regard to case, but
  it resolves the caller's own spelling and the registry compares exactly: a statement that names a policied
  table by its registered name is rewritten, and the same statement with the name in other letters, which
  DuckDB reads as the same table, comes back unchanged with nothing reported.
\<close>

theorem case_variant_unfiltered:
  assumes "policied_relation sg R ''duckdb'' name p = Inr rel" "policied rel"
    and "parse_one sg ''duckdb'' sql = Some st" "reads_only sg st name"
    and "lower t = lower name" "get_table t R = None" "get_table_by_name t R = None"
    and "parse_one sg ''duckdb'' sql2 = Some st2" "reads_only sg st2 t"
  shows "(\<exists>sql'. rewrite_sql sg (policied_relation sg R ''duckdb'') ''duckdb'' sql p
            = Inr (sql', params rel, [rel_table_id rel]))
    \<and> rewrite_sql sg (policied_relation sg R ''duckdb'') ''duckdb'' sql2 p = Inr (sql2, Map.empty, [])"
proof
  show "\<exists>sql'. rewrite_sql sg (policied_relation sg R ''duckdb'') ''duckdb'' sql p
      = Inr (sql', params rel, [rel_table_id rel])"
    by (rule rewrite_replaces [where resolve = "policied_relation sg R ''duckdb''", OF assms(3,4,1,2)])
  have "policied_relation sg R ''duckdb'' t p = Inl (PolicyError t)"
    using assms(6,7) by (simp add: policied_relation_def resolve_table_row_def)
  then show "rewrite_sql sg (policied_relation sg R ''duckdb'') ''duckdb'' sql2 p = Inr (sql2, Map.empty, [])"
    by (rule rewrite_swallows [where resolve = "policied_relation sg R ''duckdb''", OF assms(8,9)])
qed

text \<open>
  Nor is it the spelling of the node that decides, but the first in the statement: in one that reads a policied table
  twice, first in other letters, both reads stay.
\<close>

theorem second_spelling_unfiltered:
  assumes "parse_one sg ''duckdb'' sql = Some st" "map tn_name (find_tables sg st) = [t, name]" "t \<noteq> []" "name \<noteq> []"
    and "cte_aliases sg st = []" "subquery_aliases sg st = []"
    and "lower t = lower name" "get_table t R = None" "get_table_by_name t R = None"
  shows "rewrite_sql sg (policied_relation sg R ''duckdb'') ''duckdb'' sql p = Inr (sql, Map.empty, [])"
proof -
  have "policied_relation sg R ''duckdb'' t p = Inl (PolicyError t)"
    using assms(8,9) by (simp add: policied_relation_def resolve_table_row_def)
  moreover have "candidate_names sg st = [(lower t, t)]" "shadow_names sg st = []"
    using assms(2-7) by (simp_all add: candidate_names_def shadow_names_def)
  ultimately show ?thesis using assms(1) by (simp add: rewrite_sql_def)
qed

section \<open>Shared response caches\<close>

text \<open>
  One cache entry, one slice. Two callers the response caches do not tell apart, because their key of user
  id and sorted live groups is the same, get the same relation for every table, provided both go through the
  policy and their email addresses agree: the email a policy may bind is not part of the key.
\<close>

theorem same_cache_key_same_relation:
  assumes "policy_cache_identity R p t' = Inr k" "policy_cache_identity R q t' = Inr k"
    and "\<not> is_admin_bypass R p" "\<not> is_admin_bypass R q"
    and "map_sum id snd (resolve_identity p t') = map_sum id snd (resolve_identity q t')"
  shows "policied_relation sg R d t p = policied_relation sg R d t q"
proof -
  obtain u e where p: "resolve_identity p t' = Inr (u, e)"
    using assms(1) by (auto simp: policy_cache_identity_def rbind_eq_Inr)
  obtain u2 e2 where q: "resolve_identity q t' = Inr (u2, e2)"
    using assms(2) by (auto simp: policy_cache_identity_def rbind_eq_Inr)
  have "u2 = u" "e2 = e" using assms(1,2,5) p q by (auto simp: policy_cache_identity_def)
  with p q have id: "resolve_identity p x = Inr (u, e)" "resolve_identity q x = Inr (u, e)" for x
    by (auto simp: resolve_identity_def split: caller.splits)
  have nb: "is_admin_bypass R p = False" "is_admin_bypass R q = False" using assms(3,4) by simp_all
  show ?thesis unfolding policied_relation_def id nb ..
qed

section \<open>A concrete instance\<close>

definition mini_sqlglot :: "string sqlglot" where
  "mini_sqlglot =
     \<lparr>parse_one = (\<lambda>d s. if s = [] then None else Some s),
      find_tables = (\<lambda>s. [\<lparr>tn_name = last (ident_words s), tn_alias = None\<rparr>]),
      cte_aliases = (\<lambda>s. []), subquery_aliases = (\<lambda>s. []),
      placeholders = (\<lambda>s. filter (\<lambda>w. w \<in> set KNOWN_VARIABLES) (ident_words s)),
      transpile = (\<lambda>d s. Some [s]),
      print_sql = (\<lambda>d s f. case f 0 of None \<Rightarrow> [Txt s]
         | Some a \<Rightarrow> [Txt ''SELECT * FROM ('', Sentinel 0, Txt '') AS '', Txt a])\<rparr>"

definition inv_policy :: string where
  "inv_policy = ''SELECT * FROM invoices WHERE list_contains($user_groups, cc)''"

definition inv_db :: "string \<Rightarrow> rdb" where
  "inv_db g = duo\<lparr>auth := one_group\<lparr>ugroups := [\<lparr>ug_id = ''g'', ug_name = g, ug_descr = None, ug_system = False,
        ug_at = 0, ug_by = None\<rparr>],
       members := [\<lparr>m_user = ''u1'', m_group = ''g'', m_source = ''admin'', m_at = 0, m_by = None\<rparr>]\<rparr>,
     registry := [\<lparr>tr_id = ''t1'', tr_name = ''invoices'', tr_source = None, tr_bucket = None, tr_policy = Some inv_policy\<rparr>]\<rparr>"

lemma inv_policy_words: "''user_groups'' \<in> set (ident_words inv_policy)" "inv_policy \<noteq> []"
  by code_simp+

lemma inv_groups: "live_groups (inv_db g) (Some ''u1'') = [g]"
  by (simp add: live_groups_def list_group_names_for_user_def inv_db_def duo_def one_group_def)

lemma inv_no_bypass: "g \<noteq> ''Admin'' \<Longrightarrow> \<not> is_admin_bypass (inv_db g) (UserDict analyst)"
  by (simp add: is_admin_bypass_def analyst_def is_user_admin_iff get_group_id_by_name_def get_group_by_name_def
      inv_db_def duo_def one_group_def SYSTEM_ADMIN_GROUP_def)

lemma inv_row: "resolve_table_row (inv_db g) ''invoices'' = Inr \<lparr>tr_id = ''t1'', tr_name = ''invoices'', tr_source = None,
    tr_bucket = None, tr_policy = Some inv_policy\<rparr>"
  by (simp add: resolve_table_row_def get_table_def get_table_by_name_def inv_db_def)

lemma mini_parse: "s \<noteq> [] \<Longrightarrow> parse_one mini_sqlglot d s = Some s"
  by (simp add: mini_sqlglot_def)

lemma mini_reads:
  "reads_only mini_sqlglot ''SELECT * FROM invoices'' ''invoices''"
  "reads_only mini_sqlglot ''SELECT * FROM INVOICES'' ''INVOICES''"
proof -
  have "last (ident_words ''SELECT * FROM invoices'') = ''invoices''"
    "last (ident_words ''SELECT * FROM INVOICES'') = ''INVOICES''" by code_simp+
  then show "reads_only mini_sqlglot ''SELECT * FROM invoices'' ''invoices''"
    "reads_only mini_sqlglot ''SELECT * FROM INVOICES'' ''INVOICES''"
    by (simp_all add: reads_only_def mini_sqlglot_def)
qed

theorem wildcard_group_unfiltered_witness:
  "policied_relation mini_sqlglot (inv_db ''CC_A'') ''duckdb'' ''invoices'' (UserDict analyst) = Inl (PolicyError ''t1'')
   \<and> rewrite_sql mini_sqlglot (policied_relation mini_sqlglot (inv_db ''CC_A'') ''duckdb'') ''duckdb''
        ''SELECT * FROM invoices'' (UserDict analyst) = Inr (''SELECT * FROM invoices'', Map.empty, [])"
proof -
  have wild: "list_ex has_metachar (live_groups (inv_db ''CC_A'') (Some ''u1''))"
    unfolding inv_groups by code_simp
  have ph: "''user_groups'' \<in> set (placeholders mini_sqlglot inv_policy)"
    using inv_policy_words by (simp add: mini_sqlglot_def KNOWN_VARIABLES_def)
  have id: "ud_id analyst = Some ''u1''" by (simp add: analyst_def)
  have pol: "or_default (Some inv_policy) [] = inv_policy" by (simp add: or_default_def inv_policy_words)
  have stmt: "parse_one mini_sqlglot ''duckdb'' ''SELECT * FROM invoices'' = Some ''SELECT * FROM invoices''"
    by (rule mini_parse) simp
  have nb: "\<not> is_admin_bypass (inv_db ''CC_A'') (UserDict analyst)" by (rule inv_no_bypass) simp
  have "or_default (tr_policy \<lparr>tr_id = ''t1'', tr_name = ''invoices'', tr_source = None, tr_bucket = None,
      tr_policy = Some inv_policy\<rparr>) [] = inv_policy" using pol by simp
  from wildcard_group_unfiltered [OF inv_row this inv_policy_words(2) mini_parse [OF inv_policy_words(2)] ph id nb wild
      stmt mini_reads(1)] show ?thesis by simp
qed

definition inv_rel :: policied_rel where
  "inv_rel = \<lparr>relation_sql = inv_policy, params = [''user_groups'' \<mapsto> BList [''sales'']], policied = True, rel_table_id = ''t1''\<rparr>"

lemma inv_policy_placeholders: "placeholders mini_sqlglot inv_policy = [''user_groups'']"
  by (simp add: mini_sqlglot_def) code_simp

lemma inv_relation:
  "policied_relation mini_sqlglot (inv_db ''sales'') ''duckdb'' ''invoices'' (UserDict analyst) = Inr inv_rel"
proof -
  have "has_metachar ''sales'' = False" by code_simp
  then show ?thesis
    using inv_no_bypass [of "''sales''"] inv_groups [of "''sales''"] inv_policy_words(2)
    by (simp add: policied_relation_def inv_row or_default_def resolve_identity_def referenced_variables_def
        mini_parse inv_policy_placeholders KNOWN_VARIABLES_def bind_groups_def analyst_def inv_rel_def)
qed

theorem case_variant_unfiltered_witness:
  "(\<exists>sql'. rewrite_sql mini_sqlglot (policied_relation mini_sqlglot (inv_db ''sales'') ''duckdb'') ''duckdb''
      ''SELECT * FROM invoices'' (UserDict analyst) = Inr (sql', params inv_rel, [''t1'']))
   \<and> rewrite_sql mini_sqlglot (policied_relation mini_sqlglot (inv_db ''sales'') ''duckdb'') ''duckdb''
      ''SELECT * FROM INVOICES'' (UserDict analyst) = Inr (''SELECT * FROM INVOICES'', Map.empty, [])"
proof -
  have "lower ''INVOICES'' = lower ''invoices''" by code_simp
  moreover have "get_table ''INVOICES'' (inv_db ''sales'') = None" "get_table_by_name ''INVOICES'' (inv_db ''sales'') = None"
    by (simp_all add: get_table_def get_table_by_name_def inv_db_def)
  ultimately show ?thesis
    using case_variant_unfiltered [OF inv_relation _ mini_parse mini_reads(1) _ _ _ mini_parse mini_reads(2)]
    by (simp add: inv_rel_def)
qed

theorem policied_relation_exact_witness:
  "\<not> unrestricted_admin (inv_db ''sales'') (UserDict analyst) \<and> group_names_of (inv_db ''sales'') (Some ''u1'') = {''sales''}
   \<and> (\<exists>row\<in>set (registry (inv_db ''sales'')). tr_id row = ''t1'')"
proof -
  have rel: "policied inv_rel" "rel_table_id inv_rel = ''t1''" by (simp_all add: inv_rel_def)
  obtain row where row: "row \<in> set (registry (inv_db ''sales''))" "rel_table_id inv_rel = tr_id row"
    "\<not> policied inv_rel \<longleftrightarrow> tr_policy row \<in> {None, Some []} \<or> unrestricted_admin (inv_db ''sales'') (UserDict analyst)"
    using policied_relation_exact [OF inv_relation] by blast
  moreover have "group_names_of (inv_db ''sales'') (Some ''u1'') = {''sales''}"
    using live_groups_rows [of "inv_db ''sales''" "Some ''u1''"] inv_groups [of "''sales''"] by simp
  ultimately show ?thesis using rel by auto
qed

theorem agent_reads_as_owner_witness:
  "policied_relation mini_sqlglot (inv_db ''sales'') ''duckdb'' ''invoices'' (AgentPrincipal ''s'' ''ag'' ''u1'' ''a@b'' Map.empty)
     = policied_relation mini_sqlglot (inv_db ''sales'') ''duckdb'' ''invoices''
         (UserDict \<lparr>ud_id = Some ''u1'', ud_email = Some ''a@b'', ud_surface = Some ''stack''\<rparr>)
   \<and> policied_relation mini_sqlglot (inv_db ''sales'') ''duckdb'' ''invoices'' (SessionPrincipal ''s'' [''u1''] [] Map.empty)
       = Inl (PolicyIdentityUnresolvable ''t1'')"
  using agent_reads_as_owner [of mini_sqlglot "inv_db ''sales''" "''duckdb''" "''invoices''" "''s''" "''ag''" "''u1''" "''a@b''"
      Map.empty "\<lparr>tr_id = ''t1'', tr_name = ''invoices'', tr_source = None, tr_bucket = None, tr_policy = Some inv_policy\<rparr>"
      "[''u1'']" "[]"] inv_row inv_policy_words(2)
  by (simp add: or_default_def)


theorem same_cache_key_same_relation_witness:
  "policied_relation mini_sqlglot (inv_db ''sales'') ''duckdb'' ''invoices''
      (UserDict \<lparr>ud_id = Some ''u1'', ud_email = Some ''a@b'', ud_surface = Some ''stack''\<rparr>)
   = policied_relation mini_sqlglot (inv_db ''sales'') ''duckdb'' ''invoices'' (AgentPrincipal ''s'' ''ag'' ''u1'' ''a@b'' Map.empty)"
proof (rule same_cache_key_same_relation [of _ _ "''t1''" "(Some ''u1'', sort (live_groups (inv_db ''sales'') (Some ''u1'')))"])
qed (simp_all add: policy_cache_identity_def resolve_identity_def is_admin_bypass_def credential_surface_def or_default_def)

section \<open>Table-id surfaces, schema and fingerprint\<close>

text \<open>
  \<open>with_info\<close> is what the parser and tokenizer say of a body that opens with a \<open>WITH\<close> clause: whether it
  is recursive, and the end offsets of its tokens.
\<close>

definition policied_from_sql ::
  "(string \<Rightarrow> (bool \<times> nat list) option) \<Rightarrow> policied_rel \<Rightarrow> string \<Rightarrow> string \<Rightarrow> policy_exn + string" where
  "policied_from_sql with_info rel table_name source_sql =
     (if \<not> policied rel then Inl (ValueError ''policied_from_sql() called on a non-policied relation'')
      else
        let body = relation_sql rel;
            source_cte = quote_ident table_name @ '' AS (SELECT * FROM '' @ source_sql @ '')'' in
        case with_info body of
          None \<Rightarrow> Inr (''(WITH '' @ source_cte @ '' '' @ body @ '')'')
        | Some (recursive, ends) \<Rightarrow>
            let skip_tokens = (if recursive then 2 else 1) in
            if length ends < skip_tokens then Inl (ValueError ''list index out of range'')
            else Inr (''(WITH '' @ (if recursive then ''RECURSIVE '' else []) @ source_cte @ '', ''
                   @ drop (ends ! (skip_tokens - 1) + 1) body @ '')''))"

record schema_column =
  sc_name :: string
  sc_type :: string
  sc_nullable :: bool
  sc_hidden :: bool

text \<open>A row of a DESCRIBE: name, type, and whether it reports \<open>YES\<close> for null.\<close>

type_synonym described = "string \<times> string \<times> bool"

definition effective_column :: "described list \<Rightarrow> described \<Rightarrow> schema_column" where
  "effective_column eff r =
     (case map_of eff (fst r) of
        None \<Rightarrow> \<lparr>sc_name = fst r, sc_type = fst (snd r), sc_nullable = snd (snd r), sc_hidden = True\<rparr>
      | Some (t, n) \<Rightarrow> \<lparr>sc_name = fst r, sc_type = t, sc_nullable = n, sc_hidden = False\<rparr>)"

fun added_columns :: "described list \<Rightarrow> string set \<Rightarrow> schema_column list" where
  "added_columns [] names = []"
| "added_columns (r # rs) names =
     (if fst r \<in> names then added_columns rs names
      else \<lparr>sc_name = fst r, sc_type = fst (snd r), sc_nullable = snd (snd r), sc_hidden = False\<rparr>
        # added_columns rs (insert (fst r) names))"

definition effective_schema ::
  "(string \<Rightarrow> (string \<rightharpoonup> bind_value) \<Rightarrow> described list option) \<Rightarrow> (string \<Rightarrow> (bool \<times> nat list) option)
     \<Rightarrow> 'st sqlglot \<Rightarrow> rdb \<Rightarrow> string \<Rightarrow> caller \<Rightarrow> policy_exn + schema_column list option" where
  "effective_schema describe with_info sg R t p =
     rbind (policied_relation sg R ''duckdb'' t p) (\<lambda>rel.
       if \<not> policied rel then Inr None
       else rbind (resolve_table_row R (rel_table_id rel)) (\<lambda>row.
         let base_ref = quote_ident (tr_name row) in
         case describe base_ref Map.empty of
           None \<Rightarrow> Inl (PolicyError (rel_table_id rel))
         | Some base_rows \<Rightarrow>
             rbind (policied_from_sql with_info rel (tr_name row) base_ref) (\<lambda>wrapped.
               case describe wrapped (params rel) of
                 None \<Rightarrow> Inl (PolicyError (rel_table_id rel))
               | Some effective_rows \<Rightarrow>
                   Inr (Some (map (effective_column effective_rows) base_rows
                     @ added_columns effective_rows (fst ` set base_rows))))))"

text \<open>
  \<open>repr\<close> of a list of strings, on printable ASCII: single quotes unless the text has one and no double
  quote, with the backslash and the quote escaped.
\<close>

definition py_repr_str :: "string \<Rightarrow> string" where
  "py_repr_str s =
     (let q = (if sq \<in> set s \<and> dq \<notin> set s then dq else sq) in
      [q] @ concat (map (\<lambda>c. if c = CHR 92 \<or> c = q then [CHR 92, c] else [c]) s) @ [q])"

definition policy_fingerprint ::
  "(string \<Rightarrow> string) \<Rightarrow> rdb \<Rightarrow> string \<Rightarrow> caller \<Rightarrow> policy_exn + string option" where
  "policy_fingerprint sha256 R t p =
     rbind (resolve_table_row R t) (\<lambda>row.
       let policy_sql = or_default (tr_policy row) [] in
       if policy_sql = [] then Inr None
       else if is_admin_bypass R p then Inr None
       else rbind (policy_cache_identity R p (tr_id row)) (\<lambda>(u, groups).
         Inr (Some (sha256 (policy_sql @ ''|['' @ py_join '', '' (map py_repr_str (sort groups)) @ '']'')))))"

lemma added_columns_names:
  "set (map sc_name (added_columns rs names)) = fst ` set rs - names \<and> list_all (\<lambda>c. \<not> sc_hidden c) (added_columns rs names)"
  by (induction rs names rule: added_columns.induct) auto

lemma effective_columns_names:
  "sc_name (effective_column eff r) = fst r"
  "sc_hidden (effective_column eff r) \<longleftrightarrow> fst r \<notin> fst ` set eff"
proof -
  have "sc_name (effective_column eff r) = fst r \<and> (sc_hidden (effective_column eff r) \<longleftrightarrow> map_of eff (fst r) = None)"
    by (simp add: effective_column_def split: option.split)
  then show "sc_name (effective_column eff r) = fst r"
    "sc_hidden (effective_column eff r) \<longleftrightarrow> fst r \<notin> fst ` set eff"
    by (simp_all add: map_of_eq_None_iff)
qed

text \<open>
  The schema surface never advertises a column the policy withholds. For a policied table the columns
  marked visible are exactly those the policy's own relation returns, whether the base table has them or not,
  and the hidden ones are exactly the base columns it does not return.
\<close>

theorem effective_schema_exact:
  assumes "effective_schema describe with_info sg R t p = Inr (Some cols)"
  shows "\<exists>rel row base wrapped eff.
    policied_relation sg R ''duckdb'' t p = Inr rel \<and> policied rel
    \<and> resolve_table_row R (rel_table_id rel) = Inr row
    \<and> describe (quote_ident (tr_name row)) Map.empty = Some base
    \<and> policied_from_sql with_info rel (tr_name row) (quote_ident (tr_name row)) = Inr wrapped
    \<and> describe wrapped (params rel) = Some eff
    \<and> sc_name ` {c \<in> set cols. \<not> sc_hidden c} = fst ` set eff
    \<and> sc_name ` {c \<in> set cols. sc_hidden c} = fst ` set base - fst ` set eff"
proof -
  from assms obtain rel where rel: "policied_relation sg R ''duckdb'' t p = Inr rel" "policied rel"
    by (auto simp: effective_schema_def rbind_eq_Inr split: if_splits)
  with assms obtain row where row: "resolve_table_row R (rel_table_id rel) = Inr row"
    by (auto simp: effective_schema_def rbind_eq_Inr)
  with assms rel obtain base where base: "describe (quote_ident (tr_name row)) Map.empty = Some base"
    by (auto simp: effective_schema_def Let_def split: option.splits)
  with assms rel row obtain wrapped where
    w: "policied_from_sql with_info rel (tr_name row) (quote_ident (tr_name row)) = Inr wrapped"
    by (auto simp: effective_schema_def Let_def rbind_eq_Inr)
  with assms rel row base obtain eff where eff: "describe wrapped (params rel) = Some eff"
    "cols = map (effective_column eff) base @ added_columns eff (fst ` set base)"
    by (auto simp: effective_schema_def Let_def split: option.splits)
  note f = rel base w eff
  note added = added_columns_names [of eff "fst ` set base"]
  have nb: "sc_name ` {c \<in> effective_column eff ` set base. P (sc_name c)} = {n \<in> fst ` set base. P n}" for P
  proof -
    have "{c \<in> effective_column eff ` set base. P (sc_name c)} = effective_column eff ` {r \<in> set base. P (fst r)}"
      by (auto simp: effective_columns_names)
    then show ?thesis by (auto simp: image_image effective_columns_names)
  qed
  have hid: "sc_hidden c \<longleftrightarrow> sc_name c \<notin> fst ` set eff" if "c \<in> effective_column eff ` set base" for c
    using that by (elim imageE) (simp only: effective_columns_names)
  have vis: "\<not> sc_hidden c" if "c \<in> set (added_columns eff (fst ` set base))" for c
    using added that by (simp add: list_all_iff)
  have "{c \<in> set cols. \<not> sc_hidden c}
      = {c \<in> effective_column eff ` set base. sc_name c \<in> fst ` set eff} \<union> set (added_columns eff (fst ` set base))"
    unfolding f(6) set_append set_map using hid vis by blast
  then have "sc_name ` {c \<in> set cols. \<not> sc_hidden c}
      = {n \<in> fst ` set base. n \<in> fst ` set eff} \<union> (fst ` set eff - fst ` set base)"
    by (simp only: image_Un nb [of "\<lambda>n. n \<in> fst ` set eff"] added [THEN conjunct1, unfolded set_map])
  also have "\<dots> = fst ` set eff" by blast
  finally have "sc_name ` {c \<in> set cols. \<not> sc_hidden c} = fst ` set eff" .
  moreover have "{c \<in> set cols. sc_hidden c} = {c \<in> effective_column eff ` set base. sc_name c \<notin> fst ` set eff}"
    unfolding f(6) set_append set_map using hid vis by blast
  then have "sc_name ` {c \<in> set cols. sc_hidden c} = fst ` set base - fst ` set eff"
    by (simp only: nb [of "\<lambda>n. n \<notin> fst ` set eff"]) blast
  ultimately show ?thesis using f(1-5) row
    by (intro exI [of _ rel] exI [of _ row] exI [of _ base] exI [of _ wrapped] exI [of _ eff] conjI)
qed

theorem effective_schema_exact_witness:
  "\<exists>cols. effective_schema (\<lambda>q ps. Some (if ps = Map.empty then [(''id'', ''INTEGER'', True), (''iban'', ''VARCHAR'', True)]
        else [(''id'', ''INTEGER'', True)])) (\<lambda>b. None) mini_sqlglot (inv_db ''sales'') ''invoices'' (UserDict analyst)
       = Inr (Some cols)
     \<and> sc_name ` {c \<in> set cols. sc_hidden c} = {''iban''}"
proof -
  let ?d = "\<lambda>q ps. Some (if ps = Map.empty then [(''id'', ''INTEGER'', True), (''iban'', ''VARCHAR'', True)]
        else [(''id'', ''INTEGER'', True)])"
  have row: "resolve_table_row (inv_db ''sales'') ''t1'' = Inr \<lparr>tr_id = ''t1'', tr_name = ''invoices'', tr_source = None,
      tr_bucket = None, tr_policy = Some inv_policy\<rparr>"
    by (simp add: resolve_table_row_def get_table_def inv_db_def)
  obtain cols where c: "effective_schema ?d (\<lambda>b. None) mini_sqlglot (inv_db ''sales'') ''invoices'' (UserDict analyst) = Inr (Some cols)"
    by (simp add: effective_schema_def inv_relation inv_rel_def row policied_from_sql_def Let_def)
  from effective_schema_exact [OF c] inv_relation have "sc_name ` {c \<in> set cols. sc_hidden c} = {''iban''}"
    by (auto simp: inv_rel_def split: if_splits)
  with c show ?thesis by blast
qed

end
