(* ===== verification/OneTime.thy ===== *)
theory OneTime
  imports Prelude
begin

text \<open>
  Single-use and short-lived secrets: the CLI login codes (\<open>src/repositories/cli_auth_codes.py\<close>), the
  setup tokens (\<open>setup_tokens.py\<close>), the broker tickets of a chat sandbox (\<open>ticket.py\<close>) and the
  idempotency keys of the agent API (\<open>idempotency.py\<close>). Each table is a list of rows; every operation
  takes the wall clock it reads. The locale \<open>single_use\<close> states what a claim promises and what other
  operations may do, and bounds the successful claims of a secret by the number of times it was issued.
\<close>

section \<open>Claims that succeed once\<close>

datatype ('op, 't, 'k) event = Claim 't 'k | Other 'op

locale single_use =
  fixes ok :: "'s \<Rightarrow> bool"
    and live :: "'s \<Rightarrow> 'k \<Rightarrow> bool"
    and claim :: "'t \<Rightarrow> 'k \<Rightarrow> 's \<Rightarrow> bool \<times> 's"
    and perform :: "'op \<Rightarrow> 's \<Rightarrow> 's"
    and issues :: "'op \<Rightarrow> 'k \<Rightarrow> bool"
  assumes claim_ok: "ok s \<Longrightarrow> ok (snd (claim t k s))"
    and perform_ok: "ok s \<Longrightarrow> ok (perform a s)"
    and claim_live: "fst (claim t k s) \<Longrightarrow> live s k"
    and claim_spends: "ok s \<Longrightarrow> fst (claim t k s) \<Longrightarrow> \<not> live (snd (claim t k s)) k"
    and claim_keeps: "live (snd (claim t k' s)) k \<Longrightarrow> live s k"
    and perform_issues: "live (perform a s) k \<Longrightarrow> live s k \<or> issues a k"
begin

fun wins :: "'k \<Rightarrow> ('op, 't, 'k) event list \<Rightarrow> 's \<Rightarrow> nat" where
  "wins k [] s = 0"
| "wins k (Claim t k' # es) s =
     (if k' = k \<and> fst (claim t k' s) then 1 else 0) + wins k es (snd (claim t k' s))"
| "wins k (Other a # es) s = wins k es (perform a s)"

fun issued :: "'k \<Rightarrow> ('op, 't, 'k) event list \<Rightarrow> nat" where
  "issued k [] = 0"
| "issued k (Claim t k' # es) = issued k es"
| "issued k (Other a # es) = (if issues a k then 1 else 0) + issued k es"

lemma wins_bounded: "ok s \<Longrightarrow> wins k es s \<le> (if live s k then 1 else 0) + issued k es"
proof (induction k es s rule: wins.induct)
  case (2 k t k' es s)
  let ?s = "snd (claim t k' s)"
  have "live ?s k \<Longrightarrow> live s k" by (rule claim_keeps)
  moreover have "k' = k \<and> fst (claim t k' s) \<Longrightarrow> live s k \<and> \<not> live ?s k"
    using claim_live claim_spends 2 by blast
  ultimately show ?case using 2 claim_ok by (auto split: if_splits)
next
  case (3 k a es s)
  have "live (perform a s) k \<Longrightarrow> live s k \<or> issues a k" by (rule perform_issues)
  with 3 perform_ok show ?case by (auto split: if_splits)
qed simp

end

section \<open>CLI login codes\<close>

record cli_code =
  cc_hash :: string
  cc_user :: string
  cc_email :: string
  cc_created :: micros
  cc_expires :: micros
  cc_consumed :: "micros option"

text \<open>
  \<open>reap_ok\<close> is false when the best-effort cleanup raises; an insert with a stored hash violates the
  primary key and raises.
\<close>

definition cli_create ::
  "micros \<Rightarrow> bool \<Rightarrow> string \<Rightarrow> string \<Rightarrow> string \<Rightarrow> micros \<Rightarrow> cli_code list \<Rightarrow> bool \<times> cli_code list" where
  "cli_create now reap_ok h u e expires cs =
     (let cs' = (if reap_ok then filter (\<lambda>c. \<not> cc_expires c < now) cs else cs) in
      if h \<in> cc_hash ` set cs' then (False, cs')
      else (True, cs' @ [\<lparr>cc_hash = h, cc_user = u, cc_email = e, cc_created = now, cc_expires = expires,
                          cc_consumed = None\<rparr>]))"

definition cli_claimable :: "micros \<Rightarrow> string \<Rightarrow> cli_code \<Rightarrow> bool" where
  "cli_claimable now h c \<longleftrightarrow> cc_hash c = h \<and> cc_consumed c = None \<and> now \<le> cc_expires c"

text \<open>\<open>conflict\<close> is true when DuckDB refuses the update because another exchange is writing the row.\<close>

definition cli_consume ::
  "bool \<Rightarrow> micros \<Rightarrow> string \<Rightarrow> cli_code list \<Rightarrow> (string \<times> string) option \<times> cli_code list" where
  "cli_consume conflict now h cs =
     (if conflict then (None, cs)
      else
        (map_option (\<lambda>c. (cc_user c, cc_email c)) (find (cli_claimable now h) cs),
         map (\<lambda>c. if cli_claimable now h c then c\<lparr>cc_consumed := Some now\<rparr> else c) cs))"

section \<open>Setup tokens\<close>

record setup_token =
  st_id :: string
  st_user :: string
  st_hash :: string
  st_expires :: micros
  st_used :: "micros option"
  st_created :: micros

definition setup_create ::
  "micros \<Rightarrow> string \<Rightarrow> string \<Rightarrow> string \<Rightarrow> micros \<Rightarrow> setup_token list \<Rightarrow> bool \<times> setup_token list" where
  "setup_create now i u h expires ts =
     (if i \<in> st_id ` set ts then (False, ts)
      else (True, ts @ [\<lparr>st_id = i, st_user = u, st_hash = h, st_expires = expires, st_used = None,
                         st_created = now\<rparr>]))"

definition setup_get_by_hash :: "string \<Rightarrow> setup_token list \<Rightarrow> setup_token option" where
  "setup_get_by_hash h ts = find (\<lambda>t. st_hash t = h) ts"

definition setup_mark_used :: "micros \<Rightarrow> string \<Rightarrow> setup_token list \<Rightarrow> bool \<times> setup_token list" where
  "setup_mark_used now i ts =
     (list_ex (\<lambda>t. st_id t = i \<and> st_used t = None) ts,
      map (\<lambda>t. if st_id t = i \<and> st_used t = None then t\<lparr>st_used := Some now\<rparr> else t) ts)"

definition setup_active :: "micros \<Rightarrow> string \<Rightarrow> setup_token \<Rightarrow> bool" where
  "setup_active now u t \<longleftrightarrow> st_user t = u \<and> st_used t = None \<and> now < st_expires t"

definition setup_list_active :: "micros \<Rightarrow> string \<Rightarrow> setup_token list \<Rightarrow> setup_token list" where
  "setup_list_active now u ts = rev (sort_key st_created (filter (setup_active now u) ts))"

definition setup_count_active :: "micros \<Rightarrow> string \<Rightarrow> setup_token list \<Rightarrow> nat" where
  "setup_count_active now u ts = length (filter (setup_active now u) ts)"

definition setup_delete :: "string \<Rightarrow> setup_token list \<Rightarrow> setup_token list" where
  "setup_delete i ts = filter (\<lambda>t. st_id t \<noteq> i) ts"

abbreviation day_micros :: int where "day_micros \<equiv> 24 * 3600 * 1000000"

definition setup_delete_expired :: "micros \<Rightarrow> setup_token list \<Rightarrow> nat \<times> setup_token list" where
  "setup_delete_expired now ts =
     (let old = (\<lambda>t. st_expires t < now - day_micros) in
      (length (filter old ts), filter (\<lambda>t. \<not> old t) ts))"

section \<open>Both are claimed at most once\<close>

datatype cli_op = CliCreate micros bool string string string micros
datatype setup_op = SetupCreate micros string string string micros | SetupDelete string | SetupDeleteExpired micros

definition cli_live :: "cli_code list \<Rightarrow> string \<Rightarrow> bool" where
  "cli_live cs h = list_ex (\<lambda>c. cc_hash c = h \<and> cc_consumed c = None) cs"

definition cli_claim :: "bool \<times> micros \<Rightarrow> string \<Rightarrow> cli_code list \<Rightarrow> bool \<times> cli_code list" where
  "cli_claim t h cs = (case cli_consume (fst t) (snd t) h cs of (r, cs') \<Rightarrow> (r \<noteq> None, cs'))"

fun cli_perform :: "cli_op \<Rightarrow> cli_code list \<Rightarrow> cli_code list" where
  "cli_perform (CliCreate now reap_ok h u e x) cs = snd (cli_create now reap_ok h u e x cs)"

fun cli_issues :: "cli_op \<Rightarrow> string \<Rightarrow> bool" where
  "cli_issues (CliCreate now reap_ok h u e x) k = (h = k)"

text \<open>The hash is the primary key.\<close>

definition cli_inv :: "cli_code list \<Rightarrow> bool" where
  "cli_inv cs \<longleftrightarrow> distinct (map cc_hash cs)"

definition setup_live :: "setup_token list \<Rightarrow> string \<Rightarrow> bool" where
  "setup_live ts i = list_ex (\<lambda>t. st_id t = i \<and> st_used t = None) ts"

fun setup_perform :: "setup_op \<Rightarrow> setup_token list \<Rightarrow> setup_token list" where
  "setup_perform (SetupCreate now i u h x) ts = snd (setup_create now i u h x ts)"
| "setup_perform (SetupDelete i) ts = setup_delete i ts"
| "setup_perform (SetupDeleteExpired now) ts = snd (setup_delete_expired now ts)"

fun setup_issues :: "setup_op \<Rightarrow> string \<Rightarrow> bool" where
  "setup_issues (SetupCreate now i u h x) k = (i = k)"
| "setup_issues _ k = False"

definition setup_inv :: "setup_token list \<Rightarrow> bool" where
  "setup_inv ts \<longleftrightarrow> distinct (map st_id ts)"

lemma distinct_map_filterI: "distinct (map f xs) \<Longrightarrow> distinct (map f (filter P xs))"
  by (induction xs) auto

interpretation setup_once: single_use setup_inv setup_live "setup_mark_used :: micros \<Rightarrow> _" setup_perform setup_issues
proof
  fix a :: setup_op and s :: "setup_token list" and k
  show "setup_live (setup_perform a s) k \<Longrightarrow> setup_live s k \<or> setup_issues a k"
    by (cases a) (auto simp: setup_live_def setup_create_def setup_delete_def setup_delete_expired_def
        list_ex_iff Let_def split: if_splits)
  show "setup_inv s \<Longrightarrow> setup_inv (setup_perform a s)"
    by (cases a) (auto simp: setup_inv_def setup_create_def setup_delete_def setup_delete_expired_def
        distinct_map_filterI Let_def)
next
  fix t k and s :: "setup_token list"
  have "map st_id (snd (setup_mark_used t k s)) = map st_id s"
    by (simp add: setup_mark_used_def)
  then show "setup_inv s \<Longrightarrow> setup_inv (snd (setup_mark_used t k s))"
    unfolding setup_inv_def by (simp only:)
qed (auto simp: setup_live_def setup_mark_used_def list_ex_iff split: if_splits)

interpretation cli_once: single_use cli_inv cli_live cli_claim cli_perform cli_issues
proof
  fix a :: cli_op and s :: "cli_code list" and k
  show "cli_live (cli_perform a s) k \<Longrightarrow> cli_live s k \<or> cli_issues a k"
    by (cases a) (auto simp: cli_live_def cli_create_def list_ex_iff Let_def split: if_splits)
  show "cli_inv s \<Longrightarrow> cli_inv (cli_perform a s)"
    by (cases a) (auto simp: cli_inv_def cli_create_def distinct_map_filterI Let_def)
next
  fix t :: "bool \<times> micros" and k k' and s :: "cli_code list"
  have "map cc_hash (snd (cli_claim t k s)) = map cc_hash s"
    by (simp add: cli_claim_def cli_consume_def)
  then show "cli_inv s \<Longrightarrow> cli_inv (snd (cli_claim t k s))"
    unfolding cli_inv_def by (simp only:)
  show "cli_live (snd (cli_claim t k' s)) k \<Longrightarrow> cli_live s k"
    by (auto simp: cli_live_def cli_claim_def cli_consume_def list_ex_iff split: if_splits)
  assume won: "fst (cli_claim t k s)"
  then obtain c where c: "\<not> fst t" "c \<in> set s" "cli_claimable (snd t) k c"
    by (auto simp: cli_claim_def cli_consume_def dest: find_SomeD split: if_splits)
  then show "cli_live s k" by (auto simp: cli_live_def cli_claimable_def list_ex_iff)
  assume "cli_inv s"
  then have "d = c" if "d \<in> set s" "cc_hash d = k" for d
    using that c by (auto simp: cli_inv_def cli_claimable_def distinct_map inj_on_def)
  with c show "\<not> cli_live (snd (cli_claim t k s)) k"
    by (auto simp: cli_live_def cli_claim_def cli_consume_def list_ex_iff split: if_splits)
qed

text \<open>
  A login code is exchanged at most once, and never late. In any sequence of exchanges and of new codes, whoever
  races whom, the successful exchanges of a code number at most the times the code was issued; and an exchange
  succeeds only on a stored row that is unconsumed and not past its expiry, for the user that row names.
\<close>

theorem login_code_single_use:
  assumes "distinct (map cc_hash cs)"
  shows "cli_once.wins h es cs \<le> (if cli_live cs h then 1 else 0) + cli_once.issued h es
    \<and> (fst (cli_consume conflict now h cs) = Some (u, e) \<longrightarrow>
         (\<exists>c\<in>set cs. cc_hash c = h \<and> cc_consumed c = None \<and> now \<le> cc_expires c \<and> cc_user c = u \<and> cc_email c = e))"
proof
  show "cli_once.wins h es cs \<le> (if cli_live cs h then 1 else 0) + cli_once.issued h es"
    using cli_once.wins_bounded assms by (simp add: cli_inv_def)
  show "fst (cli_consume conflict now h cs) = Some (u, e) \<longrightarrow>
      (\<exists>c\<in>set cs. cc_hash c = h \<and> cc_consumed c = None \<and> now \<le> cc_expires c \<and> cc_user c = u \<and> cc_email c = e)"
    by (auto simp: cli_consume_def cli_claimable_def dest!: find_SomeD split: if_splits)
qed

definition one_code :: "cli_code list" where
  "one_code = [\<lparr>cc_hash = ''h'', cc_user = ''u'', cc_email = ''a@b'', cc_created = 0, cc_expires = 120, cc_consumed = None\<rparr>]"

theorem login_code_single_use_witness:
  "cli_once.wins ''h'' [Claim (False, 5) ''h'', Claim (False, 6) ''h''] one_code \<le> 1
   \<and> fst (cli_consume False 5 ''h'' one_code) = Some (''u'', ''a@b'')"
  using login_code_single_use [of one_code "''h''" "[Claim (False, 5) ''h'', Claim (False, 6) ''h'']" False 5 "''u''" "''a@b''"]
  by (simp add: one_code_def cli_live_def cli_consume_def cli_claimable_def)

lemma setup_token_single_use:
  assumes "distinct (map st_id ts)"
  shows "setup_once.wins i es ts \<le> (if setup_live ts i then 1 else 0) + setup_once.issued i es"
  using setup_once.wins_bounded assms by (simp add: setup_inv_def)

section \<open>Broker tickets\<close>

record ticket =
  tk_digest :: string
  tk_session :: string
  tk_scope :: string
  tk_expires :: micros
  tk_created :: micros

definition SWEEP_EXEMPT_SCOPES :: "string list" where
  "SWEEP_EXEMPT_SCOPES = [''kai_session'']"

abbreviation sec :: int where "sec \<equiv> 1000000"

text \<open>\<open>token\<close> is the random value drawn; only its digest is stored.\<close>

definition ticket_mint ::
  "(string \<Rightarrow> string) \<Rightarrow> micros \<Rightarrow> string \<Rightarrow> string \<Rightarrow> string \<Rightarrow> int \<Rightarrow> ticket list \<Rightarrow> string option \<times> ticket list" where
  "ticket_mint sha256 now token session scope ttl ts =
     (if sha256 token \<in> tk_digest ` set ts then (None, ts)
      else (Some token, ts @ [\<lparr>tk_digest = sha256 token, tk_session = session, tk_scope = scope,
                               tk_expires = now + ttl * sec, tk_created = now\<rparr>]))"

definition ticket_resolve ::
  "(string \<Rightarrow> string) \<Rightarrow> micros \<Rightarrow> string \<Rightarrow> ticket list \<Rightarrow> (string \<times> string \<times> micros) option" where
  "ticket_resolve sha256 now token ts =
     map_option (\<lambda>t. (tk_session t, tk_scope t, tk_expires t))
       (find (\<lambda>t. tk_digest t = sha256 token \<and> now < tk_expires t) ts)"

definition ticket_revoke :: "(string \<Rightarrow> string) \<Rightarrow> string \<Rightarrow> ticket list \<Rightarrow> ticket list" where
  "ticket_revoke sha256 token ts = filter (\<lambda>t. tk_digest t \<noteq> sha256 token) ts"

definition ticket_revoke_session :: "string \<Rightarrow> ticket list \<Rightarrow> ticket list" where
  "ticket_revoke_session s ts = filter (\<lambda>t. \<not> (tk_session t = s \<and> tk_scope t \<notin> set SWEEP_EXEMPT_SCOPES)) ts"

definition ticket_revoke_session_scopes :: "string \<Rightarrow> string list \<Rightarrow> ticket list \<Rightarrow> ticket list" where
  "ticket_revoke_session_scopes s scopes ts =
     (if scopes = [] then ts else filter (\<lambda>t. \<not> (tk_session t = s \<and> tk_scope t \<in> set scopes)) ts)"

text \<open>The three revocations, and the rows each one takes away.\<close>

datatype revocation = RevokeToken string | RevokeSession string | RevokeScopes string "string list"

fun ticket_apply :: "(string \<Rightarrow> string) \<Rightarrow> revocation \<Rightarrow> ticket list \<Rightarrow> ticket list" where
  "ticket_apply sha256 (RevokeToken tok) ts = ticket_revoke sha256 tok ts"
| "ticket_apply sha256 (RevokeSession s) ts = ticket_revoke_session s ts"
| "ticket_apply sha256 (RevokeScopes s scopes) ts = ticket_revoke_session_scopes s scopes ts"

fun revokes :: "(string \<Rightarrow> string) \<Rightarrow> revocation \<Rightarrow> string \<Rightarrow> string \<Rightarrow> string \<Rightarrow> bool" where
  "revokes sha256 (RevokeToken tok) d s c = (d = sha256 tok)"
| "revokes sha256 (RevokeSession s') d s c = (s = s' \<and> c \<notin> set SWEEP_EXEMPT_SCOPES)"
| "revokes sha256 (RevokeScopes s' scopes) d s c = (s = s' \<and> c \<in> set scopes)"

lemma ticket_apply_filter:
  "ticket_apply sha256 r ts = filter (\<lambda>t. \<not> revokes sha256 r (tk_digest t) (tk_session t) (tk_scope t)) ts"
  by (cases r) (auto simp: ticket_revoke_def ticket_revoke_session_def ticket_revoke_session_scopes_def intro: filter_cong)

lemma ticket_resolve_filter:
  assumes "distinct (map tk_digest ts)"
  shows "ticket_resolve sha256 now tok (filter P ts) = (case find (\<lambda>t. tk_digest t = sha256 tok \<and> now < tk_expires t) ts of
    None \<Rightarrow> None | Some t \<Rightarrow> if P t then Some (tk_session t, tk_scope t, tk_expires t) else None)"
proof -
  let ?Q = "\<lambda>t. tk_digest t = sha256 tok \<and> now < tk_expires t"
  have "find ?Q (filter P ts) = (case find ?Q ts of None \<Rightarrow> None | Some t \<Rightarrow> if P t then Some t else None)"
    using assms
  proof (induction ts)
    case (Cons t ts)
    have "find ?Q ts = None" if "?Q t"
      using Cons.prems that by (auto simp: find_None_iff image_iff)
    then have "find ?Q (filter P ts) = None" if "?Q t"
      using that by (auto simp: find_None_iff)
    with Cons show ?case by auto
  qed simp
  then show ?thesis unfolding ticket_resolve_def by (simp split: option.split)
qed

text \<open>
  A revocation takes effect at once and takes nothing else. After revoking a token, sweeping a session or
  revoking some of its scopes, a ticket resolves exactly if it resolved before and was not the one named, or not
  of that session and scope; the sweep spares the long-lived credential of the embedded engine, and an empty
  list of scopes revokes nothing. No ticket resolves at or after its expiry.
\<close>

theorem ticket_revocation_exact:
  assumes "distinct (map tk_digest ts)"
  shows "ticket_resolve sha256 now tok (ticket_apply sha256 r ts) =
      (case ticket_resolve sha256 now tok ts of
         None \<Rightarrow> None
       | Some (s, c, x) \<Rightarrow> if revokes sha256 r (sha256 tok) s c then None else Some (s, c, x))
    \<and> (\<forall>s c x. ticket_resolve sha256 now tok ts = Some (s, c, x) \<longrightarrow> now < x)"
proof
  let ?f = "find (\<lambda>t. tk_digest t = sha256 tok \<and> now < tk_expires t) ts"
  show "ticket_resolve sha256 now tok (ticket_apply sha256 r ts) =
      (case ticket_resolve sha256 now tok ts of
         None \<Rightarrow> None
       | Some (s, c, x) \<Rightarrow> if revokes sha256 r (sha256 tok) s c then None else Some (s, c, x))"
    unfolding ticket_apply_filter ticket_resolve_filter [OF assms]
    by (cases ?f) (auto simp: ticket_resolve_def dest!: find_SomeD)
  show "\<forall>s c x. ticket_resolve sha256 now tok ts = Some (s, c, x) \<longrightarrow> now < x"
    by (auto simp: ticket_resolve_def dest!: find_SomeD)
qed

definition demo_tickets :: "ticket list" where
  "demo_tickets =
     [\<lparr>tk_digest = ''e'', tk_session = ''s'', tk_scope = ''llm'', tk_expires = 9, tk_created = 0\<rparr>,
      \<lparr>tk_digest = ''k'', tk_session = ''s'', tk_scope = ''kai_session'', tk_expires = 9, tk_created = 0\<rparr>]"

theorem ticket_revocation_exact_witness:
  "ticket_resolve id 5 ''e'' (ticket_apply id (RevokeSession ''s'') demo_tickets) = None
   \<and> ticket_resolve id 5 ''k'' (ticket_apply id (RevokeSession ''s'') demo_tickets) = Some (''s'', ''kai_session'', 9)"
proof -
  have d: "distinct (map tk_digest demo_tickets)" by (simp add: demo_tickets_def)
  have "ticket_resolve id 5 ''e'' demo_tickets = Some (''s'', ''llm'', 9)"
    "ticket_resolve id 5 ''k'' demo_tickets = Some (''s'', ''kai_session'', 9)"
    by (simp_all add: demo_tickets_def ticket_resolve_def)
  moreover have "revokes id (RevokeSession ''s'') d ''s'' ''llm''" "\<not> revokes id (RevokeSession ''s'') d ''s'' ''kai_session''" for d
    by (simp_all add: SWEEP_EXEMPT_SCOPES_def)
  ultimately show ?thesis
    using ticket_revocation_exact [OF d, of id 5 "''e''" "RevokeSession ''s''"]
      ticket_revocation_exact [OF d, of id 5 "''k''" "RevokeSession ''s''"]
    by (simp del: ticket_apply.simps revokes.simps)
qed

section \<open>Idempotency keys\<close>

type_synonym idem_key = "string \<times> string \<times> string"

record idem_row =
  ik_key :: idem_key
  ik_hash :: string
  ik_body :: "string option"
  ik_status :: "int option"
  ik_created :: micros
  ik_expires :: "micros option"

definition RESERVATION_TTL_S :: int where
  "RESERVATION_TTL_S = 900"

definition idem_expired :: "micros \<Rightarrow> idem_row \<Rightarrow> bool" where
  "idem_expired now r = (case ik_expires r of None \<Rightarrow> False | Some x \<Rightarrow> x < now)"

definition idem_get :: "micros \<Rightarrow> idem_key \<Rightarrow> idem_row list \<Rightarrow> idem_row option" where
  "idem_get now k rows =
     (case find (\<lambda>r. ik_key r = k) rows of
        None \<Rightarrow> None
      | Some r \<Rightarrow> if idem_expired now r then None else Some r)"

definition idem_put ::
  "micros \<Rightarrow> idem_key \<Rightarrow> string \<Rightarrow> string \<Rightarrow> int \<Rightarrow> int \<Rightarrow> idem_row list \<Rightarrow> idem_row list" where
  "idem_put now k h body status ttl_s rows =
     filter (\<lambda>r. ik_key r \<noteq> k) rows
     @ [\<lparr>ik_key = k, ik_hash = h, ik_body = Some body, ik_status = Some status, ik_created = now,
         ik_expires = Some (now + ttl_s * sec)\<rparr>]"

definition reservation :: "micros \<Rightarrow> idem_key \<Rightarrow> string \<Rightarrow> idem_row" where
  "reservation now k h = \<lparr>ik_key = k, ik_hash = h, ik_body = None, ik_status = None, ik_created = now,
     ik_expires = Some (now + RESERVATION_TTL_S * sec)\<rparr>"

definition idem_reserve :: "micros \<Rightarrow> idem_key \<Rightarrow> string \<Rightarrow> idem_row list \<Rightarrow> bool \<times> idem_row list" where
  "idem_reserve now k h rows =
     (case find (\<lambda>r. ik_key r = k) rows of
        None \<Rightarrow> (True, rows @ [reservation now k h])
      | Some r \<Rightarrow>
          if idem_expired now r
          then (True, map (\<lambda>r. if ik_key r = k then reservation now k h else r) rows)
          else (False, rows))"

definition idem_fulfill ::
  "micros \<Rightarrow> idem_key \<Rightarrow> string \<Rightarrow> string \<Rightarrow> int \<Rightarrow> int \<Rightarrow> idem_row list \<Rightarrow> idem_row list" where
  "idem_fulfill now k h body status ttl_s rows = idem_put now k h body status ttl_s rows"

definition idem_purge :: "micros \<Rightarrow> idem_row list \<Rightarrow> nat \<times> idem_row list" where
  "idem_purge now rows = (length (filter (idem_expired now) rows), filter (\<lambda>r. \<not> idem_expired now r) rows)"

datatype idem_op =
  IReserve micros idem_key string | IFulfill micros idem_key string string int int | IPurge micros

fun idem_time :: "idem_op \<Rightarrow> micros" where
  "idem_time (IReserve t k h) = t"
| "idem_time (IFulfill t k h b st ttl) = t"
| "idem_time (IPurge t) = t"

fun idem_perform :: "idem_op \<Rightarrow> idem_row list \<Rightarrow> idem_row list" where
  "idem_perform (IReserve t k h) rows = snd (idem_reserve t k h rows)"
| "idem_perform (IFulfill t k h b st ttl) rows = idem_fulfill t k h b st ttl rows"
| "idem_perform (IPurge t) rows = snd (idem_purge t rows)"

text \<open>The times at which a key was won.\<close>

fun idem_wins :: "idem_key \<Rightarrow> idem_op list \<Rightarrow> idem_row list \<Rightarrow> micros list" where
  "idem_wins k [] rows = []"
| "idem_wins k (a # as) rows =
     (case a of
        IReserve t k' h \<Rightarrow> if k' = k \<and> fst (idem_reserve t k' h rows) then [t] else []
      | _ \<Rightarrow> []) @ idem_wins k as (idem_perform a rows)"

definition guarded :: "idem_key \<Rightarrow> micros \<Rightarrow> idem_row list \<Rightarrow> bool" where
  "guarded k T rows = (case find (\<lambda>r. ik_key r = k) rows of
     None \<Rightarrow> False | Some r \<Rightarrow> (case ik_expires r of None \<Rightarrow> True | Some x \<Rightarrow> T \<le> x))"

lemma find_filter_same: "(\<And>x. P x \<Longrightarrow> Q x) \<Longrightarrow> find P (filter Q xs) = find P xs"
  by (induction xs) auto

lemma find_first_append: "find P (xs @ ys) = (case find P xs of None \<Rightarrow> find P ys | Some x \<Rightarrow> Some x)"
  by (induction xs) auto

lemma reserve_iff_miss: "fst (idem_reserve now k h rows) \<longleftrightarrow> idem_get now k rows = None"
  by (simp add: idem_reserve_def idem_get_def split: option.split)

lemma guarded_blocks: "guarded k T rows \<Longrightarrow> t \<le> T \<Longrightarrow> \<not> fst (idem_reserve t k h rows)"
  by (auto simp: guarded_def idem_reserve_def idem_expired_def split: option.splits)

lemma reserve_guards:
  assumes "fst (idem_reserve t k h rows)"
  shows "guarded k (t + RESERVATION_TTL_S * sec) (snd (idem_reserve t k h rows))"
proof (cases "find (\<lambda>r. ik_key r = k) rows")
  case None
  then show ?thesis by (simp add: guarded_def idem_reserve_def reservation_def find_first_append)
next
  case (Some r)
  have "find (\<lambda>r. ik_key r = k) (map (\<lambda>r. if ik_key r = k then reservation t k h else r) rows) = Some (reservation t k h)"
    using Some by (induction rows) (auto simp: reservation_def split: if_splits)
  with Some assms show ?thesis by (auto simp: guarded_def idem_reserve_def reservation_def split: if_splits)
qed

lemma perform_guarded:
  assumes "guarded k T rows" "idem_time a \<le> T"
    and "\<And>t k' h b st ttl. a = IFulfill t k' h b st ttl \<Longrightarrow> T \<le> t + ttl * sec"
  shows "guarded k T (idem_perform a rows)"
proof (cases a)
  case (IReserve t k' h)
  show ?thesis
  proof (cases "k' = k")
    case True
    with assms IReserve have "\<not> fst (idem_reserve t k h rows)" using guarded_blocks by simp
    then have "snd (idem_reserve t k h rows) = rows"
      by (auto simp: idem_reserve_def split: option.splits if_splits)
    with True IReserve assms(1) show ?thesis by simp
  next
    case False
    have "find (\<lambda>r. ik_key r = k) (map (\<lambda>r. if ik_key r = k' then reservation t k' h else r) rows)
        = find (\<lambda>r. ik_key r = k) rows"
      using False by (induction rows) (auto simp: reservation_def)
    with False IReserve assms(1) show ?thesis
      by (auto simp: guarded_def idem_reserve_def find_first_append reservation_def split: option.splits)
  qed
next
  case (IFulfill t k' h b st ttl)
  show ?thesis
  proof (cases "k' = k")
    case True
    have "find (\<lambda>r. ik_key r = k) (filter (\<lambda>r. ik_key r \<noteq> k) rows) = None"
      by (auto simp: find_None_iff)
    with True IFulfill assms(3) show ?thesis
      by (simp add: guarded_def idem_fulfill_def idem_put_def find_first_append)
  next
    case False
    have "find (\<lambda>r. ik_key r = k) (filter (\<lambda>r. ik_key r \<noteq> k') rows) = find (\<lambda>r. ik_key r = k) rows"
      using False by (intro find_filter_same) auto
    with False IFulfill assms(1) show ?thesis
      by (auto simp: guarded_def idem_fulfill_def idem_put_def find_first_append split: option.splits)
  qed
next
  case (IPurge t)
  obtain r where r: "find (\<lambda>r. ik_key r = k) rows = Some r" "\<not> idem_expired t r"
    "case ik_expires r of None \<Rightarrow> True | Some x \<Rightarrow> T \<le> x"
    using assms(1,2) IPurge by (auto simp: guarded_def idem_expired_def split: option.splits)
  have "find (\<lambda>r. ik_key r = k) (filter (\<lambda>r. \<not> idem_expired t r) rows) = Some r"
    using r(1,2) by (induction rows) (auto split: if_splits)
  with IPurge r(3) show ?thesis by (simp add: guarded_def idem_purge_def)
qed

lemma guarded_no_wins:
  assumes "guarded k T rows" "sorted (map idem_time as)"
    and "\<forall>a\<in>set as. \<forall>t k' h b st ttl. a = IFulfill t k' h b st ttl \<longrightarrow> T \<le> t + ttl * sec"
  shows "\<forall>t\<in>set (idem_wins k as rows). T < t"
  using assms
proof (induction as arbitrary: rows)
  case (Cons a as)
  show ?case
  proof (cases "idem_time a \<le> T")
    case True
    have "guarded k T (idem_perform a rows)" using Cons.prems True by (intro perform_guarded) auto
    then have "\<forall>t\<in>set (idem_wins k as (idem_perform a rows)). T < t"
      using Cons.prems by (intro Cons.IH) auto
    moreover have "\<not> fst (idem_reserve t k h rows)" if "a = IReserve t k h" for t h
      using Cons.prems(1) True that guarded_blocks by simp
    ultimately show ?thesis by (auto split: idem_op.splits if_splits)
  next
    case False
    have late: "\<forall>b\<in>set (a # as). T < idem_time b" using Cons.prems(2) False by force
    have "\<forall>t\<in>set (idem_wins k bs rs). T < t" if "\<forall>b\<in>set bs. T < idem_time b" for bs rs
      using that by (induction bs arbitrary: rs) (auto split: idem_op.splits if_splits)
    then show ?thesis using late by blast
  qed
qed simp

text \<open>
  An agent request runs once per key. A reservation succeeds exactly when a lookup at that moment misses, so the
  check and the reservation cannot disagree; and once a key is won, in any later sequence of reservations, responses
  (kept at least as long as a reservation) and purges, at times that do not go back, nobody wins it again within the
  fifteen minutes of the reservation.
\<close>

theorem idempotency_key_exclusive:
  assumes "fst (idem_reserve t k h rows)"
    and "sorted (map idem_time as)" "\<forall>a\<in>set as. t \<le> idem_time a"
    and "\<forall>a\<in>set as. \<forall>t' k' h' b st ttl. a = IFulfill t' k' h' b st ttl \<longrightarrow> RESERVATION_TTL_S \<le> ttl"
  shows "idem_get t k rows = None
    \<and> (\<forall>t'\<in>set (idem_wins k as (snd (idem_reserve t k h rows))). t + RESERVATION_TTL_S * sec < t')"
proof
  show "idem_get t k rows = None" using assms(1) by (simp add: reserve_iff_miss)
  show "\<forall>t'\<in>set (idem_wins k as (snd (idem_reserve t k h rows))). t + RESERVATION_TTL_S * sec < t'"
  proof (rule guarded_no_wins [OF reserve_guards [OF assms(1)] assms(2)], intro ballI allI impI)
    fix a t' k' h' b st ttl
    assume a: "a \<in> set as" "a = IFulfill t' k' h' b st ttl"
    have "t \<le> idem_time a" using assms(3) a(1) by (rule bspec)
    then have "t \<le> t'" using a(2) by simp
    moreover have "RESERVATION_TTL_S \<le> ttl" using assms(4) a by blast
    ultimately show "t + RESERVATION_TTL_S * sec \<le> t' + ttl * sec" by simp
  qed
qed

theorem idempotency_key_exclusive_witness:
  "idem_get 0 (''k'', ''u'', ''a'') [] = None
   \<and> 5 \<notin> set (idem_wins (''k'', ''u'', ''a'')
          [IReserve 5 (''k'', ''u'', ''a'') ''x'', IFulfill 9 (''k'', ''u'', ''a'') ''h'' ''ok'' 200 86400, IPurge 10]
          (snd (idem_reserve 0 (''k'', ''u'', ''a'') ''h'' [])))"
proof -
  let ?k = "(''k'', ''u'', ''a'')"
  let ?as = "[IReserve 5 ?k ''x'', IFulfill 9 ?k ''h'' ''ok'' 200 86400, IPurge 10]"
  have 1: "fst (idem_reserve 0 ?k ''h'' [])" by (simp add: idem_reserve_def)
  have 2: "sorted (map idem_time ?as)" by simp
  have 3: "\<forall>a\<in>set ?as. 0 \<le> idem_time a" by simp
  have 4: "\<forall>a\<in>set ?as. \<forall>t' k' h' b st ttl. a = IFulfill t' k' h' b st ttl \<longrightarrow> RESERVATION_TTL_S \<le> ttl"
    by (simp add: RESERVATION_TTL_S_def)
  note won = idempotency_key_exclusive [OF 1 2 3 4]
  have "\<not> 0 + RESERVATION_TTL_S * sec < 5" by (simp add: RESERVATION_TTL_S_def)
  then show ?thesis using won by blast
qed

end
