(* ===== verification/Tokens.thy ===== *)
theory Tokens
  imports Access
begin

text \<open>
  From a bearer token to a caller: the repository of personal access tokens (\<open>src/repositories/access_tokens.py\<close>),
  the participants of a chat session (\<open>app/chat/persistence.py\<close>), the client address of
  \<open>app/auth/client_ip.py\<close>, the claims that the minting functions put into a token (\<open>app/auth/jwt.py\<close>,
  \<open>app/auth/access.py\<close>), and the resolver \<open>app/auth/pat_resolver.py\<close>. Decoding a JWT and hashing are arguments of
  the model; the database errors that the resolver swallows while it keeps books are two flags.
\<close>

section \<open>Tables and requests\<close>

text \<open>A claim is text or a time in whole seconds, the form the library encodes a \<open>datetime\<close> in.\<close>

datatype claim = Text string | Stamp int

type_synonym payload = "(string \<times> claim) list"

definition claim_text :: "payload \<Rightarrow> string \<Rightarrow> string option" where
  "claim_text p k = (case map_of p k of Some (Text s) \<Rightarrow> Some s | _ \<Rightarrow> None)"

record chat_session =
  cs_id :: string
  cs_email :: string
  cs_co :: bool
  cs_agent :: "string option"

record participant =
  pa_session :: string
  pa_email :: string
  pa_user :: string
  pa_role :: string
  pa_joined :: micros
  pa_left :: "micros option"

record pat =
  pt_id :: string
  pt_user :: string
  pt_name :: string
  pt_hash :: string
  pt_prefix :: string
  pt_scopes :: "string option"
  pt_created :: micros
  pt_expires :: "micros option"
  pt_used :: "micros option"
  pt_ip :: "string option"
  pt_revoked :: "micros option"
  pt_agent :: "string option"
  pt_surface :: "string option"

record audit =
  au_user :: "string option"
  au_action :: string
  au_resource :: string
  au_params :: "(string \<times> string option) list"

record tdb =
  base :: rdb
  chat_sessions :: "chat_session list"
  participants :: "participant list"
  pats :: "pat list"
  audit_log :: "audit list"

text \<open>The parts of a request the code reads, and what it leaves on \<open>request.state\<close>.\<close>

record request =
  rq_path :: string
  rq_xff :: "string option"
  rq_peer :: "string option"
  rq_authorization :: "string option"
  rq_cookie :: "string option"
  rq_sapi :: "string option"

record tenv =
  te_verify :: "string \<Rightarrow> payload option"
  te_sha256 :: "string \<Rightarrow> string"
  te_hops :: "string option"
  te_now :: micros
  te_audit_ok :: bool
  te_mark_ok :: bool

section \<open>The repository of personal access tokens\<close>

definition pat_create ::
  "micros \<Rightarrow> string \<Rightarrow> string \<Rightarrow> string \<Rightarrow> string \<Rightarrow> string \<Rightarrow> micros option \<Rightarrow> string option \<Rightarrow> string option
     \<Rightarrow> string \<Rightarrow> pat list \<Rightarrow> db_error + pat list" where
  "pat_create now i u nm h pre expires scopes agent surface ts =
     (if i \<in> pt_id ` set ts then Inl DBConstraint
      else Inr (ts @ [\<lparr>pt_id = i, pt_user = u, pt_name = nm, pt_hash = h, pt_prefix = pre, pt_scopes = scopes,
        pt_created = now, pt_expires = expires, pt_used = None, pt_ip = None, pt_revoked = None,
        pt_agent = agent, pt_surface = Some surface\<rparr>]))"

definition pat_get :: "string \<Rightarrow> pat list \<Rightarrow> pat option" where
  "pat_get i ts = find (\<lambda>t. pt_id t = i) ts"

definition newest_first :: "pat list \<Rightarrow> pat list" where
  "newest_first ts = sort_key (\<lambda>t. - pt_created t) ts"

definition pat_list_for_user :: "string \<Rightarrow> bool \<Rightarrow> pat list \<Rightarrow> pat list" where
  "pat_list_for_user u include_revoked ts =
     newest_first (filter (\<lambda>t. pt_user t = u \<and> (include_revoked \<or> pt_revoked t = None)) ts)"

definition pat_list_for_agent :: "string \<Rightarrow> bool \<Rightarrow> pat list \<Rightarrow> pat list" where
  "pat_list_for_agent a include_revoked ts =
     newest_first (filter (\<lambda>t. pt_agent t = Some a \<and> (include_revoked \<or> pt_revoked t = None)) ts)"

definition pat_list_all_with_user :: "user_row list \<Rightarrow> nat \<Rightarrow> nat \<Rightarrow> pat list \<Rightarrow> (pat \<times> string option) list" where
  "pat_list_all_with_user us lmt offset ts =
     map (\<lambda>t. (t, map_option usr_email (find (\<lambda>r. usr_id r = pt_user t) us))) (take lmt (drop offset (newest_first ts)))"

definition pat_revoke :: "micros \<Rightarrow> string \<Rightarrow> pat list \<Rightarrow> pat list" where
  "pat_revoke now i ts = map (\<lambda>t. if pt_id t = i then t\<lparr>pt_revoked := Some now\<rparr> else t) ts"

definition pat_revoke_for_agent :: "micros \<Rightarrow> string \<Rightarrow> pat list \<Rightarrow> pat list" where
  "pat_revoke_for_agent now a ts =
     map (\<lambda>t. if pt_agent t = Some a \<and> pt_revoked t = None then t\<lparr>pt_revoked := Some now\<rparr> else t) ts"

definition pat_delete :: "string \<Rightarrow> pat list \<Rightarrow> pat list" where
  "pat_delete i ts = filter (\<lambda>t. pt_id t \<noteq> i) ts"

definition pat_mark_used :: "micros \<Rightarrow> string \<Rightarrow> string option \<Rightarrow> pat list \<Rightarrow> pat list" where
  "pat_mark_used now i ip ts = map (\<lambda>t. if pt_id t = i then t\<lparr>pt_used := Some now, pt_ip := ip\<rparr> else t) ts"

section \<open>Chat sessions and participants\<close>

definition get_session :: "string \<Rightarrow> tdb \<Rightarrow> chat_session option" where
  "get_session i T = find (\<lambda>s. cs_id s = i) (chat_sessions T)"

text \<open>The row's session must exist, and a person has at most one row per session, left or not.\<close>

definition add_session_participant ::
  "micros \<Rightarrow> string \<Rightarrow> string \<Rightarrow> string \<Rightarrow> string \<Rightarrow> tdb \<Rightarrow> db_error + tdb" where
  "add_session_participant now s e u role T =
     (if get_session s T = None \<or> list_ex (\<lambda>p. pa_session p = s \<and> pa_email p = e) (participants T) then Inl DBConstraint
      else Inr (T\<lparr>participants := participants T @
        [\<lparr>pa_session = s, pa_email = e, pa_user = u, pa_role = role, pa_joined = now, pa_left = None\<rparr>]\<rparr>))"

definition get_session_participants :: "string \<Rightarrow> tdb \<Rightarrow> participant list" where
  "get_session_participants s T =
     sort_key pa_joined (filter (\<lambda>p. pa_session p = s \<and> pa_left p = None) (participants T))"

definition remove_participant :: "micros \<Rightarrow> string \<Rightarrow> string \<Rightarrow> tdb \<Rightarrow> tdb" where
  "remove_participant now s e T = T\<lparr>participants :=
     map (\<lambda>p. if pa_session p = s \<and> pa_email p = e \<and> pa_left p = None then p\<lparr>pa_left := Some now\<rparr> else p)
       (participants T)\<rparr>"

definition update_participant_role :: "string \<Rightarrow> string \<Rightarrow> string \<Rightarrow> tdb \<Rightarrow> tdb" where
  "update_participant_role s e role T = T\<lparr>participants :=
     map (\<lambda>p. if pa_session p = s \<and> pa_email p = e \<and> pa_left p = None then p\<lparr>pa_role := role\<rparr> else p)
       (participants T)\<rparr>"

section \<open>The client's address\<close>

definition trusted_hops :: "string option \<Rightarrow> int" where
  "trusted_hops raw =
     (case py_int (case raw of None \<Rightarrow> ''1'' | Some s \<Rightarrow> s) of
        None \<Rightarrow> 1
      | Some n \<Rightarrow> if 1 \<le> n then n else 1)"

definition xff_parts :: "string \<Rightarrow> string list" where
  "xff_parts xff = filter (\<lambda>p. p \<noteq> []) (map py_strip (py_split CHR '','' xff))"

definition trusted_client_ip :: "string option \<Rightarrow> request option \<Rightarrow> string option" where
  "trusted_client_ip hops rq =
     (case rq of
        None \<Rightarrow> None
      | Some r \<Rightarrow>
          let parts = (case rq_xff r of None \<Rightarrow> [] | Some x \<Rightarrow> xff_parts x)
          in if parts \<noteq> []
             then let idx = int (length parts) - trusted_hops hops
                  in Some (parts ! nat (if idx < 0 then 0 else idx))
             else rq_peer r)"

section \<open>Minting\<close>

text \<open>\<open>create_access_token\<close> up to the signature: the reserved claims, then the extra ones that do not override them.\<close>

definition ACCESS_TOKEN_EXPIRE_HOURS :: int where "ACCESS_TOKEN_EXPIRE_HOURS = 720"

definition RESERVED_CLAIMS :: "string list" where
  "RESERVED_CLAIMS = [''sub'', ''email'', ''typ'', ''iat'', ''jti'', ''exp'']"

definition put_claim :: "payload \<Rightarrow> string \<times> claim \<Rightarrow> payload" where
  "put_claim p kv = (if fst kv \<in> set RESERVED_CLAIMS then p else dict_set (fst kv) (snd kv) p)"

definition access_claims ::
  "micros \<Rightarrow> string \<Rightarrow> string \<Rightarrow> string \<Rightarrow> int option \<Rightarrow> string \<Rightarrow> bool \<Rightarrow> payload \<Rightarrow> payload" where
  "access_claims now u email jti expires_delta typ omit_exp extra =
     (let base_claims = [(''sub'', Text u), (''email'', Text email), (''typ'', Text typ),
                         (''iat'', Stamp (now div 1000000)), (''jti'', Text jti)];
          delta = (case expires_delta of Some d \<Rightarrow> if d = 0 then ACCESS_TOKEN_EXPIRE_HOURS * 3600000000 else d
                   | None \<Rightarrow> ACCESS_TOKEN_EXPIRE_HOURS * 3600000000);
          p = (if omit_exp then base_claims else base_claims @ [(''exp'', Stamp ((now + delta) div 1000000))])
      in foldl put_claim p extra)"

definition co_session_claims :: "micros \<Rightarrow> string \<Rightarrow> string \<Rightarrow> int \<Rightarrow> payload" where
  "co_session_claims now jti s ttl =
     access_claims now (''session:'' @ s) [] jti (Some (ttl * 1000000)) ''co_session'' False
       [(''scope'', Text ''chat''), (''chat_session_id'', Text s)]"

definition agent_session_claims :: "micros \<Rightarrow> string \<Rightarrow> string \<Rightarrow> int \<Rightarrow> payload" where
  "agent_session_claims now jti s ttl =
     access_claims now (''agent-session:'' @ s) [] jti (Some (ttl * 1000000)) ''agent_session'' False
       [(''scope'', Text ''chat''), (''chat_session_id'', Text s)]"

section \<open>The resolver\<close>

datatype reason =
    No_token | Invalid_token | User_not_found | Deactivated | Pat_unknown | Pat_revoked | Pat_expired
  | Pat_mismatch | Agent_pat_wrong_surface | Agent_pat_agent_deleted | Pat_scope_forbidden

definition AGENT_PAT_ALLOWED_PREFIXES :: "string list" where
  "AGENT_PAT_ALLOWED_PREFIXES = [''/api/v1/agents/'', ''/api/v1/sessions/'', ''/api/v1/jobs/'']"

definition PAT_LIKE_TYPES :: "string list" where
  "PAT_LIKE_TYPES = [''pat'', ''agent_pat'']"

definition DATA_APP_GIT_SCOPE_PREFIX :: string where "DATA_APP_GIT_SCOPE_PREFIX = ''data-app-git:''"
definition DATA_APP_PREVIEW_SCOPE_PREFIX :: string where "DATA_APP_PREVIEW_SCOPE_PREFIX = ''data-app-preview:''"

definition scope_forbidden :: "bool \<Rightarrow> bool \<Rightarrow> payload \<Rightarrow> bool" where
  "scope_forbidden allow_git allow_preview p \<longleftrightarrow>
     (let scope = or_default (claim_text p ''scope'') []
      in (prefix DATA_APP_GIT_SCOPE_PREFIX scope \<and> \<not> allow_git) \<or>
         (prefix DATA_APP_PREVIEW_SCOPE_PREFIX scope \<and> \<not> allow_preview))"

definition allowed_agent_path :: "request option \<Rightarrow> bool" where
  "allowed_agent_path rq =
     (let path = (case rq of None \<Rightarrow> [] | Some r \<Rightarrow> rq_path r)
      in list_ex (\<lambda>pre. prefix pre path) AGENT_PAT_ALLOWED_PREFIXES)"

definition resolve_co_session :: "string option \<Rightarrow> tdb \<Rightarrow> reason + caller" where
  "resolve_co_session sid T =
     (case sid of
        None \<Rightarrow> Inl Invalid_token
      | Some s \<Rightarrow>
          let ps = get_session_participants s T; emails = map pa_email ps
          in if ps = [] then Inl Invalid_token
             else Inr (SessionPrincipal s (map pa_user ps) emails (compute_grant_intersection emails (base T))))"

definition resolve_agent_session :: "string \<Rightarrow> tdb \<Rightarrow> reason + caller" where
  "resolve_agent_session s T =
     (case get_session s T of
        None \<Rightarrow> Inl Invalid_token
      | Some cs \<Rightarrow>
          let ai = or_default (cs_agent cs) []
          in if ai = [] then Inl Invalid_token
             else case find (\<lambda>a. ag_id a = ai) (agents (base T)) of
                    None \<Rightarrow> Inl Invalid_token
                  | Some a \<Rightarrow>
                      if ag_deleted a \<noteq> None then Inl Invalid_token
                      else case find (\<lambda>r. usr_id r = ag_owner a) (users (base T)) of
                             None \<Rightarrow> Inl Invalid_token
                           | Some ow \<Rightarrow> Inr (AgentPrincipal s ai (usr_id ow) (usr_email ow)
                               (compute_agent_intersection (usr_id ow) (Some a) (base T))))"

definition user_caller :: "user_row \<Rightarrow> string option \<Rightarrow> caller" where
  "user_caller r surface = UserDict \<lparr>ud_id = Some (usr_id r), ud_email = Some (usr_email r), ud_surface = surface\<rparr>"

text \<open>The checks on the token's row, then the audit entry and the last use, both best effort.\<close>

definition pat_refused :: "tenv \<Rightarrow> string \<Rightarrow> payload \<Rightarrow> tdb \<Rightarrow> pat \<Rightarrow> reason option" where
  "pat_refused E token p T r =
     (if pt_revoked r \<noteq> None then Some Pat_revoked
      else if (case pt_expires r of None \<Rightarrow> False | Some x \<Rightarrow> x < te_now E) then Some Pat_expired
      else if pt_hash r \<noteq> [] \<and> te_sha256 E token \<noteq> pt_hash r then Some Pat_mismatch
      else if claim_text p ''typ'' = Some ''agent_pat'' \<and>
              (case find (\<lambda>a. ag_id a = (case claim_text p ''agent_id'' of None \<Rightarrow> [] | Some i \<Rightarrow> i)) (agents (base T)) of
                 None \<Rightarrow> True | Some a \<Rightarrow> ag_deleted a \<noteq> None)
           then Some Agent_pat_agent_deleted
      else None)"

definition pat_bookkeeping :: "tenv \<Rightarrow> payload \<Rightarrow> request option \<Rightarrow> user_row \<Rightarrow> pat \<Rightarrow> tdb \<Rightarrow> tdb" where
  "pat_bookkeeping E p rq u r T =
     (case claim_text p ''jti'' of
        None \<Rightarrow> T
      | Some jti \<Rightarrow>
          let ip = trusted_client_ip (te_hops E) rq;
              T1 = (if pt_used r \<noteq> None \<and> or_default ip [] \<noteq> [] \<and> ip \<noteq> pt_ip r \<and> te_audit_ok E
                    then T\<lparr>audit_log := audit_log T @ [\<lparr>au_user = Some (usr_id u), au_action = ''token.first_use_new_ip'',
                           au_resource = ''token:'' @ jti, au_params = [(''ip'', ip), (''previous_ip'', pt_ip r)]\<rparr>]\<rparr>
                    else T)
          in if te_mark_ok E then T1\<lparr>pats := pat_mark_used (te_now E) jti ip (pats T1)\<rparr> else T1)"

definition resolve_plain :: "tenv \<Rightarrow> string \<Rightarrow> request option \<Rightarrow> payload \<Rightarrow> tdb \<Rightarrow> (reason + caller) \<times> tdb" where
  "resolve_plain E token rq p T =
     (case find (\<lambda>r. usr_id r = (case claim_text p ''sub'' of None \<Rightarrow> [] | Some u \<Rightarrow> u)) (users (base T)) of
        None \<Rightarrow> (Inl User_not_found, T)
      | Some u \<Rightarrow>
          if \<not> usr_active u then (Inl Deactivated, T)
          else if claim_text p ''typ'' \<notin> Some ` set PAT_LIKE_TYPES
          then (Inr (user_caller u (if claim_text p ''scope'' \<in> {Some ''chat'', Some ''mcp-oauth''}
                                    then Some ''stack'' else None)), T)
          else case pat_get (case claim_text p ''jti'' of None \<Rightarrow> [] | Some j \<Rightarrow> j) (pats T) of
                 None \<Rightarrow> (Inl Pat_unknown, T)
               | Some r \<Rightarrow>
                   (case pat_refused E token p T r of
                      Some why \<Rightarrow> (Inl why, T)
                    | None \<Rightarrow> (Inr (user_caller u (Some (or_default (pt_surface r) ''all''))), pat_bookkeeping E p rq u r T)))"

text \<open>The verified payload is stashed for the request exactly when the resolution succeeds.\<close>

definition resolve_token_to_user ::
  "tenv \<Rightarrow> bool \<Rightarrow> bool \<Rightarrow> string \<Rightarrow> request option \<Rightarrow> tdb \<Rightarrow> (reason + caller) \<times> tdb \<times> payload option" where
  "resolve_token_to_user E allow_git allow_preview token rq T =
     (if token = [] then (Inl No_token, T, None)
      else case te_verify E token of
        None \<Rightarrow> (Inl Invalid_token, T, None)
      | Some p \<Rightarrow>
          let typ = claim_text p ''typ''; sid = claim_text p ''chat_session_id'';
              stash = (\<lambda>(res, T'). (res, T', if isl res then None else if rq = None then None else Some p))
          in if p = [] then (Inl Invalid_token, T, None)
             else if scope_forbidden allow_git allow_preview p then (Inl Pat_scope_forbidden, T, None)
             else if typ = Some ''agent_pat'' \<and> \<not> allowed_agent_path rq then (Inl Agent_pat_wrong_surface, T, None)
             else if typ = Some ''co_session'' then stash (resolve_co_session sid T, T)
             else if or_default sid [] \<noteq> [] \<and> typ = Some ''agent_session''
             then stash (resolve_agent_session (or_default sid []) T, T)
             else if or_default sid [] \<noteq> [] \<and>
                     (case get_session (or_default sid []) T of None \<Rightarrow> False | Some cs \<Rightarrow> cs_co cs)
             then (Inl Invalid_token, T, None)
             else stash (resolve_plain E token rq p T))"

definition agent_id_from_request :: "payload option \<Rightarrow> string option" where
  "agent_id_from_request stashed =
     (case stashed of
        None \<Rightarrow> None
      | Some p \<Rightarrow> if p \<noteq> [] \<and> claim_text p ''typ'' = Some ''agent_pat'' then claim_text p ''agent_id'' else None)"

section \<open>What a token's row decides\<close>

lemma claim_text_some: "claim_text p k = Some s \<longleftrightarrow> map_of p k = Some (Text s)"
  by (simp add: claim_text_def split: option.split claim.split)

lemma claim_nonempty: "claim_text p k = Some s \<Longrightarrow> p \<noteq> []"
  by (auto simp: claim_text_def)

definition live_agent :: "string \<Rightarrow> tdb \<Rightarrow> bool" where
  "live_agent i T \<longleftrightarrow> (\<exists>a. find (\<lambda>a. ag_id a = i) (agents (base T)) = Some a \<and> ag_deleted a = None)"

definition names_co_session :: "payload \<Rightarrow> tdb \<Rightarrow> bool" where
  "names_co_session p T \<longleftrightarrow> (\<exists>s cs. claim_text p ''chat_session_id'' = Some s \<and> s \<noteq> [] \<and>
     get_session s T = Some cs \<and> cs_co cs)"

definition row_valid :: "micros \<Rightarrow> string \<Rightarrow> pat \<Rightarrow> bool" where
  "row_valid now digest r \<longleftrightarrow> pt_revoked r = None \<and> (\<forall>x. pt_expires r = Some x \<longrightarrow> now \<le> x) \<and>
     (pt_hash r \<noteq> [] \<longrightarrow> pt_hash r = digest)"

lemma pat_refused_none:
  "pat_refused E token p T r = None \<longleftrightarrow> row_valid (te_now E) (te_sha256 E token) r \<and>
     (claim_text p ''typ'' = Some ''agent_pat'' \<longrightarrow> live_agent (or_default (claim_text p ''agent_id'') []) T)"
  by (auto simp: pat_refused_def row_valid_def live_agent_def or_default_def not_less split: option.splits if_splits)

lemma resolve_plain_pat:
  assumes "claim_text p ''typ'' \<in> Some ` set PAT_LIKE_TYPES" "claim_text p ''sub'' = Some s" "claim_text p ''jti'' = Some j"
  shows "fst (resolve_plain E token rq p T) = Inr who \<longleftrightarrow>
    (\<exists>u r. find (\<lambda>r. usr_id r = s) (users (base T)) = Some u \<and> usr_active u \<and> pat_get j (pats T) = Some r \<and>
       row_valid (te_now E) (te_sha256 E token) r \<and>
       (claim_text p ''typ'' = Some ''agent_pat'' \<longrightarrow> live_agent (or_default (claim_text p ''agent_id'') []) T) \<and>
       who = user_caller u (Some (or_default (pt_surface r) ''all'')))"
proof -
  have "fst (resolve_plain E token rq p T) = Inr who \<longleftrightarrow>
    (\<exists>u r. find (\<lambda>r. usr_id r = s) (users (base T)) = Some u \<and> usr_active u \<and> pat_get j (pats T) = Some r \<and>
       pat_refused E token p T r = None \<and> who = user_caller u (Some (or_default (pt_surface r) ''all'')))"
    unfolding resolve_plain_def using assms
    by (cases "find (\<lambda>r. usr_id r = s) (users (base T))"; cases "pat_get j (pats T)") (auto split: option.splits)
  then show ?thesis unfolding pat_refused_none conj_assoc .
qed

lemma names_co_session_iff:
  "names_co_session p T \<longleftrightarrow> or_default (claim_text p ''chat_session_id'') [] \<noteq> [] \<and>
     (case get_session (or_default (claim_text p ''chat_session_id'') []) T of None \<Rightarrow> False | Some cs \<Rightarrow> cs_co cs)"
  by (auto simp: names_co_session_def or_default_def split: option.splits if_splits)

lemma resolve_pat_like:
  assumes "te_verify E token = Some p" "token \<noteq> []" "claim_text p ''typ'' \<in> Some ` set PAT_LIKE_TYPES"
  shows "fst (resolve_token_to_user E git preview token rq T) = Inr who \<longleftrightarrow>
    \<not> scope_forbidden git preview p \<and> (claim_text p ''typ'' = Some ''agent_pat'' \<longrightarrow> allowed_agent_path rq) \<and>
    \<not> names_co_session p T \<and> fst (resolve_plain E token rq p T) = Inr who"
proof -
  have "p \<noteq> []" using assms(3) claim_nonempty by auto
  moreover have "claim_text p ''typ'' \<noteq> Some ''co_session''" "claim_text p ''typ'' \<noteq> Some ''agent_session''"
    using assms(3) by (auto simp: PAT_LIKE_TYPES_def)
  ultimately show ?thesis
    using assms(1,2) by (simp add: resolve_token_to_user_def names_co_session_iff Let_def split_beta)
qed

lemma forbidden_scope_refused:
  assumes "te_verify E token = Some p" "scope_forbidden git preview p"
  shows "\<exists>why. resolve_token_to_user E git preview token rq T = (Inl why, T, None)"
  using assms by (simp add: resolve_token_to_user_def Let_def)

text \<open>
  C7. A personal access token or an agent's token is accepted exactly when every check holds, all read from the
  tables at that moment: its scope is one the surface accepts, it does not name a co-session, its user exists and is
  active, its row exists, is not revoked, not past its expiry and carries the hash of this very token; an agent's
  token moreover only on the three agent prefixes and while its agent is not deleted. The caller is then that user,
  with the read surface stored in the row.
\<close>

theorem pat_resolution_exact:
  assumes "te_verify E token = Some p" "token \<noteq> []"
    and "claim_text p ''typ'' = Some typ" "typ \<in> set PAT_LIKE_TYPES"
    and "claim_text p ''sub'' = Some s" "claim_text p ''jti'' = Some j"
  shows "fst (resolve_token_to_user E git preview token rq T) = Inr who \<longleftrightarrow>
    \<not> scope_forbidden git preview p \<and> \<not> names_co_session p T \<and>
    (typ = ''agent_pat'' \<longrightarrow> allowed_agent_path rq \<and> live_agent (or_default (claim_text p ''agent_id'') []) T) \<and>
    (\<exists>u r. find (\<lambda>r. usr_id r = s) (users (base T)) = Some u \<and> usr_active u \<and> pat_get j (pats T) = Some r \<and>
       row_valid (te_now E) (te_sha256 E token) r \<and> who = user_caller u (Some (or_default (pt_surface r) ''all'')))"
  using resolve_pat_like [OF assms(1,2)] resolve_plain_pat [OF _ assms(5,6)] assms(3,4) by auto

definition one_pat :: pat where
  "one_pat = \<lparr>pt_id = ''j'', pt_user = ''u1'', pt_name = ''ci'', pt_hash = ''h'', pt_prefix = ''j'', pt_scopes = None,
     pt_created = 0, pt_expires = Some 100, pt_used = None, pt_ip = None, pt_revoked = None, pt_agent = None,
     pt_surface = Some ''stack''\<rparr>"

definition one_pat_db :: tdb where
  "one_pat_db = \<lparr>base = duo, chat_sessions = [], participants = [], pats = [one_pat], audit_log = []\<rparr>"

definition pat_claims :: payload where
  "pat_claims = [(''sub'', Text ''u1''), (''typ'', Text ''pat''), (''jti'', Text ''j''), (''scope'', Text ''general'')]"

definition one_env :: "payload \<Rightarrow> micros \<Rightarrow> tenv" where
  "one_env p now = \<lparr>te_verify = (\<lambda>t. if t = ''tok'' then Some p else None), te_sha256 = (\<lambda>_. ''h''), te_hops = None,
     te_now = now, te_audit_ok = True, te_mark_ok = True\<rparr>"

theorem pat_resolution_exact_witness:
  "fst (resolve_token_to_user (one_env pat_claims 50) False False ''tok'' None one_pat_db) =
     Inr (UserDict \<lparr>ud_id = Some ''u1'', ud_email = Some ''a@b'', ud_surface = Some ''stack''\<rparr>)
   \<and> fst (resolve_token_to_user (one_env pat_claims 101) False False ''tok'' None one_pat_db) \<noteq>
     Inr (UserDict \<lparr>ud_id = Some ''u1'', ud_email = Some ''a@b'', ud_surface = Some ''stack''\<rparr>)"
proof -
  have claims: "claim_text pat_claims ''typ'' = Some ''pat''" "claim_text pat_claims ''sub'' = Some ''u1''"
    "claim_text pat_claims ''jti'' = Some ''j''" "claim_text pat_claims ''chat_session_id'' = None"
    "\<not> scope_forbidden False False pat_claims"
    by (simp_all add: claim_text_def pat_claims_def scope_forbidden_def or_default_def
        DATA_APP_GIT_SCOPE_PREFIX_def DATA_APP_PREVIEW_SCOPE_PREFIX_def)
  have rows: "find (\<lambda>r. usr_id r = ''u1'') (users (base one_pat_db)) =
      Some \<lparr>usr_id = ''u1'', usr_email = ''a@b'', usr_active = True, usr_created = Some 0\<rparr>"
    "pat_get ''j'' (pats one_pat_db) = Some one_pat"
    by (simp_all add: one_pat_db_def duo_def pat_get_def one_pat_def)
  have pat: "''pat'' \<in> set PAT_LIKE_TYPES" by (simp add: PAT_LIKE_TYPES_def)
  have v: "te_verify (one_env pat_claims now) ''tok'' = Some pat_claims" for now by (simp add: one_env_def)
  have tok: "''tok'' \<noteq> []" by simp
  show ?thesis
    unfolding pat_resolution_exact [OF v tok claims(1) pat claims(2,3)]
    by (simp add: claims rows names_co_session_def row_valid_def one_pat_def user_caller_def or_default_def one_env_def)
qed

section \<open>A refused token leaves no trace\<close>

lemma resolve_plain_shape:
  "isl (fst (resolve_plain E token rq p T)) \<and> snd (resolve_plain E token rq p T) = T
   \<or> \<not> isl (fst (resolve_plain E token rq p T)) \<and>
     (snd (resolve_plain E token rq p T) = T \<or> (\<exists>u r. snd (resolve_plain E token rq p T) = pat_bookkeeping E p rq u r T))"
proof (cases "find (\<lambda>r. usr_id r = (case claim_text p ''sub'' of None \<Rightarrow> [] | Some u \<Rightarrow> u)) (users (base T))")
  case (Some u)
  note user = Some
  show ?thesis
  proof (cases "pat_get (case claim_text p ''jti'' of None \<Rightarrow> [] | Some j \<Rightarrow> j) (pats T)")
    case None
    with user show ?thesis by (simp add: resolve_plain_def)
  next
    case (Some r)
    show ?thesis
    proof (cases "pat_refused E token p T r")
      case None
      with user Some show ?thesis by (simp add: resolve_plain_def) blast
    next
      case (Some why)
      with user \<open>pat_get _ _ = Some r\<close> show ?thesis by (simp add: resolve_plain_def)
    qed
  qed
qed (simp add: resolve_plain_def)

lemma resolve_shape:
  obtains (refused) why where "resolve_token_to_user E git preview token rq T = (Inl why, T, None)"
  | (principal) who p where "resolve_token_to_user E git preview token rq T = (Inr who, T, if rq = None then None else Some p)"
  | (user) who p u r where "resolve_token_to_user E git preview token rq T
      = (Inr who, pat_bookkeeping E p rq u r T, if rq = None then None else Some p)"
proof (cases "token = [] \<or> te_verify E token = None")
  case True
  then have "\<exists>why. resolve_token_to_user E git preview token rq T = (Inl why, T, None)"
    by (cases "token = []") (simp_all add: resolve_token_to_user_def)
  then obtain why where "resolve_token_to_user E git preview token rq T = (Inl why, T, None)" ..
  then show ?thesis by (rule refused)
next
  case False
  then obtain p where p: "te_verify E token = Some p" and tok: "token \<noteq> []" by auto
  define stash where "stash = (\<lambda>(res :: reason + caller, T' :: tdb). (res, T', if isl res then None else if rq = None then None else Some p))"
  have stash: thesis if "resolve_token_to_user E git preview token rq T = stash (res, T')"
    "isl res \<and> T' = T \<or> \<not> isl res \<and> (T' = T \<or> (\<exists>u r. T' = pat_bookkeeping E p rq u r T))" for res T'
  proof (cases res)
    case (Inl why)
    with that have "resolve_token_to_user E git preview token rq T = (Inl why, T, None)" by (simp add: stash_def)
    then show thesis by (rule refused)
  next
    case (Inr who)
    with that(2) consider "T' = T" | u r where "T' = pat_bookkeeping E p rq u r T" by auto
    then show thesis
    proof cases
      case 1
      with Inr that(1) have "resolve_token_to_user E git preview token rq T = (Inr who, T, if rq = None then None else Some p)"
        by (simp add: stash_def)
      then show thesis by (rule principal)
    next
      case 2
      with Inr that(1) have "resolve_token_to_user E git preview token rq T
          = (Inr who, pat_bookkeeping E p rq u r T, if rq = None then None else Some p)"
        by (simp add: stash_def)
      then show thesis by (rule user)
    qed
  qed
  have plain: "stash (resolve_plain E token rq p T) = stash (fst (resolve_plain E token rq p T), snd (resolve_plain E token rq p T))"
    by simp
  let ?ty = "claim_text p ''typ''" and ?sid = "or_default (claim_text p ''chat_session_id'') []"
  let ?r = "resolve_token_to_user E git preview token rq T"
  have "(\<exists>why. ?r = (Inl why, T, None)) \<or> ?r = stash (resolve_co_session (claim_text p ''chat_session_id'') T, T)
      \<or> ?r = stash (resolve_agent_session ?sid T, T) \<or> ?r = stash (resolve_plain E token rq p T)"
    using tok by (simp add: resolve_token_to_user_def p Let_def stash_def [symmetric] del: not_None_eq split del: if_split)
      (simp split: if_split)
  then consider "\<exists>why. ?r = (Inl why, T, None)" | "?r = stash (resolve_co_session (claim_text p ''chat_session_id'') T, T)"
    | "?r = stash (resolve_agent_session ?sid T, T)" | "?r = stash (resolve_plain E token rq p T)"
    by argo
  then show ?thesis
  proof cases
    case 1 then obtain why where "?r = (Inl why, T, None)" ..
    then show ?thesis by (rule refused)
  next
    case 2 then show ?thesis by (rule stash) simp
  next
    case 3 then show ?thesis by (rule stash) simp
  next
    case 4
    then show ?thesis unfolding plain by (rule stash) (rule resolve_plain_shape)
  qed
qed

text \<open>
  A token that is refused, for whichever reason, changes nothing: no last use, no audit entry, and above all no
  claims left on the request, so nothing further down can take the refused token's agent for the caller.
\<close>

theorem refused_token_leaves_no_trace:
  "fst (resolve_token_to_user E git preview token rq T) = Inl why \<Longrightarrow>
   snd (resolve_token_to_user E git preview token rq T) = (T, None)
   \<and> agent_id_from_request (snd (snd (resolve_token_to_user E git preview token rq T))) = None"
  by (rule resolve_shape [of E git preview token rq T]) (auto simp: agent_id_from_request_def)

theorem refused_token_leaves_no_trace_witness:
  "agent_id_from_request (snd (snd (resolve_token_to_user (one_env [(''typ'', Text ''agent_pat''), (''agent_id'', Text ''ag'')] 0)
     False False ''tok'' None one_pat_db))) = None"
proof -
  have "fst (resolve_token_to_user (one_env [(''typ'', Text ''agent_pat''), (''agent_id'', Text ''ag'')] 0)
     False False ''tok'' None one_pat_db) = Inl Agent_pat_wrong_surface"
    by (simp add: resolve_token_to_user_def one_env_def scope_forbidden_def claim_text_def or_default_def
        allowed_agent_path_def AGENT_PAT_ALLOWED_PREFIXES_def DATA_APP_GIT_SCOPE_PREFIX_def DATA_APP_PREVIEW_SCOPE_PREFIX_def)
  from refused_token_leaves_no_trace [OF this] show ?thesis by (rule conjunct2)
qed

lemma bookkeeping_frame:
  "base (pat_bookkeeping E p rq u r T) = base T \<and> map pt_revoked (pats (pat_bookkeeping E p rq u r T)) = map pt_revoked (pats T)
   \<and> chat_sessions (pat_bookkeeping E p rq u r T) = chat_sessions T
   \<and> participants (pat_bookkeeping E p rq u r T) = participants T"
  by (auto simp: pat_bookkeeping_def Let_def pat_mark_used_def split: option.splits)

lemma accepted_token_frame:
  "base (fst (snd (resolve_token_to_user E git preview token rq T))) = base T
   \<and> map pt_revoked (pats (fst (snd (resolve_token_to_user E git preview token rq T)))) = map pt_revoked (pats T)
   \<and> chat_sessions (fst (snd (resolve_token_to_user E git preview token rq T))) = chat_sessions T
   \<and> participants (fst (snd (resolve_token_to_user E git preview token rq T))) = participants T"
  by (rule resolve_shape [of E git preview token rq T]) (simp_all add: bookkeeping_frame)

section \<open>Revocation\<close>

text \<open>The writers of the token table, applied in any order.\<close>

datatype pat_op =
    PCreate micros string string string string string "micros option" "string option" "string option" string
  | PRevoke micros string
  | PRevokeAgent micros string
  | PDelete string
  | PUse micros string "string option"

fun pat_perform :: "pat_op \<Rightarrow> pat list \<Rightarrow> pat list" where
  "pat_perform (PCreate now i u nm h pre ex sc ag sf) ts =
     (case pat_create now i u nm h pre ex sc ag sf ts of Inl _ \<Rightarrow> ts | Inr ts' \<Rightarrow> ts')"
| "pat_perform (PRevoke now i) ts = pat_revoke now i ts"
| "pat_perform (PRevokeAgent now a) ts = pat_revoke_for_agent now a ts"
| "pat_perform (PDelete i) ts = pat_delete i ts"
| "pat_perform (PUse now i ip) ts = pat_mark_used now i ip ts"

fun created_id :: "pat_op \<Rightarrow> string option" where
  "created_id (PCreate now i u nm h pre ex sc ag sf) = Some i"
| "created_id (PRevoke now i) = None"
| "created_id (PRevokeAgent now a) = None"
| "created_id (PDelete i) = None"
| "created_id (PUse now i ip) = None"

definition dead_token :: "string \<Rightarrow> pat list \<Rightarrow> bool" where
  "dead_token j ts \<longleftrightarrow> (\<forall>r\<in>set ts. pt_id r = j \<longrightarrow> pt_revoked r \<noteq> None)"

lemma dead_token_perform: "dead_token j ts \<Longrightarrow> created_id a \<noteq> Some j \<Longrightarrow> dead_token j (pat_perform a ts)"
  by (cases a) (auto simp: dead_token_def pat_create_def pat_revoke_def pat_revoke_for_agent_def pat_delete_def
      pat_mark_used_def)

lemma dead_token_fold:
  "dead_token j ts \<Longrightarrow> \<forall>a\<in>set as. created_id a \<noteq> Some j \<Longrightarrow> dead_token j (fold pat_perform as ts)"
  by (induction as arbitrary: ts) (auto intro: dead_token_perform)

lemma dead_token_map:
  assumes "\<And>r. pt_id (f r) = pt_id r" "\<And>r. r \<in> set ts \<Longrightarrow> pt_id r = j \<Longrightarrow> pt_revoked (f r) \<noteq> None"
  shows "dead_token j (map f ts)"
  using assms(2) unfolding dead_token_def set_map by (metis assms(1) imageE)

lemma dead_token_revoke: "dead_token j (pat_revoke t j ts)"
  unfolding pat_revoke_def by (rule dead_token_map) simp_all

lemma dead_token_revoke_agent:
  assumes "\<forall>r\<in>set ts. pt_id r = j \<longrightarrow> pt_agent r = Some a"
  shows "dead_token j (pat_revoke_for_agent t a ts)"
  unfolding pat_revoke_for_agent_def
proof (rule dead_token_map)
  fix r assume "r \<in> set ts" "pt_id r = j"
  with assms have "pt_agent r = Some a" by blast
  then show "pt_revoked (if pt_agent r = Some a \<and> pt_revoked r = None then r\<lparr>pt_revoked := Some t\<rparr> else r) \<noteq> None"
    by simp
qed simp

lemma dead_token_refused:
  assumes "dead_token j (pats T)" "te_verify E token = Some p"
    and "claim_text p ''typ'' \<in> Some ` set PAT_LIKE_TYPES" "claim_text p ''jti'' = Some j"
  shows "fst (resolve_token_to_user E git preview token rq T) \<noteq> Inr who"
proof
  assume ok: "fst (resolve_token_to_user E git preview token rq T) = Inr who"
  then have "token \<noteq> []" by (auto simp: resolve_token_to_user_def split: if_splits)
  with ok assms have "fst (resolve_plain E token rq p T) = Inr who" using resolve_pat_like by blast
  moreover have "fst (resolve_plain E token rq p T) \<noteq> Inr who" if "\<forall>r. pat_get j (pats T) = Some r \<longrightarrow> pt_revoked r \<noteq> None"
    using that assms(3,4) by (auto simp: resolve_plain_def pat_refused_def split: option.split)
  ultimately obtain r where "pat_get j (pats T) = Some r" "pt_revoked r = None" by blast
  with assms(1) show False by (auto simp: dead_token_def pat_get_def dest: find_SomeD)
qed

text \<open>
  C32. Revoking works and stays: once a token's row is revoked, by its id or with all tokens of its agent, no later
  sequence of writes to the token table (uses, other tokens being made, revoked or deleted, this one revoked again or
  deleted) makes the token acceptable on any surface, as long as its random id is not drawn again.
\<close>

theorem revoked_token_stays_refused:
  assumes "ts = pat_revoke t j (pats T) \<or>
      (ts = pat_revoke_for_agent t a (pats T) \<and> (\<forall>r\<in>set (pats T). pt_id r = j \<longrightarrow> pt_agent r = Some a))"
    and "\<forall>a\<in>set as. created_id a \<noteq> Some j"
    and "te_verify E token = Some p" "claim_text p ''typ'' \<in> Some ` set PAT_LIKE_TYPES" "claim_text p ''jti'' = Some j"
  shows "fst (resolve_token_to_user E git preview token rq (T\<lparr>pats := fold pat_perform as ts\<rparr>)) \<noteq> Inr who"
proof (rule dead_token_refused [OF _ assms(3-5)])
  have "dead_token j ts"
    using assms(1) dead_token_revoke dead_token_revoke_agent by blast
  then show "dead_token j (pats (T\<lparr>pats := fold pat_perform as ts\<rparr>))" using assms(2) by (simp add: dead_token_fold)
qed

theorem revoked_token_stays_refused_witness:
  "fst (resolve_token_to_user (one_env pat_claims 50) False False ''tok'' None
     (one_pat_db\<lparr>pats := fold pat_perform [PUse 7 ''j'' None, PRevoke 8 ''other''] (pat_revoke 5 ''j'' (pats one_pat_db))\<rparr>))
   \<noteq> Inr (user_caller \<lparr>usr_id = ''u1'', usr_email = ''a@b'', usr_active = True, usr_created = Some 0\<rparr> (Some ''stack''))"
  by (rule revoked_token_stays_refused [where j = "''j''" and p = pat_claims and t = 5 and T = one_pat_db
        and ts = "pat_revoke 5 ''j'' (pats one_pat_db)"])
     (simp_all add: one_env_def pat_claims_def claim_text_def PAT_LIKE_TYPES_def)

section \<open>Restricted sessions\<close>

text \<open>What the tables say of a session's agent.\<close>

definition session_agent :: "string \<Rightarrow> tdb \<Rightarrow> agent_row \<Rightarrow> user_row \<Rightarrow> bool" where
  "session_agent s T a ow \<longleftrightarrow> (\<exists>cs i. get_session s T = Some cs \<and> cs_agent cs = Some i \<and> i \<noteq> [] \<and>
     find (\<lambda>a. ag_id a = i) (agents (base T)) = Some a \<and> ag_deleted a = None \<and>
     find (\<lambda>r. usr_id r = ag_owner a) (users (base T)) = Some ow)"

lemma resolve_agent_session_iff:
  "resolve_agent_session s T = Inr who \<longleftrightarrow>
     (\<exists>a ow. session_agent s T a ow \<and> who = AgentPrincipal s (ag_id a) (usr_id ow) (usr_email ow)
        (compute_agent_intersection (usr_id ow) (Some a) (base T)))"
proof -
  have ag: "ag_id a = i" if "find (\<lambda>a. ag_id a = i) (agents (base T)) = Some a" for a i
    using that by (auto dest: find_SomeD)
  show ?thesis
  proof
    assume ok: "resolve_agent_session s T = Inr who"
    then obtain cs i a ow where found: "get_session s T = Some cs" "cs_agent cs = Some i" "i \<noteq> []"
        "find (\<lambda>a. ag_id a = i) (agents (base T)) = Some a" "ag_deleted a = None"
        "find (\<lambda>r. usr_id r = ag_owner a) (users (base T)) = Some ow"
      by (auto simp: resolve_agent_session_def or_default_def Let_def split: option.splits if_splits)
    with ok have "who = AgentPrincipal s (ag_id a) (usr_id ow) (usr_email ow)
        (compute_agent_intersection (usr_id ow) (Some a) (base T))"
      by (simp add: resolve_agent_session_def or_default_def ag [OF found(4)])
    with found show "\<exists>a ow. session_agent s T a ow \<and> who = AgentPrincipal s (ag_id a) (usr_id ow) (usr_email ow)
        (compute_agent_intersection (usr_id ow) (Some a) (base T))"
      unfolding session_agent_def by blast
  next
    assume "\<exists>a ow. session_agent s T a ow \<and> who = AgentPrincipal s (ag_id a) (usr_id ow) (usr_email ow)
        (compute_agent_intersection (usr_id ow) (Some a) (base T))"
    then obtain cs i a ow where found: "get_session s T = Some cs" "cs_agent cs = Some i" "i \<noteq> []"
        "find (\<lambda>a. ag_id a = i) (agents (base T)) = Some a" "ag_deleted a = None"
        "find (\<lambda>r. usr_id r = ag_owner a) (users (base T)) = Some ow"
      and who: "who = AgentPrincipal s (ag_id a) (usr_id ow) (usr_email ow)
        (compute_agent_intersection (usr_id ow) (Some a) (base T))"
      unfolding session_agent_def by blast
    then show "resolve_agent_session s T = Inr who"
      by (simp add: resolve_agent_session_def or_default_def ag [OF found(4)])
  qed
qed

lemma resolve_agent_token:
  assumes "te_verify E token = Some p" "token \<noteq> []" "claim_text p ''typ'' = Some ''agent_session''"
    and "claim_text p ''chat_session_id'' = Some s" "s \<noteq> []" "\<not> scope_forbidden git preview p"
  shows "fst (resolve_token_to_user E git preview token rq T) = resolve_agent_session s T"
  using assms claim_nonempty [OF assms(3)] by (simp add: resolve_token_to_user_def or_default_def Let_def split_beta)

text \<open>
  Deactivating an account does not stop its agents' sessions: a session token of an agent resolves to the agent's authority whether or not the agent's owner is still active: the
  resolver looks up the owner's row and never reads its flag.
\<close>

theorem deactivated_owner_agent_session:
  assumes "te_verify E token = Some p" "token \<noteq> []" "claim_text p ''typ'' = Some ''agent_session''"
    and "claim_text p ''chat_session_id'' = Some s" "s \<noteq> []" "\<not> scope_forbidden git preview p"
    and "session_agent s T a ow" "\<not> usr_active ow"
  shows "fst (resolve_token_to_user E git preview token rq T) =
     Inr (AgentPrincipal s (ag_id a) (usr_id ow) (usr_email ow) (compute_agent_intersection (usr_id ow) (Some a) (base T)))"
  using resolve_agent_token [OF assms(1-6)] resolve_agent_session_iff assms(7) by auto

definition paused_owner_db :: tdb where
  "paused_owner_db = \<lparr>base = duo\<lparr>agents := [solo_agent],
       users := [\<lparr>usr_id = ''u1'', usr_email = ''a@b'', usr_active = False, usr_created = Some 0\<rparr>]\<rparr>,
     chat_sessions = [\<lparr>cs_id = ''s'', cs_email = ''a@b'', cs_co = False, cs_agent = Some ''ag''\<rparr>],
     participants = [], pats = [], audit_log = []\<rparr>"

definition agent_claims :: payload where
  "agent_claims = [(''sub'', Text ''agent-session:s''), (''typ'', Text ''agent_session''), (''jti'', Text ''j''),
     (''scope'', Text ''chat''), (''chat_session_id'', Text ''s'')]"

theorem deactivated_owner_agent_session_witness:
  "\<exists>m. fst (resolve_token_to_user (one_env agent_claims 0) False False ''tok'' None paused_owner_db) =
     Inr (AgentPrincipal ''s'' ''ag'' ''u1'' ''a@b'' m)"
proof -
  have "session_agent ''s'' paused_owner_db solo_agent \<lparr>usr_id = ''u1'', usr_email = ''a@b'', usr_active = False, usr_created = Some 0\<rparr>"
    by (simp add: session_agent_def paused_owner_db_def get_session_def solo_agent_def)
  moreover have "\<not> scope_forbidden False False agent_claims"
    by (simp add: scope_forbidden_def agent_claims_def claim_text_def or_default_def DATA_APP_GIT_SCOPE_PREFIX_def
        DATA_APP_PREVIEW_SCOPE_PREFIX_def)
  ultimately show ?thesis
    using deactivated_owner_agent_session [of "one_env agent_claims 0" "''tok''" agent_claims "''s''" False False paused_owner_db
        solo_agent "\<lparr>usr_id = ''u1'', usr_email = ''a@b'', usr_active = False, usr_created = Some 0\<rparr>" None]
    by (simp add: one_env_def agent_claims_def claim_text_def solo_agent_def)
qed

section \<open>The client's address cannot be chosen by the client\<close>

lemma py_split_append: "py_split c (xs @ c # ys) = py_split c xs @ py_split c ys"
proof (induction xs)
  case (Cons x xs)
  have "py_split c xs \<noteq> []" by (induction xs) (auto split: list.split)
  with Cons show ?case by (auto split: list.split)
qed simp

lemma py_split_plain: "c \<notin> set xs \<Longrightarrow> py_split c xs = [xs]"
  by (induction xs) auto

lemma py_strip_space: "py_strip (CHR '' '' # s) = py_strip s"
  by (simp add: py_strip_def py_lstrip_def is_space_def)

definition appended :: "string list \<Rightarrow> string" where
  "appended ips = concat (map (\<lambda>i. CHR '','' # CHR '' '' # i) ips)"

definition address :: "string \<Rightarrow> bool" where
  "address i \<longleftrightarrow> i \<noteq> [] \<and> CHR '','' \<notin> set i \<and> py_strip i = i"

lemma xff_parts_appended:
  "\<forall>i\<in>set ips. address i \<Longrightarrow> xff_parts (spoof @ appended ips) = xff_parts spoof @ ips"
proof (induction ips rule: rev_induct)
  case (snoc i ips)
  have i: "CHR '','' \<notin> set (CHR '' '' # i)" "py_strip i = i" "i \<noteq> []" using snoc.prems by (simp_all add: address_def)
  have "spoof @ appended (ips @ [i]) = (spoof @ appended ips) @ CHR '','' # (CHR '' '' # i)"
    by (simp add: appended_def)
  then have "xff_parts (spoof @ appended (ips @ [i])) = xff_parts (spoof @ appended ips) @ [i]"
    using i by (simp only: xff_parts_def py_split_append py_split_plain [OF i(1)] map_append filter_append)
      (simp add: py_strip_space)
  with snoc show ?case by simp
qed (simp add: appended_def)

text \<open>
  Behind trusted proxies that append the peer they saw to \<open>X-Forwarded-For\<close>, the address used for throttling and
  audit is the one the outermost of them saw, whatever the client wrote into the header itself.
\<close>

theorem client_ip_not_spoofable:
  assumes "rq_xff r = Some (spoof @ appended ips)" "int (length ips) = trusted_hops hops" "\<forall>i\<in>set ips. address i"
  shows "trusted_client_ip hops (Some r) = Some (hd ips)"
proof -
  have hops: "1 \<le> trusted_hops hops" by (simp add: trusted_hops_def split: option.split)
  then have "ips \<noteq> []" using assms(2) by auto
  moreover have "nat (int (length (xff_parts spoof @ ips)) - trusted_hops hops) = length (xff_parts spoof)"
    using assms(2) by simp
  ultimately show ?thesis using assms(1,2) xff_parts_appended [OF assms(3)]
    by (simp add: trusted_client_ip_def nth_append hd_conv_nth)
qed

theorem client_ip_not_spoofable_witness:
  "trusted_client_ip None (Some \<lparr>rq_path = ''/'', rq_xff = Some (''6.6.6.6, 7.7.7.7'' @ appended [''10.1.2.3'']), rq_peer = None,
     rq_authorization = None, rq_cookie = None, rq_sapi = None\<rparr>) = Some ''10.1.2.3''"
proof -
  have hops: "trusted_hops None = 1" by code_simp
  have addr: "address ''10.1.2.3''" by code_simp
  have "trusted_client_ip None (Some \<lparr>rq_path = ''/'', rq_xff = Some (''6.6.6.6, 7.7.7.7'' @ appended [''10.1.2.3'']), rq_peer = None,
     rq_authorization = None, rq_cookie = None, rq_sapi = None\<rparr>) = Some (hd [''10.1.2.3''])"
    by (rule client_ip_not_spoofable [where spoof = "''6.6.6.6, 7.7.7.7''"]) (simp_all add: hops addr)
  then show ?thesis by simp
qed

end
