(* ===== verification/HeaderAuth.thy ===== *)
theory HeaderAuth
  imports Tokens "HOL-Library.List_Lexorder" "HOL-Library.Char_ord" "HOL-Library.Product_Lexorder"
begin

text \<open>
  Authentication by a Keboola Storage token in a request header, \<open>app/auth/keboola_header.py\<close>: the positive cache
  of sixty seconds and the guard that throttles floods of failing tokens. The upstream verification is a call to another
  service; its outcome is an argument of the request. The module's three dicts are association lists in insertion order.
\<close>

section \<open>State\<close>

datatype verdict = Verified string | Rejected string | Unexpected

record header_state =
  hs_cache :: "(string \<times> (mono_time \<times> string)) list"
  hs_windows :: "(string \<times> (mono_time \<times> nat)) list"
  hs_failures :: "(string \<times> (mono_time \<times> nat)) list"

definition VERIFY_CACHE_TTL_SECONDS :: rat where "VERIFY_CACHE_TTL_SECONDS = 60"
definition CACHE_MAX_ENTRIES :: nat where "CACHE_MAX_ENTRIES = 1024"
definition STATE_MAX_ENTRIES :: nat where "STATE_MAX_ENTRIES = 4096"
definition FAILURE_WINDOW_SECONDS :: rat where "FAILURE_WINDOW_SECONDS = 60"
definition MAX_FAILURES_PER_IP :: nat where "MAX_FAILURES_PER_IP = 10"
definition MAX_FAILURES_GLOBAL :: nat where "MAX_FAILURES_GLOBAL = 300"
definition FAILURES_BEFORE_BACKOFF :: nat where "FAILURES_BEFORE_BACKOFF = 5"
definition FAILURE_BACKOFF_SECONDS :: rat where "FAILURE_BACKOFF_SECONDS = 60"
definition GLOBAL_KEY :: string where "GLOBAL_KEY = ''__global__''"

definition ip_key :: "string \<Rightarrow> string" where "ip_key ip = ''ip:'' @ ip"

definition dict_pop :: "'k \<Rightarrow> ('k \<times> 'v) list \<Rightarrow> ('k \<times> 'v) list" where
  "dict_pop k d = filter (\<lambda>e. fst e \<noteq> k) d"

definition get_or :: "('k \<times> 'v) list \<Rightarrow> 'k \<Rightarrow> 'v \<Rightarrow> 'v" where
  "get_or d k v = (case map_of d k of None \<Rightarrow> v | Some x \<Rightarrow> x)"

section \<open>The flood guard\<close>

definition window_count :: "string \<Rightarrow> mono_time \<Rightarrow> header_state \<Rightarrow> nat" where
  "window_count k now S =
     (let (start, n) = get_or (hs_windows S) k (now, 0) in if FAILURE_WINDOW_SECONDS \<le> now - start then 0 else n)"

definition bump_failure_window :: "string \<Rightarrow> mono_time \<Rightarrow> header_state \<Rightarrow> header_state" where
  "bump_failure_window k now S =
     (let (start, n) = get_or (hs_windows S) k (now, 0);
          (start', n') = (if FAILURE_WINDOW_SECONDS \<le> now - start then (now, 0) else (start, n))
      in S\<lparr>hs_windows := dict_set k (start', n' + 1) (hs_windows S)\<rparr>)"

definition admit_miss :: "string \<Rightarrow> mono_time \<Rightarrow> header_state \<Rightarrow> string option \<times> header_state" where
  "admit_miss ip now S =
     (let (until, failures) = get_or (hs_failures S) ip (0, 0)
      in if FAILURES_BEFORE_BACKOFF \<le> failures \<and> now < until then (Some ''rate_limited'', S)
         else let S1 = (if FAILURES_BEFORE_BACKOFF \<le> failures then S\<lparr>hs_failures := dict_pop ip (hs_failures S)\<rparr> else S)
              in if MAX_FAILURES_PER_IP \<le> window_count (ip_key ip) now S1 then (Some ''rate_limited'', S1)
                 else if MAX_FAILURES_GLOBAL \<le> window_count GLOBAL_KEY now S1 then (Some ''rate_limited'', S1)
                 else (None, S1))"

definition prune_state :: "mono_time \<Rightarrow> header_state \<Rightarrow> header_state" where
  "prune_state now S =
     (let S1 = (if STATE_MAX_ENTRIES < length (hs_windows S)
                then S\<lparr>hs_windows := filter (\<lambda>(k, (start, n)). k = GLOBAL_KEY \<or> now - start < FAILURE_WINDOW_SECONDS) (hs_windows S)\<rparr>
                else S)
      in if STATE_MAX_ENTRIES < length (hs_failures S1)
         then S1\<lparr>hs_failures := filter (\<lambda>(k, (until, n)). now < until) (hs_failures S1)\<rparr>
         else S1)"

definition record_failure :: "string \<Rightarrow> mono_time \<Rightarrow> header_state \<Rightarrow> header_state" where
  "record_failure ip now S =
     (let S1 = bump_failure_window GLOBAL_KEY now (bump_failure_window (ip_key ip) now S);
          failures = snd (get_or (hs_failures S1) ip (0, 0)) + 1
      in prune_state now (S1\<lparr>hs_failures := dict_set ip (now + FAILURE_BACKOFF_SECONDS, failures) (hs_failures S1)\<rparr>))"

text \<open>Expired entries first, then the oldest, ties in insertion order (the sort is stable).\<close>

definition prune_cache :: "mono_time \<Rightarrow> header_state \<Rightarrow> header_state" where
  "prune_cache now S =
     (if length (hs_cache S) \<le> CACHE_MAX_ENTRIES then S
      else let d = filter (\<lambda>(k, (ts, e)). now - ts < VERIFY_CACHE_TTL_SECONDS) (hs_cache S);
               excess = length d - CACHE_MAX_ENTRIES;
               oldest = map fst (take excess (sort_key (\<lambda>e. fst (snd e)) d))
           in S\<lparr>hs_cache := filter (\<lambda>e. fst e \<notin> set oldest) d\<rparr>)"

section \<open>The request\<close>

text \<open>\<open>get_by_email_ci\<close>: the oldest row of that address, rows without a creation time last, ties by id.\<close>

definition get_by_email_ci :: "string \<Rightarrow> user_row list \<Rightarrow> user_row option" where
  "get_by_email_ci e us =
     (case sort_key (\<lambda>r. (case usr_created r of None \<Rightarrow> (1::nat, 0) | Some t \<Rightarrow> (0, t), usr_id r))
             (filter (\<lambda>r. lower (usr_email r) = lower e) us) of
        [] \<Rightarrow> None | r # rs \<Rightarrow> Some r)"

record header_request =
  hq_now :: mono_time
  hq_token :: string
  hq_ip :: "string option"
  hq_verdict :: verdict
  hq_lookup_ok :: bool

definition header_identity ::
  "(string \<Rightarrow> string) \<Rightarrow> header_request \<Rightarrow> header_state \<Rightarrow> (string + string) \<times> header_state" where
  "header_identity sha256 q S =
     (let key = sha256 (hq_token q); now = hq_now q;
          miss = (let ip = or_default (hq_ip q) ''unknown''; (refusal, S1) = admit_miss ip now S
                  in case refusal of
                       Some r \<Rightarrow> (Inl r, S1)
                     | None \<Rightarrow>
                         (case hq_verdict q of
                            Rejected r \<Rightarrow> (Inl r, record_failure ip now S1)
                          | Unexpected \<Rightarrow> (Inl ''keboola_verify_error'', record_failure ip now S1)
                          | Verified e \<Rightarrow>
                              (Inr e, prune_cache now (S1\<lparr>hs_failures := dict_pop ip (hs_failures S1),
                                 hs_cache := dict_set key (now, e) (hs_cache S1)\<rparr>))))
      in case map_of (hs_cache S) key of
           None \<Rightarrow> miss
         | Some (ts, e) \<Rightarrow> if now - ts < VERIFY_CACHE_TTL_SECONDS then (Inr e, S) else miss)"

definition resolve_header_user ::
  "(string \<Rightarrow> string) \<Rightarrow> header_request \<Rightarrow> user_row list \<Rightarrow> header_state \<Rightarrow> (string + caller) \<times> header_state" where
  "resolve_header_user sha256 q us S =
     (case header_identity sha256 q S of
        (Inl r, S1) \<Rightarrow> (Inl r, S1)
      | (Inr e, S1) \<Rightarrow>
          if \<not> hq_lookup_ok q then (Inl ''keboola_lookup_error'', S1)
          else case get_by_email_ci e us of
                 None \<Rightarrow> (Inl ''keboola_user_unknown'', S1)
               | Some u \<Rightarrow> if \<not> usr_active u then (Inl ''deactivated'', S1)
                           else (Inr (user_caller u (Some ''stack'')), S1))"

text \<open>A history of requests, one after the other, against user tables that may change in between.\<close>

fun header_run :: "(string \<Rightarrow> string) \<Rightarrow> header_request list \<Rightarrow> header_state \<Rightarrow> header_state" where
  "header_run sha256 [] S = S"
| "header_run sha256 (q # qs) S = header_run sha256 qs (snd (header_identity sha256 q S))"

definition no_header_state :: header_state where
  "no_header_state = \<lparr>hs_cache = [], hs_windows = [], hs_failures = []\<rparr>"

lemma get_by_email_ci_SomeD:
  assumes "get_by_email_ci e us = Some u"
  shows "u \<in> set us" "lower (usr_email u) = lower e"
proof -
  let ?key = "\<lambda>r. (case usr_created r of None \<Rightarrow> (1::nat, 0) | Some t \<Rightarrow> (0, t), usr_id r)"
  let ?us = "filter (\<lambda>r. lower (usr_email r) = lower e) us"
  obtain rs where "sort_key ?key ?us = u # rs" using assms by (auto simp: get_by_email_ci_def split: list.splits)
  then have "u \<in> set (sort_key ?key ?us)" by (metis list.set_intros(1))
  then have "u \<in> set ?us" by (simp only: set_sort)
  then show "u \<in> set us" "lower (usr_email u) = lower e" by simp_all
qed

section \<open>Every identity was verified within the last minute\<close>

lemma map_of_dict_set: "map_of (dict_set k v d) k' = (if k' = k then Some v else map_of d k')"
proof (cases "k \<in> fst ` set d")
  case True
  have "map_of (map (\<lambda>(k', v'). (k', if k' = k then v else v')) d) k' =
      (if k' = k then map_option (\<lambda>_. v) (map_of d k) else map_of d k')"
    by (induction d) auto
  moreover have "map_of d k \<noteq> None" using True by (simp add: map_of_eq_None_iff)
  ultimately show ?thesis using True by (auto simp: dict_set_def)
next
  case False
  then have "map_of d k = None" by (simp add: map_of_eq_None_iff)
  with False show ?thesis by (cases "k' = k") (simp_all add: dict_set_def map_add_def split: option.split)
qed

lemma dict_set_subset: "set (dict_set k v d) \<subseteq> insert (k, v) (set d)"
  by (auto simp: dict_set_def split: if_splits)

lemma admit_miss_cache [simp]: "hs_cache (snd (admit_miss ip now S)) = hs_cache S"
  by (simp add: admit_miss_def Let_def split_beta)

lemma record_failure_cache [simp]: "hs_cache (record_failure ip now S) = hs_cache S"
  by (simp add: record_failure_def prune_state_def bump_failure_window_def Let_def split_beta)

lemma prune_cache_subset: "set (hs_cache (prune_cache now S)) \<subseteq> set (hs_cache S)"
  by (auto simp: prune_cache_def Let_def)

lemma header_identity_cache:
  "set (hs_cache (snd (header_identity sha256 q S))) \<subseteq>
     set (hs_cache S) \<union> {(sha256 (hq_token q), (hq_now q, e)) | e. hq_verdict q = Verified e}"
proof -
  have "set (hs_cache (prune_cache (hq_now q) (S'\<lparr>hs_failures := f, hs_cache := dict_set k v (hs_cache S)\<rparr>)))
      \<subseteq> insert (k, v) (set (hs_cache S))" for S' f k v
    using prune_cache_subset dict_set_subset by (metis (no_types, lifting) header_state.simps(6) header_state.surjective
        header_state.update_convs(1) subset_trans header_state.select_convs(1))
  then show ?thesis
    unfolding header_identity_def Let_def split_beta
    by (auto split: option.splits verdict.splits)
qed

text \<open>What a history of requests vouches for: each entry of the cache was verified by one of them, at the entry's time.\<close>

definition vouched :: "(string \<Rightarrow> string) \<Rightarrow> header_request list \<Rightarrow> header_state \<Rightarrow> bool" where
  "vouched sha256 qs S \<longleftrightarrow> (\<forall>(k, (ts, e))\<in>set (hs_cache S).
     \<exists>q\<in>set qs. sha256 (hq_token q) = k \<and> hq_now q = ts \<and> hq_verdict q = Verified e)"

lemma vouched_step:
  assumes "vouched sha256 qs S" "set (q # qs) \<subseteq> set qs'"
  shows "vouched sha256 qs' (snd (header_identity sha256 q S))"
  unfolding vouched_def
proof (clarify)
  fix k ts e assume "(k, ts, e) \<in> set (hs_cache (snd (header_identity sha256 q S)))"
  then consider "(k, ts, e) \<in> set (hs_cache S)" | "k = sha256 (hq_token q)" "ts = hq_now q" "hq_verdict q = Verified e"
    using header_identity_cache [of sha256 q S] by blast
  then show "\<exists>q\<in>set qs'. sha256 (hq_token q) = k \<and> hq_now q = ts \<and> hq_verdict q = Verified e"
  proof cases
    case 1
    with assms(1) have "\<exists>q\<in>set qs. sha256 (hq_token q) = k \<and> hq_now q = ts \<and> hq_verdict q = Verified e"
      by (auto simp: vouched_def)
    with assms(2) show ?thesis by auto
  next
    case 2 with assms(2) show ?thesis by auto
  qed
qed

lemma vouched_run: "vouched sha256 hist S \<Longrightarrow> vouched sha256 (hist @ qs) (header_run sha256 qs S)"
proof (induction qs arbitrary: hist S)
  case (Cons q qs)
  have "vouched sha256 (hist @ [q]) (snd (header_identity sha256 q S))"
    by (rule vouched_step [OF Cons.prems]) simp
  from Cons.IH [OF this] show ?case by simp
qed simp

lemma header_identity_source:
  assumes "fst (header_identity sha256 q S) = Inr e"
  shows "hq_verdict q = Verified e \<or> (\<exists>ts. (sha256 (hq_token q), (ts, e)) \<in> set (hs_cache S)
    \<and> hq_now q - ts < VERIFY_CACHE_TTL_SECONDS)"
proof (cases "\<exists>ts e'. map_of (hs_cache S) (sha256 (hq_token q)) = Some (ts, e') \<and> hq_now q - ts < VERIFY_CACHE_TTL_SECONDS")
  case True
  then obtain ts e' where hit: "map_of (hs_cache S) (sha256 (hq_token q)) = Some (ts, e')"
    "hq_now q - ts < VERIFY_CACHE_TTL_SECONDS" by blast
  with assms have "e' = e" by (simp add: header_identity_def)
  with hit show ?thesis using map_of_SomeD by fast
next
  case False
  then show ?thesis using assms unfolding header_identity_def Let_def split_beta
    by (auto split: option.splits verdict.splits if_splits)
qed

text \<open>
  A Storage token in a header authenticates only an existing, active account whose address, compared without
  regard to case, is that of an identity the Keboola stack verified for a token with this hash less than sixty seconds
  ago (or in this very request), whatever came before; the account is read at the moment of the request, so a
  deactivation takes effect although the verification is cached, and the caller has the narrow read surface.
\<close>

theorem header_token_fresh:
  assumes "fst (resolve_header_user sha256 q us (header_run sha256 qs no_header_state)) = Inr who"
  shows "\<exists>e u. (\<exists>q'\<in>set (qs @ [q]). sha256 (hq_token q') = sha256 (hq_token q) \<and> hq_verdict q' = Verified e
        \<and> hq_now q - hq_now q' < VERIFY_CACHE_TTL_SECONDS)
      \<and> get_by_email_ci e us = Some u \<and> lower (usr_email u) = lower e \<and> u \<in> set us \<and> usr_active u
      \<and> who = user_caller u (Some ''stack'')"
proof -
  let ?S = "header_run sha256 qs no_header_state"
  from assms obtain e u where e: "fst (header_identity sha256 q ?S) = Inr e"
    and u: "get_by_email_ci e us = Some u" "usr_active u" "who = user_caller u (Some ''stack'')"
    unfolding resolve_header_user_def by (auto split: prod.splits sum.splits option.splits if_splits)
  note row = get_by_email_ci_SomeD [OF u(1)]
  have cache: "vouched sha256 ([] @ qs) ?S" by (rule vouched_run) (simp add: vouched_def no_header_state_def)
  have "\<exists>q'\<in>set (qs @ [q]). sha256 (hq_token q') = sha256 (hq_token q) \<and> hq_verdict q' = Verified e
      \<and> hq_now q - hq_now q' < VERIFY_CACHE_TTL_SECONDS"
    using header_identity_source [OF e]
  proof
    assume "hq_verdict q = Verified e"
    then show ?thesis by (intro bexI [of _ q]) (simp_all add: VERIFY_CACHE_TTL_SECONDS_def)
  next
    assume "\<exists>ts. (sha256 (hq_token q), (ts, e)) \<in> set (hs_cache ?S) \<and> hq_now q - ts < VERIFY_CACHE_TTL_SECONDS"
    with cache show ?thesis by (fastforce simp: vouched_def)
  qed
  with u row show ?thesis by blast
qed

definition kbc :: "mono_time \<Rightarrow> verdict \<Rightarrow> header_request" where
  "kbc now v = \<lparr>hq_now = now, hq_token = ''t'', hq_ip = None, hq_verdict = v, hq_lookup_ok = True\<rparr>"

theorem header_token_fresh_witness:
  "\<exists>e u. (\<exists>q'\<in>set ([kbc 10 (Verified ''A@b'')] @ [kbc 40 Unexpected]). id (hq_token q') = id (hq_token (kbc 40 Unexpected))
        \<and> hq_verdict q' = Verified e \<and> hq_now (kbc 40 Unexpected) - hq_now q' < VERIFY_CACHE_TTL_SECONDS)
      \<and> get_by_email_ci e (users duo) = Some u \<and> lower (usr_email u) = lower e \<and> u \<in> set (users duo) \<and> usr_active u
      \<and> user_caller (hd (users duo)) (Some ''stack'') = user_caller u (Some ''stack'')"
proof (rule header_token_fresh)
  have S: "header_run id [kbc 10 (Verified ''A@b'')] no_header_state =
      \<lparr>hs_cache = [(''t'', (10, ''A@b''))], hs_windows = [], hs_failures = []\<rparr>"
    by (simp add: kbc_def no_header_state_def header_identity_def admit_miss_def get_or_def window_count_def
        prune_cache_def CACHE_MAX_ENTRIES_def dict_set_def dict_pop_def FAILURES_BEFORE_BACKOFF_def
        MAX_FAILURES_PER_IP_def MAX_FAILURES_GLOBAL_def FAILURE_WINDOW_SECONDS_def Let_def)
  have ci: "get_by_email_ci ''A@b'' (users duo) = Some (hd (users duo))"
  proof -
    have "lower ''A@b'' = ''a@b''" "lower ''a@b'' = ''a@b''" "lower ''c@d'' = ''c@d''" by code_simp+
    then show ?thesis by (simp add: get_by_email_ci_def duo_def)
  qed
  have "fst (header_identity id (kbc 40 Unexpected) (header_run id [kbc 10 (Verified ''A@b'')] no_header_state)) = Inr ''A@b''"
    unfolding S by (simp add: kbc_def header_identity_def VERIFY_CACHE_TTL_SECONDS_def)
  then show "fst (resolve_header_user id (kbc 40 Unexpected) (users duo)
      (header_run id [kbc 10 (Verified ''A@b'')] no_header_state)) = Inr (user_caller (hd (users duo)) (Some ''stack''))"
    by (simp add: resolve_header_user_def split_beta ci kbc_def split: sum.split) (simp add: duo_def)
qed

section \<open>The guard's budget\<close>

definition window_limit :: "string \<Rightarrow> nat" where
  "window_limit k = (if k = GLOBAL_KEY then MAX_FAILURES_GLOBAL else MAX_FAILURES_PER_IP)"

definition within_budget :: "header_state \<Rightarrow> bool" where
  "within_budget S \<longleftrightarrow> (\<forall>(k, (start, n))\<in>set (hs_windows S). n \<le> window_limit k)"

lemma bump_within_budget:
  assumes "within_budget S" "window_count k now S < window_limit k"
  shows "within_budget (bump_failure_window k now S)"
proof -
  obtain start n where w: "get_or (hs_windows S) k (now, 0) = (start, n)" by (cases "get_or (hs_windows S) k (now, 0)")
  obtain start' n' where new: "(if FAILURE_WINDOW_SECONDS \<le> now - start then (now, 1) else (start, n + 1)) = (start', n')"
    by (cases "if FAILURE_WINDOW_SECONDS \<le> now - start then (now, 1) else (start, n + 1)")
  have n': "n' \<le> window_limit k"
    using assms(2) w new
    by (auto simp: window_count_def window_limit_def MAX_FAILURES_PER_IP_def MAX_FAILURES_GLOBAL_def split: if_splits)
  have "hs_windows (bump_failure_window k now S) = dict_set k (start', n') (hs_windows S)"
    using new by (auto simp: bump_failure_window_def w split: if_splits)
  then have "set (hs_windows (bump_failure_window k now S)) \<subseteq> insert (k, (start', n')) (set (hs_windows S))"
    using dict_set_subset by simp
  with n' assms(1) show ?thesis unfolding within_budget_def by auto
qed

lemma window_count_bump_other: "k \<noteq> k' \<Longrightarrow> window_count k now (bump_failure_window k' now S) = window_count k now S"
  by (simp add: window_count_def bump_failure_window_def get_or_def map_of_dict_set Let_def split_beta)

lemma record_within_budget:
  assumes "within_budget S" "window_count (ip_key ip) now S < MAX_FAILURES_PER_IP"
    and "window_count GLOBAL_KEY now S < MAX_FAILURES_GLOBAL"
  shows "within_budget (record_failure ip now S)"
proof -
  have "ip_key ip \<noteq> GLOBAL_KEY" by (simp add: ip_key_def GLOBAL_KEY_def)
  with assms have "within_budget (bump_failure_window GLOBAL_KEY now (bump_failure_window (ip_key ip) now S))"
    by (intro bump_within_budget) (simp_all add: window_count_bump_other window_limit_def)
  moreover have "within_budget (prune_state now S')" if "within_budget S'" for S'
    using that by (auto simp: within_budget_def prune_state_def Let_def)
  moreover have "within_budget (S'\<lparr>hs_failures := f\<rparr>)" if "within_budget S'" for S' f
    using that by (simp add: within_budget_def)
  ultimately show ?thesis by (simp add: record_failure_def Let_def)
qed

lemma admit_miss_windows [simp]: "hs_windows (snd (admit_miss ip now S)) = hs_windows S"
  by (simp add: admit_miss_def Let_def split_beta)

lemma window_count_cong: "hs_windows S = hs_windows S' \<Longrightarrow> window_count k now S = window_count k now S'"
  by (simp add: window_count_def)

lemma admit_missD:
  assumes "fst (admit_miss ip now S) = None"
  shows "window_count (ip_key ip) now S < MAX_FAILURES_PER_IP" "window_count GLOBAL_KEY now S < MAX_FAILURES_GLOBAL"
  using assms by (auto simp: admit_miss_def Let_def split_beta window_count_def not_le split: if_splits)

lemma prune_cache_windows [simp]: "hs_windows (prune_cache now S) = hs_windows S"
  by (simp add: prune_cache_def Let_def)

lemma header_identity_budget:
  assumes "within_budget S"
  shows "within_budget (snd (header_identity sha256 q S))"
proof -
  let ?ip = "or_default (hq_ip q) ''unknown''"
  let ?S1 = "snd (admit_miss ?ip (hq_now q) S)"
  have S1: "within_budget ?S1" using assms by (simp add: within_budget_def)
  have failed: "within_budget (record_failure ?ip (hq_now q) ?S1)" if "fst (admit_miss ?ip (hq_now q) S) = None"
    using admit_missD [OF that] window_count_cong [OF admit_miss_windows]
    by (intro record_within_budget [OF S1]) simp_all
  have kept: "within_budget (prune_cache t (?S1\<lparr>hs_failures := f, hs_cache := c\<rparr>))" for t f c
    using S1 by (simp add: within_budget_def)
  show ?thesis
    using assms S1 failed kept unfolding header_identity_def Let_def split_beta
    by (auto split: option.split verdict.split)
qed

text \<open>
  The flood guard keeps its budget: over any sequence of header requests, one after the other, no address ever has
  more than ten failed verifications counted in one window, nor the process more than three hundred, and once a counter is full no
  further call is made upstream until the window has passed: the request is refused as rate limited, the token unseen.
\<close>

theorem header_guard_budget:
  "within_budget (header_run sha256 qs no_header_state) \<and>
   (window_limit (ip_key (or_default (hq_ip q) ''unknown'')) \<le>
        window_count (ip_key (or_default (hq_ip q) ''unknown'')) (hq_now q) S \<and>
      map_of (hs_cache S) (sha256 (hq_token q)) = None \<longrightarrow>
      fst (header_identity sha256 q S) = Inl ''rate_limited'')"
proof
  have "within_budget S \<Longrightarrow> within_budget (header_run sha256 qs S)" for S
    by (induction qs arbitrary: S) (simp_all add: header_identity_budget)
  moreover have "within_budget no_header_state" by (simp add: within_budget_def no_header_state_def)
  ultimately show "within_budget (header_run sha256 qs no_header_state)" .
  let ?ip = "or_default (hq_ip q) ''unknown''"
  have "ip_key ?ip \<noteq> GLOBAL_KEY" by (simp add: ip_key_def GLOBAL_KEY_def)
  moreover have "fst (admit_miss ?ip (hq_now q) S) = None \<or> fst (admit_miss ?ip (hq_now q) S) = Some ''rate_limited''"
    by (simp add: admit_miss_def Let_def split_beta)
  ultimately have "fst (admit_miss ?ip (hq_now q) S) = Some ''rate_limited''"
    if "window_limit (ip_key ?ip) \<le> window_count (ip_key ?ip) (hq_now q) S"
    using that admit_missD(1) [of ?ip "hq_now q" S] by (auto simp: window_limit_def)
  then show "window_limit (ip_key ?ip) \<le> window_count (ip_key ?ip) (hq_now q) S \<and>
      map_of (hs_cache S) (sha256 (hq_token q)) = None \<longrightarrow> fst (header_identity sha256 q S) = Inl ''rate_limited''"
    by (simp add: header_identity_def Let_def split_beta)
qed

theorem header_guard_budget_witness:
  "fst (header_identity id (kbc 5 Unexpected)
     \<lparr>hs_cache = [], hs_windows = [(''ip:unknown'', (0, 10))], hs_failures = []\<rparr>) = Inl ''rate_limited''"
proof -
  have "window_limit (ip_key (or_default (hq_ip (kbc 5 Unexpected)) ''unknown'')) \<le>
      window_count (ip_key (or_default (hq_ip (kbc 5 Unexpected)) ''unknown'')) (hq_now (kbc 5 Unexpected))
        \<lparr>hs_cache = [], hs_windows = [(''ip:unknown'', (0, 10))], hs_failures = []\<rparr>"
    by (simp add: kbc_def or_default_def ip_key_def window_limit_def GLOBAL_KEY_def MAX_FAILURES_PER_IP_def
        window_count_def get_or_def FAILURE_WINDOW_SECONDS_def)
  then show ?thesis using header_guard_budget [of id "[]" "kbc 5 Unexpected"
      "\<lparr>hs_cache = [], hs_windows = [(''ip:unknown'', (0, 10))], hs_failures = []\<rparr>"] by simp
qed

end
