(* ===== verification/Sessions.thy ===== *)
theory Sessions
  imports HeaderAuth OneTime
begin

text \<open>
  The caller of a request and what it may mint: \<open>get_current_user\<close> and \<open>require_session_token\<close> of
  \<open>app/auth/dependencies.py\<close>, the scheduler's shared secret (\<open>app/auth/scheduler_token.py\<close>), the endpoints that issue
  and revoke tokens (\<open>app/api/tokens.py\<close>, \<open>app/api/agents_admin.py\<close>) and the broker that replays a sandbox's requests
  under a freshly minted identity (\<open>app/api/broker.py\<close>). Signing a payload, like verifying one, is an argument.
\<close>

section \<open>Requests, their state and errors\<close>

text \<open>An HTTP error with its status and detail, or an exception that no handler catches.\<close>

datatype api_error = Http nat string | Uncaught http_error

text \<open>The caller with the keys that authentication adds to the user dict: \<open>is_admin\<close> and \<open>is_admin_paused\<close>, \<open>token_type\<close>.\<close>

record authn =
  an_caller :: caller
  an_admin :: "(bool \<times> bool) option"
  an_type :: "string option"

record rstate =
  st_payload :: "payload option"
  st_chat :: "string option"
  st_user :: "authn option"
  st_ctx :: reqctx

record server =
  sv_db :: tdb
  sv_header :: header_state

text \<open>The process's settings, and what the outside answers to this request.\<close>

record senv =
  se_token :: tenv
  se_dev_email :: "string option"
  se_header_enabled :: bool
  se_verdict :: verdict
  se_lookup_ok :: bool
  se_mono :: mono_time
  se_scheduler_secret :: string
  se_new_uuid :: string

section \<open>The scheduler\<close>

definition SCHEDULER_USER_EMAIL :: string where "SCHEDULER_USER_EMAIL = ''scheduler@system.local''"
definition SCHEDULER_TOKEN_MIN_LENGTH :: nat where "SCHEDULER_TOKEN_MIN_LENGTH = 32"

text \<open>\<open>raw\<close> is the environment variable, empty when unset.\<close>

definition is_scheduler_token :: "string \<Rightarrow> string \<Rightarrow> bool" where
  "is_scheduler_token raw token \<longleftrightarrow>
     (let secret = py_strip raw
      in token \<noteq> [] \<and> secret \<noteq> [] \<and> SCHEDULER_TOKEN_MIN_LENGTH \<le> length secret \<and> token = secret)"

definition get_by_email :: "string \<Rightarrow> user_row list \<Rightarrow> user_row option" where
  "get_by_email e us = find (\<lambda>r. usr_email r = e) us"

text \<open>The fan-out of mandatory plugins writes a table the model has not, and its failures are swallowed.\<close>

definition ensure_scheduler_user :: "micros \<Rightarrow> string \<Rightarrow> rdb \<Rightarrow> user_row \<times> rdb" where
  "ensure_scheduler_user now uuid R =
     (let fresh = \<lparr>usr_id = uuid, usr_email = SCHEDULER_USER_EMAIL, usr_active = True, usr_created = Some now\<rparr>;
          (u, R1) = (case get_by_email SCHEDULER_USER_EMAIL (users R) of
                       Some u \<Rightarrow> (u, R)
                     | None \<Rightarrow> (fresh, R\<lparr>users := users R @ [fresh]\<rparr>))
      in case get_group_by_name SYSTEM_ADMIN_GROUP (auth R1) of
           None \<Rightarrow> (u, R1)
         | Some g \<Rightarrow> (u, R1\<lparr>auth := add_member now (usr_id u) (ug_id g) ''system_seed''
                        (Some ''app.auth.scheduler_token:ensure_scheduler_user'') (auth R1)\<rparr>))"

definition get_scheduler_user :: "micros \<Rightarrow> string \<Rightarrow> rdb \<Rightarrow> user_row \<times> rdb" where
  "get_scheduler_user now uuid R =
     (case get_by_email SCHEDULER_USER_EMAIL (users R) of
        Some u \<Rightarrow> (u, R) | None \<Rightarrow> ensure_scheduler_user now uuid R)"

section \<open>The current user\<close>

definition normalize_email :: "string option \<Rightarrow> string" where
  "normalize_email value = lower (py_strip (or_default value []))"

definition auth_detail :: "reason \<Rightarrow> string" where
  "auth_detail r =
     (case r of
        Deactivated \<Rightarrow> ''Account deactivated'' | User_not_found \<Rightarrow> ''User not found''
      | Pat_unknown \<Rightarrow> ''Token unknown'' | Pat_revoked \<Rightarrow> ''Token revoked'' | Pat_expired \<Rightarrow> ''Token expired''
      | Pat_mismatch \<Rightarrow> ''Token mismatch'' | Pat_scope_forbidden \<Rightarrow> ''git_scope_token_not_allowed''
      | Invalid_token \<Rightarrow> ''Invalid or expired token'' | No_token \<Rightarrow> ''Invalid or expired token''
      | Agent_pat_wrong_surface \<Rightarrow> ''Agent token not valid on this surface''
      | Agent_pat_agent_deleted \<Rightarrow> ''Agent deleted'')"

text \<open>The wording of the header's refusals, with an ASCII dash.\<close>

definition keboola_header_detail :: "string \<Rightarrow> string" where
  "keboola_header_detail why =
     (case map_of
       [(''keboola_user_unknown'', ''No account exists for this Keboola identity - sign in via the web login first''),
        (''not_master_token'', ''Only a master (admin) Storage API token can authenticate''),
        (''no_admin_identity'', ''The verified token carries no admin identity''),
        (''project_mismatch'', ''The token belongs to a different Keboola project than this instance''),
        (''role_forbidden'', ''This Keboola project role is not permitted on this instance''),
        (''deactivated'', ''Account deactivated''), (''invalid_token'', ''Invalid or expired token''),
        (''verify_failed'', ''Could not verify the token against the Keboola stack''),
        (''not_configured'', ''Keboola token authentication is not configured''),
        (''keboola_verify_error'',
         ''Token verification failed unexpectedly - this is a server-side problem, retry later''),
        (''keboola_lookup_error'',
         ''The token verified but the account lookup failed - this is a server-side problem, retry later'')] why of
        None \<Rightarrow> ''Invalid or expired token'' | Some d \<Rightarrow> d)"

definition bearer_or_cookie :: "request \<Rightarrow> string" where
  "bearer_or_cookie rq =
     (let auth_header = or_default (rq_authorization rq) [];
          bearer = (if prefix ''Bearer '' auth_header then drop 7 auth_header else [])
      in if bearer \<noteq> [] then bearer else or_default (rq_cookie rq) [])"

definition attach_admin_flag :: "reqctx \<Rightarrow> adb \<Rightarrow> caller \<Rightarrow> authn" where
  "attach_admin_flag ctx db who =
     (let flags = (case who of
                     UserDict d \<Rightarrow>
                       (case ud_id d of
                          None \<Rightarrow> (False, False)
                        | Some u \<Rightarrow> if u = [] then (False, False)
                            else let admin = is_user_admin u db; paused = admin \<and> elevation_paused ctx (Some u)
                                 in (admin \<and> \<not> paused, paused))
                   | _ \<Rightarrow> (False, False))
      in \<lparr>an_caller = who, an_admin = Some flags, an_type = None\<rparr>)"

definition caller_id :: "caller \<Rightarrow> string option" where
  "caller_id who = (case who of UserDict d \<Rightarrow> ud_id d | _ \<Rightarrow> None)"

definition stash_user :: "authn \<Rightarrow> rstate \<Rightarrow> rstate" where
  "stash_user a st = st\<lparr>st_ctx := (st_ctx st)\<lparr>ctx_caller := caller_id (an_caller a)\<rparr>, st_user := Some a\<rparr>"

definition stash_chat_session :: "payload option \<Rightarrow> rstate \<Rightarrow> rstate" where
  "stash_chat_session verified st =
     (case verified of
        None \<Rightarrow> st
      | Some p \<Rightarrow> if claim_text p ''scope'' \<noteq> Some ''chat'' \<or> or_default (claim_text p ''chat_session_id'') [] = [] then st
                  else st\<lparr>st_chat := claim_text p ''chat_session_id''\<rparr>)"

definition keboola_header_user ::
  "senv \<Rightarrow> request \<Rightarrow> string \<Rightarrow> server \<Rightarrow> rstate \<Rightarrow> (api_error + authn) \<times> server \<times> rstate" where
  "keboola_header_user E rq sapi V st =
     (let R = base (sv_db V);
          q = \<lparr>hq_now = se_mono E, hq_token = sapi, hq_ip = trusted_client_ip (te_hops (se_token E)) (Some rq),
               hq_verdict = se_verdict E, hq_lookup_ok = se_lookup_ok E\<rparr>;
          (res, H) = resolve_header_user (te_sha256 (se_token E)) q (users R) (sv_header V); V' = V\<lparr>sv_header := H\<rparr>
      in case res of
           Inr who \<Rightarrow> (let a = (attach_admin_flag (st_ctx st) (auth R) who)\<lparr>an_type := Some ''keboola_token''\<rparr>
                        in (Inr a, V', stash_user a st))
         | Inl why \<Rightarrow> (Inl (if why = ''rate_limited'' then Http 429 ''Too many token verification attempts - retry later''
                             else Http 401 (keboola_header_detail why)), V', st))"

definition resolved_user ::
  "senv \<Rightarrow> request \<Rightarrow> string \<Rightarrow> server \<Rightarrow> rstate \<Rightarrow> (api_error + authn) \<times> server \<times> rstate" where
  "resolved_user E rq token V st =
     (let verified = te_verify (se_token E) token;
          (res, T, stashed) = resolve_token_to_user (se_token E) False False token (Some rq) (sv_db V);
          V' = V\<lparr>sv_db := T\<rparr>; st' = (case stashed of None \<Rightarrow> st | Some p \<Rightarrow> st\<lparr>st_payload := Some p\<rparr>)
      in case res of
           Inl why \<Rightarrow> (Inl (Http 401 (auth_detail why)), V', st')
         | Inr who \<Rightarrow>
             if is_principal who
             then (Inr \<lparr>an_caller = who, an_admin = None, an_type = None\<rparr>, V', stash_chat_session verified st')
             else let a0 = attach_admin_flag (st_ctx st') (auth (base T)) who;
                      a = (if (case verified of None \<Rightarrow> None | Some p \<Rightarrow> claim_text p ''typ'') = Some ''pat''
                           then a0\<lparr>an_type := Some ''pat''\<rparr> else a0)
                  in (Inr a, V', stash_user a (stash_chat_session verified st')))"

definition get_current_user ::
  "senv \<Rightarrow> request \<Rightarrow> server \<Rightarrow> rstate \<Rightarrow> (api_error + authn) \<times> server \<times> rstate" where
  "get_current_user E rq V st =
     (let T = sv_db V; R = base T; token = bearer_or_cookie rq;
          dev = (case se_dev_email E of None \<Rightarrow> None | Some e \<Rightarrow> get_by_email_ci (normalize_email (Some e)) (users R))
      in case dev of
           Some u \<Rightarrow> (let a = attach_admin_flag (st_ctx st) (auth R) (user_caller u None) in (Inr a, V, stash_user a st))
         | None \<Rightarrow>
             if token = []
             then let sapi = or_default (rq_sapi rq) []
                  in if sapi \<noteq> [] \<and> se_header_enabled E then keboola_header_user E rq sapi V st
                     else (Inl (Http 401 ''Missing or invalid Authorization header''), V, st)
             else if is_scheduler_token (se_scheduler_secret E) token
             then let (u, R') = get_scheduler_user (te_now (se_token E)) (se_new_uuid E) R;
                      a = attach_admin_flag (st_ctx st) (auth R') (user_caller u None)
                  in (Inr a, V\<lparr>sv_db := T\<lparr>base := R'\<rparr>\<rparr>, stash_user a st)
             else resolved_user E rq token V st)"

definition get_optional_user ::
  "senv \<Rightarrow> request \<Rightarrow> server \<Rightarrow> rstate \<Rightarrow> authn option \<times> server \<times> rstate" where
  "get_optional_user E rq V st =
     (case get_current_user E rq V st of (Inl e, x) \<Rightarrow> (None, x) | (Inr a, x) \<Rightarrow> (Some a, x))"

text \<open>The checks of \<open>require_session_token\<close>, on the same headers, after \<open>get_current_user\<close> has let the request in.\<close>

definition session_refusal :: "senv \<Rightarrow> request \<Rightarrow> string option" where
  "session_refusal E rq =
     (let token = bearer_or_cookie rq
      in if token = []
         then if or_default (rq_sapi rq) [] \<noteq> []
              then Some ''This endpoint requires an interactive session, not a Storage API token'' else None
         else if is_scheduler_token (se_scheduler_secret E) token
         then Some ''This endpoint requires an interactive session, not a service token''
         else case te_verify (se_token E) token of
                None \<Rightarrow> None
              | Some p \<Rightarrow> if claim_text p ''typ'' \<in> Some ` set PAT_LIKE_TYPES
                          then Some ''This endpoint requires an interactive session, not a PAT'' else None)"

definition require_session_token ::
  "senv \<Rightarrow> request \<Rightarrow> server \<Rightarrow> rstate \<Rightarrow> (api_error + authn) \<times> server \<times> rstate" where
  "require_session_token E rq V st =
     (case get_current_user E rq V st of
        (Inl e, x) \<Rightarrow> (Inl e, x)
      | (Inr a, x) \<Rightarrow> (case session_refusal E rq of Some d \<Rightarrow> (Inl (Http 403 d), x) | None \<Rightarrow> (Inr a, x)))"

definition reject_keboola_header_credential :: "authn \<Rightarrow> api_error + authn" where
  "reject_keboola_header_credential a =
     (if \<not> is_principal (an_caller a) \<and> an_type a = Some ''keboola_token''
      then Inl (Http 403 ''This endpoint requires an interactive or PAT session, not a Storage API token'') else Inr a)"

section \<open>Issuing and revoking tokens\<close>

record mint_env =
  me_encode :: "payload \<Rightarrow> string"
  me_sha256 :: "string \<Rightarrow> string"
  me_now :: micros
  me_token_id :: string
  me_audit_ok :: bool

record create_request =
  cr_name :: string
  cr_days :: "int option"
  cr_scope :: string
  cr_ttl :: "int option"
  cr_surface :: string

definition audited :: "bool \<Rightarrow> string \<Rightarrow> string \<Rightarrow> string \<Rightarrow> (string \<times> string option) list \<Rightarrow> tdb \<Rightarrow> tdb" where
  "audited ok actor action target params T =
     (if ok then T\<lparr>audit_log := audit_log T @ [\<lparr>au_user = Some actor, au_action = action,
        au_resource = ''token:'' @ target, au_params = params\<rparr>]\<rparr> else T)"

abbreviation day_us :: int where "day_us \<equiv> 86400000000"

definition quoted_word :: "string \<Rightarrow> string" where
  "quoted_word w = [CHR 0x27] @ w @ [CHR 0x27]"

definition create_refusal :: "create_request \<Rightarrow> string option" where
  "create_refusal b =
     (if py_strip (cr_name b) = [] then Some ''name is required''
      else if cr_surface b \<notin> {''all'', ''stack''} then Some (''surface must be '' @ quoted_word ''all'' @ '' or '' @ quoted_word ''stack'')
      else if (case cr_days b of None \<Rightarrow> False | Some d \<Rightarrow> d \<le> 0) then Some ''expires_in_days must be a positive integer''
      else if (case cr_days b of None \<Rightarrow> False | Some d \<Rightarrow> 3650 < d) then Some ''expires_in_days must not exceed 3650 (10 years)''
      else if (case cr_ttl b of None \<Rightarrow> False | Some s \<Rightarrow> s \<le> 0) then Some ''ttl_seconds must be a positive integer''
      else if (case cr_ttl b of None \<Rightarrow> False | Some s \<Rightarrow> 315360000 < s)
      then Some ''ttl_seconds must not exceed 315360000 (10 years)''
      else None)"

definition token_lifetime :: "create_request \<Rightarrow> int option" where
  "token_lifetime b =
     (let wanted = (case cr_ttl b of
                      Some s \<Rightarrow> Some (s * 1000000)
                    | None \<Rightarrow> (case cr_days b of Some d \<Rightarrow> Some (d * day_us) | None \<Rightarrow> None));
          one_hour = 3600000000
      in if cr_scope b = ''bootstrap-analyst''
         then (case wanted of None \<Rightarrow> Some one_hour | Some d \<Rightarrow> if one_hour < d then Some one_hour else Some d)
         else wanted)"

text \<open>\<open>token_id.replace("-", "")[:8]\<close>.\<close>

definition token_prefix :: "string \<Rightarrow> string" where
  "token_prefix i = take 8 (filter (\<lambda>c. c \<noteq> CHR ''-'') i)"

text \<open>The restricted principals are not subscriptable: \<open>user["id"]\<close> raises on them.\<close>

definition subscript_id :: "caller \<Rightarrow> api_error + string" where
  "subscript_id who =
     (case who of UserDict d \<Rightarrow> (case ud_id d of Some i \<Rightarrow> Inr i | None \<Rightarrow> Inl (Uncaught KeyError)) | _ \<Rightarrow> Inl (Uncaught TypeError))"

definition subscript_user :: "caller \<Rightarrow> api_error + (string \<times> string)" where
  "subscript_user who =
     (case who of
        UserDict d \<Rightarrow> (case (ud_id d, ud_email d) of (Some i, Some e) \<Rightarrow> Inr (i, e) | _ \<Rightarrow> Inl (Uncaught KeyError))
      | _ \<Rightarrow> Inl (Uncaught TypeError))"

definition create_token :: "mint_env \<Rightarrow> create_request \<Rightarrow> authn \<Rightarrow> tdb \<Rightarrow> (api_error + string) \<times> tdb" where
  "create_token M b user T =
     (case create_refusal b of
        Some d \<Rightarrow> (Inl (Http 400 d), T)
      | None \<Rightarrow>
          (case subscript_user (an_caller user) of
             Inl e \<Rightarrow> (Inl e, T)
           | Inr (uid, email) \<Rightarrow>
               let life = token_lifetime b;
                   jwt = me_encode M (access_claims (me_now M) uid email (me_token_id M) life ''pat'' (life = None)
                           [(''scope'', Text (cr_scope b))])
               in case pat_create (me_now M) (me_token_id M) uid (py_strip (cr_name b)) (me_sha256 M jwt)
                         (token_prefix (me_token_id M)) (map_option ((+) (me_now M)) life) None None (cr_surface b) (pats T) of
                    Inl e \<Rightarrow> (Inl (Uncaught (ServerError ''create_token'')), T)
                  | Inr ps \<Rightarrow> (Inr jwt, audited (me_audit_ok M) uid ''token.create'' (me_token_id M)
                      [(''name'', Some (cr_name b)), (''scope'', Some (cr_scope b)), (''surface'', Some (cr_surface b))]
                      (T\<lparr>pats := ps\<rparr>))))"

definition list_tokens :: "authn \<Rightarrow> tdb \<Rightarrow> api_error + pat list" where
  "list_tokens user T =
     (case subscript_id (an_caller user) of Inl e \<Rightarrow> Inl e | Inr uid \<Rightarrow> Inr (pat_list_for_user uid True (pats T)))"

definition own_token :: "string \<Rightarrow> authn \<Rightarrow> tdb \<Rightarrow> api_error + (string \<times> pat)" where
  "own_token i user T =
     (case pat_get i (pats T) of
        None \<Rightarrow> Inl (Http 404 ''Token not found'')
      | Some r \<Rightarrow>
          (case subscript_id (an_caller user) of
             Inl e \<Rightarrow> Inl e
           | Inr uid \<Rightarrow> if pt_user r \<noteq> uid then Inl (Http 404 ''Token not found'') else Inr (uid, r)))"

definition revoke_token :: "bool \<Rightarrow> micros \<Rightarrow> string \<Rightarrow> authn \<Rightarrow> tdb \<Rightarrow> (api_error + unit) \<times> tdb" where
  "revoke_token audit_ok now i user T =
     (case own_token i user T of
        Inl e \<Rightarrow> (Inl e, T)
      | Inr (uid, r) \<Rightarrow> (Inr (), audited audit_ok uid ''token.revoke'' i [] (T\<lparr>pats := pat_revoke now i (pats T)\<rparr>)))"

definition admin_revoke_token :: "bool \<Rightarrow> micros \<Rightarrow> string \<Rightarrow> reqctx \<Rightarrow> authn \<Rightarrow> tdb \<Rightarrow> (api_error + unit) \<times> tdb" where
  "admin_revoke_token audit_ok now i ctx user T =
     (case require_admin ctx (auth (base T)) (an_caller user) of
        Inl e \<Rightarrow> (Inl (Uncaught e), T)
      | Inr who \<Rightarrow>
          (case (pat_get i (pats T), subscript_id who) of
             (None, _) \<Rightarrow> (Inl (Http 404 ''Token not found''), T)
           | (Some r, Inl e) \<Rightarrow> (Inl e, T\<lparr>pats := pat_revoke now i (pats T)\<rparr>)
           | (Some r, Inr uid) \<Rightarrow> (Inr (), audited audit_ok uid ''token.admin_revoke'' i [(''owner_id'', Some (pt_user r))]
               (T\<lparr>pats := pat_revoke now i (pats T)\<rparr>))))"

section \<open>Agents and their tokens\<close>

definition load_agent :: "string \<Rightarrow> authn \<Rightarrow> bool \<Rightarrow> tdb \<Rightarrow> api_error + agent_row" where
  "load_agent i user require_owner T =
     (case find (\<lambda>a. ag_id a = i) (agents (base T)) of
        None \<Rightarrow> Inl (Http 404 ''agent_not_found'')
      | Some a \<Rightarrow>
          if ag_deleted a \<noteq> None then Inl (Http 404 ''agent_not_found'')
          else (case subscript_id (an_caller user) of
             Inl e \<Rightarrow> Inl e
           | Inr uid \<Rightarrow>
               if ag_owner a = uid then Inr a
               else if \<not> is_user_admin uid (auth (base T)) then Inl (Http 404 ''agent_not_found'')
               else if require_owner then Inl (Http 403 ''agent_not_owned'') else Inr a))"

definition create_agent_token ::
  "mint_env \<Rightarrow> string \<Rightarrow> string \<Rightarrow> int option \<Rightarrow> authn \<Rightarrow> tdb \<Rightarrow> (api_error + string) \<times> tdb" where
  "create_agent_token M i nm days user T =
     (case load_agent i user True T of
        Inl e \<Rightarrow> (Inl e, T)
      | Inr a \<Rightarrow>
          if \<not> list_all (\<lambda>f. mode_of f a = Some ''selected'') mode_fields then (Inl (Http 403 ''agent_not_selected_mode''), T)
          else if py_strip nm = [] then (Inl (Http 400 ''invalid_name''), T)
          else if (case days of None \<Rightarrow> False | Some d \<Rightarrow> d \<le> 0 \<or> 3650 < d) then (Inl (Http 400 ''invalid_expiry''), T)
          else (case subscript_user (an_caller user) of
             Inl e \<Rightarrow> (Inl e, T)
           | Inr (uid, email) \<Rightarrow>
               let life = map_option (\<lambda>d. d * day_us) days;
                   jwt = me_encode M (access_claims (me_now M) uid email (me_token_id M) life ''agent_pat'' (days = None)
                           [(''agent_id'', Text i)])
               in case pat_create (me_now M) (me_token_id M) uid (py_strip nm) (me_sha256 M jwt)
                         (token_prefix (me_token_id M)) (map_option ((+) (me_now M)) life) None (Some i) ''all'' (pats T) of
                    Inl e \<Rightarrow> (Inl (Uncaught (ServerError ''create_agent_token'')), T)
                  | Inr ps \<Rightarrow> (Inr jwt, audited (me_audit_ok M) uid ''agent.token.create'' (me_token_id M)
                      [(''agent_id'', Some i), (''name'', Some (py_strip nm))] (T\<lparr>pats := ps\<rparr>))))"

text \<open>
  The two statements of \<open>delete_agent\<close> that matter to authentication, apart: the agent's row is marked, then its tokens
  are revoked on another connection, which may fail (\<open>revoke_ok\<close>) after the first has committed.
\<close>

definition agent_soft_delete :: "micros \<Rightarrow> string \<Rightarrow> tdb \<Rightarrow> tdb" where
  "agent_soft_delete now i T = T\<lparr>base := (base T)\<lparr>agents :=
     map (\<lambda>a. if ag_id a = i then a\<lparr>ag_deleted := Some now\<rparr> else a) (agents (base T))\<rparr>\<rparr>"

definition delete_agent :: "micros \<Rightarrow> bool \<Rightarrow> string \<Rightarrow> bool \<Rightarrow> authn \<Rightarrow> tdb \<Rightarrow> (api_error + unit) \<times> tdb" where
  "delete_agent now revoke_ok i is_default user T =
     (case load_agent i user True T of
        Inl e \<Rightarrow> (Inl e, T)
      | Inr a \<Rightarrow>
          if is_default then (Inl (Http 400 ''default_agent_undeletable''), T)
          else let T1 = agent_soft_delete now i T
               in if revoke_ok then (Inr (), T1\<lparr>pats := pat_revoke_for_agent now i (pats T1)\<rparr>)
                  else (Inl (Uncaught (ServerError ''revoke_for_agent'')), T1))"

section \<open>The broker\<close>

definition ADMIN_PATH_PREFIX :: string where "ADMIN_PATH_PREFIX = ''/api/admin/''"

text \<open>A route's tree of dependencies: a callable, if the node has one, and its sub-dependencies.\<close>

datatype dependant = Dependant "string option" "dependant list"

fun dependant_size :: "dependant \<Rightarrow> nat" where
  "dependant_size (Dependant c ds) = Suc (sum_list (map dependant_size ds))"

text \<open>The loop over an explicit stack, which pops at the end and pushes the children there.\<close>

function dependant_loop :: "dependant list \<Rightarrow> string set \<Rightarrow> string set" where
  "dependant_loop [] acc = acc"
| "dependant_loop (Dependant c ds # stack) acc =
     dependant_loop (rev ds @ stack) (case c of None \<Rightarrow> acc | Some f \<Rightarrow> insert f acc)"
  by pat_completeness auto
termination
proof (relation "measure (\<lambda>(stack, acc). sum_list (map dependant_size stack))")
  show "((rev ds @ stack, case c of None \<Rightarrow> acc | Some f \<Rightarrow> insert f acc), (Dependant c ds # stack, acc))
      \<in> measure (\<lambda>(stack, acc). sum_list (map dependant_size stack))" for c ds stack acc
    by (simp add: rev_map [symmetric] sum_list_rev)
qed simp

definition dependant_calls :: "dependant \<Rightarrow> string set" where
  "dependant_calls d = dependant_loop [d] {}"

record route =
  rt_methods :: "string list"
  rt_matches :: "string \<Rightarrow> bool"
  rt_dependant :: dependant

definition upper_method :: "string \<Rightarrow> string" where
  "upper_method s = map (\<lambda>c. let n = (of_char c :: nat) in if 97 \<le> n \<and> n \<le> 122 then char_of (n - 32) else c) s"

definition route_requires_admin :: "route list \<Rightarrow> string \<Rightarrow> string \<Rightarrow> bool" where
  "route_requires_admin routes meth path \<longleftrightarrow>
     list_ex (\<lambda>r. upper_method meth \<in> set (rt_methods r) \<and> rt_matches r path \<and>
       ''require_admin'' \<in> dependant_calls (rt_dependant r)) routes"

text \<open>
  \<open>_normalize_broker_path\<close>, with the library calls as arguments: \<open>urlsplit\<close> (scheme, authority, path, query),
  \<open>unquote\<close>, and the canonical path of \<open>httpx.URL\<close> built on the loopback host.
\<close>

definition local_path :: "string \<Rightarrow> bool" where
  "local_path form \<longleftrightarrow> prefix ''/'' form \<and> \<not> prefix ''//'' form \<and> CHR 0x5C \<notin> set form"

definition normalize_broker_path ::
  "(string \<Rightarrow> string \<times> string \<times> string \<times> string) \<Rightarrow> (string \<Rightarrow> string) \<Rightarrow> (string \<Rightarrow> string) \<Rightarrow> string option
     \<Rightarrow> api_error + string" where
  "normalize_broker_path urlsplit unquote url_path raw =
     (let (scheme, netloc, path, query) = urlsplit (or_default raw []);
          bad = Inl (Http 400 ''broker_path_must_be_local'')
      in if scheme \<noteq> [] \<or> netloc \<noteq> [] then bad
         else if \<not> local_path path \<or> \<not> local_path (unquote path) then bad
         else let target = url_path (''http://broker-replay'' @ (if query \<noteq> [] then path @ ''?'' @ query else path))
              in if \<not> prefix ''/'' target \<or> prefix ''//'' target then bad else Inr target)"

definition require_broker_ticket ::
  "(string \<Rightarrow> string) \<Rightarrow> micros \<Rightarrow> string option \<Rightarrow> ticket list \<Rightarrow> api_error + (string \<times> string)" where
  "require_broker_ticket sha256 now authorization ts =
     (let h = or_default authorization [];
          token = (if prefix ''bearer '' (lower h) then drop 7 h else [])
      in if token = [] then Inl (Http 401 ''missing_broker_ticket'')
         else case ticket_resolve sha256 now token ts of
                None \<Rightarrow> Inl (Http 401 ''invalid_or_expired_ticket'')
              | Some (s, scope, x) \<Rightarrow> Inr (s, scope))"

definition identity_claims :: "micros \<Rightarrow> string \<Rightarrow> string \<Rightarrow> tdb \<Rightarrow> api_error + payload" where
  "identity_claims now jti s T =
     (case get_session s T of
        None \<Rightarrow> Inl (Http 401 ''ticket_session_not_found'')
      | Some cs \<Rightarrow>
          if cs_co cs then Inr (co_session_claims now jti s 3600)
          else let plain = (\<lambda>agent.
                     case get_by_email (cs_email cs) (users (base T)) of
                       None \<Rightarrow> Inl (Http 401 ''ticket_user_not_found'')
                     | Some u \<Rightarrow>
                         if (case agent of None \<Rightarrow> False | Some a \<Rightarrow> usr_id u \<noteq> ag_owner a)
                         then Inr (agent_session_claims now jti s 3600)
                         else Inr (access_claims now (usr_id u) (usr_email u) jti None ''session'' False
                                [(''scope'', Text ''chat''), (''chat_session_id'', Text s)]))
               in if or_default (cs_agent cs) [] = [] then plain None
                  else case find (\<lambda>a. ag_id a = or_default (cs_agent cs) []) (agents (base T)) of
                         None \<Rightarrow> Inl (Http 401 ''ticket_agent_not_found'')
                       | Some a \<Rightarrow>
                           if ag_deleted a \<noteq> None then Inl (Http 401 ''ticket_agent_not_found'')
                           else if \<not> agent_is_passthrough a then Inr (agent_session_claims now jti s 3600)
                           else plain (Some a))"

text \<open>\<open>_replay\<close> up to the dispatch: the method, the canonical path and the claims the replayed request carries.\<close>

definition replay ::
  "route list \<Rightarrow> (string option \<Rightarrow> api_error + string) \<Rightarrow> micros \<Rightarrow> string \<Rightarrow> string \<Rightarrow> string option \<Rightarrow> string option \<Rightarrow> tdb
     \<Rightarrow> api_error + (string \<times> string \<times> payload)" where
  "replay routes canonical now jti s meth raw T =
     (let m = upper_method (or_default meth ''GET'')
      in case canonical raw of
           Inl e \<Rightarrow> Inl e
         | Inr path \<Rightarrow>
             if prefix ADMIN_PATH_PREFIX path \<or> route_requires_admin routes m path
             then Inl (Http 403 ''admin_mutations_require_interactive_auth'')
             else (case identity_claims now jti s T of Inl e \<Rightarrow> Inl e | Inr p \<Rightarrow> Inr (m, path, p)))"

text \<open>\<open>agnes_api\<close> and \<open>agnes_mcp\<close>: the ticket, its scope, the replay.\<close>

definition brokered ::
  "string list \<Rightarrow> (string \<Rightarrow> string) \<Rightarrow> route list \<Rightarrow> (string option \<Rightarrow> api_error + string) \<Rightarrow> micros \<Rightarrow> string
     \<Rightarrow> string option \<Rightarrow> ticket list \<Rightarrow> string option \<Rightarrow> string option \<Rightarrow> tdb \<Rightarrow> api_error + (string \<times> string \<times> payload)" where
  "brokered scopes sha256 routes canonical now jti authorization ts meth raw T =
     (case require_broker_ticket sha256 now authorization ts of
        Inl e \<Rightarrow> Inl e
      | Inr (s, scope) \<Rightarrow> if scope \<notin> set scopes then Inl (Http 401 ''ticket_scope_mismatch'')
                          else replay routes canonical now jti s meth raw T)"

section \<open>The claims of a minted token\<close>

lemma map_of_put_claims:
  "map_of (foldl put_claim p xs) k =
     (if k \<in> set RESERVED_CLAIMS then map_of p k
      else case map_of (rev xs) k of Some v \<Rightarrow> Some v | None \<Rightarrow> map_of p k)"
proof (induction xs arbitrary: p)
  case (Cons x xs)
  have "map_of (put_claim p x) k = (if k = fst x \<and> k \<notin> set RESERVED_CLAIMS then Some (snd x) else map_of p k)"
    by (auto simp: put_claim_def map_of_dict_set)
  then show ?case
    by (cases x) (simp add: Cons.IH map_add_def split: option.split)
qed simp

lemma access_claims_reserved:
  "map_of (access_claims now u email jti d typ omit extra) ''sub'' = Some (Text u)"
  "map_of (access_claims now u email jti d typ omit extra) ''typ'' = Some (Text typ)"
  "map_of (access_claims now u email jti d typ omit extra) ''jti'' = Some (Text jti)"
  by (simp_all add: access_claims_def map_of_put_claims RESERVED_CLAIMS_def Let_def)

lemma access_claims_extra:
  assumes "k \<notin> set RESERVED_CLAIMS"
  shows "map_of (access_claims now u email jti d typ omit extra) k = map_of (rev extra) k"
  using assms by (auto simp: access_claims_def map_of_put_claims RESERVED_CLAIMS_def Let_def split: option.split)

lemma access_claims_exp:
  "map_of (access_claims now u email jti d typ False extra) ''exp'' = Some (Stamp ((now +
     (case d of Some x \<Rightarrow> if x = 0 then ACCESS_TOKEN_EXPIRE_HOURS * 3600000000 else x
      | None \<Rightarrow> ACCESS_TOKEN_EXPIRE_HOURS * 3600000000)) div 1000000))"
  "map_of (access_claims now u email jti d typ True extra) ''exp'' = None"
  by (simp_all add: access_claims_def map_of_put_claims RESERVED_CLAIMS_def Let_def)

lemma minted_reserved:
  "claim_text (access_claims now u email jti d typ omit extra) ''sub'' = Some u"
  "claim_text (access_claims now u email jti d typ omit extra) ''typ'' = Some typ"
  "claim_text (access_claims now u email jti d typ omit extra) ''jti'' = Some jti"
  by (simp_all add: claim_text_def access_claims_reserved)

lemma minted_extra:
  "k \<notin> set RESERVED_CLAIMS \<Longrightarrow>
     claim_text (access_claims now u email jti d typ omit extra) k = claim_text (rev extra) k"
  by (simp add: claim_text_def access_claims_extra)

lemma minted_custom:
  "claim_text (access_claims now u email jti d typ omit extra) ''scope'' = claim_text (rev extra) ''scope''"
  "claim_text (access_claims now u email jti d typ omit extra) ''chat_session_id'' = claim_text (rev extra) ''chat_session_id''"
  "claim_text (access_claims now u email jti d typ omit extra) ''agent_id'' = claim_text (rev extra) ''agent_id''"
  by (simp_all add: minted_extra RESERVED_CLAIMS_def)

section \<open>A token works once it is issued\<close>

text \<open>What a JWT library documents: a payload decodes from its encoding while its \<open>exp\<close>, if any, lies ahead.\<close>

definition live_claims :: "micros \<Rightarrow> payload \<Rightarrow> bool" where
  "live_claims now p \<longleftrightarrow> (case map_of p ''exp'' of Some (Stamp x) \<Rightarrow> now < x * 1000000 | _ \<Rightarrow> True)"

definition decodes :: "mint_env \<Rightarrow> tenv \<Rightarrow> string \<Rightarrow> bool" where
  "decodes M E tok \<longleftrightarrow> tok \<noteq> [] \<and> te_sha256 E = me_sha256 M \<and>
     (\<forall>p. me_encode M p = tok \<and> live_claims (te_now E) p \<longrightarrow> te_verify E tok = Some p)"

definition pat_claims_of :: "mint_env \<Rightarrow> create_request \<Rightarrow> string \<Rightarrow> string \<Rightarrow> payload" where
  "pat_claims_of M b uid email = access_claims (me_now M) uid email (me_token_id M) (token_lifetime b) ''pat''
     (token_lifetime b = None) [(''scope'', Text (cr_scope b))]"

lemma create_token_row:
  assumes "fst (create_token M b user T) = Inr tok" "an_caller user = user_caller u sf"
  shows "create_refusal b = None" "tok = me_encode M (pat_claims_of M b (usr_id u) (usr_email u))"
    "base (snd (create_token M b user T)) = base T" "chat_sessions (snd (create_token M b user T)) = chat_sessions T"
    "pat_get (me_token_id M) (pats (snd (create_token M b user T))) = Some
      \<lparr>pt_id = me_token_id M, pt_user = usr_id u, pt_name = py_strip (cr_name b), pt_hash = me_sha256 M tok,
       pt_prefix = token_prefix (me_token_id M), pt_scopes = None, pt_created = me_now M,
       pt_expires = map_option ((+) (me_now M)) (token_lifetime b), pt_used = None, pt_ip = None, pt_revoked = None,
       pt_agent = None, pt_surface = Some (cr_surface b)\<rparr>"
proof -
  show ok: "create_refusal b = None" using assms(1) by (auto simp: create_token_def split: option.splits)
  have who: "subscript_user (an_caller user) = Inr (usr_id u, usr_email u)"
    by (simp add: assms(2) subscript_user_def user_caller_def)
  have new: "me_token_id M \<notin> pt_id ` set (pats T)"
    using assms(1) by (auto simp: create_token_def ok who pat_create_def Let_def)
  then have fresh: "find (\<lambda>t. pt_id t = me_token_id M) (pats T) = None" unfolding find_None_iff by (metis imageI)
  show "tok = me_encode M (pat_claims_of M b (usr_id u) (usr_email u))"
    using assms(1) new by (simp add: create_token_def ok who pat_create_def Let_def pat_claims_of_def)
  then show "pat_get (me_token_id M) (pats (snd (create_token M b user T))) = Some
      \<lparr>pt_id = me_token_id M, pt_user = usr_id u, pt_name = py_strip (cr_name b), pt_hash = me_sha256 M tok,
       pt_prefix = token_prefix (me_token_id M), pt_scopes = None, pt_created = me_now M,
       pt_expires = map_option ((+) (me_now M)) (token_lifetime b), pt_used = None, pt_ip = None, pt_revoked = None,
       pt_agent = None, pt_surface = Some (cr_surface b)\<rparr>"
    using new fresh
    by (simp add: create_token_def ok who pat_create_def Let_def pat_claims_of_def pat_get_def audited_def
        find_first_append)
  show "base (snd (create_token M b user T)) = base T" "chat_sessions (snd (create_token M b user T)) = chat_sessions T"
    by (simp_all add: create_token_def ok who pat_create_def Let_def audited_def split: sum.split)
qed

text \<open>
  C35. Issuing and presenting a token is a round trip: a token that the endpoint returned, decoded to the claims it was
  signed with, resolves on every ordinary surface to the user it was issued to, with the read surface that was asked for,
  until the whole second in which its lifetime ends. (The caller chooses the scope claim; one with a reserved prefix
  makes the token useless, not powerful.)
\<close>

theorem pat_roundtrip:
  assumes "fst (create_token M b user T) = Inr tok" "an_caller user = user_caller u sf"
    and "find (\<lambda>r. usr_id r = usr_id u) (users (base T)) = Some u" "usr_active u"
    and "decodes M E tok"
    and "\<forall>d. token_lifetime b = Some d \<longrightarrow> te_now E < (me_now M + d) div 1000000 * 1000000"
    and "\<not> prefix DATA_APP_GIT_SCOPE_PREFIX (cr_scope b)" "\<not> prefix DATA_APP_PREVIEW_SCOPE_PREFIX (cr_scope b)"
  shows "fst (resolve_token_to_user E False False tok rq (snd (create_token M b user T))) =
     Inr (user_caller u (Some (cr_surface b)))"
proof -
  note row = create_token_row [OF assms(1,2)]
  let ?p = "pat_claims_of M b (usr_id u) (usr_email u)" and ?T = "snd (create_token M b user T)"
  have ok: "(\<forall>d. cr_ttl b = Some d \<longrightarrow> 0 < d) \<and> (\<forall>d. cr_days b = Some d \<longrightarrow> 0 < d)"
    "cr_surface b \<noteq> []"
    using row(1) by (auto simp: create_refusal_def split: option.splits if_splits)
  then have life: "token_lifetime b = Some d \<Longrightarrow> d \<noteq> 0" for d
    by (auto simp: token_lifetime_def Let_def split: option.splits if_splits)
  have live: "live_claims (te_now E) ?p"
    using assms(6) life by (cases "token_lifetime b") (auto simp: live_claims_def pat_claims_of_def access_claims_exp)
  then have v: "te_verify E tok = Some ?p" "tok \<noteq> []" "te_sha256 E = me_sha256 M"
    using assms(5) row(2) by (auto simp: decodes_def)
  have claims: "claim_text ?p ''sub'' = Some (usr_id u)" "claim_text ?p ''typ'' = Some ''pat''"
    "claim_text ?p ''jti'' = Some (me_token_id M)" "claim_text ?p ''scope'' = Some (cr_scope b)"
    "claim_text ?p ''chat_session_id'' = None"
    by (simp_all add: pat_claims_of_def minted_reserved minted_custom) (simp_all add: claim_text_def)
  have pat: "claim_text ?p ''typ'' \<in> Some ` set PAT_LIKE_TYPES" by (simp add: claims PAT_LIKE_TYPES_def)
  have "te_now E \<le> me_now M + d" if "token_lifetime b = Some d" for d
  proof -
    have "(me_now M + d) div 1000000 * 1000000 \<le> me_now M + d" by simp
    then show ?thesis using assms(6) that by fastforce
  qed
  then have valid: "fst (resolve_plain E tok rq ?p ?T) = Inr (user_caller u (Some (cr_surface b)))"
    unfolding resolve_plain_pat [OF pat claims(1,3)]
    using row(3,5) assms(3,4) ok(2) by (auto simp: claims row_valid_def or_default_def v)
  have "\<not> scope_forbidden False False ?p"
    using assms(7,8) by (auto simp: scope_forbidden_def claims or_default_def)
  moreover have "\<not> names_co_session ?p ?T" by (simp add: names_co_session_def claims)
  ultimately show ?thesis
    unfolding resolve_pat_like [OF v(1,2) pat] using valid by (simp add: claims)
qed


definition chat_request :: "string \<Rightarrow> request" where
  "chat_request tok = \<lparr>rq_path = ''/auth/tokens'', rq_xff = None, rq_peer = None, rq_authorization = Some (''Bearer '' @ tok),
     rq_cookie = None, rq_sapi = None\<rparr>"

definition ci_request :: create_request where
  "ci_request = \<lparr>cr_name = ''ci'', cr_days = None, cr_scope = ''general'', cr_ttl = None, cr_surface = ''all''\<rparr>"

definition one_user :: user_row where
  "one_user = \<lparr>usr_id = ''u1'', usr_email = ''a@b'', usr_active = True, usr_created = Some 0\<rparr>"

definition no_pat_db :: tdb where
  "no_pat_db = \<lparr>base = duo, chat_sessions = [\<lparr>cs_id = ''s'', cs_email = ''a@b'', cs_co = False, cs_agent = None\<rparr>],
     participants = [], pats = [], audit_log = []\<rparr>"

text \<open>A stand-in for signing: it gives the one payload of the example its token and everything else none.\<close>

definition one_mint :: "payload \<Rightarrow> mint_env" where
  "one_mint p = \<lparr>me_encode = (\<lambda>q. if q = p then ''tok'' else []), me_sha256 = (\<lambda>_. ''h''), me_now = 0,
     me_token_id = ''j-1'', me_audit_ok = True\<rparr>"

definition ci_claims :: payload where
  "ci_claims = access_claims 0 ''u1'' ''a@b'' ''j-1'' None ''pat'' True [(''scope'', Text ''general'')]"

lemma ci_created: "fst (create_token (one_mint ci_claims) ci_request
    \<lparr>an_caller = user_caller one_user sf, an_admin = None, an_type = None\<rparr> no_pat_db) = Inr ''tok''"
proof -
  have "create_refusal ci_request = None" by code_simp
  then show ?thesis
    by (simp add: create_token_def ci_request_def one_mint_def no_pat_db_def subscript_user_def user_caller_def one_user_def
        token_lifetime_def pat_create_def ci_claims_def Let_def)
qed

theorem pat_roundtrip_witness:
  "fst (resolve_token_to_user (one_env ci_claims 99) False False ''tok'' None
      (snd (create_token (one_mint ci_claims) ci_request
         \<lparr>an_caller = user_caller one_user None, an_admin = None, an_type = None\<rparr> no_pat_db)))
   = Inr (user_caller one_user (Some (cr_surface ci_request)))"
proof (rule pat_roundtrip [OF ci_created])
  show "decodes (one_mint ci_claims) (one_env ci_claims 99) ''tok''"
    by (simp add: decodes_def one_mint_def one_env_def)
qed (simp_all add: no_pat_db_def duo_def one_user_def ci_request_def token_lifetime_def
    DATA_APP_GIT_SCOPE_PREFIX_def DATA_APP_PREVIEW_SCOPE_PREFIX_def)

section \<open>What a deleted agent leaves behind\<close>

lemma find_soft_deleted:
  "find (\<lambda>a. ag_id a = i) (map (\<lambda>a. if ag_id a = i then a\<lparr>ag_deleted := Some now\<rparr> else a) as) = Some a \<Longrightarrow> ag_deleted a \<noteq> None"
proof (induction as)
  case (Cons b as)
  then show ?case by (cases "ag_id b = i") auto
qed simp

lemma dead_agent:
  assumes "\<not> live_agent i T" "te_verify E token = Some p"
    and "claim_text p ''typ'' = Some ''agent_pat'' \<and> claim_text p ''agent_id'' = Some i \<or>
      claim_text p ''typ'' = Some ''agent_session'' \<and> claim_text p ''chat_session_id'' = Some s \<and> s \<noteq> [] \<and>
      (\<forall>cs. get_session s T = Some cs \<longrightarrow> cs_agent cs = Some i)"
  shows "fst (resolve_token_to_user E False False token rq T) \<noteq> Inr who"
proof
  assume ok: "fst (resolve_token_to_user E False False token rq T) = Inr who"
  then have tok: "token \<noteq> []" by (auto simp: resolve_token_to_user_def split: if_splits)
  from assms(3) show False
  proof
    assume p: "claim_text p ''typ'' = Some ''agent_pat'' \<and> claim_text p ''agent_id'' = Some i"
    then have pat: "claim_text p ''typ'' \<in> Some ` set PAT_LIKE_TYPES" by (simp add: PAT_LIKE_TYPES_def)
    have "fst (resolve_plain E token rq p T) = Inr who" using resolve_pat_like [OF assms(2) tok pat] ok by blast
    then obtain r where "pat_refused E token p T r = None"
      using p by (auto simp: resolve_plain_def PAT_LIKE_TYPES_def split: option.splits if_splits)
    with p have "live_agent (or_default (Some i) []) T" by (auto simp: pat_refused_none)
    moreover have "or_default (Some i) [] = i" by (simp add: or_default_def)
    ultimately show False using assms(1) by simp
  next
    assume p: "claim_text p ''typ'' = Some ''agent_session'' \<and> claim_text p ''chat_session_id'' = Some s \<and> s \<noteq> [] \<and>
      (\<forall>cs. get_session s T = Some cs \<longrightarrow> cs_agent cs = Some i)"
    have "\<not> scope_forbidden False False p" using forbidden_scope_refused [OF assms(2)] ok by (metis Inl_Inr_False fst_conv)
    with p assms(2) tok ok have "resolve_agent_session s T = Inr who" using resolve_agent_token by metis
    with p assms(1) show False by (auto simp: resolve_agent_session_iff session_agent_def live_agent_def)
  qed
qed

text \<open>
  C34. Deleting an agent is final for its credentials even when the second half of the deletion fails: after the row is
  marked, whether or not its tokens were revoked and whatever happens to the token table afterwards, neither a token of the
  agent nor a session token for one of its sessions resolves on any surface.
\<close>

theorem deleted_agent_credentials_dead:
  assumes "load_agent i user True T = Inr a"
    and "te_verify E token = Some p"
    and "claim_text p ''typ'' = Some ''agent_pat'' \<and> claim_text p ''agent_id'' = Some i \<or>
      claim_text p ''typ'' = Some ''agent_session'' \<and> claim_text p ''chat_session_id'' = Some s \<and> s \<noteq> [] \<and>
      (\<forall>cs. get_session s T = Some cs \<longrightarrow> cs_agent cs = Some i)"
  shows "fst (resolve_token_to_user E False False token rq
      ((snd (delete_agent now revoke_ok i False user T))\<lparr>pats := ps\<rparr>)) \<noteq> Inr who"
proof (rule dead_agent [OF _ assms(2), where i = i and s = s])
  let ?T = "(snd (delete_agent now revoke_ok i False user T))\<lparr>pats := ps\<rparr>"
  have T: "agents (base ?T) = map (\<lambda>a. if ag_id a = i then a\<lparr>ag_deleted := Some now\<rparr> else a) (agents (base T))"
    "chat_sessions ?T = chat_sessions T"
    by (simp_all add: delete_agent_def assms(1) agent_soft_delete_def Let_def)
  show "\<not> live_agent i ?T" unfolding live_agent_def T using find_soft_deleted by blast
  show "claim_text p ''typ'' = Some ''agent_pat'' \<and> claim_text p ''agent_id'' = Some i \<or>
      claim_text p ''typ'' = Some ''agent_session'' \<and> claim_text p ''chat_session_id'' = Some s \<and> s \<noteq> [] \<and>
      (\<forall>cs. get_session s ?T = Some cs \<longrightarrow> cs_agent cs = Some i)"
    using assms(3) by (simp add: get_session_def T(2))
qed

definition solo_db :: tdb where
  "solo_db = no_pat_db\<lparr>base := duo\<lparr>agents := [solo_agent]\<rparr>,
     chat_sessions := [\<lparr>cs_id = ''s'', cs_email = ''a@b'', cs_co = False, cs_agent = Some ''ag''\<rparr>]\<rparr>"

theorem deleted_agent_credentials_dead_witness:
  "fst (resolve_token_to_user (one_env agent_claims 0) False False ''tok'' None
      ((snd (delete_agent 5 False ''ag'' False \<lparr>an_caller = user_caller one_user None, an_admin = None, an_type = None\<rparr>
        solo_db))\<lparr>pats := []\<rparr>)) \<noteq> Inr (user_caller one_user None)"
proof (rule deleted_agent_credentials_dead [where p = agent_claims and s = "''s''" and a = solo_agent])
  show "load_agent ''ag'' \<lparr>an_caller = user_caller one_user None, an_admin = None, an_type = None\<rparr> True solo_db = Inr solo_agent"
    by (simp add: load_agent_def solo_db_def no_pat_db_def solo_agent_def subscript_id_def subscript_user_def user_caller_def one_user_def)
qed (simp_all add: one_env_def agent_claims_def claim_text_def solo_db_def get_session_def)

section \<open>What the broker never replays\<close>

text \<open>The callables of a tree, read off its structure.\<close>

inductive calls_of :: "dependant \<Rightarrow> string \<Rightarrow> bool" where
  here: "calls_of (Dependant (Some f) ds) f"
| below: "d \<in> set ds \<Longrightarrow> calls_of d f \<Longrightarrow> calls_of (Dependant c ds) f"

inductive_simps calls_of_node: "calls_of (Dependant c ds) f"

lemma dependant_loop_exact:
  "f \<in> dependant_loop stack acc \<longleftrightarrow> f \<in> acc \<or> (\<exists>d\<in>set stack. calls_of d f)"
proof (induction stack acc rule: dependant_loop.induct)
  case (2 c ds stack acc)
  then show ?case by (auto simp: calls_of_node split: option.splits)
qed simp

lemma dependant_calls_exact: "f \<in> dependant_calls d \<longleftrightarrow> calls_of d f"
  by (simp add: dependant_calls_def dependant_loop_exact)

text \<open>
  C31. Whatever a sandbox asks the broker to replay, the request that is dispatched is never an administrator's: its
  canonical path is outside the admin prefix, and no route of the application that matches its method and that very path
  has the admin gate anywhere in its tree of dependencies, however deep and whatever other routes match; and the claims
  it carries name the session of the ticket that was presented, within its lifetime and with a scope the route accepts.
\<close>

theorem broker_never_replays_admin:
  assumes "brokered scopes sha256 routes canonical now jti authorization ts meth raw T = Inr (m, path, p)"
  shows "\<not> prefix ADMIN_PATH_PREFIX path \<and> canonical raw = Inr path \<and>
    (\<forall>r\<in>set routes. upper_method m \<in> set (rt_methods r) \<and> rt_matches r path \<longrightarrow> \<not> calls_of (rt_dependant r) ''require_admin'') \<and>
    (\<exists>t\<in>set ts. now < tk_expires t \<and> tk_scope t \<in> set scopes \<and> claim_text p ''chat_session_id'' = Some (tk_session t))"
proof -
  obtain s scope where ticket: "require_broker_ticket sha256 now authorization ts = Inr (s, scope)" "scope \<in> set scopes"
    and rep: "replay routes canonical now jti s meth raw T = Inr (m, path, p)"
    using assms by (auto simp: brokered_def split: sum.splits prod.splits if_splits)
  have idem: "upper_method (upper_method x) = upper_method x" for x
  proof -
    have "(let n = (of_char (let n = (of_char c :: nat) in if 97 \<le> n \<and> n \<le> 122 then char_of (n - 32) else c) :: nat)
        in if 97 \<le> n \<and> n \<le> 122 then char_of (n - 32) else (let n = (of_char c :: nat) in if 97 \<le> n \<and> n \<le> 122 then char_of (n - 32) else c))
      = (let n = (of_char c :: nat) in if 97 \<le> n \<and> n \<le> 122 then char_of (n - 32) else c)" for c
      by (auto simp: Let_def)
    then show ?thesis by (simp add: upper_method_def)
  qed
  have rep': "canonical raw = Inr path" "\<not> prefix ADMIN_PATH_PREFIX path" "\<not> route_requires_admin routes m path"
    "identity_claims now jti s T = Inr p" "upper_method m = m"
    using rep idem by (auto simp: replay_def Let_def split: sum.splits if_splits)
  have "claim_text p ''chat_session_id'' = Some s"
    using rep'(4) by (auto simp: identity_claims_def co_session_claims_def agent_session_claims_def minted_custom Let_def
        split: option.splits if_splits) (simp_all add: claim_text_def)
  moreover have "\<exists>t\<in>set ts. now < tk_expires t \<and> tk_scope t = scope \<and> tk_session t = s"
    using ticket(1) by (auto simp: require_broker_ticket_def ticket_resolve_def Let_def split: option.splits if_splits dest: find_SomeD)
  ultimately show ?thesis
    using rep' ticket(2) by (auto simp: route_requires_admin_def list_ex_iff dependant_calls_exact)
qed

lemma brokered_identity:
  assumes "brokered scopes sha256 routes canonical now jti authorization ts meth raw T = Inr (m, path, p)"
  shows "\<exists>s. claim_text p ''chat_session_id'' = Some s \<and> identity_claims now jti s T = Inr p"
proof -
  obtain s where s: "identity_claims now jti s T = Inr p"
    using assms by (auto simp: brokered_def replay_def Let_def split: sum.splits prod.splits if_splits)
  then have "claim_text p ''chat_session_id'' = Some s"
    by (auto simp: identity_claims_def co_session_claims_def agent_session_claims_def minted_custom Let_def
        split: option.splits if_splits) (simp_all add: claim_text_def)
  with s show ?thesis by blast
qed

text \<open>A session of one user, with no agent attached.\<close>

definition plain_session :: "string \<Rightarrow> tdb \<Rightarrow> user_row \<Rightarrow> bool" where
  "plain_session s T u \<longleftrightarrow> (\<exists>cs. get_session s T = Some cs \<and> \<not> cs_co cs \<and> or_default (cs_agent cs) [] = [] \<and>
     get_by_email (cs_email cs) (users (base T)) = Some u \<and>
     find (\<lambda>r. usr_id r = usr_id u) (users (base T)) = Some u \<and> usr_active u)"

definition main_ticket :: ticket where
  "main_ticket = \<lparr>tk_digest = ''T'', tk_session = ''s'', tk_scope = ''main'', tk_expires = 900, tk_created = 0\<rparr>"

definition chat_claims :: payload where
  "chat_claims = access_claims 5 ''u1'' ''a@b'' ''j-2'' None ''session'' False
     [(''scope'', Text ''chat''), (''chat_session_id'', Text ''s'')]"

lemma chat_replayed:
  "brokered [''main''] id [] (\<lambda>raw. Inr (or_default raw [])) 5 ''j-2'' (Some ''Bearer T'') [main_ticket] (Some ''POST'')
     (Some ''/auth/tokens'') no_pat_db
   = Inr (''POST'', ''/auth/tokens'', chat_claims)"
proof -
  have t: "require_broker_ticket id 5 (Some ''Bearer T'') [main_ticket] = Inr (''s'', ''main'')" by code_simp
  have m: "upper_method ''POST'' = ''POST''" by (simp add: upper_method_def)
  show ?thesis
    by (simp add: brokered_def t replay_def m route_requires_admin_def ADMIN_PATH_PREFIX_def identity_claims_def no_pat_db_def
        get_session_def or_default_def get_by_email_def duo_def chat_claims_def)
qed

theorem broker_never_replays_admin_witness:
  "\<exists>t\<in>set [main_ticket]. (5::micros) < tk_expires t \<and> tk_scope t \<in> set [''main''] \<and>
     claim_text chat_claims ''chat_session_id'' = Some (tk_session t)"
  using broker_never_replays_admin [OF chat_replayed] by blast

section \<open>Endpoints for interactive sessions\<close>

lemma current_user_by_token:
  assumes "se_dev_email E = None" "bearer_or_cookie rq = token" "token \<noteq> []"
    and "\<not> is_scheduler_token (se_scheduler_secret E) token"
  shows "get_current_user E rq V st = resolved_user E rq token V st"
  using assms by (simp add: get_current_user_def Let_def)

lemma attach_caller [simp]: "an_caller (attach_admin_flag ctx db who) = who"
  by (simp add: attach_admin_flag_def Let_def)

lemma resolved_user_caller:
  "fst (resolve_token_to_user (se_token E) False False token (Some rq) (sv_db V)) = Inr who \<Longrightarrow>
     \<exists>a. fst (resolved_user E rq token V st) = Inr a \<and> an_caller a = who"
  "fst (resolve_token_to_user (se_token E) False False token (Some rq) (sv_db V)) = Inl why \<Longrightarrow>
     fst (resolved_user E rq token V st) = Inl (Http 401 (auth_detail why))"
  by (auto simp: resolved_user_def Let_def split_beta)

lemma resolve_session_token:
  assumes "te_verify E token = Some p" "token \<noteq> []" "p \<noteq> []" "\<not> scope_forbidden git preview p"
    and "claim_text p ''typ'' \<notin> {Some ''pat'', Some ''agent_pat'', Some ''co_session'', Some ''agent_session''}"
    and "\<not> names_co_session p T" "claim_text p ''sub'' = Some (usr_id u)"
    and "find (\<lambda>r. usr_id r = usr_id u) (users (base T)) = Some u" "usr_active u"
  shows "fst (resolve_token_to_user E git preview token rq T) =
    Inr (user_caller u (if claim_text p ''scope'' \<in> {Some ''chat'', Some ''mcp-oauth''} then Some ''stack'' else None))"
  using assms unfolding names_co_session_iff
  by (simp add: resolve_token_to_user_def resolve_plain_def PAT_LIKE_TYPES_def Let_def split_beta)

text \<open>
  An endpoint reserved for interactive sessions refuses every token of the token table: whatever the request and the
  tables, if it lets a caller in outside development mode, then the request carries a bearer token or a cookie that is not
  the scheduler's secret and whose claims, if they verify, are not those of a personal or an agent's token; a Storage token alone
  is refused.
\<close>

theorem session_endpoint_refuses_pats:
  assumes "fst (require_session_token E rq V st) = Inr a" "se_dev_email E = None"
  shows "bearer_or_cookie rq \<noteq> [] \<and> \<not> is_scheduler_token (se_scheduler_secret E) (bearer_or_cookie rq) \<and>
    (\<exists>p. te_verify (se_token E) (bearer_or_cookie rq) = Some p \<and> claim_text p ''typ'' \<noteq> Some ''pat'' \<and>
      claim_text p ''typ'' \<noteq> Some ''agent_pat'') \<and>
    fst (resolve_token_to_user (se_token E) False False (bearer_or_cookie rq) (Some rq) (sv_db V)) = Inr (an_caller a)"
proof -
  from assms(1) have ok: "fst (get_current_user E rq V st) = Inr a" "session_refusal E rq = None"
    by (auto simp: require_session_token_def split: sum.splits prod.splits option.splits)
  have tok: "bearer_or_cookie rq \<noteq> []"
  proof
    assume "bearer_or_cookie rq = []"
    with ok(2) have "or_default (rq_sapi rq) [] = []" by (simp add: session_refusal_def split: if_splits)
    with ok(1) \<open>bearer_or_cookie rq = []\<close> assms(2) show False by (simp add: get_current_user_def Let_def)
  qed
  with ok(2) have sched: "\<not> is_scheduler_token (se_scheduler_secret E) (bearer_or_cookie rq)"
    by (auto simp: session_refusal_def Let_def)
  have "fst (resolved_user E rq (bearer_or_cookie rq) V st) = Inr a"
    using ok(1) current_user_by_token [OF assms(2) refl tok sched] by simp
  then have who: "fst (resolve_token_to_user (se_token E) False False (bearer_or_cookie rq) (Some rq) (sv_db V)) = Inr (an_caller a)"
    using resolved_user_caller [of E "bearer_or_cookie rq" rq V _ st]
    by (cases "fst (resolve_token_to_user (se_token E) False False (bearer_or_cookie rq) (Some rq) (sv_db V))") force+
  then obtain p where p: "te_verify (se_token E) (bearer_or_cookie rq) = Some p"
    by (cases "te_verify (se_token E) (bearer_or_cookie rq)") (auto simp: resolve_token_to_user_def tok)
  with ok(2) tok sched have "claim_text p ''typ'' \<notin> Some ` set PAT_LIKE_TYPES"
    by (auto simp: session_refusal_def Let_def split: if_splits)
  with p who tok sched show ?thesis by (auto simp: PAT_LIKE_TYPES_def)
qed

text \<open>
  But it does not refuse a sandbox. The identity under which the broker replays a chat sandbox's requests is an ordinary
  session token, and the endpoint that issues personal tokens is not an administrator's: a request for a token that a sandbox sends
  through the broker, with its ticket, is let in by the gate for interactive sessions and answered with a durable token of the
  session's user, with the lifetime and the read surface the sandbox asks for, while its own identity was confined to the
  user's stack and to the life of its ticket.
\<close>

theorem brokered_sandbox_mints_pat:
  assumes "brokered scopes sha256 routes canonical now jti authorization ts meth raw T = Inr (''POST'', ''/auth/tokens'', p)"
    and "claim_text p ''chat_session_id'' = Some s" "plain_session s T u"
    and "create_refusal b = None" "me_token_id M \<notin> pt_id ` set (pats T)"
    and "sv_db V = T" "se_dev_email E = None" "tok \<noteq> []" "te_verify (se_token E) tok = Some p"
    and "\<not> is_scheduler_token (se_scheduler_secret E) tok"
  shows "\<exists>a jwt r. fst (require_session_token E (chat_request tok) V st) = Inr a \<and> an_caller a = user_caller u (Some ''stack'') \<and>
    fst (create_token M b a T) = Inr jwt \<and> pat_get (me_token_id M) (pats (snd (create_token M b a T))) = Some r \<and>
    pt_user r = usr_id u \<and> pt_surface r = Some (cr_surface b) \<and> pt_expires r = map_option ((+) (me_now M)) (token_lifetime b)"
proof -
  obtain s' where "claim_text p ''chat_session_id'' = Some s'" "identity_claims now jti s' T = Inr p"
    using brokered_identity [OF assms(1)] by blast
  with assms(2) have id: "identity_claims now jti s T = Inr p" by simp
  obtain cs where cs: "get_session s T = Some cs" "\<not> cs_co cs" "or_default (cs_agent cs) [] = []"
    "get_by_email (cs_email cs) (users (base T)) = Some u"
    and u: "find (\<lambda>r. usr_id r = usr_id u) (users (base T)) = Some u" "usr_active u"
    using assms(3) unfolding plain_session_def by blast
  have p: "p = access_claims now (usr_id u) (usr_email u) jti None ''session'' False
      [(''scope'', Text ''chat''), (''chat_session_id'', Text s)]"
    using id cs by (simp add: identity_claims_def Let_def)
  have claims: "claim_text p ''sub'' = Some (usr_id u)" "claim_text p ''typ'' = Some ''session''"
    "claim_text p ''scope'' = Some ''chat''"
    by (simp_all add: p minted_reserved minted_custom) (simp add: claim_text_def)
  have "\<not> names_co_session p T" using cs(1,2) assms(2) by (simp add: names_co_session_def)
  moreover have "\<not> scope_forbidden False False p"
    by (simp add: scope_forbidden_def claims or_default_def DATA_APP_GIT_SCOPE_PREFIX_def DATA_APP_PREVIEW_SCOPE_PREFIX_def)
  ultimately have who: "fst (resolve_token_to_user (se_token E) False False tok (Some (chat_request tok)) (sv_db V))
      = Inr (user_caller u (Some ''stack''))"
    using resolve_session_token [OF assms(9,8) claim_nonempty [OF claims(1)] _ _ _ claims(1)] u assms(6) by (simp add: claims)
  have tok: "bearer_or_cookie (chat_request tok) = tok"
    using assms(8) by (simp add: bearer_or_cookie_def chat_request_def or_default_def)
  obtain a where a: "fst (resolved_user E (chat_request tok) tok V st) = Inr a" "an_caller a = user_caller u (Some ''stack'')"
    using resolved_user_caller(1) [OF who] by blast
  have "session_refusal E (chat_request tok) = None"
    using assms(8,9,10) by (simp add: session_refusal_def tok claims PAT_LIKE_TYPES_def)
  then have gate: "fst (require_session_token E (chat_request tok) V st) = Inr a"
    using a(1) current_user_by_token [OF assms(7) tok assms(8,10)]
    by (simp add: require_session_token_def split: sum.split prod.split) (metis fst_conv sum.inject sum.simps(4))
  obtain jwt where jwt: "fst (create_token M b a T) = Inr jwt"
    using assms(4,5) by (simp add: create_token_def a(2) subscript_user_def user_caller_def pat_create_def Let_def)
  show ?thesis using gate a(2) jwt create_token_row(5) [OF jwt a(2)] by auto
qed

lemma plain_no_pat_db: "plain_session ''s'' no_pat_db one_user"
  by (simp add: plain_session_def no_pat_db_def get_session_def or_default_def get_by_email_def duo_def one_user_def)

definition chat_senv :: senv where
  "chat_senv = \<lparr>se_token = one_env chat_claims 5, se_dev_email = None, se_header_enabled = False, se_verdict = Unexpected,
     se_lookup_ok = True, se_mono = 0, se_scheduler_secret = [], se_new_uuid = ''x''\<rparr>"

definition fresh_rstate :: rstate where
  "fresh_rstate = \<lparr>st_payload = None, st_chat = None, st_user = None, st_ctx = \<lparr>ctx_paused = False, ctx_caller = None\<rparr>\<rparr>"

theorem brokered_sandbox_mints_pat_witness:
  "\<exists>a jwt r. fst (require_session_token chat_senv (chat_request ''tok'') \<lparr>sv_db = no_pat_db, sv_header = no_header_state\<rparr> fresh_rstate) = Inr a
    \<and> an_caller a = user_caller one_user (Some ''stack'') \<and>
    fst (create_token (one_mint ci_claims) ci_request a no_pat_db) = Inr jwt \<and>
    pat_get (me_token_id (one_mint ci_claims)) (pats (snd (create_token (one_mint ci_claims) ci_request a no_pat_db))) = Some r \<and>
    pt_user r = usr_id one_user \<and> pt_surface r = Some (cr_surface ci_request) \<and>
    pt_expires r = map_option ((+) (me_now (one_mint ci_claims))) (token_lifetime ci_request)"
proof (rule brokered_sandbox_mints_pat [OF chat_replayed _ plain_no_pat_db])
  show "claim_text chat_claims ''chat_session_id'' = Some ''s''"
    by (simp add: chat_claims_def minted_custom) (simp add: claim_text_def)
  show "create_refusal ci_request = None" by code_simp
  show "\<not> is_scheduler_token (se_scheduler_secret chat_senv) ''tok''"
    by (simp add: is_scheduler_token_def chat_senv_def py_strip_def py_lstrip_def)
qed (simp_all add: no_pat_db_def chat_senv_def one_env_def)

section \<open>Credentials for one surface\<close>

text \<open>
  A credential minted for the data apps' git surface or for their preview never logs anyone in: presented as a bearer
  token or a cookie it is refused by the dependency that guards the API, whoever its owner is, nothing is written and nothing is left
  on the request; and each of the two surfaces that do accept one of the kinds still refuses the other.
\<close>

theorem scoped_token_never_logs_in:
  assumes "te_verify (se_token E) tok = Some p" "claim_text p ''scope'' = Some (pre @ slug)"
    and "pre \<in> {DATA_APP_GIT_SCOPE_PREFIX, DATA_APP_PREVIEW_SCOPE_PREFIX}"
    and "bearer_or_cookie rq = tok" "tok \<noteq> []" "se_dev_email E = None"
    and "\<not> is_scheduler_token (se_scheduler_secret E) tok"
  shows "get_current_user E rq V st = (Inl (Http 401 ''git_scope_token_not_allowed''), V, st) \<and>
    (let git = pre = DATA_APP_GIT_SCOPE_PREFIX
     in fst (resolve_token_to_user (se_token E) (\<not> git) git tok (Some rq) (sv_db V)) = Inl Pat_scope_forbidden)"
proof -
  have pre: "prefix pre (pre @ slug)" "pre @ slug \<noteq> []" "p \<noteq> []"
    using assms(3) claim_nonempty [OF assms(2)] by (auto simp: DATA_APP_GIT_SCOPE_PREFIX_def DATA_APP_PREVIEW_SCOPE_PREFIX_def)
  then have "scope_forbidden False False p" and "scope_forbidden (pre \<noteq> DATA_APP_GIT_SCOPE_PREFIX) (pre = DATA_APP_GIT_SCOPE_PREFIX) p"
    using assms(2,3) by (auto simp: scope_forbidden_def or_default_def DATA_APP_GIT_SCOPE_PREFIX_def DATA_APP_PREVIEW_SCOPE_PREFIX_def)
  then have "resolve_token_to_user (se_token E) False False tok (Some rq) (sv_db V) = (Inl Pat_scope_forbidden, sv_db V, None)"
    "fst (resolve_token_to_user (se_token E) (pre \<noteq> DATA_APP_GIT_SCOPE_PREFIX) (pre = DATA_APP_GIT_SCOPE_PREFIX) tok (Some rq) (sv_db V))
      = Inl Pat_scope_forbidden"
    using assms(1,5) pre(3) by (simp_all add: resolve_token_to_user_def Let_def)
  then show ?thesis
    using current_user_by_token [OF assms(6,4,5,7)] by (simp add: resolved_user_def auth_detail_def)
qed

definition git_claims :: payload where
  "git_claims = [(''sub'', Text ''u1''), (''typ'', Text ''pat''), (''jti'', Text ''j''), (''scope'', Text ''data-app-git:sales'')]"

theorem scoped_token_never_logs_in_witness:
  "fst (get_current_user (chat_senv\<lparr>se_token := one_env git_claims 5\<rparr>) (chat_request ''tok'')
      \<lparr>sv_db = one_pat_db, sv_header = no_header_state\<rparr> fresh_rstate) = Inl (Http 401 ''git_scope_token_not_allowed'')"
proof -
  have 1: "te_verify (se_token (chat_senv\<lparr>se_token := one_env git_claims 5\<rparr>)) ''tok'' = Some git_claims" by (simp add: one_env_def)
  have 2: "claim_text git_claims ''scope'' = Some (DATA_APP_GIT_SCOPE_PREFIX @ ''sales'')"
    by (simp add: claim_text_def git_claims_def DATA_APP_GIT_SCOPE_PREFIX_def)
  have 3: "bearer_or_cookie (chat_request ''tok'') = ''tok''" by (simp add: bearer_or_cookie_def chat_request_def or_default_def)
  have 4: "\<not> is_scheduler_token (se_scheduler_secret (chat_senv\<lparr>se_token := one_env git_claims 5\<rparr>)) ''tok''"
    by (simp add: is_scheduler_token_def chat_senv_def py_strip_def py_lstrip_def)
  show ?thesis
    using scoped_token_never_logs_in [OF 1 2 insertI1 3 _ _ 4] by (simp add: chat_senv_def)
qed

end
