(* ===== verification/RemoteAttach.thy ===== *)
theory RemoteAttach
  imports SqlText
begin

text \<open>
  The boundary between a connector and the orchestrator: the allowlists of \<open>src/orchestrator_security.py\<close> and the two
  loops that act on the \<open>_remote_attach\<close> rows a connector wrote, the rebuild's (\<open>src/orchestrator.py\<close>) and the one of
  every read-only connection (\<open>src/db.py\<close>). Reading a URL follows the standard library's \<open>urlsplit\<close> for ASCII text; whether
  a bracketed host is an address literal, DuckDB's answers, the metadata server and the settings of the Snowflake
  connector are parameters.
\<close>

section \<open>Reading a URL\<close>

definition is_c0 :: "char \<Rightarrow> bool" where
  "is_c0 c \<longleftrightarrow> (of_char c :: nat) \<le> 32"

definition is_alpha :: "char \<Rightarrow> bool" where
  "is_alpha c \<longleftrightarrow> (let n = (of_char c :: nat) in 65 \<le> n \<and> n \<le> 90 \<or> 97 \<le> n \<and> n \<le> 122)"

definition scheme_char :: "char \<Rightarrow> bool" where
  "scheme_char c \<longleftrightarrow> is_alpha c \<or> is_digit c \<or> c \<in> {CHR ''+'', CHR ''-'', CHR ''.''}"

definition unsafe_url_char :: "char \<Rightarrow> bool" where
  "unsafe_url_char c \<longleftrightarrow> (of_char c :: nat) \<in> {9, 10, 13}"

record url_parts =
  up_scheme :: string
  up_netloc :: string
  up_path :: string

text \<open>\<open>s.partition(c)\<close> without the separator, and the part after the last \<open>c\<close>.\<close>

definition before_char :: "char \<Rightarrow> string \<Rightarrow> string" where
  "before_char c s = takeWhile (\<lambda>x. x \<noteq> c) s"

definition after_char :: "char \<Rightarrow> string \<Rightarrow> string" where
  "after_char c s = drop 1 (dropWhile (\<lambda>x. x \<noteq> c) s)"

definition after_last :: "char \<Rightarrow> string \<Rightarrow> string" where
  "after_last c s = rev (takeWhile (\<lambda>x. x \<noteq> c) (rev s))"

definition split_scheme :: "string \<Rightarrow> string \<times> string" where
  "split_scheme u =
     (let s = before_char (CHR '':'') u
      in if CHR '':'' \<in> set u \<and> s \<noteq> [] \<and> is_alpha (hd s) \<and> list_all scheme_char s
         then (lower s, after_char (CHR '':'') u) else ([], u))"

text \<open>\<open>urlsplit\<close>: \<open>None\<close> where it raises. A fragment and a query end the path.\<close>

definition url_split :: "(string \<Rightarrow> bool) \<Rightarrow> string \<Rightarrow> url_parts option" where
  "url_split bracket_ok url =
     (let u = filter (\<lambda>c. \<not> unsafe_url_char c) (dropWhile is_c0 url);
          (scheme, rest) = split_scheme u;
          has_netloc = prefix ''//'' rest;
          netloc = (if has_netloc then takeWhile (\<lambda>c. c \<notin> set ''/?#'') (drop 2 rest) else []);
          tail = (if has_netloc then dropWhile (\<lambda>c. c \<notin> set ''/?#'') (drop 2 rest) else rest);
          open_br = CHR ''['' \<in> set netloc; close_br = CHR '']'' \<in> set netloc
      in if open_br \<noteq> close_br \<or> open_br \<and> \<not> bracket_ok netloc then None
         else Some \<lparr>up_scheme = scheme, up_netloc = netloc, up_path = takeWhile (\<lambda>c. c \<notin> set ''?#'') tail\<rparr>)"

definition hostinfo :: "url_parts \<Rightarrow> string \<times> string" where
  "hostinfo p =
     (let hi = after_last (CHR ''@'') (up_netloc p)
      in if CHR ''['' \<in> set hi
         then let br = after_char (CHR ''['') hi
              in (before_char (CHR '']'') br, after_char (CHR '':'') (after_char (CHR '']'') br))
         else (before_char (CHR '':'') hi, after_char (CHR '':'') hi))"

text \<open>\<open>hostname\<close>: \<open>[]\<close> stands for the standard library's \<open>None\<close>; the zone after a percent sign keeps its case.\<close>

definition url_hostname :: "url_parts \<Rightarrow> string" where
  "url_hostname p = (let h = fst (hostinfo p) in lower (before_char (CHR ''%'') h) @ dropWhile (\<lambda>c. c \<noteq> CHR ''%'') h)"

text \<open>\<open>port\<close>: \<open>Inl ()\<close> where reading it raises, else the port, if one is given.\<close>

definition url_port :: "url_parts \<Rightarrow> unit + int option" where
  "url_port p =
     (let s = snd (hostinfo p)
      in if s = [] then Inr None
         else if \<not> list_all is_digit s then Inl ()
         else case py_int s of
                None \<Rightarrow> Inl ()
              | Some n \<Rightarrow> if n \<le> 65535 then Inr (Some n) else Inl ())"

section \<open>The allowlists\<close>

type_synonym environ = "string \<Rightarrow> string option"

definition COMMUNITY_EXTENSIONS :: "string list" where
  "COMMUNITY_EXTENSIONS = [''keboola'', ''bigquery'', ''uc_catalog'', ''delta'', ''snowflake'']"

definition DEFAULT_TOKEN_ENVS :: "string list" where
  "DEFAULT_TOKEN_ENVS = [''KBC_TOKEN'', ''KBC_STORAGE_TOKEN'', ''KEBOOLA_STORAGE_TOKEN'',
     ''GOOGLE_APPLICATION_CREDENTIALS'', ''DATABRICKS_TOKEN'', ''SNOWFLAKE_PASSWORD'', ''SNOWFLAKE_PRIVATE_KEY'']"

definition parse_csv_env :: "environ \<Rightarrow> string \<Rightarrow> string list" where
  "parse_csv_env env name =
     filter (\<lambda>t. t \<noteq> []) (map py_strip (py_split (CHR '','') (case env name of None \<Rightarrow> [] | Some s \<Rightarrow> s)))"

text \<open>The built-in set is empty; the community set is the operator's, or the default.\<close>

definition get_allowed_extensions :: "environ \<Rightarrow> string list \<times> string list" where
  "get_allowed_extensions env =
     (let override = parse_csv_env env ''AGNES_REMOTE_ATTACH_EXTENSIONS''
      in ([], if override \<noteq> [] then override else COMMUNITY_EXTENSIONS))"

definition is_extension_allowed :: "environ \<Rightarrow> string \<Rightarrow> bool" where
  "is_extension_allowed env e \<longleftrightarrow>
     e \<in> set (fst (get_allowed_extensions env)) \<or> e \<in> set (snd (get_allowed_extensions env))"

definition is_builtin_extension :: "environ \<Rightarrow> string \<Rightarrow> bool" where
  "is_builtin_extension env e \<longleftrightarrow> e \<in> set (fst (get_allowed_extensions env))"

definition get_allowed_token_envs :: "environ \<Rightarrow> string list" where
  "get_allowed_token_envs env =
     (let override = parse_csv_env env ''AGNES_REMOTE_ATTACH_TOKEN_ENVS''
      in if override \<noteq> [] then override else DEFAULT_TOKEN_ENVS)"

definition is_upper :: "char \<Rightarrow> bool" where
  "is_upper c \<longleftrightarrow> (let n = (of_char c :: nat) in 65 \<le> n \<and> n \<le> 90)"

text \<open>A regular expression's \<open>$\<close> also matches before a newline that ends the text.\<close>

definition drop_final_newline :: "string \<Rightarrow> string" where
  "drop_final_newline s = (if s \<noteq> [] \<and> last s = CHR 10 then butlast s else s)"

definition env_name_matches :: "string \<Rightarrow> bool" where
  "env_name_matches name =
     (case drop_final_newline name of
        [] \<Rightarrow> False
      | c # cs \<Rightarrow> is_upper c \<and> list_all (\<lambda>x. is_upper x \<or> is_digit x \<or> x = CHR ''_'') cs \<and> length cs \<le> 63)"

definition is_token_env_allowed :: "environ \<Rightarrow> string \<Rightarrow> bool" where
  "is_token_env_allowed env t \<longleftrightarrow> env_name_matches t \<and> t \<in> set (get_allowed_token_envs env)"

definition safe_identifier :: "string \<Rightarrow> bool" where
  "safe_identifier name =
     (case drop_final_newline name of
        [] \<Rightarrow> False
      | c # cs \<Rightarrow> (is_alpha c \<or> c = CHR ''_'') \<and> list_all (\<lambda>x. is_alpha x \<or> is_digit x \<or> x = CHR ''_'') cs \<and>
          length cs \<le> 63)"

definition host_allowlist :: "environ \<Rightarrow> string list" where
  "host_allowlist env = parse_csv_env env ''AGNES_REMOTE_ATTACH_HOST_ALLOWLIST''"

definition attach_host_allowlist_configured :: "environ \<Rightarrow> bool" where
  "attach_host_allowlist_configured env \<longleftrightarrow> host_allowlist env \<noteq> []"

text \<open>\<open>"://" in url\<close>, and the host with its port; \<open>Inl ()\<close> is the exception of a port that cannot be read.\<close>

definition url_host :: "(string \<Rightarrow> bool) \<Rightarrow> string \<Rightarrow> unit + string" where
  "url_host bracket_ok url =
     (case url_split bracket_ok (if sublist ''://'' url then url else ''//'' @ url) of
        None \<Rightarrow> Inr []
      | Some p \<Rightarrow>
          if url_hostname p = [] then Inr []
          else rbind (url_port p) (\<lambda>port.
            let host = lower (url_hostname p)
            in Inr (case port of None \<Rightarrow> host | Some n \<Rightarrow> if n = 0 then host else host @ '':'' @ py_str_int n)))"

definition is_attach_host_allowed :: "(string \<Rightarrow> bool) \<Rightarrow> environ \<Rightarrow> string \<Rightarrow> unit + bool" where
  "is_attach_host_allowed bracket_ok env url =
     (let allow = map lower (host_allowlist env)
      in if allow = [] then Inr True
         else rbind (url_host bracket_ok url) (\<lambda>host.
           if host = [] then Inr False
           else Inr (host \<in> set allow \<or> before_char (CHR '':'') host \<in> set allow)))"

section \<open>Secrets\<close>

definition DATA_SOURCE_SECRET_NAMES :: "string list" where
  "DATA_SOURCE_SECRET_NAMES = [''KEBOOLA_STORAGE_TOKEN'', ''BIGQUERY_SERVICE_ACCOUNT_JSON'', ''AGNES_GWS_CLIENT_ID'',
     ''AGNES_GWS_CLIENT_SECRET'', ''SNOWFLAKE_PASSWORD'', ''SNOWFLAKE_PRIVATE_KEY'',
     ''SNOWFLAKE_PRIVATE_KEY_PASSPHRASE'', ''DATABRICKS_TOKEN'']"

text \<open>The vault answers \<open>None\<close> for an absent secret and when it cannot be read; \<open>Inl ()\<close> is the \<open>ValueError\<close>.\<close>

definition datasource_secret :: "environ \<Rightarrow> (string \<Rightarrow> string option) \<Rightarrow> string \<Rightarrow> unit + string option" where
  "datasource_secret env vault name =
     (if name \<notin> set DATA_SOURCE_SECRET_NAMES then Inl ()
      else case env name of
             Some v \<Rightarrow> if v \<noteq> [] then Inr (Some v) else Inr (vault name)
           | None \<Rightarrow> Inr (vault name))"

definition resolve_remote_attach_token :: "environ \<Rightarrow> (string \<Rightarrow> string option) \<Rightarrow> string \<Rightarrow> string" where
  "resolve_remote_attach_token env vault t =
     (if t = [] then []
      else case env t of
             Some (c # v) \<Rightarrow> c # v
           | _ \<Rightarrow> (case datasource_secret env vault t of Inr (Some v) \<Rightarrow> v | _ \<Rightarrow> []))"

section \<open>Statements\<close>

text \<open>
  What the loops do to the connection. The last two stand for \<open>attach_unity_catalog\<close> and \<open>attach_snowflake\<close>, each a
  secret and an attachment.
\<close>

datatype stmt = InstallDriver | LoadExt string | InstallLoad string | BqSecret string string | BqSettings
  | AttachReadOnly string string string | AttachToken string string string string
  | UcAttach string string string | SfAttach string string string "string option"

text \<open>The text of the statements the loops write themselves.\<close>

definition escape_sql_string_literal :: "string \<Rightarrow> string" where
  "escape_sql_string_literal v = double_quotes sq v"

fun stmt_sql :: "stmt \<Rightarrow> string option" where
  "stmt_sql (LoadExt e) = Some (''LOAD '' @ e @ '';'')"
| "stmt_sql (InstallLoad e) = Some (''INSTALL '' @ e @ '' FROM community; LOAD '' @ e @ '';'')"
| "stmt_sql (BqSecret alias t) =
     Some (''CREATE OR REPLACE SECRET bq_secret_'' @ alias @ '' (TYPE bigquery, ACCESS_TOKEN '' @ [sq] @
       escape_sql_string_literal t @ [sq] @ '')'')"
| "stmt_sql (AttachReadOnly url alias e) =
     Some (''ATTACH '' @ [sq] @ escape_sql_string_literal url @ [sq] @ '' AS '' @ alias @ '' (TYPE '' @ e @ '', READ_ONLY)'')"
| "stmt_sql (AttachToken url alias e t) =
     Some (''ATTACH '' @ [sq] @ escape_sql_string_literal url @ [sq] @ '' AS '' @ alias @ '' (TYPE '' @ e @ '', TOKEN '' @
       [sq] @ escape_sql_string_literal t @ [sq] @ '')'')"
| "stmt_sql s = None"

fun attaches :: "stmt \<Rightarrow> string option" where
  "attaches (AttachReadOnly url alias e) = Some alias"
| "attaches (AttachToken url alias e t) = Some alias"
| "attaches (UcAttach alias url t) = Some alias"
| "attaches (SfAttach alias url t p) = Some alias"
| "attaches s = None"

section \<open>One row\<close>

record attach_row =
  ar_alias :: "string option"
  ar_extension :: "string option"
  ar_url :: "string option"
  ar_token_env :: "string option"

text \<open>What the loops ask of their surroundings.\<close>

record attach_ctx =
  cx_env :: environ
  cx_vault :: "string \<Rightarrow> string option"
  cx_bracket_ok :: "string \<Rightarrow> bool"
  cx_bq_token :: "string option"
  cx_passphrase :: "string \<Rightarrow> string option"

definition opt_text :: "string option \<Rightarrow> string" where
  "opt_text v = (case v of None \<Rightarrow> [] | Some s \<Rightarrow> s)"

text \<open>The checks both loops open with: identifiers, extension, and the name of the secret.\<close>

definition row_admitted :: "attach_ctx \<Rightarrow> attach_row \<Rightarrow> bool" where
  "row_admitted cx r \<longleftrightarrow>
     safe_identifier (opt_text (ar_alias r)) \<and> safe_identifier (opt_text (ar_extension r)) \<and>
     is_extension_allowed (cx_env cx) (opt_text (ar_extension r)) \<and>
     (opt_text (ar_token_env r) = [] \<or> is_token_env_allowed (cx_env cx) (opt_text (ar_token_env r)))"

definition row_token :: "attach_ctx \<Rightarrow> attach_row \<Rightarrow> string" where
  "row_token cx r = resolve_remote_attach_token (cx_env cx) (cx_vault cx) (opt_text (ar_token_env r))"

definition host_passes :: "attach_ctx \<Rightarrow> string \<Rightarrow> bool" where
  "host_passes cx url \<longleftrightarrow> is_attach_host_allowed (cx_bracket_ok cx) (cx_env cx) url = Inr True"

text \<open>
  The part of a row's work after its extension is loaded, the same in both loops but for two things: the query path
  keeps the BigQuery attachment a connection already has, and skips an unresolved secret only for Snowflake, where the
  rebuild skipped it for every extension before. An exception ends the row's work.
\<close>

definition attach_branch :: "attach_ctx \<Rightarrow> bool \<Rightarrow> bool \<Rightarrow> string \<Rightarrow> string \<Rightarrow> string \<Rightarrow> string \<Rightarrow> string \<Rightarrow> stmt list" where
  "attach_branch cx query already alias e url te token =
     (if e = ''bigquery'' then
        (case cx_bq_token cx of
           None \<Rightarrow> []
         | Some bq \<Rightarrow> [BqSecret alias bq, BqSettings] @ (if already then [] else [AttachReadOnly url alias e]))
      else if e = ''uc_catalog'' then (if host_passes cx url then [UcAttach alias url token] else [])
      else if e = ''snowflake'' then
        (if query \<and> te \<noteq> [] \<and> token = [] then []
         else if host_passes cx url then [SfAttach alias url token (cx_passphrase cx te)] else [])
      else if token \<noteq> [] then (if host_passes cx url then [AttachToken url alias e token] else [])
      else [AttachReadOnly url alias e])"

definition rebuild_plan :: "attach_ctx \<Rightarrow> string list \<Rightarrow> attach_row \<Rightarrow> stmt list" where
  "rebuild_plan cx attached r =
     (let alias = opt_text (ar_alias r); e = opt_text (ar_extension r); te = opt_text (ar_token_env r);
          token = row_token cx r
      in if \<not> row_admitted cx r then []
         else if te \<noteq> [] \<and> token = [] then []
         else if alias \<in> set attached then []
         else (if e = ''snowflake'' then [InstallDriver] else []) @
              (if is_builtin_extension (cx_env cx) e then [LoadExt e] else [InstallLoad e]) @
              (case ar_url r of None \<Rightarrow> [] | Some url \<Rightarrow> attach_branch cx False False alias e url te token))"

definition query_plan :: "attach_ctx \<Rightarrow> string list \<Rightarrow> attach_row \<Rightarrow> stmt list" where
  "query_plan cx attached r =
     (let alias = opt_text (ar_alias r); e = opt_text (ar_extension r); te = opt_text (ar_token_env r);
          token = row_token cx r; already = alias \<in> set attached
      in if \<not> row_admitted cx r then []
         else if already \<and> e \<noteq> ''bigquery'' then []
         else (if e = ''snowflake'' then [InstallDriver] else []) @ [LoadExt e] @
              (case ar_url r of None \<Rightarrow> [] | Some url \<Rightarrow> attach_branch cx True already alias e url te token))"

section \<open>The loops\<close>

text \<open>
  The databases of the connection and every statement sent to it. A statement that raises was sent all the same, and ends
  its row.
\<close>

record attach_state =
  as_attached :: "string list"
  as_sent :: "stmt list"

fun send_all :: "(stmt \<Rightarrow> bool) \<Rightarrow> stmt list \<Rightarrow> attach_state \<Rightarrow> attach_state" where
  "send_all runs [] st = st"
| "send_all runs (s # ss) st =
     (let st' = st\<lparr>as_sent := as_sent st @ [s]\<rparr>
      in if \<not> runs s then st'
         else send_all runs ss (case attaches s of None \<Rightarrow> st' | Some a \<Rightarrow> st'\<lparr>as_attached := a # as_attached st'\<rparr>))"

definition attach_remote_extensions :: "(stmt \<Rightarrow> bool) \<Rightarrow> attach_ctx \<Rightarrow> attach_row list \<Rightarrow> attach_state \<Rightarrow> attach_state" where
  "attach_remote_extensions runs cx rows st =
     fold (\<lambda>r st. send_all runs (rebuild_plan cx (as_attached st) r) st) rows st"

definition reattach_remote_extensions :: "(stmt \<Rightarrow> bool) \<Rightarrow> attach_ctx \<Rightarrow> attach_row list \<Rightarrow> attach_state \<Rightarrow> attach_state" where
  "reattach_remote_extensions runs cx rows st =
     fold (\<lambda>r st. send_all runs (query_plan cx (as_attached st) r) st) rows st"

section \<open>What is sent\<close>

fun sent_credential :: "stmt \<Rightarrow> (string \<times> string) option" where
  "sent_credential (AttachToken url alias e t) = Some (url, t)"
| "sent_credential (UcAttach alias url t) = Some (url, t)"
| "sent_credential (SfAttach alias url t p) = Some (url, t)"
| "sent_credential s = None"

fun loads_extension :: "stmt \<Rightarrow> string option" where
  "loads_extension (LoadExt e) = Some e"
| "loads_extension (InstallLoad e) = Some e"
| "loads_extension s = None"

lemma send_all_sent: "set (as_sent (send_all runs ss st)) \<subseteq> set (as_sent st) \<union> set ss"
proof (induction runs ss st rule: send_all.induct)
  case (2 runs s ss st)
  show ?case
  proof (cases "runs s")
    case True
    then show ?thesis using 2 by (cases "attaches s") (auto simp: Let_def)
  qed (auto simp: Let_def)
qed simp

text \<open>Every statement of a loop belongs to the plan of one of its rows, at the attachments of that moment.\<close>

lemma fold_sent:
  assumes "s \<in> set (as_sent (fold (\<lambda>r st. send_all runs (plan (as_attached st) r) st) rows st))"
  shows "s \<in> set (as_sent st) \<or> (\<exists>r\<in>set rows. \<exists>att. s \<in> set (plan att r))"
  using assms
proof (induction rows arbitrary: st)
  case (Cons r rows)
  then have "s \<in> set (as_sent (send_all runs (plan (as_attached st) r) st)) \<or>
      (\<exists>r\<in>set rows. \<exists>att. s \<in> set (plan att r))" by simp
  then show ?case using send_all_sent [of runs "plan (as_attached st) r" st] by auto
qed simp

lemma row_admittedD:
  "row_admitted cx r \<Longrightarrow> is_extension_allowed (cx_env cx) (opt_text (ar_extension r))"
  "row_admitted cx r \<Longrightarrow> opt_text (ar_token_env r) \<noteq> [] \<Longrightarrow>
     is_token_env_allowed (cx_env cx) (opt_text (ar_token_env r))"
  by (simp_all add: row_admitted_def)

lemma branch_credential:
  assumes "s \<in> set (attach_branch cx query already alias e url te token)" "sent_credential s = Some (u, t)"
  shows "u = url \<and> t = token \<and> host_passes cx url"
  using assms by (auto simp: attach_branch_def split: if_splits option.splits)

lemma branch_loads: "s \<in> set (attach_branch cx query already alias e url te token) \<Longrightarrow> loads_extension s = None"
  by (auto simp: attach_branch_def split: if_splits option.splits)

text \<open>The statements of an admitted row: its extension's, or those of its branch.\<close>

lemma plan_cases:
  assumes "s \<in> set (rebuild_plan cx att r) \<or> s \<in> set (query_plan cx att r)"
  shows "row_admitted cx r \<and>
    (s \<in> {InstallDriver, LoadExt (opt_text (ar_extension r)), InstallLoad (opt_text (ar_extension r))} \<or>
     (\<exists>url query already. ar_url r = Some url \<and>
        s \<in> set (attach_branch cx query already (opt_text (ar_alias r)) (opt_text (ar_extension r)) url
          (opt_text (ar_token_env r)) (row_token cx r))))"
proof (cases "s \<in> set (rebuild_plan cx att r)")
  case True
  then show ?thesis by (auto simp: rebuild_plan_def Let_def split: if_splits option.splits)
next
  case False
  then have "s \<in> set (query_plan cx att r)" using assms by blast
  then show ?thesis by (auto simp: query_plan_def Let_def split: if_splits option.splits)
qed

lemma resolve_token_empty: "resolve_remote_attach_token env vault [] = []"
  by (simp add: resolve_remote_attach_token_def)

lemma host_passesD:
  assumes "host_passes cx url"
  shows "host_allowlist (cx_env cx) = [] \<or>
    (\<exists>h. url_host (cx_bracket_ok cx) url = Inr h \<and> h \<noteq> [] \<and>
       (h \<in> lower ` set (host_allowlist (cx_env cx)) \<or>
        before_char (CHR '':'') h \<in> lower ` set (host_allowlist (cx_env cx))))"
proof (cases "url_host (cx_bracket_ok cx) url")
  case (Inr h)
  then show ?thesis using assms
    by (auto simp: host_passes_def is_attach_host_allowed_def Let_def split: if_splits)
qed (use assms in \<open>simp add: host_passes_def is_attach_host_allowed_def Let_def split: if_splits\<close>)

section \<open>The properties\<close>

text \<open>
  C14. Whatever rows connectors wrote, whatever statements fail, neither loop loads an extension outside the allowlist, and
  a credential leaves only under these conditions: it is the secret of a name that a row asked for, the name is well
  formed and on the list of names, it goes to that row's URL, and when the operator pinned hosts, the host of that URL,
  with its port or without, is one of them.
\<close>

theorem attach_credential_confined:
  assumes "s \<in> set (as_sent (attach_remote_extensions runs cx rows \<lparr>as_attached = att, as_sent = []\<rparr>)) \<union>
      set (as_sent (reattach_remote_extensions runs cx rows \<lparr>as_attached = att, as_sent = []\<rparr>))"
  shows "(case loads_extension s of None \<Rightarrow> True | Some e \<Rightarrow> is_extension_allowed (cx_env cx) e) \<and>
    (case sent_credential s of
       None \<Rightarrow> True
     | Some (url, t) \<Rightarrow>
         t = [] \<or>
         (\<exists>r\<in>set rows. ar_url r = Some url \<and> t = row_token cx r \<and>
            is_token_env_allowed (cx_env cx) (opt_text (ar_token_env r)) \<and>
            (host_allowlist (cx_env cx) = [] \<or>
             (\<exists>h. url_host (cx_bracket_ok cx) url = Inr h \<and>
                (h \<in> lower ` set (host_allowlist (cx_env cx)) \<or>
                 before_char (CHR '':'') h \<in> lower ` set (host_allowlist (cx_env cx)))))))"
proof -
  obtain r att' where r: "r \<in> set rows" "s \<in> set (rebuild_plan cx att' r) \<or> s \<in> set (query_plan cx att' r)"
    using assms fold_sent [of s runs "rebuild_plan cx" rows] fold_sent [of s runs "query_plan cx" rows]
    unfolding attach_remote_extensions_def reattach_remote_extensions_def by fastforce
  note plan = plan_cases [OF r(2)]
  have loads: "is_extension_allowed (cx_env cx) e" if "loads_extension s = Some e" for e
    using plan that branch_loads row_admittedD(1) by (auto simp del: not_None_eq)
  have sends: "\<exists>r\<in>set rows. ar_url r = Some url \<and> t = row_token cx r \<and>
      is_token_env_allowed (cx_env cx) (opt_text (ar_token_env r)) \<and> host_passes cx url"
    if "sent_credential s = Some (url, t)" "t \<noteq> []" for url t
  proof -
    have not_load: "s \<notin> {InstallDriver, LoadExt (opt_text (ar_extension r)), InstallLoad (opt_text (ar_extension r))}"
      using that(1) by auto
    obtain u query already where "ar_url r = Some u"
      "s \<in> set (attach_branch cx query already (opt_text (ar_alias r)) (opt_text (ar_extension r)) u
          (opt_text (ar_token_env r)) (row_token cx r))"
      using plan not_load by blast
    with branch_credential [OF this(2) that(1)] have "ar_url r = Some url" "t = row_token cx r" "host_passes cx url"
      by simp_all
    moreover have "opt_text (ar_token_env r) \<noteq> []"
      using that(2) \<open>t = row_token cx r\<close> by (auto simp: row_token_def resolve_token_empty)
    ultimately show ?thesis using r(1) plan row_admittedD(2) by blast
  qed
  show ?thesis using loads sends host_passesD by (fastforce split: option.splits prod.splits)
qed

text \<open>The statements the loops write read back as exactly the tokens that were meant.\<close>

abbreviation ident :: "string \<Rightarrow> token" where
  "ident i \<equiv> TWord (drop_final_newline i)"

fun stmt_tokens :: "stmt \<Rightarrow> token list" where
  "stmt_tokens (LoadExt e) = [TWord ''LOAD'', ident e, TSym (CHR '';'')]"
| "stmt_tokens (InstallLoad e) =
     [TWord ''INSTALL'', ident e, TWord ''FROM'', TWord ''community'', TSym (CHR '';''), TWord ''LOAD'', ident e,
      TSym (CHR '';'')]"
| "stmt_tokens (BqSecret alias t) =
     [TWord ''CREATE'', TWord ''OR'', TWord ''REPLACE'', TWord ''SECRET'', ident (''bq_secret_'' @ alias),
      TSym (CHR ''(''), TWord ''TYPE'', TWord ''bigquery'', TSym (CHR '',''), TWord ''ACCESS_TOKEN'', TStr t,
      TSym (CHR '')'')]"
| "stmt_tokens (AttachReadOnly url alias e) =
     [TWord ''ATTACH'', TStr url, TWord ''AS'', ident alias, TSym (CHR ''(''), TWord ''TYPE'', ident e, TSym (CHR '',''),
      TWord ''READ_ONLY'', TSym (CHR '')'')]"
| "stmt_tokens (AttachToken url alias e t) =
     [TWord ''ATTACH'', TStr url, TWord ''AS'', ident alias, TSym (CHR ''(''), TWord ''TYPE'', ident e, TSym (CHR '',''),
      TWord ''TOKEN'', TStr t, TSym (CHR '')'')]"
| "stmt_tokens s = []"

lemma safe_identifier_word:
  assumes "safe_identifier i"
  shows "drop_final_newline i \<noteq> [] \<and> list_all word_char (drop_final_newline i)"
proof -
  have word: "word_char c" if "is_alpha c \<or> is_digit c \<or> c = CHR ''_''" for c
    using that by (auto simp: is_alpha_def is_digit_def word_char_def Let_def)
  obtain c cs where i: "drop_final_newline i = c # cs"
    using assms by (auto simp: safe_identifier_def split: list.splits)
  then have "is_alpha c \<or> c = CHR ''_''" "list_all (\<lambda>x. is_alpha x \<or> is_digit x \<or> x = CHR ''_'') cs"
    using assms by (auto simp: safe_identifier_def)
  then show ?thesis using word i by (auto simp: list_all_iff)
qed

lemma newline_dropped: "i = drop_final_newline i \<or> i = drop_final_newline i @ [CHR 10]"
  by (auto simp: drop_final_newline_def) (metis append_butlast_last_id)

text \<open>An identifier with a newline at its end reads as without it.\<close>

lemma tokens_identifier:
  assumes "list_all word_char p" "safe_identifier i"
  shows "sql_tokens (p @ i) = Some [ident (p @ i)]"
proof -
  have ne: "i \<noteq> []" using safe_identifier_word [OF assms(2)] by (auto simp: drop_final_newline_def)
  then have pi: "drop_final_newline (p @ i) = p @ drop_final_newline i" by (simp add: drop_final_newline_def butlast_append)
  have word: "sql_tokens (p @ drop_final_newline i) = Some [ident (p @ i)]"
    using safe_identifier_word [OF assms(2)] assms(1) by (simp add: pi tokens_word)
  show ?thesis using newline_dropped [of i]
  proof
    assume "i = drop_final_newline i"
    then show ?thesis using word by simp
  next
    assume i: "i = drop_final_newline i @ [CHR 10]"
    have "sql_tokens ((p @ drop_final_newline i) @ [CHR 10]) = Some ([ident (p @ i)] @ [])"
      by (rule tokens_then_end [OF word])
        (simp_all add: is_sep_def word_char_def sql_tokens.simps is_space_def)
    then show ?thesis by (subst i) simp
  qed
qed

text \<open>Pieces of text that meet at separators read piece by piece.\<close>

fun seams :: "string list \<Rightarrow> bool" where
  "seams (x # y # r) = (y \<noteq> [] \<and> (is_sep (last x) \<or> is_sep (hd y)) \<and> seams (y # r))"
| "seams xs = True"

lemma tokens_pieces:
  "list_all2 (\<lambda>x t. sql_tokens x = Some t) xs ts \<Longrightarrow> seams xs \<Longrightarrow> sql_tokens (concat xs) = Some (concat ts)"
proof (induction xs arbitrary: ts rule: seams.induct)
  case (1 x y r)
  obtain t us where ts: "ts = t # us" "sql_tokens x = Some t" "list_all2 (\<lambda>x t. sql_tokens x = Some t) (y # r) us"
    using 1(2) by (auto simp: list_all2_Cons1)
  have "sql_tokens (concat (y # r)) = Some (concat us)" using 1(1) [OF ts(3)] 1(3) by simp
  moreover have "seam x (concat (y # r))" using 1(3) by (auto simp: seam_def hd_append)
  ultimately have "sql_tokens (x @ concat (y # r)) = Some (t @ concat us)" by (rule sql_tokens_join [OF ts(2)])
  then show ?case by (simp add: ts(1))
qed (auto simp: list_all2_Cons1 sql_tokens.simps)

lemma attach_tokens:
  "sql_tokens ''LOAD '' = Some [TWord ''LOAD'']" "sql_tokens '';'' = Some [TSym (CHR '';'')]"
  "sql_tokens ''INSTALL '' = Some [TWord ''INSTALL'']"
  "sql_tokens '' FROM community; LOAD '' = Some [TWord ''FROM'', TWord ''community'', TSym (CHR '';''), TWord ''LOAD'']"
  "sql_tokens ''CREATE OR REPLACE SECRET '' = Some [TWord ''CREATE'', TWord ''OR'', TWord ''REPLACE'', TWord ''SECRET'']"
  "sql_tokens '' (TYPE bigquery, ACCESS_TOKEN '' =
     Some [TSym (CHR ''(''), TWord ''TYPE'', TWord ''bigquery'', TSym (CHR '',''), TWord ''ACCESS_TOKEN'']"
  "sql_tokens '')'' = Some [TSym (CHR '')'')]" "sql_tokens ''ATTACH '' = Some [TWord ''ATTACH'']"
  "sql_tokens '' AS '' = Some [TWord ''AS'']" "sql_tokens '' (TYPE '' = Some [TSym (CHR ''(''), TWord ''TYPE'']"
  "sql_tokens '', READ_ONLY)'' = Some [TSym (CHR '',''), TWord ''READ_ONLY'', TSym (CHR '')'')]"
  "sql_tokens '', TOKEN '' = Some [TSym (CHR '',''), TWord ''TOKEN'']"
  by code_simp+

lemma stmt_seps: "is_sep (CHR '' '')" "is_sep (CHR '';'')" "is_sep (CHR '')'')" "is_sep (CHR '','')"
  by code_simp+

fun stmt_idents :: "stmt \<Rightarrow> string list" where
  "stmt_idents (LoadExt e) = [e]"
| "stmt_idents (InstallLoad e) = [e]"
| "stmt_idents (BqSecret alias t) = [alias]"
| "stmt_idents (AttachReadOnly url alias e) = [alias, e]"
| "stmt_idents (AttachToken url alias e t) = [alias, e]"
| "stmt_idents s = []"

lemma literal_piece: "[sq] @ escape_sql_string_literal v @ [sq] = quote_literal v"
  by (simp add: quote_literal_def escape_sql_string_literal_def)

lemmas literal_def = quote_literal_def escape_sql_string_literal_def

lemma stmt_reads:
  assumes "list_all safe_identifier (stmt_idents s)" "stmt_sql s = Some body"
  shows "sql_tokens body = Some (stmt_tokens s)"
proof -
  have id: "sql_tokens i = Some [ident i]" "i \<noteq> []" if "safe_identifier i" for i
    using tokens_identifier [of "[]" i] safe_identifier_word [OF that] that by (auto simp: drop_final_newline_def)
  have prefixed: "sql_tokens (''bq_secret_'' @ i) = Some [ident (''bq_secret_'' @ i)]" if "safe_identifier i" for i
  proof -
    have "list_all word_char ''bq_secret_''" by code_simp
    then show ?thesis by (rule tokens_identifier [OF _ that])
  qed
  have lit: "quote_literal v \<noteq> []" for v by (simp add: quote_literal_def)
  note rd = attach_tokens stmt_seps lit id prefixed [simplified]
  show ?thesis
  proof (cases s)
    case (LoadExt e)
    have body: "body = concat [''LOAD '', e, '';'']"
      using assms(2) LoadExt by (simp add: literal_def)
    have "sql_tokens (concat [''LOAD '', e, '';'']) =
        Some (concat [[TWord ''LOAD''], [ident e], [TSym (CHR '';'')]])"
      by (rule tokens_pieces) (use assms(1) LoadExt in \<open>simp_all add: rd\<close>)
    then show ?thesis by (simp only: body LoadExt) simp
  next
    case (InstallLoad e)
    have body: "body = concat [''INSTALL '', e, '' FROM community; LOAD '', e, '';'']"
      using assms(2) InstallLoad by (simp add: literal_def)
    have "sql_tokens (concat [''INSTALL '', e, '' FROM community; LOAD '', e, '';'']) =
        Some (concat [[TWord ''INSTALL''], [ident e], [TWord ''FROM'', TWord ''community'', TSym (CHR '';''), TWord ''LOAD''], [ident e], [TSym (CHR '';'')]])"
      by (rule tokens_pieces) (use assms(1) InstallLoad in \<open>simp_all add: rd\<close>)
    then show ?thesis by (simp only: body InstallLoad) simp
  next
    case (BqSecret al t)
    have body: "body = concat [''CREATE OR REPLACE SECRET '', ''bq_secret_'' @ al, '' (TYPE bigquery, ACCESS_TOKEN '', quote_literal t, '')'']"
      using assms(2) BqSecret by (simp add: literal_def)
    have "sql_tokens (concat [''CREATE OR REPLACE SECRET '', ''bq_secret_'' @ al, '' (TYPE bigquery, ACCESS_TOKEN '', quote_literal t, '')'']) =
        Some (concat [[TWord ''CREATE'', TWord ''OR'', TWord ''REPLACE'', TWord ''SECRET''], [ident (''bq_secret_'' @ al)], [TSym (CHR ''(''), TWord ''TYPE'', TWord ''bigquery'', TSym (CHR '',''), TWord ''ACCESS_TOKEN''], [TStr t], [TSym (CHR '')'')]])"
      by (rule tokens_pieces) (use assms(1) BqSecret in \<open>simp_all add: rd\<close>)
    then show ?thesis by (simp only: body BqSecret) simp
  next
    case (AttachReadOnly url al e)
    have body: "body = concat [''ATTACH '', quote_literal url, '' AS '', al, '' (TYPE '', e, '', READ_ONLY)'']"
      using assms(2) AttachReadOnly by (simp add: literal_def)
    have "sql_tokens (concat [''ATTACH '', quote_literal url, '' AS '', al, '' (TYPE '', e, '', READ_ONLY)'']) =
        Some (concat [[TWord ''ATTACH''], [TStr url], [TWord ''AS''], [ident al], [TSym (CHR ''(''), TWord ''TYPE''], [ident e], [TSym (CHR '',''), TWord ''READ_ONLY'', TSym (CHR '')'')]])"
      by (rule tokens_pieces) (use assms(1) AttachReadOnly in \<open>simp_all add: rd\<close>)
    then show ?thesis by (simp only: body AttachReadOnly) simp
  next
    case (AttachToken url al e t)
    have body: "body = concat [''ATTACH '', quote_literal url, '' AS '', al, '' (TYPE '', e, '', TOKEN '', quote_literal t, '')'']"
      using assms(2) AttachToken by (simp add: literal_def)
    have "sql_tokens (concat [''ATTACH '', quote_literal url, '' AS '', al, '' (TYPE '', e, '', TOKEN '', quote_literal t, '')'']) =
        Some (concat [[TWord ''ATTACH''], [TStr url], [TWord ''AS''], [ident al], [TSym (CHR ''(''), TWord ''TYPE''], [ident e], [TSym (CHR '',''), TWord ''TOKEN''], [TStr t], [TSym (CHR '')'')]])"
      by (rule tokens_pieces) (use assms(1) AttachToken in \<open>simp_all add: rd\<close>)
    then show ?thesis by (simp only: body AttachToken) simp
  qed (use assms(2) in simp_all)
qed

lemma branch_idents:
  assumes "s \<in> set (attach_branch cx query already al e url te token)" "safe_identifier al" "safe_identifier e"
  shows "list_all safe_identifier (stmt_idents s)"
  using assms by (auto simp: attach_branch_def split: if_splits option.splits)

text \<open>
  C24. Every statement the loops write themselves reads, by the lexical rules of SQL, as exactly the tokens that were
  meant: the URL and the secrets are each one string, alias and extension one word each, whatever characters a connector
  put into its rows, the newline that a regular expression's end anchor lets through included.
\<close>

theorem attach_statements_read_back:
  assumes "s \<in> set (as_sent (attach_remote_extensions runs cx rows \<lparr>as_attached = att, as_sent = []\<rparr>)) \<union>
      set (as_sent (reattach_remote_extensions runs cx rows \<lparr>as_attached = att, as_sent = []\<rparr>))"
    and "stmt_sql s = Some body"
  shows "sql_tokens body = Some (stmt_tokens s)"
proof -
  obtain r att' where r: "s \<in> set (rebuild_plan cx att' r) \<or> s \<in> set (query_plan cx att' r)"
    using assms(1) fold_sent [of s runs "rebuild_plan cx" rows] fold_sent [of s runs "query_plan cx" rows]
    unfolding attach_remote_extensions_def reattach_remote_extensions_def by fastforce
  have ids: "safe_identifier (opt_text (ar_alias r))" "safe_identifier (opt_text (ar_extension r))"
    using plan_cases [OF r] by (simp_all add: row_admitted_def)
  have "list_all safe_identifier (stmt_idents s)"
    using plan_cases [OF r] ids branch_idents by auto
  then show ?thesis using assms(2) by (rule stmt_reads)
qed

text \<open>The rows a loop attaches when DuckDB runs every statement.\<close>

definition branch_attaches :: "attach_ctx \<Rightarrow> attach_row \<Rightarrow> bool" where
  "branch_attaches cx r \<longleftrightarrow>
     (case ar_url r of
        None \<Rightarrow> False
      | Some url \<Rightarrow>
          if opt_text (ar_extension r) = ''bigquery'' then cx_bq_token cx \<noteq> None
          else if opt_text (ar_extension r) \<in> {''uc_catalog'', ''snowflake''} \<or> row_token cx r \<noteq> []
          then host_passes cx url else True)"

definition secret_resolves :: "attach_ctx \<Rightarrow> attach_row \<Rightarrow> bool" where
  "secret_resolves cx r \<longleftrightarrow> opt_text (ar_token_env r) = [] \<or> row_token cx r \<noteq> []"

definition attached_by :: "stmt list \<Rightarrow> string set" where
  "attached_by ss = {a. \<exists>s\<in>set ss. attaches s = Some a}"

lemma attached_by_simps [simp]:
  "attached_by [] = {}"
  "attached_by (s # ss) = (case attaches s of None \<Rightarrow> {} | Some a \<Rightarrow> {a}) \<union> attached_by ss"
  "attached_by (xs @ ys) = attached_by xs \<union> attached_by ys"
  by (auto simp: attached_by_def split: option.splits)

lemma send_all_runs: "set (as_attached (send_all (\<lambda>_. True) ss st)) = set (as_attached st) \<union> attached_by ss"
proof (induction ss arbitrary: st)
  case (Cons s ss)
  then show ?case by (cases "attaches s") (auto simp: Let_def)
qed simp

lemma branch_attached:
  "attached_by (attach_branch cx query already al e url te token) =
     (if e = ''bigquery'' \<and> (already \<or> cx_bq_token cx = None) then {}
      else if e = ''snowflake'' \<and> query \<and> te \<noteq> [] \<and> token = [] then {}
      else if e \<noteq> ''bigquery'' \<and> (e \<in> {''uc_catalog'', ''snowflake''} \<or> token \<noteq> []) \<and> \<not> host_passes cx url then {}
      else {al})"
  by (auto simp: attach_branch_def split: option.splits)

lemma rebuild_attached:
  "attached_by (rebuild_plan cx att r) =
     (if row_admitted cx r \<and> secret_resolves cx r \<and> branch_attaches cx r \<and> opt_text (ar_alias r) \<notin> set att
      then {opt_text (ar_alias r)} else {})"
  unfolding rebuild_plan_def Let_def branch_attaches_def secret_resolves_def
  by (cases "ar_url r"; cases "row_admitted cx r"; cases "opt_text (ar_alias r) \<in> set att";
      cases "opt_text (ar_token_env r) = []"; cases "row_token cx r = []")
    (simp_all add: branch_attached)

lemma query_attached:
  "attached_by (query_plan cx att r) =
     (if row_admitted cx r \<and> (opt_text (ar_extension r) = ''snowflake'' \<longrightarrow> secret_resolves cx r) \<and> branch_attaches cx r \<and>
         opt_text (ar_alias r) \<notin> set att
      then {opt_text (ar_alias r)} else {})"
  unfolding query_plan_def Let_def branch_attaches_def secret_resolves_def
  by (cases "ar_url r"; cases "row_admitted cx r"; cases "opt_text (ar_alias r) \<in> set att";
      cases "opt_text (ar_token_env r) = []"; cases "row_token cx r = []")
    (simp_all add: branch_attached)

lemma fold_attached:
  assumes "\<And>att r. attached_by (plan att r) = (if Q r \<and> opt_text (ar_alias r) \<notin> set att then {opt_text (ar_alias r)} else {})"
  shows "set (as_attached (fold (\<lambda>r st. send_all (\<lambda>_. True) (plan (as_attached st) r) st) rows st)) =
    set (as_attached st) \<union> {opt_text (ar_alias r) | r. r \<in> set rows \<and> Q r}"
proof (induction rows arbitrary: st)
  case (Cons r rows)
  have "set (as_attached (send_all (\<lambda>_. True) (plan (as_attached st) r) st)) =
      set (as_attached st) \<union> (if Q r then {opt_text (ar_alias r)} else {})"
    by (auto simp: send_all_runs assms)
  then show ?case by (auto simp: Cons.IH)
qed simp

text \<open>
  When DuckDB runs every statement, the rebuild attaches exactly the rows that pass the checks, whose secret
  resolves and whose branch is open to them; the read-only connections attach the same rows and, beyond those, the rows
  of every extension but Snowflake whose secret does not resolve, with an empty credential or with none.
\<close>

theorem remote_attach_exact:
  "set (as_attached (attach_remote_extensions (\<lambda>_. True) cx rows st)) =
     set (as_attached st) \<union>
     {opt_text (ar_alias r) | r. r \<in> set rows \<and> row_admitted cx r \<and> secret_resolves cx r \<and> branch_attaches cx r} \<and>
   set (as_attached (reattach_remote_extensions (\<lambda>_. True) cx rows st)) =
     set (as_attached st) \<union>
     {opt_text (ar_alias r) | r. r \<in> set rows \<and> row_admitted cx r \<and>
        (opt_text (ar_extension r) \<noteq> ''snowflake'' \<or> secret_resolves cx r) \<and> branch_attaches cx r}"
proof (rule conjI)
  let ?R = "\<lambda>r. row_admitted cx r \<and> secret_resolves cx r \<and> branch_attaches cx r"
  let ?Q = "\<lambda>r. row_admitted cx r \<and> (opt_text (ar_extension r) \<noteq> ''snowflake'' \<or> secret_resolves cx r) \<and>
      branch_attaches cx r"
  have "attached_by (rebuild_plan cx att r) =
      (if ?R r \<and> opt_text (ar_alias r) \<notin> set att then {opt_text (ar_alias r)} else {})" for att r
    by (simp only: rebuild_attached conj_assoc)
  from fold_attached [of "rebuild_plan cx" ?R, OF this]
  show "set (as_attached (attach_remote_extensions (\<lambda>_. True) cx rows st)) =
      set (as_attached st) \<union> {opt_text (ar_alias r) | r. r \<in> set rows \<and> ?R r}"
    unfolding attach_remote_extensions_def .
  have "attached_by (query_plan cx att r) =
      (if ?Q r \<and> opt_text (ar_alias r) \<notin> set att then {opt_text (ar_alias r)} else {})" for att r
    by (simp only: query_attached conj_assoc imp_conv_disj)
  from fold_attached [of "query_plan cx" ?Q, OF this]
  show "set (as_attached (reattach_remote_extensions (\<lambda>_. True) cx rows st)) =
      set (as_attached st) \<union> {opt_text (ar_alias r) | r. r \<in> set rows \<and> ?Q r}"
    unfolding reattach_remote_extensions_def .
qed

section \<open>Witnesses\<close>

definition example_ctx :: attach_ctx where
  "example_ctx =
     \<lparr>cx_env = (\<lambda>n. if n = ''KBC_TOKEN'' then Some ''tok'' else if n = ''JWT_SECRET_KEY'' then Some ''jwt''
                   else if n = ''AGNES_REMOTE_ATTACH_HOST_ALLOWLIST'' then Some ''kbc.example.com, h2:8443'' else None),
      cx_vault = (\<lambda>_. None), cx_bracket_ok = (\<lambda>_. True), cx_bq_token = None, cx_passphrase = (\<lambda>_. None)\<rparr>"

definition example_rows :: "attach_row list" where
  "example_rows =
     [\<lparr>ar_alias = Some ''evil'', ar_extension = Some ''keboola'', ar_url = Some ''https://kbc.example.com@evil.com/'',
       ar_token_env = Some ''KBC_TOKEN''\<rparr>,
      \<lparr>ar_alias = Some ''jwt'', ar_extension = Some ''keboola'', ar_url = Some ''https://kbc.example.com/'',
       ar_token_env = Some ''JWT_SECRET_KEY''\<rparr>,
      \<lparr>ar_alias = Some ''kbc'', ar_extension = Some ''keboola'', ar_url = Some ''https://kbc.example.com/'',
       ar_token_env = Some ''KBC_TOKEN''\<rparr>]"

lemma example_sent:
  "as_sent (attach_remote_extensions (\<lambda>_. True) example_ctx example_rows \<lparr>as_attached = [], as_sent = []\<rparr>) =
     [InstallLoad ''keboola'', InstallLoad ''keboola'', AttachToken ''https://kbc.example.com/'' ''kbc'' ''keboola'' ''tok'']"
  by code_simp

theorem attach_credential_confined_witness:
  "\<exists>r\<in>set example_rows. ar_url r = Some ''https://kbc.example.com/'' \<and> ''tok'' = row_token example_ctx r \<and>
    is_token_env_allowed (cx_env example_ctx) (opt_text (ar_token_env r))"
  using attach_credential_confined [of "AttachToken ''https://kbc.example.com/'' ''kbc'' ''keboola'' ''tok''"
      "\<lambda>_. True" example_ctx example_rows "[]"]
  by (simp only: example_sent Un_iff list.set insert_iff sent_credential.simps option.case prod.case list.distinct simp_thms)
    blast

theorem attach_statements_read_back_witness:
  "sql_tokens ''INSTALL keboola FROM community; LOAD keboola;'' = Some (stmt_tokens (InstallLoad ''keboola''))"
  by (rule attach_statements_read_back [of _ "\<lambda>_. True" example_ctx example_rows "[]"])
    (simp add: example_sent, simp)

text \<open>Two things the documentation of the host check says otherwise: a pinned port, and a port that cannot be read.\<close>

lemma pinned_port_needs_port:
  "is_attach_host_allowed (\<lambda>_. True) (\<lambda>n. Some ''kbc.example.com:443'') ''https://kbc.example.com/'' = Inr False"
  by code_simp

lemma unreadable_port_raises: "url_host (\<lambda>_. True) ''https://kbc.example.com:8o80/'' = Inl ()"
  by code_simp

end
