(* ===== verification/ViewRebuild.thy ===== *)
theory ViewRebuild
  imports RemoteAttach "HOL-Library.List_Lexorder" "HOL-Library.Char_ord"
begin

text \<open>
  The rebuild of the analytics database: the register of view names (\<open>src/repositories/view_ownership.py\<close>), and the
  rebuild of \<open>src/orchestrator.py\<close> that attaches every connector's extract and creates the master views, with the
  scan that releases names before and the fallback from parquet files after. What is on disk, and what the registry says,
  is the data of a source; DuckDB keeps one view for all spellings of a name that differ in case.
\<close>

section \<open>The register of names\<close>

type_synonym owners = "(string \<times> string) list"

text \<open>Rows of view name and source; the view name is the primary key.\<close>

definition get_owner :: "owners \<Rightarrow> string \<Rightarrow> string option" where
  "get_owner ow view = map_of ow view"

definition view_claim :: "string \<Rightarrow> string \<Rightarrow> owners \<Rightarrow> owners \<times> bool" where
  "view_claim view src ow =
     (case get_owner ow view of
        None \<Rightarrow> (ow @ [(view, src)], True)
      | Some s \<Rightarrow> (ow, s = src))"

definition view_release :: "string \<Rightarrow> string \<Rightarrow> owners \<Rightarrow> owners \<times> bool" where
  "view_release view src ow =
     (if (view, src) \<notin> set ow then (ow, False) else (filter (\<lambda>r. r \<noteq> (view, src)) ow, True))"

definition view_reconcile :: "(string \<times> string) list \<Rightarrow> owners \<Rightarrow> owners \<times> (string \<times> string) list" where
  "view_reconcile live ow =
     (let dropped = map prod.swap (filter (\<lambda>(v, s). (s, v) \<notin> set live) ow)
      in (filter (\<lambda>(v, s). (s, v) \<notin> set dropped) ow, dropped))"

definition list_for_source :: "string \<Rightarrow> owners \<Rightarrow> string list" where
  "list_for_source src ow = sort (map fst (filter (\<lambda>r. snd r = src) ow))"

section \<open>Sources and the master database\<close>

text \<open>
  A directory of the extracts: whether it has a database, what the scan before the rebuild read from its \<open>_meta\<close>, what
  the rebuild itself read (the names of \<open>_meta\<close> and the objects that exist), \<open>None\<close> where reading failed, its parquet
  files, and the names registered for it as materialized, \<open>None\<close> where the registry could not be read.
\<close>

record source_dir =
  sd_name :: string
  sd_has_db :: bool
  sd_scan :: "string list option"
  sd_meta :: "(string list \<times> string list) option"
  sd_parquets :: "string list"
  sd_registered :: "string list option"

datatype view_origin = FromExtract | FromParquet

text \<open>The views of the database being built, by name in lower case: the spelling, the source and the origin.\<close>

type_synonym master = "string \<rightharpoonup> string \<times> string \<times> view_origin"

record rebuild_state =
  rs_owners :: owners
  rs_claimed :: "(string \<times> string) list"
  rs_master :: master

definition create_view :: "string \<Rightarrow> string \<Rightarrow> view_origin \<Rightarrow> master \<Rightarrow> master" where
  "create_view view src org m = m(lower view \<mapsto> (view, src, org))"

text \<open>
  One name of one source: the claim, unless collisions are not tracked, and the view, whose creation may fail. The result
  says whether the table is listed.
\<close>

definition publish_view ::
  "(string \<Rightarrow> string \<Rightarrow> bool) \<Rightarrow> bool \<Rightarrow> string \<Rightarrow> view_origin \<Rightarrow> string \<Rightarrow> rebuild_state \<Rightarrow> rebuild_state \<times> bool" where
  "publish_view creates tracked src org view st =
     (let (ow, won) = (if tracked then view_claim view src (rs_owners st) else (rs_owners st, True));
          st' = st\<lparr>rs_owners := ow\<rparr>
      in if \<not> won then (st', False)
         else let st'' = (if tracked then st'\<lparr>rs_claimed := rs_claimed st' @ [(src, view)]\<rparr> else st')
              in if creates src view then (st''\<lparr>rs_master := create_view view src org (rs_master st'')\<rparr>, True)
                 else (st'', False))"

fun publish_all ::
  "(string \<Rightarrow> string \<Rightarrow> bool) \<Rightarrow> bool \<Rightarrow> string \<Rightarrow> view_origin \<Rightarrow> string list \<Rightarrow> rebuild_state \<Rightarrow>
     rebuild_state \<times> string list" where
  "publish_all creates tracked src org [] st = (st, [])"
| "publish_all creates tracked src org (v # vs) st =
     (let (st', listed) = publish_view creates tracked src org v st;
          (st'', rest) = publish_all creates tracked src org vs st'
      in (st'', if listed then v # rest else rest))"

section \<open>The rebuild\<close>

text \<open>The names of the first pass: those of \<open>_meta\<close> that are identifiers and exist as objects.\<close>

definition meta_names :: "source_dir \<Rightarrow> string list" where
  "meta_names d =
     (case sd_meta d of
        None \<Rightarrow> []
      | Some (names, objects) \<Rightarrow> filter (\<lambda>n. safe_identifier n \<and> n \<in> set objects) names)"

text \<open>The names of the fallback: registered parquet files that got no view in the first pass, in order.\<close>

definition fallback_names :: "source_dir \<Rightarrow> string list \<Rightarrow> string list" where
  "fallback_names d tables =
     (case sd_registered d of
        None \<Rightarrow> []
      | Some reg \<Rightarrow> filter (\<lambda>n. safe_identifier n \<and> n \<notin> set tables \<and> n \<in> set reg) (sort (sd_parquets d)))"

text \<open>\<open>_attach_and_create_views\<close>: an extract that cannot be attached or read publishes nothing.\<close>

definition attach_and_create_views ::
  "(string \<Rightarrow> string \<Rightarrow> bool) \<Rightarrow> bool \<Rightarrow> source_dir \<Rightarrow> rebuild_state \<Rightarrow> rebuild_state \<times> string list" where
  "attach_and_create_views creates tracked d st =
     (if sd_meta d = None then (st, [])
      else let (st', tables) = publish_all creates tracked (sd_name d) FromExtract (meta_names d) st;
               (st'', extra) = publish_all creates tracked (sd_name d) FromParquet (fallback_names d tables) st'
           in (st'', tables @ extra))"

text \<open>\<open>_scan_meta_pairs\<close>, and the sources a rebuild goes through, in the order of their names.\<close>

definition rebuild_sources :: "source_dir list \<Rightarrow> source_dir list" where
  "rebuild_sources dirs = filter (\<lambda>d. sd_has_db d \<and> safe_identifier (sd_name d)) dirs"

definition scan_meta_pairs :: "source_dir list \<Rightarrow> (string \<times> string) list \<times> bool" where
  "scan_meta_pairs dirs =
     (concat (map (\<lambda>d. case sd_scan d of None \<Rightarrow> [] | Some ns \<Rightarrow> map (Pair (sd_name d)) (filter safe_identifier ns))
        (rebuild_sources dirs)),
      list_all (\<lambda>d. sd_scan d \<noteq> None) (rebuild_sources dirs))"

fun rebuild_loop ::
  "(string \<Rightarrow> string \<Rightarrow> bool) \<Rightarrow> bool \<Rightarrow> source_dir list \<Rightarrow> rebuild_state \<Rightarrow> rebuild_state \<times> (string \<times> string list) list" where
  "rebuild_loop creates tracked [] st = (st, [])"
| "rebuild_loop creates tracked (d # ds) st =
     (let (st', tables) = attach_and_create_views creates tracked d st;
          (st'', rest) = rebuild_loop creates tracked ds st'
      in (st'', if tables = [] then rest else (sd_name d, tables) # rest))"

text \<open>
  \<open>_do_rebuild\<close>: the directories come in the order of their names; the register is \<open>None\<close> when it cannot be reached, and
  collisions are then not tracked.
\<close>

definition do_rebuild ::
  "(string \<Rightarrow> string \<Rightarrow> bool) \<Rightarrow> source_dir list \<Rightarrow> owners option \<Rightarrow> rebuild_state \<times> (string \<times> string list) list" where
  "do_rebuild creates dirs repo =
     (let (pairs, clean) = scan_meta_pairs dirs;
          ow = (case repo of
                  None \<Rightarrow> []
                | Some ow \<Rightarrow> if clean then fst (view_reconcile pairs ow) else ow)
      in rebuild_loop creates (repo \<noteq> None) (rebuild_sources dirs)
           \<lparr>rs_owners = ow, rs_claimed = [], rs_master = (\<lambda>_. None)\<rparr>)"

text \<open>\<open>_do_rebuild_source\<close>: a full rebuild, of which one source's tables are returned.\<close>

definition do_rebuild_source ::
  "(string \<Rightarrow> string \<Rightarrow> bool) \<Rightarrow> string \<Rightarrow> source_dir list \<Rightarrow> owners option \<Rightarrow>
     (rebuild_state \<times> (string \<times> string list) list) option \<times> string list" where
  "do_rebuild_source creates src dirs repo =
     (if \<not> list_ex (\<lambda>d. sd_name d = src \<and> sd_has_db d) dirs then (None, [])
      else let r = do_rebuild creates dirs repo
           in (Some r, case map_of (snd r) src of None \<Rightarrow> [] | Some ts \<Rightarrow> ts))"

section \<open>The register\<close>




lemma claim_lost: "\<not> snd (view_claim v s ow) \<Longrightarrow> \<exists>s'. get_owner ow v = Some s' \<and> s' \<noteq> s \<and> fst (view_claim v s ow) = ow"
  by (auto simp: view_claim_def split: option.splits)



section \<open>What a rebuild keeps\<close>



definition keeps_owners :: "rebuild_state \<Rightarrow> rebuild_state \<Rightarrow> bool" where
  "keeps_owners st st' \<longleftrightarrow> (\<forall>v s. get_owner (rs_owners st) v = Some s \<longrightarrow> get_owner (rs_owners st') v = Some s)"

lemma keeps_owners_refl [simp]: "keeps_owners st st"
  by (simp add: keeps_owners_def)







section \<open>A listed view is there\<close>











section \<open>The properties\<close>


text \<open>Three sources: two publish the same name, the first of them in another spelling as well; the third has a file only.\<close>

definition example_dirs :: "source_dir list" where
  "example_dirs =
     [\<lparr>sd_name = ''bq'', sd_has_db = True, sd_scan = Some [''orders'', ''crm''],
       sd_meta = Some ([''orders'', ''crm''], [''orders'', ''crm'']), sd_parquets = [], sd_registered = Some []\<rparr>,
      \<lparr>sd_name = ''kbc'', sd_has_db = True, sd_scan = Some [''orders'', ''Crm''],
       sd_meta = Some ([''orders'', ''Crm''], [''orders'', ''Crm'']), sd_parquets = [''gone'', ''costs''],
       sd_registered = Some [''costs'']\<rparr>]"



section \<open>Two ways to lose a name\<close>

text \<open>
  The register tells \<open>crm\<close> from \<open>Crm\<close> and DuckDB does not: both sources are said to publish their table, and the view of the
  first is replaced.
\<close>

lemma case_variant_replaces_view:
  "rs_master (fst (do_rebuild (\<lambda>_ _. True) example_dirs (Some []))) ''crm'' = Some (''Crm'', ''kbc'', FromExtract) \<and>
   map_of (snd (do_rebuild (\<lambda>_ _. True) example_dirs (Some []))) ''bq'' = Some [''orders'', ''crm'']"
  by code_simp

text \<open>
  A name that is published from a file only is not among the names of the scan, so that the next rebuild releases it, and
  an earlier source that has begun to publish it takes it from its owner.
\<close>

lemma fallback_owner_loses_name:
  "get_owner (rs_owners (fst (do_rebuild (\<lambda>_ _. True)
      [\<lparr>sd_name = ''bq'', sd_has_db = True, sd_scan = Some [''costs''], sd_meta = Some ([''costs''], [''costs'']),
         sd_parquets = [], sd_registered = Some []\<rparr>,
       \<lparr>sd_name = ''kbc'', sd_has_db = True, sd_scan = Some [], sd_meta = Some ([], []),
         sd_parquets = [''costs''], sd_registered = Some [''costs'']\<rparr>]
      (Some [(''costs'', ''kbc'')])))) ''costs'' = Some ''bq''"
  by code_simp

end
