(* ===== verification/Marketplace.thy ===== *)
theory Marketplace
  imports Access
begin

text \<open>
  The plugins a caller is served: \<open>src/marketplace_filter.py\<close> with the checks of names and sources of
  \<open>src/marketplace.py\<close> and the tables it reads. A path is its list of segments; resolving a path, asking whether it is a
  directory and reading the name a plugin declares are parameters that stand for the file system.
\<close>

section \<open>Names and sources\<close>

text \<open>The source of a catalog entry: absent, a text, or the object form.\<close>

datatype psource = NoSource | SrcText string | SrcObject

definition plugin_name_char :: "char \<Rightarrow> bool" where
  "plugin_name_char c \<longleftrightarrow>
     (let n = (of_char c :: nat) in 48 \<le> n \<and> n \<le> 57 \<or> 65 \<le> n \<and> n \<le> 90 \<or> 97 \<le> n \<and> n \<le> 122) \<or>
     c \<in> {CHR ''.'', CHR ''_'', CHR ''-''}"

definition is_safe_plugin_name :: "string \<Rightarrow> bool" where
  "is_safe_plugin_name n \<longleftrightarrow> n \<notin> {''..'', ''.''} \<and> n \<noteq> [] \<and> list_all plugin_name_char n"

definition is_safe_plugin_source :: "string \<Rightarrow> bool" where
  "is_safe_plugin_source s \<longleftrightarrow>
     \<not> prefix ''/'' s \<and> CHR 92 \<notin> set s \<and> CHR '':'' \<notin> set s \<and> list_all (\<lambda>seg. seg \<noteq> ''..'') (py_split (CHR ''/'') s)"

definition is_external_plugin_source :: "psource \<Rightarrow> bool" where
  "is_external_plugin_source src =
     (case src of
        SrcText t \<Rightarrow>
          let s = py_strip t
          in s \<noteq> [] \<and> CHR 92 \<notin> set s \<and>
             (sublist ''://'' s \<or> CHR '':'' \<in> set (hd (py_split (CHR ''/'') s)))
      | _ \<Rightarrow> False)"

section \<open>Directories\<close>

type_synonym path = "string list"

record fsys =
  fs_resolve :: "path \<Rightarrow> path option"
  fs_is_dir :: "path \<Rightarrow> bool"
  fs_declared_name :: "path \<Rightarrow> string option"

text \<open>\<open>base / s\<close>: empty segments and single dots vanish, an absolute text starts over.\<close>

definition path_parts :: "string \<Rightarrow> path" where
  "path_parts s = filter (\<lambda>x. x \<noteq> [] \<and> x \<noteq> ''.'') (py_split (CHR ''/'') s)"

definition path_join :: "path \<Rightarrow> string \<Rightarrow> path" where
  "path_join base s = (if prefix ''/'' s then path_parts s else base @ path_parts s)"

text \<open>\<open>_contained_plugin_dir\<close>: the candidate, then the two containments of what it resolves to.\<close>

definition plugin_candidate :: "fsys \<Rightarrow> path \<Rightarrow> string \<Rightarrow> psource \<Rightarrow> path option" where
  "plugin_candidate fs clone name src =
     (let vendored = path_join (path_join clone ''plugins'') name;
          external = (if fs_is_dir fs vendored then Some vendored else None)
      in case src of
           NoSource \<Rightarrow> Some vendored
         | SrcObject \<Rightarrow> external
         | SrcText t \<Rightarrow>
             if py_strip t = [] then Some vendored
             else if is_external_plugin_source src then external
             else if \<not> is_safe_plugin_source (py_strip t) then None
             else Some (clone @ path_parts (py_strip t)))"

definition contained_plugin_dir :: "fsys \<Rightarrow> path \<Rightarrow> string \<Rightarrow> string \<Rightarrow> psource \<Rightarrow> path option" where
  "contained_plugin_dir fs base slug name src =
     (let clone = path_join base slug
      in if \<not> is_safe_plugin_name name then None
         else case plugin_candidate fs clone name src of
                None \<Rightarrow> None
              | Some cand \<Rightarrow>
                  (case (fs_resolve fs cand, fs_resolve fs clone, fs_resolve fs base) of
                     (Some c, Some k, Some r) \<Rightarrow> if prefix k c \<and> prefix r c then Some cand else None
                   | _ \<Rightarrow> None))"

definition MAX_MANIFEST_NAME_LEN :: nat where
  "MAX_MANIFEST_NAME_LEN = 64"

definition resolve_manifest_name :: "fsys \<Rightarrow> path \<Rightarrow> string \<Rightarrow> string" where
  "resolve_manifest_name fs dir fallback =
     (case fs_declared_name fs dir of
        None \<Rightarrow> fallback
      | Some n \<Rightarrow>
          let name = py_strip n
          in if name = [] then fallback
             else if \<not> is_safe_plugin_name name \<or> length name > MAX_MANIFEST_NAME_LEN then fallback else name)"

section \<open>Tables\<close>

record plug_row =
  pl_market :: string
  pl_name :: string
  pl_version :: "string option"
  pl_source :: psource
  pl_disabled :: bool

record store_entity =
  st_id :: string
  st_owner :: string
  st_type :: string
  st_name :: string
  st_version :: "string option"
  st_status :: string
  st_synthetic :: string

text \<open>Registrations with their times, the opt-in rows, submissions with their status, installs with their times.\<close>

record mkt =
  mk_plugins :: "plug_row list"
  mk_registry :: "(string \<times> micros) list"
  mk_optouts :: "(string \<times> string \<times> string) list"
  mk_entities :: "store_entity list"
  mk_submissions :: "(string \<times> string) list"
  mk_installs :: "(string \<times> string \<times> micros) list"

definition curated_subscribe :: "string \<Rightarrow> string \<Rightarrow> string \<Rightarrow> mkt \<Rightarrow> mkt \<times> bool" where
  "curated_subscribe u m n k =
     (if (u, m, n) \<in> set (mk_optouts k) then (k, False) else (k\<lparr>mk_optouts := mk_optouts k @ [(u, m, n)]\<rparr>, True))"

definition curated_unsubscribe :: "string \<Rightarrow> string \<Rightarrow> string \<Rightarrow> mkt \<Rightarrow> mkt \<times> bool" where
  "curated_unsubscribe u m n k =
     (if (u, m, n) \<notin> set (mk_optouts k) then (k, False)
      else (k\<lparr>mk_optouts := filter (\<lambda>r. r \<noteq> (u, m, n)) (mk_optouts k)\<rparr>, True))"

definition subscribed_set :: "string \<Rightarrow> mkt \<Rightarrow> (string \<times> string) set" where
  "subscribed_set u k = set (map snd (filter (\<lambda>r. fst r = u) (mk_optouts k)))"

definition store_installed :: "string \<Rightarrow> string \<Rightarrow> mkt \<Rightarrow> bool" where
  "store_installed u e k \<longleftrightarrow> list_ex (\<lambda>(v, i, t). v = u \<and> i = e) (mk_installs k)"

definition store_install :: "micros \<Rightarrow> string \<Rightarrow> string \<Rightarrow> mkt \<Rightarrow> mkt \<times> bool" where
  "store_install now u e k =
     (if store_installed u e k then (k, False) else (k\<lparr>mk_installs := mk_installs k @ [(u, e, now)]\<rparr>, True))"

definition store_uninstall :: "string \<Rightarrow> string \<Rightarrow> mkt \<Rightarrow> mkt \<times> bool" where
  "store_uninstall u e k =
     (if \<not> store_installed u e k then (k, False)
      else (k\<lparr>mk_installs := filter (\<lambda>(v, i, t). \<not> (v = u \<and> i = e)) (mk_installs k)\<rparr>, True))"

fun install_required_for_user :: "micros \<Rightarrow> string \<Rightarrow> string list \<Rightarrow> mkt \<Rightarrow> mkt \<times> nat" where
  "install_required_for_user now u [] k = (k, 0)"
| "install_required_for_user now u (e # es) k =
     (let (k', new) = store_install now u e k; (k'', n) = install_required_for_user now u es k'
      in (k'', if new then Suc n else n))"

definition BLOCKING_SUBMISSION_STATUSES :: "string list" where
  "BLOCKING_SUBMISSION_STATUSES = [''blocked_inline'', ''blocked_llm'']"

text \<open>The installed entities of a user that may be served, newest install first.\<close>

definition entity_servable :: "string \<Rightarrow> mkt \<Rightarrow> store_entity \<Rightarrow> bool" where
  "entity_servable u k e \<longleftrightarrow>
     st_status e \<in> {''approved'', ''archived''} \<or>
     st_status e = ''hidden'' \<and> st_owner e = u \<and>
     \<not> list_ex (\<lambda>(i, s). i = st_id e \<and> s \<in> set BLOCKING_SUBMISSION_STATUSES) (mk_submissions k)"

definition installs_for_user :: "string \<Rightarrow> mkt \<Rightarrow> store_entity list" where
  "installs_for_user u k =
     map snd (sort_key (\<lambda>(t, e). (- t, st_id e))
       (concat (map (\<lambda>(v, i, t). map (Pair t) (filter (\<lambda>e. st_id e = i \<and> v = u \<and> entity_servable u k e) (mk_entities k)))
          (mk_installs k))))"

text \<open>The plugins granted to any of the groups, by registration time of their marketplace and name.\<close>

definition grant_key :: "string \<Rightarrow> string \<Rightarrow> string" where
  "grant_key m n = m @ ''/'' @ n"

definition list_granted_for_groups :: "string list \<Rightarrow> adb \<Rightarrow> mkt \<Rightarrow> plug_row list" where
  "list_granted_for_groups gs db k =
     (if gs = [] then []
      else sort_key (\<lambda>p. (the (map_of (mk_registry k) (pl_market p)), pl_name p))
        (filter (\<lambda>p. map_of (mk_registry k) (pl_market p) \<noteq> None \<and> \<not> pl_disabled p \<and>
            list_ex (\<lambda>g. g_group g \<in> set gs \<and> g_type g = ''marketplace_plugin'' \<and>
              g_res g = grant_key (pl_market p) (pl_name p)) (grants db))
          (mk_plugins k)))"

section \<open>The served set\<close>

datatype entry_source = FromMarketplace | FromStore | StoreBundle

text \<open>An entry: the plugin's own directory, or for the bundle the entities it is made of.\<close>

record served =
  sv_market :: string
  sv_name :: string
  sv_prefixed :: string
  sv_manifest :: string
  sv_version :: "string option"
  sv_dir :: "path option"
  sv_source :: entry_source
  sv_entities :: "string list"

definition market_entry :: "fsys \<Rightarrow> path \<Rightarrow> plug_row \<Rightarrow> served option" where
  "market_entry fs base p =
     (case contained_plugin_dir fs base (pl_market p) (pl_name p) (pl_source p) of
        None \<Rightarrow> None
      | Some d \<Rightarrow>
          Some \<lparr>sv_market = pl_market p, sv_name = pl_name p, sv_prefixed = pl_market p @ ''-'' @ pl_name p,
                sv_manifest = resolve_manifest_name fs d (pl_name p), sv_version = pl_version p, sv_dir = Some d,
                sv_source = FromMarketplace, sv_entities = []\<rparr>)"

definition resolve_allowed_plugins :: "fsys \<Rightarrow> path \<Rightarrow> string option \<Rightarrow> adb \<Rightarrow> mkt \<Rightarrow> served list" where
  "resolve_allowed_plugins fs base u db k =
     (let gs = (case u of None \<Rightarrow> [] | Some i \<Rightarrow> if i = [] then [] else user_group_ids i db)
      in if gs = [] then [] else List.map_filter (market_entry fs base) (list_granted_for_groups gs db k))"

definition required_plugin_keys :: "string \<Rightarrow> adb \<Rightarrow> (string \<times> string) set" where
  "required_plugin_keys u db =
     (let gs = (if u = [] then [] else user_group_ids u db)
      in if gs = [] then {}
         else set (map (\<lambda>r. (takeWhile (\<lambda>c. c \<noteq> CHR ''/'') (g_res r), drop 1 (dropWhile (\<lambda>c. c \<noteq> CHR ''/'') (g_res r))))
            (filter (\<lambda>r. or_default (g_req r) ''available'' = ''required'' \<and> CHR ''/'' \<in> set (g_res r))
              (list_for_groups gs (Some ''marketplace_plugin'') db))))"

definition required_store_entity_keys :: "string \<Rightarrow> adb \<Rightarrow> string list" where
  "required_store_entity_keys u db =
     (let gs = (if u = [] then [] else user_group_ids u db)
      in if gs = [] then []
         else remdups (map g_res (filter (\<lambda>r. or_default (g_req r) ''available'' = ''required'' \<and> g_res r \<noteq> [])
                (list_for_groups gs (Some ''store_entity'') db))))"

definition store_entry :: "path \<Rightarrow> store_entity \<Rightarrow> served" where
  "store_entry store e =
     \<lparr>sv_market = ''store'', sv_name = st_name e, sv_prefixed = ''store-'' @ st_id e, sv_manifest = st_synthetic e,
      sv_version = st_version e, sv_dir = Some (path_join (path_join store (st_id e)) ''plugin''),
      sv_source = FromStore, sv_entities = [st_id e]\<rparr>"

text \<open>The version of the bundle is a hash of its files, here a parameter.\<close>

definition bundle_entry :: "(string list \<Rightarrow> string) \<Rightarrow> string list \<Rightarrow> served" where
  "bundle_entry version ids =
     \<lparr>sv_market = ''store'', sv_name = ''flea'', sv_prefixed = ''flea'', sv_manifest = ''flea'',
      sv_version = Some (version ids), sv_dir = None, sv_source = StoreBundle, sv_entities = ids\<rparr>"

text \<open>What the functions read besides the tables: the files, the two directories, the bundle's hash and the clock.\<close>

record serving =
  sg_fs :: fsys
  sg_base :: path
  sg_store :: path
  sg_hash :: "string list \<Rightarrow> string"
  sg_now :: micros

definition is_bundled :: "store_entity \<Rightarrow> bool" where
  "is_bundled e \<longleftrightarrow> st_type e \<in> {''skill'', ''agent''}"

definition resolve_user_marketplace ::
  "serving \<Rightarrow> string option \<Rightarrow> (store_entity \<Rightarrow> bool) \<Rightarrow> adb \<Rightarrow> mkt \<Rightarrow> mkt \<times> served list" where
  "resolve_user_marketplace sg user keep db k =
     (case user of
        None \<Rightarrow> (k, [])
      | Some u \<Rightarrow>
          if u = [] then (k, [])
          else let in_stack = subscribed_set u k \<union> required_plugin_keys u db;
                   admin = filter (\<lambda>e. (sv_market e, sv_name e) \<in> in_stack)
                     (resolve_allowed_plugins (sg_fs sg) (sg_base sg) (Some u) db k);
                   k' = fst (install_required_for_user (sg_now sg) u (sort (required_store_entity_keys u db)) k);
                   installs = filter keep (installs_for_user u k');
                   plugins = map (store_entry (sg_store sg)) (filter (\<lambda>e. \<not> is_bundled e) installs);
                   bundled = map st_id (filter is_bundled installs)
               in (k', admin @ plugins @ (if bundled = [] then [] else [bundle_entry (sg_hash sg) bundled])))"

definition entries_for_grant_keys :: "fsys \<Rightarrow> path \<Rightarrow> string set \<Rightarrow> mkt \<Rightarrow> served list" where
  "entries_for_grant_keys fs base keys k =
     List.map_filter (market_entry fs base)
       (filter (\<lambda>p. grant_key (pl_market p) (pl_name p) \<in> keys \<and> \<not> pl_disabled p)
         (sort_key (\<lambda>p. (pl_market p, pl_name p)) (mk_plugins k)))"

definition store_install_in_scope :: "string set \<Rightarrow> store_entity \<Rightarrow> bool" where
  "store_install_in_scope scoped e \<longleftrightarrow> st_id e \<in> scoped \<or> grant_key ''store'' (st_name e) \<in> scoped"

definition plugin_ids :: "caller \<Rightarrow> string set" where
  "plugin_ids c = (case intersection_of c ''marketplace_plugin'' of None \<Rightarrow> {} | Some s \<Rightarrow> s)"

text \<open>
  \<open>resolve_user_marketplace\<close> of any caller: \<open>_resolve_principal_marketplace\<close> for the two restricted ones.
\<close>

definition serve_marketplace :: "serving \<Rightarrow> caller \<Rightarrow> rdb \<Rightarrow> mkt \<Rightarrow> mkt \<times> served list" where
  "serve_marketplace sg c R k =
     (case c of
        UserDict u \<Rightarrow> resolve_user_marketplace sg (ud_id u) (\<lambda>_. True) (auth R) k
      | SessionPrincipal s us es m \<Rightarrow> (k, entries_for_grant_keys (sg_fs sg) (sg_base sg) (plugin_ids c) k)
      | AgentPrincipal s a ow oe m \<Rightarrow>
          if ow = [] then (k, entries_for_grant_keys (sg_fs sg) (sg_base sg) (plugin_ids c) k)
          else let scoped = agent_scope_filter (Some a) ''plugins_mode'' ''plugin'' R;
                   keep = (case scoped of None \<Rightarrow> (\<lambda>_. True) | Some ids \<Rightarrow> store_install_in_scope ids);
                   (k', entries) = resolve_user_marketplace sg (Some ow) keep (auth R) k
               in (k', filter (\<lambda>e. sv_source e \<noteq> FromMarketplace \<or> grant_key (sv_market e) (sv_name e) \<in> plugin_ids c)
                     entries))"

section \<open>The tables\<close>

lemma store_install_fields [simp]:
  "mk_entities (fst (store_install now u e k)) = mk_entities k"
  "mk_submissions (fst (store_install now u e k)) = mk_submissions k"
  by (simp_all add: store_install_def)

lemma store_install_installed:
  "store_installed v i (fst (store_install now u e k)) \<longleftrightarrow> store_installed v i k \<or> v = u \<and> i = e"
  by (auto simp: store_install_def store_installed_def list_ex_iff)

lemma install_required_fields [simp]:
  "mk_entities (fst (install_required_for_user now u es k)) = mk_entities k"
  "mk_submissions (fst (install_required_for_user now u es k)) = mk_submissions k"
  by (induction es arbitrary: k) (simp_all add: Let_def case_prod_beta)

lemma install_required_installed:
  "store_installed v i (fst (install_required_for_user now u es k)) \<longleftrightarrow> store_installed v i k \<or> v = u \<and> i \<in> set es"
  by (induction es arbitrary: k) (auto simp: Let_def case_prod_beta store_install_installed)

lemma entity_servable_cong:
  "mk_submissions k = mk_submissions k' \<Longrightarrow> entity_servable u k e = entity_servable u k' e"
  by (simp add: entity_servable_def)

lemma in_installs_for_user:
  "e \<in> set (installs_for_user u k) \<longleftrightarrow> e \<in> set (mk_entities k) \<and> store_installed u (st_id e) k \<and> entity_servable u k e"
proof -
  let ?of = "\<lambda>(v, i, t). map (Pair t) (filter (\<lambda>e. st_id e = i \<and> v = u \<and> entity_servable u k e) (mk_entities k))"
  have "e \<in> set (installs_for_user u k) \<longleftrightarrow> (\<exists>r\<in>set (mk_installs k). e \<in> snd ` set (?of r))"
    by (simp add: installs_for_user_def image_UN)
  also have "\<dots> \<longleftrightarrow> (\<exists>(v, i, t)\<in>set (mk_installs k). v = u \<and> i = st_id e) \<and> e \<in> set (mk_entities k) \<and> entity_servable u k e"
    by (force simp: case_prod_beta image_image)
  finally show ?thesis by (auto simp: store_installed_def list_ex_iff)
qed

lemma in_list_granted:
  "p \<in> set (list_granted_for_groups gs db k) \<longleftrightarrow>
     p \<in> set (mk_plugins k) \<and> map_of (mk_registry k) (pl_market p) \<noteq> None \<and> \<not> pl_disabled p \<and>
     (\<exists>g\<in>set (grants db). g_group g \<in> set gs \<and> g_type g = ''marketplace_plugin'' \<and>
        g_res g = grant_key (pl_market p) (pl_name p))"
  by (auto simp: list_granted_for_groups_def list_ex_iff)

lemma market_entry_Some:
  "market_entry fs base p = Some e \<longleftrightarrow>
     (\<exists>d. contained_plugin_dir fs base (pl_market p) (pl_name p) (pl_source p) = Some d \<and>
        e = \<lparr>sv_market = pl_market p, sv_name = pl_name p, sv_prefixed = pl_market p @ ''-'' @ pl_name p,
             sv_manifest = resolve_manifest_name fs d (pl_name p), sv_version = pl_version p, sv_dir = Some d,
             sv_source = FromMarketplace, sv_entities = []\<rparr>)"
  by (auto simp: market_entry_def split: option.splits)

lemma market_entry_fields:
  "market_entry fs base p = Some e \<Longrightarrow>
     sv_market e = pl_market p \<and> sv_name e = pl_name p \<and> sv_source e = FromMarketplace \<and> sv_entities e = []"
  by (auto simp: market_entry_Some)

text \<open>The key of a grant splits at its first slash.\<close>

lemma grant_key_split:
  assumes "CHR ''/'' \<notin> set m"
  shows "takeWhile (\<lambda>c. c \<noteq> CHR ''/'') r = m \<and> drop 1 (dropWhile (\<lambda>c. c \<noteq> CHR ''/'') r) = n \<and> CHR ''/'' \<in> set r \<longleftrightarrow>
    r = grant_key m n"
proof -
  have "r = grant_key (takeWhile (\<lambda>c. c \<noteq> CHR ''/'') r) (drop 1 (dropWhile (\<lambda>c. c \<noteq> CHR ''/'') r))"
    if "CHR ''/'' \<in> set r"
    using that by (induction r) (auto simp: grant_key_def)
  moreover have "takeWhile (\<lambda>c. c \<noteq> CHR ''/'') (grant_key m n) = m \<and> drop 1 (dropWhile (\<lambda>c. c \<noteq> CHR ''/'') (grant_key m n)) = n"
    using assms by (induction m) (auto simp: grant_key_def)
  moreover have "CHR ''/'' \<in> set (grant_key m n)" by (simp add: grant_key_def)
  ultimately show ?thesis by metis
qed

section \<open>The properties\<close>

definition requires_grant :: "string \<Rightarrow> string \<Rightarrow> string \<Rightarrow> adb \<Rightarrow> bool" where
  "requires_grant u t res db \<longleftrightarrow>
     list_ex (\<lambda>g. g_group g \<in> set (list_groups_for_user u db) \<and> g_type g = t \<and> g_res g = res \<and>
       or_default (g_req g) ''available'' = ''required'') (grants db)"

lemma in_required_keys:
  assumes "CHR ''/'' \<notin> set m" "u \<noteq> []"
  shows "(m, n) \<in> required_plugin_keys u db \<longleftrightarrow> requires_grant u ''marketplace_plugin'' (grant_key m n) db"
proof -
  have "(m, n) \<in> required_plugin_keys u db \<longleftrightarrow>
      (\<exists>g\<in>set (grants db). g_group g \<in> set (list_groups_for_user u db) \<and> g_type g = ''marketplace_plugin'' \<and>
        or_default (g_req g) ''available'' = ''required'' \<and>
        takeWhile (\<lambda>c. c \<noteq> CHR ''/'') (g_res g) = m \<and> drop 1 (dropWhile (\<lambda>c. c \<noteq> CHR ''/'') (g_res g)) = n \<and>
        CHR ''/'' \<in> set (g_res g))"
    using assms(2) by (auto simp: required_plugin_keys_def Let_def set_list_for_groups user_group_ids_def image_iff)
  then show ?thesis unfolding requires_grant_def list_ex_iff grant_key_split [OF assms(1)] by blast
qed

lemma in_required_entities:
  "u \<noteq> [] \<Longrightarrow> i \<in> set (required_store_entity_keys u db) \<longleftrightarrow> i \<noteq> [] \<and> requires_grant u ''store_entity'' i db"
  by (auto simp: required_store_entity_keys_def Let_def set_list_for_groups user_group_ids_def requires_grant_def list_ex_iff)

lemma in_map_filter: "x \<in> set (List.map_filter f xs) \<longleftrightarrow> (\<exists>y\<in>set xs. f y = Some x)"
  by (induction xs) (auto simp: map_filter_simps split: option.splits)

lemma in_allowed_plugins:
  assumes "u \<noteq> []"
  shows "e \<in> set (resolve_allowed_plugins fs base (Some u) db k) \<longleftrightarrow>
    (\<exists>p\<in>set (mk_plugins k). market_entry fs base p = Some e \<and> map_of (mk_registry k) (pl_market p) \<noteq> None \<and>
       \<not> pl_disabled p \<and> has_explicit_grant u ''marketplace_plugin'' (grant_key (pl_market p) (pl_name p)) db)"
proof (cases "list_groups_for_user u db = []")
  case False
  then have "e \<in> set (resolve_allowed_plugins fs base (Some u) db k) \<longleftrightarrow>
      (\<exists>p\<in>set (list_granted_for_groups (remdups (list_groups_for_user u db)) db k). market_entry fs base p = Some e)"
    using assms by (simp add: resolve_allowed_plugins_def Let_def in_map_filter user_group_ids_def)
  then show ?thesis unfolding Bex_def in_list_granted has_explicit_grant_iff set_remdups by blast
qed (use assms in \<open>simp add: resolve_allowed_plugins_def user_group_ids_def has_explicit_grant_iff\<close>)

lemma entities_of_served:
  assumes "\<forall>e\<in>set as. sv_entities e = []"
  shows "(\<exists>e\<in>set (as @ map (store_entry d) (filter (\<lambda>e. \<not> is_bundled e) xs) @
        (if map st_id (filter is_bundled xs) = [] then [] else [bundle_entry h (map st_id (filter is_bundled xs))])).
        i \<in> set (sv_entities e)) \<longleftrightarrow> (\<exists>x\<in>set xs. st_id x = i)"
proof -
  have plain: "(\<exists>e\<in>set (map (store_entry d) (filter (\<lambda>e. \<not> is_bundled e) xs)). i \<in> set (sv_entities e)) \<longleftrightarrow>
      (\<exists>x\<in>set xs. \<not> is_bundled x \<and> st_id x = i)"
    by (auto simp: store_entry_def)
  have merged: "(\<exists>e\<in>set (if map st_id (filter is_bundled xs) = [] then []
        else [bundle_entry h (map st_id (filter is_bundled xs))]). i \<in> set (sv_entities e)) \<longleftrightarrow>
      (\<exists>x\<in>set xs. is_bundled x \<and> st_id x = i)"
    by (auto simp: bundle_entry_def filter_empty_conv)
  show ?thesis using assms plain merged by (simp only: set_append bex_Un) auto
qed

text \<open>The two parts of a served set: the curated plugins, and the entities from the store.\<close>

lemma served_curated:
  assumes "u \<noteq> []" "resolve_user_marketplace sg (Some u) keep db k = (k', es)"
  shows "e \<in> set es \<and> sv_source e = FromMarketplace \<longleftrightarrow>
    e \<in> set (resolve_allowed_plugins (sg_fs sg) (sg_base sg) (Some u) db k) \<and>
    (sv_market e, sv_name e) \<in> subscribed_set u k \<union> required_plugin_keys u db"
proof -
  have "sv_source e = FromMarketplace" if "e \<in> set (resolve_allowed_plugins (sg_fs sg) (sg_base sg) (Some u) db k)"
    using that market_entry_fields by (auto simp: in_allowed_plugins [OF assms(1)])
  then show ?thesis using assms
    by (auto simp: resolve_user_marketplace_def Let_def store_entry_def bundle_entry_def split: if_splits)
qed

lemma served_curated_entry:
  assumes "u \<noteq> []" "resolve_user_marketplace sg (Some u) keep db k = (k', es)" "e \<in> set es \<and> sv_source e = FromMarketplace"
  shows "has_explicit_grant u ''marketplace_plugin'' (grant_key (sv_market e) (sv_name e)) db \<and> sv_entities e = []"
proof -
  obtain p where "market_entry (sg_fs sg) (sg_base sg) p = Some e"
    "has_explicit_grant u ''marketplace_plugin'' (grant_key (pl_market p) (pl_name p)) db"
    using assms served_curated [OF assms(1,2), of e] in_allowed_plugins [OF assms(1)] by blast
  then show ?thesis using market_entry_fields by simp
qed

lemma served_entities:
  assumes "u \<noteq> []" "resolve_user_marketplace sg (Some u) keep db k = (k', es)"
  shows "(\<exists>e\<in>set es. i \<in> set (sv_entities e)) \<longleftrightarrow>
    (\<exists>x\<in>set (mk_entities k). st_id x = i \<and> keep x \<and> entity_servable u k x \<and>
       (store_installed u i k \<or> i \<in> set (required_store_entity_keys u db)))"
proof -
  let ?k' = "fst (install_required_for_user (sg_now sg) u (sort (required_store_entity_keys u db)) k)"
  let ?in = "filter keep (installs_for_user u ?k')"
  let ?as = "filter (\<lambda>e. (sv_market e, sv_name e) \<in> subscribed_set u k \<union> required_plugin_keys u db)
      (resolve_allowed_plugins (sg_fs sg) (sg_base sg) (Some u) db k)"
  have as: "\<forall>e\<in>set ?as. sv_entities e = []" using market_entry_fields by (auto simp: in_allowed_plugins [OF assms(1)])
  have "es = snd (resolve_user_marketplace sg (Some u) keep db k)" using assms(2) by simp
  also have "\<dots> = ?as @ map (store_entry (sg_store sg)) (filter (\<lambda>e. \<not> is_bundled e) ?in) @
      (if map st_id (filter is_bundled ?in) = [] then [] else [bundle_entry (sg_hash sg) (map st_id (filter is_bundled ?in))])"
    by (simp only: resolve_user_marketplace_def Let_def option.case assms(1) if_False snd_conv)
  finally have "es = ?as @ map (store_entry (sg_store sg)) (filter (\<lambda>e. \<not> is_bundled e) ?in) @
      (if map st_id (filter is_bundled ?in) = [] then [] else [bundle_entry (sg_hash sg) (map st_id (filter is_bundled ?in))])" .
  then have "(\<exists>e\<in>set es. i \<in> set (sv_entities e)) \<longleftrightarrow> (\<exists>x\<in>set ?in. st_id x = i)"
    using entities_of_served [OF as] by (simp only:)
  also have "\<dots> \<longleftrightarrow> (\<exists>x\<in>set (mk_entities k). st_id x = i \<and> keep x \<and> entity_servable u k x \<and> store_installed u i ?k')"
    using entity_servable_cong [of ?k' k u] by (auto simp: in_installs_for_user image_iff)
  finally show ?thesis by (simp add: install_required_installed)
qed

text \<open>
  C15. A user is served exactly these: the curated plugins that are enabled, of a registered marketplace, with a directory
  inside their own clone, granted to one of the user's groups (administrators have no other way) and either subscribed to
  or required by such a grant; and of the store exactly the entities the user has installed or a group requires, as long
  as they may be served, each as its own entry or inside the one bundle.
\<close>

theorem marketplace_served_exact:
  assumes "u \<noteq> []" "\<forall>p\<in>set (mk_plugins k). CHR ''/'' \<notin> set (pl_market p)"
    and "resolve_user_marketplace sg (Some u) keep db k = (k', es)"
  shows "(e \<in> set es \<and> sv_source e = FromMarketplace \<longleftrightarrow>
      (\<exists>p\<in>set (mk_plugins k). market_entry (sg_fs sg) (sg_base sg) p = Some e \<and>
         map_of (mk_registry k) (pl_market p) \<noteq> None \<and> \<not> pl_disabled p \<and>
         has_explicit_grant u ''marketplace_plugin'' (grant_key (pl_market p) (pl_name p)) db \<and>
         ((u, pl_market p, pl_name p) \<in> set (mk_optouts k) \<or>
          requires_grant u ''marketplace_plugin'' (grant_key (pl_market p) (pl_name p)) db))) \<and>
    ((\<exists>e\<in>set es. i \<in> set (sv_entities e)) \<longleftrightarrow>
      (\<exists>x\<in>set (mk_entities k). st_id x = i \<and> keep x \<and> entity_servable u k x \<and>
         (store_installed u i k \<or> i \<noteq> [] \<and> requires_grant u ''store_entity'' i db)))"
proof (rule conjI)
  have sub: "(m, n) \<in> subscribed_set u k \<longleftrightarrow> (u, m, n) \<in> set (mk_optouts k)" for m n
    by (force simp: subscribed_set_def)
  have stack: "(sv_market e, sv_name e) \<in> subscribed_set u k \<union> required_plugin_keys u db \<longleftrightarrow>
      (u, pl_market p, pl_name p) \<in> set (mk_optouts k) \<or>
      requires_grant u ''marketplace_plugin'' (grant_key (pl_market p) (pl_name p)) db"
    if "market_entry (sg_fs sg) (sg_base sg) p = Some e" "p \<in> set (mk_plugins k)" for p
    using market_entry_fields [OF that(1)] in_required_keys [OF _ assms(1), of "pl_market p"] assms(2) that(2) sub
    by simp
  show "e \<in> set es \<and> sv_source e = FromMarketplace \<longleftrightarrow>
      (\<exists>p\<in>set (mk_plugins k). market_entry (sg_fs sg) (sg_base sg) p = Some e \<and>
         map_of (mk_registry k) (pl_market p) \<noteq> None \<and> \<not> pl_disabled p \<and>
         has_explicit_grant u ''marketplace_plugin'' (grant_key (pl_market p) (pl_name p)) db \<and>
         ((u, pl_market p, pl_name p) \<in> set (mk_optouts k) \<or>
          requires_grant u ''marketplace_plugin'' (grant_key (pl_market p) (pl_name p)) db))"
    unfolding served_curated [OF assms(1,3)] in_allowed_plugins [OF assms(1)] using stack by blast
  show "(\<exists>e\<in>set es. i \<in> set (sv_entities e)) \<longleftrightarrow>
      (\<exists>x\<in>set (mk_entities k). st_id x = i \<and> keep x \<and> entity_servable u k x \<and>
         (store_installed u i k \<or> i \<noteq> [] \<and> requires_grant u ''store_entity'' i db))"
    unfolding served_entities [OF assms(1,3)] in_required_entities [OF assms(1)] ..
qed

lemma contained_plugin_dirD:
  assumes "contained_plugin_dir fs base slug name src = Some d"
  shows "\<exists>rd rk rb. fs_resolve fs d = Some rd \<and> fs_resolve fs (path_join base slug) = Some rk \<and>
    fs_resolve fs base = Some rb \<and> prefix rk rd \<and> prefix rb rd"
  using assms by (auto simp: contained_plugin_dir_def Let_def split: if_splits option.splits)

lemma served_is_market_entry:
  assumes "serve_marketplace sg c R k = (k', es)" "e \<in> set es" "sv_source e = FromMarketplace"
  shows "\<exists>p. market_entry (sg_fs sg) (sg_base sg) p = Some e"
proof -
  have user: "\<exists>p. market_entry (sg_fs sg) (sg_base sg) p = Some e"
    if "resolve_user_marketplace sg u keep (auth R) k = (k', es')" "e \<in> set es'" for u keep es'
  proof (cases "u = None \<or> u = Some []")
    case False
    then obtain v where "u = Some v" "v \<noteq> []" by auto
    then show ?thesis using served_curated [of v sg keep "auth R" k k' es' e] that assms(3) in_allowed_plugins by auto
  qed (use that in \<open>auto simp: resolve_user_marketplace_def\<close>)
  show ?thesis
  proof (cases c)
    case (UserDict u)
    then show ?thesis using assms(1,2) user by (simp add: serve_marketplace_def)
  next
    case (SessionPrincipal s us es m)
    then show ?thesis using assms(1,2) by (auto simp: serve_marketplace_def entries_for_grant_keys_def in_map_filter)
  next
    case (AgentPrincipal s a ow oe m)
    show ?thesis
    proof (cases "ow = []")
      case True
      then show ?thesis using assms(1,2) AgentPrincipal
        by (auto simp: serve_marketplace_def entries_for_grant_keys_def in_map_filter)
    next
      case False
      then show ?thesis using assms(1,2) AgentPrincipal user
        by (auto simp: serve_marketplace_def Let_def split: prod.splits)
    qed
  qed
qed

text \<open>
  Whoever asks, the directory of every curated plugin served resolves to a place inside the clone of its own
  marketplace and inside the directory of all marketplaces, whatever names, slugs, sources and symbolic links the
  catalogs and clones hold.
\<close>

theorem served_directory_contained:
  assumes "serve_marketplace sg c R k = (k', es)" "e \<in> set es" "sv_source e = FromMarketplace"
  shows "\<exists>d rd rk rb. sv_dir e = Some d \<and> fs_resolve (sg_fs sg) d = Some rd \<and>
    fs_resolve (sg_fs sg) (path_join (sg_base sg) (sv_market e)) = Some rk \<and> fs_resolve (sg_fs sg) (sg_base sg) = Some rb \<and>
    prefix rk rd \<and> prefix rb rd"
proof -
  obtain p where "market_entry (sg_fs sg) (sg_base sg) p = Some e" using served_is_market_entry [OF assms] by blast
  then show ?thesis unfolding market_entry_Some using contained_plugin_dirD by fastforce
qed

lemma plugin_ids_agent:
  "plugin_ids (AgentPrincipal s a ow oe (compute_agent_intersection ow agent R)) =
     {res. ow \<noteq> [] \<and> has_explicit_grant ow ''marketplace_plugin'' res (auth R) \<and>
        (\<exists>ag. agent = Some ag \<and> agent_permits ag ''marketplace_plugin'' res R)}"
proof -
  have "''marketplace_plugin'' \<in> set resource_types" by code_simp
  then have "res \<in> lookup_ids (compute_agent_intersection ow agent R) ''marketplace_plugin'' \<longleftrightarrow>
      ow \<noteq> [] \<and> has_explicit_grant ow ''marketplace_plugin'' res (auth R) \<and>
      (\<exists>ag. agent = Some ag \<and> agent_permits ag ''marketplace_plugin'' res R)" for res
    using in_agent_intersection no_agent_intersection by (cases agent) auto
  then show ?thesis by (auto simp: plugin_ids_def lookup_ids_def split: option.splits)
qed

text \<open>
  C16. An agent is served no more than its owner would be at that moment: of the curated plugins exactly those of the
  owner's served set that the agent's own mode and scope permit, and of the store exactly the owner's entities, narrowed
  to the agent's plugin scope when its mode says so, those inside the bundle one by one.
\<close>

theorem agent_marketplace_confined:
  assumes "ow \<noteq> []" "c = AgentPrincipal s a ow oe (compute_agent_intersection ow agent R)"
    and "serve_marketplace sg c R k = (k', es)"
    and "resolve_user_marketplace sg (Some ow) (\<lambda>_. True) (auth R) k = (k1, os)"
  shows "(e \<in> set es \<and> sv_source e = FromMarketplace \<longleftrightarrow>
      e \<in> set os \<and> sv_source e = FromMarketplace \<and>
      (\<exists>ag. agent = Some ag \<and> agent_permits ag ''marketplace_plugin'' (grant_key (sv_market e) (sv_name e)) R)) \<and>
    ((\<exists>e\<in>set es. i \<in> set (sv_entities e)) \<longleftrightarrow>
      (\<exists>x\<in>set (mk_entities k). st_id x = i \<and> entity_servable ow k x \<and>
         (store_installed ow i k \<or> i \<in> set (required_store_entity_keys ow (auth R))) \<and>
         (case agent_scope_filter (Some a) ''plugins_mode'' ''plugin'' R of
            None \<Rightarrow> True | Some ids \<Rightarrow> store_install_in_scope ids x)))"
proof -
  let ?keep = "case agent_scope_filter (Some a) ''plugins_mode'' ''plugin'' R of
      None \<Rightarrow> (\<lambda>_. True) | Some ids \<Rightarrow> store_install_in_scope ids"
  obtain k2 es2 where r: "resolve_user_marketplace sg (Some ow) ?keep (auth R) k = (k2, es2)" by fastforce
  have es: "es = filter (\<lambda>e. sv_source e \<noteq> FromMarketplace \<or> grant_key (sv_market e) (sv_name e) \<in> plugin_ids c) es2"
    using assms(1-3) r by (simp add: serve_marketplace_def Let_def)
  have same: "e \<in> set es2 \<and> sv_source e = FromMarketplace \<longleftrightarrow> e \<in> set os \<and> sv_source e = FromMarketplace" for e
    unfolding served_curated [OF assms(1) r] served_curated [OF assms(1,4)] ..
  note granted = served_curated_entry [OF assms(1,4)] and plain = served_curated_entry [OF assms(1) r]
  have entities: "(\<exists>e\<in>set es. i \<in> set (sv_entities e)) \<longleftrightarrow> (\<exists>e\<in>set es2. i \<in> set (sv_entities e))"
    unfolding es set_filter using plain by fastforce
  have keep: "?keep x \<longleftrightarrow> (case agent_scope_filter (Some a) ''plugins_mode'' ''plugin'' R of
      None \<Rightarrow> True | Some ids \<Rightarrow> store_install_in_scope ids x)" for x by (simp split: option.splits)
  show ?thesis
  proof (rule conjI)
    have "e \<in> set es \<and> sv_source e = FromMarketplace \<longleftrightarrow>
        (e \<in> set es2 \<and> sv_source e = FromMarketplace) \<and> grant_key (sv_market e) (sv_name e) \<in> plugin_ids c"
      unfolding es by auto
    then show "e \<in> set es \<and> sv_source e = FromMarketplace \<longleftrightarrow>
        e \<in> set os \<and> sv_source e = FromMarketplace \<and>
        (\<exists>ag. agent = Some ag \<and> agent_permits ag ''marketplace_plugin'' (grant_key (sv_market e) (sv_name e)) R)"
      unfolding same assms(2) plugin_ids_agent mem_Collect_eq using granted [of e] assms(1) by blast
    show "(\<exists>e\<in>set es. i \<in> set (sv_entities e)) \<longleftrightarrow>
        (\<exists>x\<in>set (mk_entities k). st_id x = i \<and> entity_servable ow k x \<and>
           (store_installed ow i k \<or> i \<in> set (required_store_entity_keys ow (auth R))) \<and>
           (case agent_scope_filter (Some a) ''plugins_mode'' ''plugin'' R of
              None \<Rightarrow> True | Some ids \<Rightarrow> store_install_in_scope ids x))"
      unfolding entities served_entities [OF assms(1) r] keep by blast
  qed
qed

section \<open>Witnesses\<close>

text \<open>One curated plugin, required by a group; an installed skill and a private one that was blocked.\<close>

definition example_serving :: serving where
  "example_serving =
     \<lparr>sg_fs = \<lparr>fs_resolve = Some, fs_is_dir = (\<lambda>_. True), fs_declared_name = (\<lambda>_. None)\<rparr>, sg_base = [''data''],
      sg_store = [''store''], sg_hash = (\<lambda>_. ''h''), sg_now = 5\<rparr>"

definition example_tables :: rdb where
  "example_tables =
     \<lparr>auth = \<lparr>ugroups = [], members = [\<lparr>m_user = ''u1'', m_group = ''g1'', m_source = ''admin'', m_at = 0, m_by = None\<rparr>],
        grants = [\<lparr>g_id = ''r1'', g_group = ''g1'', g_type = ''marketplace_plugin'', g_res = ''acme/lint'',
          g_req = Some ''required'', g_at = 0, g_by = None, g_typed = None\<rparr>], mplugins = [], subs = []\<rparr>,
      users = [], agents = [solo_agent], agent_scope = [\<lparr>sc_agent = ''ag'', item_type = ''plugin'', item_id = ''e1''\<rparr>],
      corpora = [], registry = [], packages = [], domains = [], package_tables = []\<rparr>"

definition example_catalog :: mkt where
  "example_catalog =
     \<lparr>mk_plugins = [\<lparr>pl_market = ''acme'', pl_name = ''lint'', pl_version = None, pl_source = NoSource, pl_disabled = False\<rparr>],
      mk_registry = [(''acme'', 1)], mk_optouts = [],
      mk_entities = [\<lparr>st_id = ''e1'', st_owner = ''u2'', st_type = ''skill'', st_name = ''sum'', st_version = None,
          st_status = ''approved'', st_synthetic = ''sum-u2''\<rparr>,
        \<lparr>st_id = ''e2'', st_owner = ''u1'', st_type = ''skill'', st_name = ''bad'', st_version = None,
          st_status = ''hidden'', st_synthetic = ''bad-u1''\<rparr>],
      mk_submissions = [(''e2'', ''blocked_llm'')], mk_installs = [(''u1'', ''e1'', 2), (''u1'', ''e2'', 3)]\<rparr>"

definition lint_entry :: served where
  "lint_entry = \<lparr>sv_market = ''acme'', sv_name = ''lint'', sv_prefixed = ''acme-lint'', sv_manifest = ''lint'',
     sv_version = None, sv_dir = Some [''data'', ''acme'', ''plugins'', ''lint''], sv_source = FromMarketplace, sv_entities = []\<rparr>"

lemma example_served:
  "resolve_user_marketplace example_serving (Some ''u1'') (\<lambda>_. True) (auth example_tables) example_catalog =
     (example_catalog, [lint_entry, bundle_entry (\<lambda>_. ''h'') [''e1'']])"
  by code_simp

theorem marketplace_served_exact_witness:
  "(\<exists>e\<in>set [lint_entry, bundle_entry (\<lambda>_. ''h'') [''e1'']]. ''e1'' \<in> set (sv_entities e)) \<longleftrightarrow>
     (\<exists>x\<in>set (mk_entities example_catalog). st_id x = ''e1'' \<and> True \<and> entity_servable ''u1'' example_catalog x \<and>
        (store_installed ''u1'' ''e1'' example_catalog \<or>
         ''e1'' \<noteq> [] \<and> requires_grant ''u1'' ''store_entity'' ''e1'' (auth example_tables)))"
  by (rule marketplace_served_exact [OF _ _ example_served, THEN conjunct2]) (simp, simp add: example_catalog_def)

theorem served_directory_contained_witness:
  "\<exists>d rd rk rb. sv_dir lint_entry = Some d \<and> fs_resolve (sg_fs example_serving) d = Some rd \<and>
    fs_resolve (sg_fs example_serving) (path_join (sg_base example_serving) (sv_market lint_entry)) = Some rk \<and>
    fs_resolve (sg_fs example_serving) (sg_base example_serving) = Some rb \<and> prefix rk rd \<and> prefix rb rd"
proof (rule served_directory_contained)
  show "serve_marketplace example_serving (UserDict \<lparr>ud_id = Some ''u1'', ud_email = None, ud_surface = None\<rparr>)
      example_tables example_catalog = (example_catalog, [lint_entry, bundle_entry (\<lambda>_. ''h'') [''e1'']])"
    by (simp add: serve_marketplace_def example_served)
qed (simp_all add: lint_entry_def)

lemma example_agent_served:
  "serve_marketplace example_serving
      (AgentPrincipal ''s'' ''ag'' ''u1'' ''m'' (compute_agent_intersection ''u1'' (Some solo_agent) example_tables))
      example_tables example_catalog = (example_catalog, [bundle_entry (\<lambda>_. ''h'') [''e1'']])"
  by code_simp

theorem agent_marketplace_confined_witness:
  "(\<exists>e\<in>set [bundle_entry (\<lambda>_. ''h'') [''e1'']]. ''e1'' \<in> set (sv_entities e)) \<longleftrightarrow>
     (\<exists>x\<in>set (mk_entities example_catalog). st_id x = ''e1'' \<and> entity_servable ''u1'' example_catalog x \<and>
        (store_installed ''u1'' ''e1'' example_catalog \<or> ''e1'' \<in> set (required_store_entity_keys ''u1'' (auth example_tables))) \<and>
        (case agent_scope_filter (Some ''ag'') ''plugins_mode'' ''plugin'' example_tables of
           None \<Rightarrow> True | Some ids \<Rightarrow> store_install_in_scope ids x))"
  by (rule agent_marketplace_confined [OF _ refl example_agent_served example_served, THEN conjunct2]) simp

end
