(* ===== verification/Egress.thy ===== *)
theory Egress
  imports Prelude "HOL-Library.Word"
begin

text \<open>
  Where a sandbox may connect: the decision of \<open>services/egress_proxy/authz.py\<close>. Addresses are machine words, as in
  the standard library's \<open>ipaddress\<close>, whose operations on them are written out; reading an address from its text is
  left to the resolver's answer, which gives each address parsed, or not at all.
\<close>

unbundle bit_operations_syntax

section \<open>Addresses and networks\<close>

datatype ip = V4 "32 word" | V6 "128 word"

text \<open>\<open>address in network\<close>: the address under the netmask is the network's base address.\<close>

definition in_net :: "'a::len word \<Rightarrow> nat \<Rightarrow> 'a word \<Rightarrow> bool" where
  "in_net net len a \<longleftrightarrow> a AND NOT (mask (LENGTH('a) - len)) = net"

definition quad :: "nat \<Rightarrow> nat \<Rightarrow> nat \<Rightarrow> nat \<Rightarrow> 32 word" where
  "quad a b c d = word_of_nat (((a * 256 + b) * 256 + c) * 256 + d)"

definition ipv4_mapped :: "128 word \<Rightarrow> 32 word option" where
  "ipv4_mapped a = (if drop_bit 32 a = 0xFFFF then Some (ucast a) else None)"

definition sixtofour :: "128 word \<Rightarrow> 32 word option" where
  "sixtofour a = (if drop_bit 112 a = 0x2002 then Some (ucast (drop_bit 80 a)) else None)"

text \<open>The client half of \<open>teredo\<close>.\<close>

definition teredo_client :: "128 word \<Rightarrow> 32 word option" where
  "teredo_client a = (if drop_bit 96 a = 0x20010000 then Some (ucast (NOT a)) else None)"

fun is_unspecified :: "ip \<Rightarrow> bool" where
  "is_unspecified (V4 a) = (a = 0)"
| "is_unspecified (V6 a) = (a = 0)"

fun is_multicast :: "ip \<Rightarrow> bool" where
  "is_multicast (V4 a) = in_net (quad 224 0 0 0) 4 a"
| "is_multicast (V6 a) = in_net (push_bit 120 0xFF) 8 a"

text \<open>The networks the standard library lists as reserved: the leading sixteen bits and the length.\<close>

definition v6_reserved_networks :: "(128 word \<times> nat) list" where
  "v6_reserved_networks =
     [(0x0000, 8), (0x0100, 8), (0x0200, 7), (0x0400, 6), (0x0800, 5), (0x1000, 4), (0x4000, 3), (0x6000, 3),
      (0x8000, 3), (0xA000, 3), (0xC000, 3), (0xE000, 4), (0xF000, 5), (0xF800, 6), (0xFE00, 9)]"

fun is_reserved :: "ip \<Rightarrow> bool" where
  "is_reserved (V4 a) = in_net (quad 240 0 0 0) 4 a"
| "is_reserved (V6 a) = list_ex (\<lambda>(p, len). in_net (push_bit 112 p) len a) v6_reserved_networks"

section \<open>The decision\<close>

datatype network = Net4 "32 word" nat | Net6 "128 word" nat

fun net_contains :: "network \<Rightarrow> ip \<Rightarrow> bool" where
  "net_contains (Net4 n len) (V4 a) = in_net n len a"
| "net_contains (Net6 n len) (V6 a) = in_net n len a"
| "net_contains n a = False"

definition ALWAYS_BLOCKED_HOSTS :: "string list" where
  "ALWAYS_BLOCKED_HOSTS = [''metadata.google.internal'', ''metadata.goog'', ''169.254.169.254'', ''fd00:ec2::254'']"

definition ALWAYS_BLOCKED_SUFFIXES :: "string list" where
  "ALWAYS_BLOCKED_SUFFIXES = [''.metadata.google.internal'', ''.metadata.goog'']"

definition HARD_BLOCKED_NETS :: "network list" where
  "HARD_BLOCKED_NETS = [Net4 (quad 169 254 0 0) 16, Net6 (push_bit 112 0xFE80) 10,
     Net6 (push_bit 112 0xFD00 OR push_bit 96 0x0EC2 OR 0x254) 128]"

definition PRIVATE_NETS :: "network list" where
  "PRIVATE_NETS = [Net4 (quad 127 0 0 0) 8, Net6 1 128, Net4 (quad 10 0 0 0) 8, Net4 (quad 172 16 0 0) 12,
     Net4 (quad 192 168 0 0) 16, Net4 (quad 100 64 0 0) 10, Net6 (push_bit 112 0xFC00) 7]"

definition unwrap_embedded_v4 :: "ip \<Rightarrow> ip" where
  "unwrap_embedded_v4 i =
     (case i of
        V4 a \<Rightarrow> V4 a
      | V6 a \<Rightarrow>
          (case ipv4_mapped a of
             Some v \<Rightarrow> V4 v
           | None \<Rightarrow>
               (case sixtofour a of
                  Some v \<Rightarrow> V4 v
                | None \<Rightarrow> (case teredo_client a of Some v \<Rightarrow> V4 v | None \<Rightarrow> V6 a))))"

datatype block_reason = Unspecified ip | Multicast ip | Reserved ip | BlockedRange ip network | PrivateRange ip network

definition ip_blocked :: "bool \<Rightarrow> ip \<Rightarrow> block_reason option" where
  "ip_blocked block_private shown =
     (let i = unwrap_embedded_v4 shown
      in if is_unspecified i then Some (Unspecified shown)
         else if is_multicast i then Some (Multicast shown)
         else if is_reserved i then Some (Reserved shown)
         else case find (\<lambda>n. net_contains n i) HARD_BLOCKED_NETS of
                Some n \<Rightarrow> Some (BlockedRange shown n)
              | None \<Rightarrow>
                  if block_private
                  then map_option (PrivateRange shown) (find (\<lambda>n. net_contains n i) PRIVATE_NETS)
                  else None)"

definition strip_chars :: "char set \<Rightarrow> string \<Rightarrow> string" where
  "strip_chars cs s = rev (dropWhile (\<lambda>c. c \<in> cs) (rev (dropWhile (\<lambda>c. c \<in> cs) s)))"

definition norm_host :: "string \<Rightarrow> string" where
  "norm_host h = lower (rev (dropWhile (\<lambda>c. c = CHR ''.'') (rev (strip_chars {CHR ''['', CHR '']''} (py_strip h)))))"

definition host_allowlisted :: "string \<Rightarrow> string list \<Rightarrow> bool" where
  "host_allowlisted host allow =
     list_ex (\<lambda>entry. let e = norm_host entry
        in e \<noteq> [] \<and> (if prefix ''*.'' e then suffix (drop 1 e) host \<and> host \<noteq> drop 2 e else host = e)) allow"

text \<open>
  A decision: the reason of a refusal, or the vetted answers of the resolver. An answer has its address parsed (\<open>None\<close>
  when the text is no address), or is itself unusable; the resolver fails with \<open>None\<close>.
\<close>

datatype refusal = EmptyHost | AlwaysBlocked string | NotAllowlisted string | ResolutionFailed string | NoAddresses string
  | Unparseable string | Blocked block_reason

fun vet :: "string \<Rightarrow> bool \<Rightarrow> ip option option list \<Rightarrow> refusal + ip list" where
  "vet h block_private [] = Inr []"
| "vet h block_private (None # infos) = Inl (Unparseable h)"
| "vet h block_private (Some None # infos) = Inl (Unparseable h)"
| "vet h block_private (Some (Some i) # infos) =
     (case ip_blocked block_private i of
        Some r \<Rightarrow> Inl (Blocked r)
      | None \<Rightarrow> rbind (vet h block_private infos) (\<lambda>is. Inr (i # is)))"

definition decide :: "string \<Rightarrow> string list \<Rightarrow> bool \<Rightarrow> (string \<Rightarrow> ip option option list option) \<Rightarrow> refusal + ip list" where
  "decide host allow block_private resolver =
     (let h = norm_host host
      in if h = [] then Inl EmptyHost
         else if h \<in> set ALWAYS_BLOCKED_HOSTS \<or> list_ex (\<lambda>s. suffix s h) ALWAYS_BLOCKED_SUFFIXES then Inl (AlwaysBlocked h)
         else if \<not> host_allowlisted h allow then Inl (NotAllowlisted h)
         else case resolver h of
                None \<Rightarrow> Inl (ResolutionFailed h)
              | Some infos \<Rightarrow> if infos = [] then Inl (NoAddresses h) else vet h block_private infos)"

section \<open>Networks are intervals\<close>

lemma in_net_drop_bit:
  fixes net a :: "'a::len word"
  assumes "len \<le> LENGTH('a)" "take_bit (LENGTH('a) - len) net = 0"
  shows "in_net net len a \<longleftrightarrow> drop_bit (LENGTH('a) - len) a = drop_bit (LENGTH('a) - len) net"
proof -
  let ?k = "LENGTH('a) - len"
  have low: "\<not> bit net n" if "n < ?k" for n
    using assms(2) that by (metis bit_take_bit_iff bit_0_eq bot_apply bot_bool_def)
  show ?thesis
  proof
    assume "in_net net len a"
    then have "bit (a AND NOT (mask ?k)) n \<longleftrightarrow> bit net n" for n by (simp add: in_net_def)
    then have "bit a (?k + n) \<longleftrightarrow> bit net (?k + n)" if "?k + n < LENGTH('a)" for n
      using that by (auto simp: bit_and_iff bit_not_iff bit_mask_iff)
    then show "drop_bit ?k a = drop_bit ?k net"
      by (intro bit_word_eqI) (auto simp: bit_drop_bit_eq dest: bit_imp_le_length)
  next
    assume "drop_bit ?k a = drop_bit ?k net"
    then have hi: "bit a (?k + n) \<longleftrightarrow> bit net (?k + n)" for n by (metis bit_drop_bit_eq comp_apply)
    have "bit (a AND NOT (mask ?k)) n \<longleftrightarrow> bit net n" if "n < LENGTH('a)" for n
      using low [of n] hi [of "n - ?k"] that by (cases "n < ?k") (auto simp: bit_and_iff bit_not_iff bit_mask_iff)
    then show "in_net net len a" unfolding in_net_def by (intro bit_word_eqI) auto
  qed
qed

lemma in_net_iff:
  fixes net a :: "'a::len word"
  assumes "len \<le> LENGTH('a)" "unat net = m * 2 ^ (LENGTH('a) - len)"
  shows "in_net net len a \<longleftrightarrow> unat a div 2 ^ (LENGTH('a) - len) = m"
proof -
  have "take_bit (LENGTH('a) - len) (unat net) = 0" by (simp add: take_bit_eq_mod assms(2))
  then have "unat (take_bit (LENGTH('a) - len) net) = 0" by (simp add: unsigned_take_bit_eq)
  then have "take_bit (LENGTH('a) - len) net = 0" by (simp add: unat_eq_0)
  then have "in_net net len a \<longleftrightarrow> unat (drop_bit (LENGTH('a) - len) a) = unat (drop_bit (LENGTH('a) - len) net)"
    using in_net_drop_bit [OF assms(1)] by (simp add: word_unat_eq_iff)
  also have "\<dots> \<longleftrightarrow> unat a div 2 ^ (LENGTH('a) - len) = m" 
    by (simp only: unat_drop_bit_eq) (simp add: drop_bit_eq_div assms(2))
  finally show ?thesis .
qed

lemma in_net_interval:
  fixes net a :: "'a::len word"
  assumes "len \<le> LENGTH('a)" "unat net = m * 2 ^ (LENGTH('a) - len)"
  shows "in_net net len a \<longleftrightarrow> unat net \<le> unat a \<and> unat a < unat net + 2 ^ (LENGTH('a) - len)"
proof -
  define p :: nat where "p = 2 ^ (LENGTH('a) - len)"
  have p: "0 < p" by (simp add: p_def)
  have net: "unat net = m * p" using assms(2) by (simp add: p_def)
  have "in_net net len a \<longleftrightarrow> unat a div p = m" using in_net_iff [OF assms] by (simp add: p_def)
  also have "\<dots> \<longleftrightarrow> m \<le> unat a div p \<and> unat a div p < Suc m" by arith
  also have "\<dots> \<longleftrightarrow> m * p \<le> unat a \<and> unat a < Suc m * p"
    by (simp only: less_eq_div_iff_mult_less_eq [OF p] div_less_iff_less_mult [OF p])
  also have "\<dots> \<longleftrightarrow> unat net \<le> unat a \<and> unat a < unat net + p" by (simp add: net add.commute)
  finally show ?thesis by (simp only: p_def)
qed

text \<open>The dotted form of an address is the base-256 reading of its four bytes.\<close>

lemma unat_quad:
  assumes "a < 256" "b < 256" "c < 256" "d < 256"
  shows "unat (quad a b c d) = ((a * 256 + b) * 256 + c) * 256 + d"
  unfolding quad_def unat_of_nat using assms by (intro mod_less) simp

section \<open>What is blocked\<close>

lemma ip_blocked_None:
  "ip_blocked bp i = None \<longleftrightarrow>
     \<not> is_unspecified (unwrap_embedded_v4 i) \<and> \<not> is_multicast (unwrap_embedded_v4 i) \<and>
     \<not> is_reserved (unwrap_embedded_v4 i) \<and>
     (\<forall>n\<in>set HARD_BLOCKED_NETS. \<not> net_contains n (unwrap_embedded_v4 i)) \<and>
     (bp \<longrightarrow> (\<forall>n\<in>set PRIVATE_NETS. \<not> net_contains n (unwrap_embedded_v4 i)))"
  unfolding ip_blocked_def Let_def by (auto simp: find_None_iff split: option.splits dest: find_SomeD)

lemma vet_Inr:
  "vet h bp infos = Inr is \<longleftrightarrow> infos = map (Some \<circ> Some) is \<and> (\<forall>i\<in>set is. ip_blocked bp i = None)"
proof (induction h bp infos arbitrary: "is" rule: vet.induct)
  case (4 h bp i infos)
  show ?case
  proof (cases "ip_blocked bp i")
    case None
    then show ?thesis using 4 [OF None] by (cases "is"; cases "vet h bp infos") auto
  next
    case (Some r)
    then show ?thesis by auto
  qed
qed auto

text \<open>The interval of a dotted range, for the addresses of a decision.\<close>

lemma in_quad_net:
  assumes "a < 256" "b < 256" "c < 256" "d < 256" "len \<le> 32"
    "((a * 256 + b) * 256 + c) * 256 + d = m * 2 ^ (32 - len)"
  shows "in_net (quad a b c d) len x \<longleftrightarrow>
    ((a * 256 + b) * 256 + c) * 256 + d \<le> unat x \<and> unat x < ((a * 256 + b) * 256 + c) * 256 + d + 2 ^ (32 - len)"
  using in_net_interval [of len "quad a b c d" m x] assms by (simp add: unat_quad)

text \<open>
  The IPv4 ranges a sandbox may never reach, and those it may not reach while private addresses are blocked, as
  intervals of numbers.
\<close>

definition never_v4 :: "nat \<Rightarrow> bool" where
  "never_v4 n \<longleftrightarrow> n = 0 \<or> 0xA9FE0000 \<le> n \<and> n < 0xA9FF0000 \<or> 0xE0000000 \<le> n"

definition internal_v4 :: "nat \<Rightarrow> bool" where
  "internal_v4 n \<longleftrightarrow> 0x7F000000 \<le> n \<and> n < 0x80000000 \<or> 0x0A000000 \<le> n \<and> n < 0x0B000000 \<or>
     0xAC100000 \<le> n \<and> n < 0xAC200000 \<or> 0xC0A80000 \<le> n \<and> n < 0xC0A90000 \<or> 0x64400000 \<le> n \<and> n < 0x64800000"

lemma v4_nets:
  "in_net (quad 224 0 0 0) 4 a \<longleftrightarrow> 0xE0000000 \<le> unat a \<and> unat a < 0xF0000000"
  "in_net (quad 240 0 0 0) 4 a \<longleftrightarrow> 0xF0000000 \<le> unat a \<and> unat a < 0x100000000"
  "in_net (quad 169 254 0 0) 16 a \<longleftrightarrow> 0xA9FE0000 \<le> unat a \<and> unat a < 0xA9FF0000"
  "in_net (quad 127 0 0 0) 8 a \<longleftrightarrow> 0x7F000000 \<le> unat a \<and> unat a < 0x80000000"
  "in_net (quad 10 0 0 0) 8 a \<longleftrightarrow> 0x0A000000 \<le> unat a \<and> unat a < 0x0B000000"
  "in_net (quad 172 16 0 0) 12 a \<longleftrightarrow> 0xAC100000 \<le> unat a \<and> unat a < 0xAC200000"
  "in_net (quad 192 168 0 0) 16 a \<longleftrightarrow> 0xC0A80000 \<le> unat a \<and> unat a < 0xC0A90000"
  "in_net (quad 100 64 0 0) 10 a \<longleftrightarrow> 0x64400000 \<le> unat a \<and> unat a < 0x64800000"
  using in_quad_net [of 224 0 0 0 4 14 a] in_quad_net [of 240 0 0 0 4 15 a] in_quad_net [of 169 254 0 0 16 43518 a]
    in_quad_net [of 127 0 0 0 8 127 a] in_quad_net [of 10 0 0 0 8 10 a] in_quad_net [of 172 16 0 0 12 2753 a]
    in_quad_net [of 192 168 0 0 16 49320 a] in_quad_net [of 100 64 0 0 10 401 a] by simp_all

lemma v4_blocked_iff:
  assumes "unwrap_embedded_v4 i = V4 a"
  shows "ip_blocked bp i = None \<longleftrightarrow> \<not> never_v4 (unat a) \<and> \<not> (bp \<and> internal_v4 (unat a))"
proof -
  have lt: "unat a < 0x100000000" using unsigned_less [of a] by simp
  have hard: "\<not> is_unspecified (V4 a) \<and> \<not> is_multicast (V4 a) \<and> \<not> is_reserved (V4 a) \<and>
      (\<forall>n\<in>set HARD_BLOCKED_NETS. \<not> net_contains n (V4 a)) \<longleftrightarrow> \<not> never_v4 (unat a)"
    using lt by (auto simp: never_v4_def HARD_BLOCKED_NETS_def v4_nets unat_eq_0)
  have priv: "(\<forall>n\<in>set PRIVATE_NETS. \<not> net_contains n (V4 a)) \<longleftrightarrow> \<not> internal_v4 (unat a)"
    by (auto simp: internal_v4_def PRIVATE_NETS_def v4_nets)
  show ?thesis using hard priv by (simp only: ip_blocked_None assms) blast
qed

text \<open>
  The ways an answer can spell an IPv4 address: as it is, IPv4-mapped, as a 6to4 address (with any interface part \<open>r\<close>)
  and as a Teredo client (with any server part \<open>s\<close>).
\<close>

definition v4_spellings :: "32 word \<Rightarrow> 80 word \<Rightarrow> 64 word \<Rightarrow> ip list" where
  "v4_spellings a r s =
     [V4 a, V6 (push_bit 32 0xFFFF OR ucast a), V6 (push_bit 112 0x2002 OR (push_bit 80 (ucast a) OR ucast r)),
      V6 (push_bit 96 0x20010000 OR (push_bit 32 (ucast s) OR ucast (NOT a)))]"

text \<open>The fields of an address put together from shifted parts.\<close>

lemma field_low:
  fixes a :: "'a::len word" and w :: "'b::len word"
  assumes "LENGTH('a) \<le> n" "LENGTH('a) \<le> LENGTH('b)"
  shows "ucast (push_bit n w OR ucast a :: 'b word) = a"
  using assms by (intro bit_word_eqI) (auto simp: bit_simps)

lemma field_high:
  fixes a :: "'a::len word" and w :: "'b::len word"
  assumes "LENGTH('a) \<le> n" "n \<le> LENGTH('b)"
  shows "drop_bit n (push_bit n w OR ucast a :: 'b word) = take_bit (LENGTH('b) - n) w"
  using assms by (intro bit_word_eqI) (auto simp: bit_simps dest: bit_imp_le_length)

lemma field_top:
  fixes r :: "'a::len word" and v :: "'b::len word" and w :: "'c::len word"
  assumes "LENGTH('a) \<le> n" "n + LENGTH('b) \<le> m" "m \<le> LENGTH('c)"
  shows "drop_bit m (push_bit m w OR (push_bit n (ucast v) OR ucast r) :: 'c word) = take_bit (LENGTH('c) - m) w"
  using assms by (intro bit_word_eqI) (auto simp: bit_simps dest: bit_imp_le_length)

lemma field_mid:
  fixes r :: "'a::len word" and v :: "'b::len word" and w :: "'c::len word"
  assumes "LENGTH('a) \<le> n" "n + LENGTH('b) \<le> m" "m \<le> LENGTH('c)"
  shows "ucast (drop_bit n (push_bit m w OR (push_bit n (ucast v) OR ucast r) :: 'c word)) = v"
  using assms by (intro bit_word_eqI) (auto simp: bit_simps dest: bit_imp_le_length)

lemma unwrap_mapped: "unwrap_embedded_v4 (V6 (push_bit 32 0xFFFF OR ucast a)) = V4 a"
proof -
  have "drop_bit 32 (push_bit 32 0xFFFF OR ucast a :: 128 word) = 0xFFFF" by (subst field_high) simp_all
  moreover have "ucast (push_bit 32 0xFFFF OR ucast a :: 128 word) = a" by (rule field_low) simp_all
  ultimately show ?thesis by (simp add: unwrap_embedded_v4_def ipv4_mapped_def)
qed

lemma field_low_not:
  fixes a :: "'a::len word" and w v :: "'c::len word"
  assumes "LENGTH('a) \<le> n" "n \<le> m" "LENGTH('a) \<le> LENGTH('c)"
  shows "ucast (NOT (push_bit m w OR (push_bit n v OR ucast (NOT a)))) = a"
  using assms by (intro bit_word_eqI) (auto simp: bit_simps)

text \<open>What the leading bits say of the embeddings.\<close>

lemma top_sixtofour: "drop_bit 112 a = 0x2002 \<Longrightarrow> unwrap_embedded_v4 (V6 a) = V4 (ucast (drop_bit 80 a))"
proof -
  assume top: "drop_bit 112 a = 0x2002"
  have eq: "drop_bit 112 a = drop_bit 80 (drop_bit 32 a)" by (simp only: drop_bit_drop_bit) simp
  have "drop_bit 112 a = 0" if "drop_bit 32 a = 0xFFFF" by (simp only: eq that) simp
  then have "drop_bit 32 a \<noteq> 0xFFFF" using top by auto
  then show ?thesis using top by (simp add: unwrap_embedded_v4_def ipv4_mapped_def sixtofour_def)
qed

lemma top_teredo: "drop_bit 96 a = 0x20010000 \<Longrightarrow> unwrap_embedded_v4 (V6 a) = V4 (ucast (NOT a))"
proof -
  assume top: "drop_bit 96 a = 0x20010000"
  have eq: "drop_bit 96 a = drop_bit 64 (drop_bit 32 a)" by (simp only: drop_bit_drop_bit) simp
  have "drop_bit 96 a = 0" if "drop_bit 32 a = 0xFFFF" by (simp only: eq that) simp
  then have "drop_bit 32 a \<noteq> 0xFFFF" using top by auto
  moreover have "drop_bit 112 a = drop_bit 16 (drop_bit 96 a)" by (simp only: drop_bit_drop_bit) simp
  then have "drop_bit 112 a \<noteq> 0x2002" using top by auto
  ultimately show ?thesis using top
    by (simp add: unwrap_embedded_v4_def ipv4_mapped_def sixtofour_def teredo_client_def)
qed

lemma unwrap_sixtofour:
  "unwrap_embedded_v4 (V6 (push_bit 112 0x2002 OR (push_bit 80 (ucast a) OR ucast (r :: 80 word)))) = V4 a"
  by (subst top_sixtofour) (subst field_top | subst field_mid | simp)+

lemma unwrap_teredo:
  "unwrap_embedded_v4 (V6 (push_bit 96 0x20010000 OR (push_bit 32 (ucast (s :: 64 word)) OR ucast (NOT a)))) = V4 a"
  by (subst top_teredo) (subst field_top | subst field_low_not | simp)+

lemma unwrap_spelling: "i \<in> set (v4_spellings a r s) \<Longrightarrow> unwrap_embedded_v4 i = V4 a"
  by (auto simp only: v4_spellings_def list.set unwrap_mapped unwrap_sixtofour unwrap_teredo insert_iff empty_iff)
    (simp add: unwrap_embedded_v4_def)

section \<open>The properties\<close>

text \<open>
  A sandbox's connection is allowed exactly when the normalised host is not empty, is not a metadata endpoint or
  below one, matches an entry of the allowlist, and its resolution succeeded with at least one answer, every answer
  being an address that is not blocked; the addresses of the decision are exactly the resolver's answers, in order.
\<close>

theorem egress_decision_exact:
  "decide host allow bp resolver = Inr is \<longleftrightarrow>
    norm_host host \<noteq> [] \<and> norm_host host \<notin> set ALWAYS_BLOCKED_HOSTS \<and>
    list_all (\<lambda>s. \<not> suffix s (norm_host host)) ALWAYS_BLOCKED_SUFFIXES \<and> host_allowlisted (norm_host host) allow \<and>
    resolver (norm_host host) = Some (map (Some \<circ> Some) is) \<and> is \<noteq> [] \<and> list_all (\<lambda>i. ip_blocked bp i = None) is"
proof (cases "resolver (norm_host host)")
  case None
  then show ?thesis by (simp add: decide_def Let_def)
next
  case (Some infos)
  then show ?thesis by (auto simp: decide_def Let_def vet_Inr list_all_iff list_ex_iff)
qed

text \<open>
  C18. However an answer spells an IPv4 address (plainly, IPv4-mapped, as 6to4 or as a Teredo client), an allowed
  connection never goes to the unspecified address, the link-local range with the metadata service, the multicast or
  the reserved range, whatever the allowlist, the resolver and the settings say; and with private addresses blocked,
  as is the default, never to a loopback, private or carrier range either.
\<close>

theorem egress_never_internal:
  assumes "decide host allow bp resolver = Inr addrs" "i \<in> set addrs" "i \<in> set (v4_spellings a r s)"
  shows "\<not> never_v4 (unat a) \<and> \<not> (bp \<and> internal_v4 (unat a))"
proof -
  obtain infos where "vet (norm_host host) bp infos = Inr addrs"
    using assms(1) by (auto simp: decide_def Let_def split: if_splits option.splits)
  then have "ip_blocked bp i = None" using assms(2) by (simp add: vet_Inr)
  then show ?thesis using v4_blocked_iff [OF unwrap_spelling [OF assms(3)]] by simp
qed

lemma vet_one: "ip_blocked bp i = None \<Longrightarrow> vet h bp [Some (Some i)] = Inr [i]"
  by simp

lemma public_mapped: "ip_blocked bp (V6 (push_bit 32 0xFFFF OR ucast (quad 93 184 216 34))) = None"
  by (subst v4_blocked_iff [OF unwrap_mapped]) (simp add: unat_quad never_v4_def internal_v4_def)

theorem egress_never_internal_witness:
  "\<not> never_v4 (unat (quad 93 184 216 34)) \<and> \<not> (True \<and> internal_v4 (unat (quad 93 184 216 34)))"
proof (rule egress_never_internal)
  let ?i = "V6 (push_bit 32 0xFFFF OR ucast (quad 93 184 216 34))"
  have host: "norm_host ''Pypi.org.'' = ''pypi.org''"
    "''pypi.org'' \<notin> set ALWAYS_BLOCKED_HOSTS \<and> \<not> list_ex (\<lambda>s. suffix s ''pypi.org'') ALWAYS_BLOCKED_SUFFIXES"
    "host_allowlisted ''pypi.org'' [''*.example.com'', ''pypi.org'']"
    by code_simp+
  show "decide ''Pypi.org.'' [''*.example.com'', ''pypi.org''] True (\<lambda>h. Some [Some (Some ?i)]) = Inr [?i]"
    using host by (simp only: decide_def Let_def vet_one [OF public_mapped] option.case list.distinct if_False simp_thms)
  show "?i \<in> set [?i]" by simp
  show "?i \<in> set (v4_spellings (quad 93 184 216 34) 0 0)" by (simp add: v4_spellings_def)
qed

end
