(* ===== verification/Quota.thy ===== *)
theory Quota
  imports Prelude
begin

text \<open>
  The quota tracker of \<open>app/api/v2_quota.py\<close>: per user a count of running scans and a daily bucket of bytes and of
  billable statements. The clock is a number of microseconds since the epoch, in UTC; a bucket's day, in the code the
  ISO date, is the number of the day. Each operation runs under the tracker's lock, so a history is a sequence of them.
\<close>

section \<open>The tracker\<close>

definition us_per_day :: int where
  "us_per_day = 86400000000"

definition utc_today :: "int \<Rightarrow> int" where
  "utc_today t = t div us_per_day"

definition seconds_until_utc_midnight :: "int \<Rightarrow> int" where
  "seconds_until_utc_midnight t = ((utc_today t + 1) * us_per_day - t) div 1000000"

record bucket =
  bk_concurrent :: int
  bk_day :: int
  bk_bytes :: int
  bk_estimates :: int

record quota_config =
  max_concurrent :: int
  max_daily_bytes :: int
  max_daily_estimates :: int

type_synonym tracker = "string \<rightharpoonup> bucket"

datatype quota_error = ConcurrentScans int int | DailyBytes int int int | DailyEstimates int int int

definition ensure_bucket :: "int \<Rightarrow> tracker \<Rightarrow> string \<Rightarrow> tracker \<times> bucket" where
  "ensure_bucket t st user =
     (let s = (case st user of
                 None \<Rightarrow> \<lparr>bk_concurrent = 0, bk_day = utc_today t, bk_bytes = 0, bk_estimates = 0\<rparr>
               | Some s \<Rightarrow> s);
          s' = (if bk_day s \<noteq> utc_today t then s\<lparr>bk_day := utc_today t, bk_bytes := 0, bk_estimates := 0\<rparr> else s)
      in (st(user \<mapsto> s'), s'))"

text \<open>\<open>acquire\<close>: the entry of the context manager, and its exit.\<close>

definition acquire_enter :: "quota_config \<Rightarrow> int \<Rightarrow> string \<Rightarrow> tracker \<Rightarrow> tracker \<times> (quota_error + unit)" where
  "acquire_enter c t user st =
     (let (st, s) = ensure_bucket t st user
      in if bk_concurrent s \<ge> max_concurrent c then (st, Inl (ConcurrentScans (bk_concurrent s) (max_concurrent c)))
         else (st(user \<mapsto> s\<lparr>bk_concurrent := bk_concurrent s + 1\<rparr>), Inr ()))"

definition acquire_exit :: "int \<Rightarrow> string \<Rightarrow> tracker \<Rightarrow> tracker" where
  "acquire_exit t user st =
     (let (st, s) = ensure_bucket t st user
      in st(user \<mapsto> s\<lparr>bk_concurrent := max 0 (bk_concurrent s - 1)\<rparr>))"

definition record_bytes :: "int \<Rightarrow> string \<Rightarrow> int \<Rightarrow> tracker \<Rightarrow> tracker" where
  "record_bytes t user n st =
     (if n \<le> 0 then st
      else let (st, s) = ensure_bucket t st user in st(user \<mapsto> s\<lparr>bk_bytes := bk_bytes s + n\<rparr>))"

definition check_daily_budget :: "quota_config \<Rightarrow> int \<Rightarrow> string \<Rightarrow> tracker \<Rightarrow> tracker \<times> (quota_error + unit)" where
  "check_daily_budget c t user st =
     (let (st, s) = ensure_bucket t st user
      in (st, if bk_bytes s \<ge> max_daily_bytes c
              then Inl (DailyBytes (bk_bytes s) (max_daily_bytes c) (seconds_until_utc_midnight t)) else Inr ()))"

definition bytes_used_today :: "int \<Rightarrow> string \<Rightarrow> tracker \<Rightarrow> tracker \<times> int" where
  "bytes_used_today t user st = (let (st, s) = ensure_bucket t st user in (st, bk_bytes s))"

definition check_daily_estimates :: "quota_config \<Rightarrow> int \<Rightarrow> string \<Rightarrow> tracker \<Rightarrow> tracker \<times> (quota_error + unit)" where
  "check_daily_estimates c t user st =
     (let (st, s) = ensure_bucket t st user
      in (st, if bk_estimates s \<ge> max_daily_estimates c
              then Inl (DailyEstimates (bk_estimates s) (max_daily_estimates c) (seconds_until_utc_midnight t))
              else Inr ()))"

definition record_estimate :: "int \<Rightarrow> string \<Rightarrow> int \<Rightarrow> tracker \<Rightarrow> tracker" where
  "record_estimate t user n st =
     (if n \<le> 0 then st
      else let (st, s) = ensure_bucket t st user in st(user \<mapsto> s\<lparr>bk_estimates := bk_estimates s + n\<rparr>))"

definition estimates_used_today :: "int \<Rightarrow> string \<Rightarrow> tracker \<Rightarrow> tracker \<times> int" where
  "estimates_used_today t user st = (let (st, s) = ensure_bucket t st user in (st, bk_estimates s))"

text \<open>\<open>_build_quota_tracker\<close>: the configured caps, a missing or zero one replaced by its default.\<close>

definition build_quota_config :: "int option \<Rightarrow> int option \<Rightarrow> int option \<Rightarrow> quota_config" where
  "build_quota_config scans bytes estimates =
     (let pick = (\<lambda>v d. case v of None \<Rightarrow> d | Some n \<Rightarrow> if n = 0 then d else n)
      in \<lparr>max_concurrent = pick scans 5, max_daily_bytes = pick bytes 53687091200,
          max_daily_estimates = pick estimates 500\<rparr>)"

section \<open>Histories\<close>

text \<open>
  What requests do to the tracker, each event at its time: an attempt to enter, the exit of a scan that had entered, and
  the other calls. A history counts the scans running per user beside the tracker, and its log holds what was recorded.
\<close>

datatype quota_event = Enter string | Exit string | Bytes string int | Estimate string int | CheckBytes string
  | CheckEstimates string

fun quota_do :: "quota_config \<Rightarrow> int \<Rightarrow> quota_event \<Rightarrow> tracker \<Rightarrow> tracker" where
  "quota_do c t (Enter u) st = fst (acquire_enter c t u st)"
| "quota_do c t (Exit u) st = acquire_exit t u st"
| "quota_do c t (Bytes u n) st = record_bytes t u n st"
| "quota_do c t (Estimate u n) st = record_estimate t u n st"
| "quota_do c t (CheckBytes u) st = fst (check_daily_budget c t u st)"
| "quota_do c t (CheckEstimates u) st = fst (check_daily_estimates c t u st)"

definition quota_run :: "quota_config \<Rightarrow> (int \<times> quota_event) list \<Rightarrow> tracker" where
  "quota_run c evs = fold (\<lambda>(t, e). quota_do c t e) evs (\<lambda>_. None)"

section \<open>The specification\<close>

text \<open>The scans running: an entry is admitted below the cap, an exit ends one. An exit belongs to an admitted entry.\<close>

fun scans_do :: "quota_config \<Rightarrow> quota_event \<Rightarrow> (string \<Rightarrow> int) \<Rightarrow> string \<Rightarrow> int" where
  "scans_do c (Enter u) run = (if run u < max_concurrent c then run(u := run u + 1) else run)"
| "scans_do c (Exit u) run = run(u := run u - 1)"
| "scans_do c e run = run"

definition scans_running :: "quota_config \<Rightarrow> (int \<times> quota_event) list \<Rightarrow> string \<Rightarrow> int" where
  "scans_running c evs = fold (\<lambda>(t, e). scans_do c e) evs (\<lambda>_. 0)"

fun exit_ok :: "quota_event \<Rightarrow> (string \<Rightarrow> int) \<Rightarrow> bool" where
  "exit_ok (Exit u) run = (0 < run u)"
| "exit_ok e run = True"

fun exits_ok :: "quota_config \<Rightarrow> (string \<Rightarrow> int) \<Rightarrow> (int \<times> quota_event) list \<Rightarrow> bool" where
  "exits_ok c run [] = True"
| "exits_ok c run ((t, e) # evs) = (exit_ok e run \<and> exits_ok c (scans_do c e run) evs)"

text \<open>What was recorded for a user on a day.\<close>

definition bytes_on :: "int \<Rightarrow> string \<Rightarrow> (int \<times> quota_event) list \<Rightarrow> int" where
  "bytes_on d u evs =
     sum_list (map (\<lambda>(t, e). case e of Bytes v n \<Rightarrow> if v = u \<and> utc_today t = d \<and> 0 < n then n else 0 | _ \<Rightarrow> 0) evs)"

definition estimates_on :: "int \<Rightarrow> string \<Rightarrow> (int \<times> quota_event) list \<Rightarrow> int" where
  "estimates_on d u evs =
     sum_list (map (\<lambda>(t, e). case e of Estimate v n \<Rightarrow> if v = u \<and> utc_today t = d \<and> 0 < n then n else 0 | _ \<Rightarrow> 0) evs)"

definition spec_bucket :: "quota_config \<Rightarrow> (int \<times> quota_event) list \<Rightarrow> int \<Rightarrow> string \<Rightarrow> bucket" where
  "spec_bucket c evs t u =
     \<lparr>bk_concurrent = scans_running c evs u, bk_day = utc_today t, bk_bytes = bytes_on (utc_today t) u evs,
      bk_estimates = estimates_on (utc_today t) u evs\<rparr>"

section \<open>The tracker refines the specification\<close>

lemma ensure_fst: "fst (ensure_bucket t st u) = st(u \<mapsto> snd (ensure_bucket t st u))"
  by (simp add: ensure_bucket_def Let_def)

lemma ensure_day [simp]: "bk_day (snd (ensure_bucket t st u)) = utc_today t"
  by (simp add: ensure_bucket_def Let_def)

lemma ensure_cong: "st u = st' u \<Longrightarrow> snd (ensure_bucket t st u) = snd (ensure_bucket t st' u)"
  by (simp add: ensure_bucket_def Let_def)

text \<open>What a later look finds in a bucket written at an earlier time.\<close>

lemma ensure_update:
  "snd (ensure_bucket t (st(v \<mapsto> s)) u) =
     (if u \<noteq> v then snd (ensure_bucket t st u)
      else if bk_day s = utc_today t then s else s\<lparr>bk_day := utc_today t, bk_bytes := 0, bk_estimates := 0\<rparr>)"
  by (simp add: ensure_bucket_def Let_def)

text \<open>Every event writes back the bucket it looked at, changed, or leaves the tracker alone.\<close>

fun event_user :: "quota_event \<Rightarrow> string" where
  "event_user (Enter u) = u"
| "event_user (Exit u) = u"
| "event_user (Bytes u n) = u"
| "event_user (Estimate u n) = u"
| "event_user (CheckBytes u) = u"
| "event_user (CheckEstimates u) = u"

fun event_change :: "quota_config \<Rightarrow> quota_event \<Rightarrow> bucket \<Rightarrow> bucket" where
  "event_change c (Enter u) s =
     (if bk_concurrent s < max_concurrent c then s\<lparr>bk_concurrent := bk_concurrent s + 1\<rparr> else s)"
| "event_change c (Exit u) s = s\<lparr>bk_concurrent := max 0 (bk_concurrent s - 1)\<rparr>"
| "event_change c (Bytes u n) s = s\<lparr>bk_bytes := bk_bytes s + (if 0 < n then n else 0)\<rparr>"
| "event_change c (Estimate u n) s = s\<lparr>bk_estimates := bk_estimates s + (if 0 < n then n else 0)\<rparr>"
| "event_change c e s = s"

lemma event_change_day [simp]: "bk_day (event_change c e s) = bk_day s"
  by (cases e) auto

fun idle_event :: "quota_event \<Rightarrow> bool" where
  "idle_event (Bytes u n) = (n \<le> 0)"
| "idle_event (Estimate u n) = (n \<le> 0)"
| "idle_event e = False"

lemma quota_do_shape:
  "quota_do c t e st = st(event_user e \<mapsto> event_change c e (snd (ensure_bucket t st (event_user e)))) \<or>
   quota_do c t e st = st \<and> idle_event e"
  by (cases e)
    (auto simp: acquire_enter_def acquire_exit_def record_bytes_def record_estimate_def check_daily_budget_def
      check_daily_estimates_def ensure_fst case_prod_beta Let_def)

lemma quota_run_snoc: "quota_run c (evs @ [(t, e)]) = quota_do c t e (quota_run c evs)"
  by (simp add: quota_run_def)

lemma scans_running_snoc: "scans_running c (evs @ [(t, e)]) = scans_do c e (scans_running c evs)"
  by (simp add: scans_running_def)

lemma exits_ok_snoc:
  "exits_ok c run (evs @ [(t, e)]) \<longleftrightarrow> exits_ok c run evs \<and> exit_ok e (fold (\<lambda>(t, e). scans_do c e) evs run)"
proof (induction evs arbitrary: run)
  case (Cons x evs)
  then show ?case by (cases x) simp
qed simp

lemma nothing_recorded_later:
  assumes "list_all (\<lambda>x. utc_today (fst x) \<le> D) evs" "D < d"
  shows "bytes_on d u evs = 0" "estimates_on d u evs = 0"
proof -
  have "bytes_on d u evs = 0 \<and> estimates_on d u evs = 0"
    using assms
  proof (induction evs)
    case Nil
    then show ?case by (simp add: bytes_on_def estimates_on_def)
  next
    case (Cons x evs)
    then show ?case by (cases x; cases "snd x") (simp_all add: bytes_on_def estimates_on_def)
  qed
  then show "bytes_on d u evs = 0" "estimates_on d u evs = 0" by simp_all
qed

text \<open>One event, seen by a look at the same day or later.\<close>

lemma spec_step:
  assumes "exit_ok e (scans_running c evs)"
  shows "event_change c e (spec_bucket c evs t (event_user e)) = spec_bucket c (evs @ [(t, e)]) t (event_user e)"
  using assms
  by (cases e) (auto simp: spec_bucket_def scans_running_snoc bytes_on_def estimates_on_def)

lemma spec_idle: "idle_event e \<Longrightarrow> spec_bucket c (evs @ [(t, e)]) t' u = spec_bucket c evs t' u"
  by (cases e) (simp_all add: spec_bucket_def scans_running_snoc bytes_on_def estimates_on_def)

lemma spec_other:
  assumes "u \<noteq> event_user e"
  shows "spec_bucket c (evs @ [(t, e)]) t' u = spec_bucket c evs t' u"
  using assms by (cases e) (auto simp: spec_bucket_def scans_running_snoc bytes_on_def estimates_on_def)

lemma utc_today_mono: "t \<le> t' \<Longrightarrow> utc_today t \<le> utc_today t'"
  by (simp add: utc_today_def us_per_day_def zdiv_mono1)

lemma tracker_refines:
  assumes "sorted (map fst evs)" "exits_ok c (\<lambda>_. 0) evs" "list_all (\<lambda>x. fst x \<le> t) evs"
  shows "snd (ensure_bucket t (quota_run c evs) u) = spec_bucket c evs t u"
  using assms
proof (induction evs arbitrary: t u rule: rev_induct)
  case Nil
  show ?case
    by (simp add: quota_run_def ensure_bucket_def spec_bucket_def scans_running_def bytes_on_def estimates_on_def
        Let_def)
next
  case (snoc x evs)
  obtain t0 e where x: "x = (t0, e)" by (cases x)
  let ?st = "quota_run c evs" and ?v = "event_user e"
  have before: "list_all (\<lambda>y. fst y \<le> t0) evs" and t0: "t0 \<le> t"
    using snoc.prems by (auto simp: x sorted_append list_all_iff)
  have prems: "sorted (map fst evs)" "exits_ok c (\<lambda>_. 0) evs" and ok: "exit_ok e (scans_running c evs)"
    using snoc.prems by (auto simp: x sorted_append exits_ok_snoc scans_running_def)
  have now: "snd (ensure_bucket t0 ?st u) = spec_bucket c evs t0 u" for u
    using snoc.IH [OF prems before] .
  have later: "snd (ensure_bucket t ?st u) = spec_bucket c evs t u" for u
    by (rule snoc.IH [OF prems]) (use before t0 in \<open>force simp: list_all_iff\<close>)
  let ?s = "spec_bucket c (evs @ [x]) t0 ?v"
  have s: "event_change c e (spec_bucket c evs t0 ?v) = ?s" by (simp add: x spec_step [OF ok])
  have roll: "snd (ensure_bucket t (?st(?v \<mapsto> ?s)) u) = spec_bucket c (evs @ [x]) t u"
  proof (cases "u = ?v \<and> utc_today t0 \<noteq> utc_today t")
    case True
    then have "utc_today t0 < utc_today t" using utc_today_mono [OF t0] by simp
    moreover have "list_all (\<lambda>y. utc_today (fst y) \<le> utc_today t0) (evs @ [x])"
      using before by (auto simp: list_all_iff x utc_today_mono)
    ultimately have "bytes_on (utc_today t) u (evs @ [x]) = 0 \<and> estimates_on (utc_today t) u (evs @ [x]) = 0"
      using nothing_recorded_later by blast
    then show ?thesis using True by (simp add: ensure_update spec_bucket_def)
  next
    case False
    then show ?thesis using later by (auto simp: ensure_update x spec_other) (simp_all add: spec_bucket_def)
  qed
  show ?case
    using quota_do_shape [of c t0 e ?st]
  proof
    assume "quota_do c t0 e ?st = ?st(?v \<mapsto> event_change c e (snd (ensure_bucket t0 ?st ?v)))"
    then have "quota_run c (evs @ [x]) = ?st(?v \<mapsto> ?s)" using s by (simp only: x quota_run_snoc now)
    then show ?thesis using roll by (simp only:)
  next
    assume idle: "quota_do c t0 e ?st = ?st \<and> idle_event e"
    then have "spec_bucket c (evs @ [x]) t u = spec_bucket c evs t u" by (simp add: x spec_idle)
    then show ?thesis using idle later by (simp add: x quota_run_snoc)
  qed
qed

lemma scans_bounded: "exits_ok c (\<lambda>_. 0) evs \<Longrightarrow> 0 \<le> scans_running c evs u \<and> scans_running c evs u \<le> max 0 (max_concurrent c)"
proof (induction evs arbitrary: u rule: rev_induct)
  case Nil
  show ?case by (simp add: scans_running_def)
next
  case (snoc x evs)
  obtain t e where x: "x = (t, e)" by (cases x)
  have ok: "exits_ok c (\<lambda>_. 0) evs" "exit_ok e (scans_running c evs)"
    using snoc.prems by (auto simp: x exits_ok_snoc scans_running_def)
  show ?case using snoc.IH [OF ok(1), of u] ok(2)
    by (cases e) (auto simp: x scans_running_snoc)
qed

lemma midnight_bounds: "0 \<le> seconds_until_utc_midnight t \<and> seconds_until_utc_midnight t \<le> 86400"
proof -
  have "0 < (t div us_per_day + 1) * us_per_day - t \<and> (t div us_per_day + 1) * us_per_day - t \<le> us_per_day"
    unfolding us_per_day_def by presburger
  then show ?thesis unfolding seconds_until_utc_midnight_def utc_today_def us_per_day_def by linarith
qed

section \<open>The properties\<close>

text \<open>
  Over any history of calls in the order of the clock, the tracker's counter of running scans is exact: a scan is
  admitted exactly when fewer scans of that user are running than the cap, whatever days have rolled over and whatever
  others do, never more run than the cap, and the refusal reports the scans running and the cap.
\<close>

theorem quota_concurrency_exact:
  assumes "sorted (map fst evs)" "exits_ok c (\<lambda>_. 0) evs" "list_all (\<lambda>x. fst x \<le> t) evs"
  shows "snd (acquire_enter c t u (quota_run c evs)) =
      (if scans_running c evs u < max_concurrent c then Inr ()
       else Inl (ConcurrentScans (scans_running c evs u) (max_concurrent c))) \<and>
    0 \<le> scans_running c evs u \<and> scans_running c evs u \<le> max 0 (max_concurrent c)"
  using tracker_refines [OF assms, of u] scans_bounded [OF assms(2), of u]
  by (simp add: acquire_enter_def spec_bucket_def case_prod_beta)

theorem quota_concurrency_exact_witness:
  "snd (acquire_enter \<lparr>max_concurrent = 2, max_daily_bytes = 100, max_daily_estimates = 5\<rparr> 86400000001 ''ann''
      (quota_run \<lparr>max_concurrent = 2, max_daily_bytes = 100, max_daily_estimates = 5\<rparr>
        [(0, Enter ''ann''), (0, Enter ''ann''), (1, Enter ''ann''), (2, Enter ''bob''), (86400000000, Exit ''ann'')])) =
    Inr ()"
  using quota_concurrency_exact [of
      "[(0, Enter ''ann''), (0, Enter ''ann''), (1, Enter ''ann''), (2, Enter ''bob''), (86400000000, Exit ''ann'')]"
      "\<lparr>max_concurrent = 2, max_daily_bytes = 100, max_daily_estimates = 5\<rparr>" 86400000001 "''ann''"]
  by (simp add: scans_running_def)

text \<open>
  C23. The tracker implements the daily ledger: over any history in the order of the clock, what it reports used today is
  the sum of what was recorded for that user on the day of the look, the pre-flight checks refuse exactly when that sum
  has reached the cap, and a refusal tells the caller to come back within a day.
\<close>

theorem quota_ledger_refines:
  assumes "sorted (map fst evs)" "exits_ok c (\<lambda>_. 0) evs" "list_all (\<lambda>x. fst x \<le> t) evs"
  shows "snd (bytes_used_today t u (quota_run c evs)) = bytes_on (utc_today t) u evs \<and>
    snd (estimates_used_today t u (quota_run c evs)) = estimates_on (utc_today t) u evs \<and>
    snd (check_daily_budget c t u (quota_run c evs)) =
      (if bytes_on (utc_today t) u evs < max_daily_bytes c then Inr ()
       else Inl (DailyBytes (bytes_on (utc_today t) u evs) (max_daily_bytes c) (seconds_until_utc_midnight t))) \<and>
    snd (check_daily_estimates c t u (quota_run c evs)) =
      (if estimates_on (utc_today t) u evs < max_daily_estimates c then Inr ()
       else Inl (DailyEstimates (estimates_on (utc_today t) u evs) (max_daily_estimates c) (seconds_until_utc_midnight t))) \<and>
    0 \<le> seconds_until_utc_midnight t \<and> seconds_until_utc_midnight t \<le> 86400"
  using tracker_refines [OF assms, of u] midnight_bounds [of t]
  by (simp add: bytes_used_today_def estimates_used_today_def check_daily_budget_def check_daily_estimates_def
      spec_bucket_def case_prod_beta)

theorem quota_ledger_refines_witness:
  "snd (bytes_used_today 86400000005 ''ann'' (quota_run \<lparr>max_concurrent = 2, max_daily_bytes = 100, max_daily_estimates = 5\<rparr>
      [(5, Bytes ''ann'' 90), (6, Bytes ''bob'' 7), (86400000000, Bytes ''ann'' 30), (86400000001, Bytes ''ann'' (-4))])) = 30"
  using quota_ledger_refines [of
      "[(5, Bytes ''ann'' 90), (6, Bytes ''bob'' 7), (86400000000, Bytes ''ann'' 30), (86400000001, Bytes ''ann'' (-4))]"
      "\<lparr>max_concurrent = 2, max_daily_bytes = 100, max_daily_estimates = 5\<rparr>" 86400000005 "''ann''"]
  by (simp add: bytes_on_def utc_today_def us_per_day_def)

end
