(* ===== verification/Chunking.thy ===== *)
theory Chunking
  imports Prelude
begin

text \<open>
  Cutting a document for retrieval: \<open>src/ingest/chunking.py\<close>. The loop over the windows is a partial function, so that
  its end is a theorem; the sizes are Python integers, and a slice counts from the end where a bound is negative.
\<close>

section \<open>Windows\<close>

text \<open>A bound of a slice, and \<open>s[i:j]\<close>.\<close>

definition slice_bound :: "int \<Rightarrow> nat \<Rightarrow> nat" where
  "slice_bound i n = (if i < 0 then nat (int n + i) else min (nat i) n)"

definition py_slice :: "'a list \<Rightarrow> int \<Rightarrow> int \<Rightarrow> 'a list" where
  "py_slice s i j = drop (slice_bound i (length s)) (take (slice_bound j (length s)) s)"

partial_function (option) window_loop :: "string \<Rightarrow> int \<Rightarrow> int \<Rightarrow> int \<Rightarrow> string list \<Rightarrow> string list option" where
  "window_loop s target step start out =
     (if start < int (length s)
      then window_loop s target step (start + step) (out @ [py_slice s start (start + target)])
      else Some out)"

definition window :: "string \<Rightarrow> int \<Rightarrow> int \<Rightarrow> string list option" where
  "window body target overlap =
     (let s = py_strip body
      in if s = [] then Some []
         else if int (length s) \<le> target then Some [s]
         else window_loop s target (max 1 (target - overlap)) 0 [])"

section \<open>Chunks\<close>

record chunk =
  ch_ordinal :: nat
  ch_text :: string
  ch_section :: "string option"

text \<open>The source of a document: a string, or the extractor's sections with the full text.\<close>

datatype doc_source = Raw string | Extracted "(string option \<times> string) list" string

definition target_chars_default :: int where
  "target_chars_default = 3200"

definition overlap_chars_default :: int where
  "overlap_chars_default = 400"

fun number_pieces :: "string option \<Rightarrow> nat \<Rightarrow> string list \<Rightarrow> chunk list" where
  "number_pieces sec n [] = []"
| "number_pieces sec n (p # ps) = \<lparr>ch_ordinal = n, ch_text = p, ch_section = sec\<rparr> # number_pieces sec (Suc n) ps"

fun chunk_elements :: "int \<Rightarrow> int \<Rightarrow> nat \<Rightarrow> (string option \<times> string) list \<Rightarrow> chunk list option" where
  "chunk_elements target overlap n [] = Some []"
| "chunk_elements target overlap n ((sec, body) # es) =
     (case window body target overlap of
        None \<Rightarrow> None
      | Some ps \<Rightarrow>
          map_option (\<lambda>cs. number_pieces sec n ps @ cs) (chunk_elements target overlap (n + length ps) es))"

definition chunk_text :: "doc_source \<Rightarrow> int \<Rightarrow> int \<Rightarrow> chunk list option" where
  "chunk_text src target overlap =
     (let (elements, full) = (case src of Raw s \<Rightarrow> ([], s) | Extracted es s \<Rightarrow> (es, s))
      in if elements \<noteq> [] then chunk_elements target overlap 0 elements
         else map_option (number_pieces None 0) (window full target overlap))"

section \<open>The loop ends, and its windows\<close>

text \<open>The windows from a start on: as many as steps fit before the end, the \<open>k\<close>-th beginning \<open>k\<close> steps on.\<close>

definition windows_needed :: "nat \<Rightarrow> int \<Rightarrow> int \<Rightarrow> nat" where
  "windows_needed n step start = nat ((int n - start + step - 1) div step)"

definition windows_from :: "string \<Rightarrow> int \<Rightarrow> int \<Rightarrow> int \<Rightarrow> string list" where
  "windows_from s target step start =
     map (\<lambda>k. py_slice s (start + int k * step) (start + int k * step + target)) [0..<windows_needed (length s) step start]"

lemma window_count_stop: "0 < step \<Longrightarrow> int n \<le> start \<Longrightarrow> windows_needed n step start = 0"
  using zdiv_mono1 [of "int n - start + step - 1" "step - 1" step] by (simp add: windows_needed_def)

lemma window_count_Suc:
  assumes "0 < step" "start < int n"
  shows "windows_needed n step start = Suc (windows_needed n step (start + step))"
proof -
  have "(int n - start + step - 1) div step = (int n - start - 1) div step + 1"
    using assms div_add_self2 [of step "int n - start - 1"] by (simp add: algebra_simps)
  moreover have "0 \<le> (int n - start - 1) div step" using assms by (simp add: pos_imp_zdiv_nonneg_iff)
  ultimately show ?thesis by (simp add: windows_needed_def nat_add_distrib)
qed

lemma windows_from_step:
  assumes "0 < step" "start < int (length s)"
  shows "windows_from s target step start = py_slice s start (start + target) # windows_from s target step (start + step)"
proof -
  have "map (\<lambda>k. py_slice s (start + int k * step) (start + int k * step + target)) [Suc 0..<Suc m] =
      map (\<lambda>k. py_slice s (start + step + int k * step) (start + step + int k * step + target)) [0..<m]" for m
    by (simp add: map_Suc_upt [symmetric] algebra_simps del: upt_Suc)
  then show ?thesis by (simp add: windows_from_def window_count_Suc [OF assms] upt_conv_Cons del: upt_Suc)
qed

lemma window_loop_exact:
  "0 < step \<Longrightarrow> window_loop s target step start out = Some (out @ windows_from s target step start)"
proof (induction "nat (int (length s) - start)" arbitrary: start out rule: less_induct)
  case less
  show ?case
  proof (cases "start < int (length s)")
    case True
    then have "nat (int (length s) - (start + step)) < nat (int (length s) - start)" using less.prems by simp
    then show ?thesis using less True by (subst window_loop.simps) (simp add: windows_from_step)
  next
    case False
    then show ?thesis using less.prems
      by (subst window_loop.simps) (simp add: windows_from_def window_count_stop)
  qed
qed

lemma window_exact:
  "window body target overlap =
    Some (if py_strip body = [] then []
          else if int (length (py_strip body)) \<le> target then [py_strip body]
          else windows_from (py_strip body) target (max 1 (target - overlap)) 0)"
  by (simp add: window_def Let_def window_loop_exact)

text \<open>With a positive target each window is a stretch of the text.\<close>

lemma py_slice_nat:
  assumes "0 \<le> i" "0 \<le> t"
  shows "py_slice s i (i + t) = take (nat t) (drop (nat i) s)"
  using assms by (simp add: py_slice_def slice_bound_def drop_take nat_add_distrib min_def)

lemma windows_from_stop: "0 < step \<Longrightarrow> int (length s) \<le> start \<Longrightarrow> windows_from s target step start = []"
  by (simp add: windows_from_def window_count_stop)

lemma windows_cover:
  assumes "0 < step" "step \<le> target" "0 \<le> start" "start < int (length s)"
  shows "windows_from s target step start \<noteq> [] \<and>
    concat (map (take (nat step)) (butlast (windows_from s target step start))) @ last (windows_from s target step start) =
      drop (nat start) s \<and>
    (\<forall>w\<in>set (windows_from s target step start). w \<noteq> [] \<and> length w \<le> nat target)"
  using assms(3,4)
proof (induction "nat (int (length s) - start)" arbitrary: start rule: less_induct)
  case less
  let ?w = "take (nat target) (drop (nat start) s)" and ?rest = "windows_from s target step (start + step)"
  have ws: "windows_from s target step start = ?w # ?rest"
    using windows_from_step [OF assms(1) less.prems(2), of target] py_slice_nat [of start target s] less.prems assms
    by simp
  have w: "?w \<noteq> [] \<and> length ?w \<le> nat target" using less.prems assms by auto
  show ?case
  proof (cases "start + step < int (length s)")
    case True
    have "nat (int (length s) - (start + step)) < nat (int (length s) - start)" using True assms by simp
    then have rest: "?rest \<noteq> [] \<and> concat (map (take (nat step)) (butlast ?rest)) @ last ?rest = drop (nat (start + step)) s \<and>
        (\<forall>w\<in>set ?rest. w \<noteq> [] \<and> length w \<le> nat target)"
      using less.hyps [of "start + step"] True less.prems assms by simp
    have "take (nat step) ?w @ drop (nat (start + step)) s = drop (nat start) s"
    proof -
      have "take (nat step) ?w = take (nat step) (drop (nat start) s)" using assms by (simp add: min_def)
      moreover have "drop (nat (start + step)) s = drop (nat step) (drop (nat start) s)"
        using assms less.prems by (simp add: nat_add_distrib add.commute)
      ultimately show ?thesis by (simp only: append_take_drop_id)
    qed
    then show ?thesis using rest w by (simp add: ws)
  next
    case False
    then have "?rest = []" using windows_from_stop assms by simp
    moreover have "?w = drop (nat start) s" using False less.prems assms by simp
    ultimately show ?thesis using w by (simp add: ws)
  qed
qed

section \<open>The chunks\<close>

lemma number_pieces_ordinals: "map ch_ordinal (number_pieces sec n ps) = [n..<n + length ps]"
  by (induction ps arbitrary: n) (simp_all add: upt_conv_Cons del: upt_Suc)

lemma number_pieces_text: "map (\<lambda>c. (ch_section c, ch_text c)) (number_pieces sec n ps) = map (Pair sec) ps"
  by (induction ps arbitrary: n) simp_all

lemma number_pieces_length [simp]: "length (number_pieces sec n ps) = length ps"
  by (induction ps arbitrary: n) simp_all

lemma chunk_elements_exact:
  "\<exists>cs. chunk_elements target overlap n es = Some cs \<and> map ch_ordinal cs = [n..<n + length cs] \<and>
     map (\<lambda>c. (ch_section c, ch_text c)) cs =
       concat (map (\<lambda>(sec, body). map (Pair sec) (the (window body target overlap))) es)"
proof (induction target overlap n es rule: chunk_elements.induct)
  case (1 target overlap n)
  show ?case by simp
next
  case (2 target overlap n sec body es)
  obtain ps where ps: "window body target overlap = Some ps" by (simp add: window_exact)
  obtain cs where cs: "chunk_elements target overlap (n + length ps) es = Some cs"
    "map ch_ordinal cs = [n + length ps..<n + length ps + length cs]"
    "map (\<lambda>c. (ch_section c, ch_text c)) cs =
       concat (map (\<lambda>(sec, body). map (Pair sec) (the (window body target overlap))) es)"
    using 2 [OF ps] by blast
  then show ?case using upt_add_eq_append [of n "n + length ps" "length cs"]
    by (simp add: ps number_pieces_ordinals number_pieces_text add.assoc)
qed

section \<open>The properties\<close>

text \<open>
  C28. Cutting a text into windows always ends, for every target and overlap, even an overlap of the whole target or a
  negative size, where the step is held at one or above. With a positive target and an overlap that is not negative,
  the windows are none for blank text, otherwise each one is nonempty and within the target, and they lose nothing:
  the new part of every window but the last, followed by the last, is the stripped text.
\<close>

theorem window_terminates_and_covers:
  "\<exists>ws. window body target overlap = Some ws \<and>
    (0 < target \<and> 0 \<le> overlap \<longrightarrow>
      (ws = [] \<longleftrightarrow> py_strip body = []) \<and> list_all (\<lambda>w. w \<noteq> [] \<and> length w \<le> nat target) ws \<and>
      (ws \<noteq> [] \<longrightarrow>
        concat (map (take (nat (max 1 (target - overlap)))) (butlast ws)) @ last ws = py_strip body))"
proof -
  let ?s = "py_strip body" and ?step = "max 1 (target - overlap)"
  show ?thesis
  proof (cases "?s = [] \<or> int (length ?s) \<le> target")
    case True
    then show ?thesis by (auto simp: window_exact)
  next
    case False
    then show ?thesis using windows_cover [of ?step target 0 ?s] by (auto simp: window_exact list_all_iff)
  qed
qed

theorem window_terminates_and_covers_witness:
  "\<exists>ws. window '' abcdefg '' 4 2 = Some ws \<and>
    list_all (\<lambda>w. length w \<le> 4) ws \<and> concat (map (take 2) (butlast ws)) @ last ws = ''abcdefg''"
proof -
  have "py_strip '' abcdefg '' = ''abcdefg''" by code_simp
  then show ?thesis using window_terminates_and_covers [of "'' abcdefg ''" 4 2] by (auto simp: list_all_iff)
qed

text \<open>
  Chunking a document always returns, its chunks numbered from zero without a gap, and their texts are the windows
  of the sections in the order of the document, each under its own section, or of the full text when the extractor
  found no section; no window crosses a section's end.
\<close>

theorem chunk_text_ordered:
  "\<exists>cs. chunk_text src target overlap = Some cs \<and> map ch_ordinal cs = [0..<length cs] \<and>
    map (\<lambda>c. (ch_section c, ch_text c)) cs =
      concat (map (\<lambda>(sec, body). map (Pair sec) (the (window body target overlap)))
        (case src of Raw s \<Rightarrow> [(None, s)] | Extracted es s \<Rightarrow> if es = [] then [(None, s)] else es))"
proof -
  have whole: "\<exists>cs. map_option (number_pieces None 0) (window s target overlap) = Some cs \<and>
      map ch_ordinal cs = [0..<length cs] \<and>
      map (\<lambda>c. (ch_section c, ch_text c)) cs = map (Pair None) (the (window s target overlap))" for s
    by (auto simp: window_exact number_pieces_ordinals number_pieces_text)
  show ?thesis
  proof (cases src)
    case (Raw s)
    then show ?thesis using whole [of s] by (simp add: chunk_text_def)
  next
    case (Extracted es s)
    then show ?thesis using whole [of s] chunk_elements_exact [of target overlap 0 es] by (simp add: chunk_text_def)
  qed
qed

text \<open>A last window no longer than the overlap repeats the end of the one before it.\<close>

lemma trailing_window_repeats: "window ''abcdef'' 4 2 = Some [''abcd'', ''cdef'', ''ef'']"
proof -
  have "py_strip ''abcdef'' = ''abcdef''" by code_simp
  then show ?thesis
    by (simp add: window_exact windows_from_step windows_from_stop py_slice_def slice_bound_def)
qed

end
