(* ===== verification/Review.thy ===== *)
theory Review
  imports Marketplace RemoteAttach
begin

text \<open>
  The life of a store upload: submissions and their verdicts (\<open>src/repositories/store_submissions.py\<close>), entities with
  their versions (\<open>src/repositories/store_entities.py\<close>, \<open>src/store_naming.py\<close>), the review that runs in the background
  (\<open>src/store_guardrails/runner.py\<close>), the two sweeps (\<open>reaper.py\<close>, \<open>purge.py\<close>) and the handlers of
  \<open>app/api/store.py\<close> and \<open>app/api/admin.py\<close> that upload, edit, restore, delete, override, rescan, retry and import. A bundle on
  disk is its content and the slug baked into it. The verdicts of the inline checks and of the model, the hash of a
  bundle, the settings and the failures of the file system are parameters; audit rows, findings and the display
  columns are left out. The check of a status against the list of valid ones stands apart from the writes, whose
  callers pass constants.
\<close>

section \<open>Rows and files\<close>

record bundle_dir =
  bn_content :: string
  bn_slug :: string

record version_entry =
  ve_n :: nat
  ve_hash :: string
  ve_size :: "int option"
  ve_sub :: "string option"

record store_row =
  en_id :: string
  en_owner :: string
  en_username :: string
  en_type :: string
  en_name :: string
  en_synthetic :: string
  en_visibility :: string
  en_version_no :: nat
  en_version :: string
  en_size :: int
  en_history :: "version_entry list"

record submission =
  su_id :: string
  su_entity :: "string option"
  su_submitter :: string
  su_version :: string
  su_status :: string
  su_model :: "string option"
  su_created :: micros
  su_purged :: "micros option"

text \<open>
  The two tables, the live directory of every entity, the directories of its versions, the reviews scheduled, and the
  reviews that have read their submission, with the entity they read.
\<close>

record review_db =
  rv_entities :: "store_row list"
  rv_submissions :: "submission list"
  rv_live :: "string \<rightharpoonup> bundle_dir"
  rv_versions :: "string \<times> nat \<rightharpoonup> bundle_dir"
  rv_queue :: "string list"
  rv_flight :: "(string \<times> string option) list"

datatype store_error = EntityNotFound | SubmissionNotFound | NotOwner | TypeLocked | PriorVersionPending string
  | InvalidName | ConflictOwnerName | ConflictGlobalSuffix | InlineRejected | QuotaReached int | ConstraintViolated
  | VersionNotApproved string | VersionNotFound | AlreadyCurrent | HardDeleteAdminOnly | Quarantined
  | CannotOverride string | CannotRetry string | WithoutEntity | BundleMissing | InvalidStatus | ArchiveRenameFailed
  | InvalidMode | EntryWithoutFiles | InvalidType

section \<open>The submissions repository\<close>

definition VALID_STATUSES :: "string list" where
  "VALID_STATUSES = [''pending_inline'', ''blocked_inline'', ''pending_llm'', ''approved'', ''blocked_llm'',
     ''review_error'', ''overridden'', ''deleted'', ''archived'']"

definition TERMINAL_STATUSES :: "string list" where
  "TERMINAL_STATUSES = [''approved'', ''overridden'', ''blocked_inline'']"

definition VALID_TYPES :: "string list" where
  "VALID_TYPES = [''skill'', ''agent'', ''plugin'']"

definition get_submission :: "string \<Rightarrow> review_db \<Rightarrow> submission option" where
  "get_submission i st = find (\<lambda>s. su_id s = i) (rv_submissions st)"

definition update_submissions :: "(submission \<Rightarrow> bool) \<Rightarrow> (submission \<Rightarrow> submission) \<Rightarrow> review_db \<Rightarrow> review_db" where
  "update_submissions P f st = st\<lparr>rv_submissions := map (\<lambda>s. if P s then f s else s) (rv_submissions st)\<rparr>"

definition create_submission ::
  "micros \<Rightarrow> string \<Rightarrow> string option \<Rightarrow> string \<Rightarrow> string \<Rightarrow> string \<Rightarrow> review_db \<Rightarrow> store_error + review_db" where
  "create_submission now i ent submitter version status st =
     (if status \<notin> set VALID_STATUSES then Inl InvalidStatus
      else if get_submission i st \<noteq> None then Inl ConstraintViolated
      else Inr (st\<lparr>rv_submissions := rv_submissions st @
        [\<lparr>su_id = i, su_entity = ent, su_submitter = submitter, su_version = version, su_status = status,
          su_model = None, su_created = now, su_purged = None\<rparr>]\<rparr>))"

text \<open>The compare-and-swap of \<open>update_status\<close>: a model given is recorded, a terminal row is left alone unless forced.\<close>

definition write_status :: "string \<Rightarrow> string \<Rightarrow> string option \<Rightarrow> bool \<Rightarrow> review_db \<Rightarrow> bool \<times> review_db" where
  "write_status i status model force st =
     (let P = (\<lambda>s. su_id s = i \<and> (force \<or> su_status s \<notin> set TERMINAL_STATUSES));
          f = (\<lambda>s. s\<lparr>su_status := status, su_model := (case model of None \<Rightarrow> su_model s | Some m \<Rightarrow> Some m)\<rparr>)
      in (list_ex P (rv_submissions st), update_submissions P f st))"

definition update_submission_status ::
  "string \<Rightarrow> string \<Rightarrow> string option \<Rightarrow> bool \<Rightarrow> review_db \<Rightarrow> store_error + bool \<times> review_db" where
  "update_submission_status i status model force st =
     (if status \<notin> set VALID_STATUSES then Inl InvalidStatus else Inr (write_status i status model force st))"

definition set_inline_result :: "string \<Rightarrow> string \<Rightarrow> review_db \<Rightarrow> review_db" where
  "set_inline_result i status st = update_submissions (\<lambda>s. su_id s = i) (su_status_update (\<lambda>_. status)) st"

definition set_override :: "string \<Rightarrow> review_db \<Rightarrow> review_db" where
  "set_override i st = update_submissions (\<lambda>s. su_id s = i) (su_status_update (\<lambda>_. ''overridden'')) st"

definition mark_deleted_for_entity :: "string \<Rightarrow> review_db \<Rightarrow> review_db \<times> nat" where
  "mark_deleted_for_entity e st =
     (update_submissions (\<lambda>s. su_entity s = Some e) (su_status_update (\<lambda>_. ''deleted'')) st,
      length (filter (\<lambda>s. su_entity s = Some e) (rv_submissions st)))"

definition mark_bundle_purged :: "micros \<Rightarrow> string \<Rightarrow> review_db \<Rightarrow> review_db" where
  "mark_bundle_purged now i st = update_submissions (\<lambda>s. su_id s = i) (\<lambda>s. s\<lparr>su_purged := Some now, su_entity := None\<rparr>) st"

definition count_blocked_since :: "string \<Rightarrow> micros \<Rightarrow> review_db \<Rightarrow> nat" where
  "count_blocked_since who since st =
     length (filter (\<lambda>s. su_submitter s = who \<and> su_status s \<in> {''blocked_llm'', ''review_error''} \<and> since \<le> su_created s)
       (rv_submissions st))"

definition reap_stuck_pending_llm :: "micros \<Rightarrow> int \<Rightarrow> review_db \<Rightarrow> review_db \<times> (string \<times> string) list" where
  "reap_stuck_pending_llm now grace st =
     (let P = (\<lambda>s. su_status s = ''pending_llm'' \<and> su_created s < now - grace * 1000000)
      in (update_submissions P (su_status_update (\<lambda>_. ''review_error'')) st,
          map (\<lambda>s. (su_id s, su_submitter s)) (filter P (rv_submissions st))))"

definition find_purge_candidates :: "string list \<Rightarrow> micros \<Rightarrow> review_db \<Rightarrow> (string \<times> string option) list" where
  "find_purge_candidates statuses older st =
     map (\<lambda>s. (su_id s, su_entity s))
       (filter (\<lambda>s. su_status s \<in> set statuses \<and> su_purged s = None \<and> su_created s < older) (rv_submissions st))"

text \<open>The newest row of an entity; of rows of one instant the one inserted last.\<close>

definition latest_for_entity :: "string \<Rightarrow> review_db \<Rightarrow> submission option" where
  "latest_for_entity e st =
     (case sort_key (\<lambda>s. - su_created s) (rev (filter (\<lambda>s. su_entity s = Some e) (rv_submissions st))) of
        [] \<Rightarrow> None
      | s # _ \<Rightarrow> Some s)"

definition delete_submission_row :: "string \<Rightarrow> review_db \<Rightarrow> review_db" where
  "delete_submission_row i st = st\<lparr>rv_submissions := filter (\<lambda>s. su_id s \<noteq> i) (rv_submissions st)\<rparr>"

section \<open>Names of archived rows\<close>

definition archive_marker :: string where
  "archive_marker = ''__archived__''"

definition make_archive_name :: "string \<Rightarrow> int \<Rightarrow> string" where
  "make_archive_name name epoch = name @ archive_marker @ py_str_int epoch"

text \<open>Where the marker with digits up to the end begins, if anywhere.\<close>

definition archive_cut :: "string \<Rightarrow> nat option" where
  "archive_cut name =
     (let core = drop_final_newline name
      in find (\<lambda>k. prefix archive_marker (drop k core) \<and> drop (k + length archive_marker) core \<noteq> [] \<and>
           list_all is_digit (drop (k + length archive_marker) core)) [0..<length core])"

definition is_archived_name :: "string \<Rightarrow> bool" where
  "is_archived_name name \<longleftrightarrow> archive_cut name \<noteq> None"

definition strip_archive_suffix :: "string \<Rightarrow> string" where
  "strip_archive_suffix name =
     (case archive_cut name of
        None \<Rightarrow> name
      | Some k \<Rightarrow> take k name @ drop (length (drop_final_newline name)) name)"

definition suffixed_name :: "string \<Rightarrow> string \<Rightarrow> string" where
  "suffixed_name name username = name @ ''-by-'' @ username"

section \<open>The entities repository\<close>

definition get_entity :: "string \<Rightarrow> review_db \<Rightarrow> store_row option" where
  "get_entity i st = find (\<lambda>e. en_id e = i) (rv_entities st)"

definition update_entities :: "string \<Rightarrow> (store_row \<Rightarrow> store_row) \<Rightarrow> review_db \<Rightarrow> review_db" where
  "update_entities i f st = st\<lparr>rv_entities := map (\<lambda>e. if en_id e = i then f e else e) (rv_entities st)\<rparr>"

text \<open>\<open>create\<close>, with the constraints of the table: the types, and the keys: the id, the owner with the name, the synthetic name.\<close>

definition create_entity :: "store_row \<Rightarrow> review_db \<Rightarrow> store_error + review_db" where
  "create_entity e st =
     (if en_type e \<notin> set VALID_TYPES \<or> list_ex (\<lambda>r. en_id r = en_id e \<or> en_owner r = en_owner e \<and> en_name r = en_name e \<or>
           en_synthetic r = en_synthetic e) (rv_entities st)
      then Inl ConstraintViolated else Inr (st\<lparr>rv_entities := rv_entities st @ [e]\<rparr>))"

fun backfill_submission :: "nat \<Rightarrow> string \<Rightarrow> version_entry list \<Rightarrow> version_entry list" where
  "backfill_submission n s [] = []"
| "backfill_submission n s (h # hs) = (if ve_n h = n then h\<lparr>ve_sub := Some s\<rparr> # hs else h # backfill_submission n s hs)"

definition update_history_submission_id :: "string \<Rightarrow> nat \<Rightarrow> string \<Rightarrow> review_db \<Rightarrow> review_db" where
  "update_history_submission_id i n s st = update_entities i (en_history_update (backfill_submission n s)) st"

text \<open>Leaving the archive, a row gets its name back, or the next one that is free.\<close>

definition restored_name :: "micros \<Rightarrow> store_row \<Rightarrow> review_db \<Rightarrow> string" where
  "restored_name now e st =
     (if \<not> is_archived_name (en_name e) then en_name e
      else let stripped = strip_archive_suffix (en_name e);
               taken = (\<lambda>c. list_ex (\<lambda>r. en_owner r = en_owner e \<and> en_name r = c \<and> en_id r \<noteq> en_id e) (rv_entities st));
               numbered = (\<lambda>n. stripped @ ''-restored-'' @ py_str_int n)
           in if \<not> taken stripped then stripped
              else case find (\<lambda>n. \<not> taken (numbered (int n))) [1..<101] of
                     Some n \<Rightarrow> numbered (int n)
                   | None \<Rightarrow> numbered (now div 1000000))"

definition set_visibility :: "micros \<Rightarrow> string \<Rightarrow> string \<Rightarrow> review_db \<Rightarrow> review_db" where
  "set_visibility now i status st =
     (if status = ''archived'' then update_entities i (en_visibility_update (\<lambda>_. status)) st
      else update_entities i (\<lambda>e. e\<lparr>en_visibility := status, en_name := restored_name now e st\<rparr>) st)"

definition set_visibility_if_pending :: "string \<Rightarrow> string \<Rightarrow> review_db \<Rightarrow> bool \<times> review_db" where
  "set_visibility_if_pending i status st =
     (case get_entity i st of
        None \<Rightarrow> (False, st)
      | Some e \<Rightarrow>
          if en_visibility e \<noteq> ''pending'' then (False, st)
          else (True, update_entities i (en_visibility_update (\<lambda>_. status)) st))"

definition archive_entity :: "micros \<Rightarrow> string \<Rightarrow> review_db \<Rightarrow> (string \<times> string) \<times> review_db" where
  "archive_entity now i st =
     (case get_entity i st of
        None \<Rightarrow> (([], []), st)
      | Some e \<Rightarrow>
          if en_visibility e = ''archived'' \<and> is_archived_name (en_name e) then ((en_name e, en_name e), st)
          else let new = make_archive_name (en_name e) (now div 1000000)
               in ((en_name e, new),
                   update_entities i (\<lambda>e. e\<lparr>en_visibility := ''archived'', en_name := new,
                     en_synthetic := suffixed_name new (en_username e)\<rparr>) st))"

definition next_version_no :: "store_row \<Rightarrow> nat" where
  "next_version_no e = (if en_history e = [] then 0 else Max (set (map ve_n (en_history e)))) + 1"

definition append_version_history ::
  "string \<Rightarrow> string \<Rightarrow> int option \<Rightarrow> string option \<Rightarrow> review_db \<Rightarrow> store_error + nat \<times> review_db" where
  "append_version_history i hash sz s st =
     (case get_entity i st of
        None \<Rightarrow> Inl EntityNotFound
      | Some e \<Rightarrow>
          let n = next_version_no e
          in Inr (n, update_entities i (en_history_update (\<lambda>hs. hs @
               [\<lparr>ve_n = n, ve_hash = hash, ve_size = sz, ve_sub = s\<rparr>])) st))"

definition get_version :: "nat \<Rightarrow> store_row \<Rightarrow> version_entry option" where
  "get_version n e = find (\<lambda>h. ve_n h = n) (en_history e)"

definition promote_version :: "string \<Rightarrow> nat \<Rightarrow> review_db \<Rightarrow> bool \<times> review_db" where
  "promote_version i n st =
     (case Option.bind (get_entity i st) (get_version n) of
        None \<Rightarrow> (False, st)
      | Some h \<Rightarrow>
          (True, update_entities i (\<lambda>e. e\<lparr>en_version_no := n, en_version := ve_hash h,
             en_size := (case ve_size h of None \<Rightarrow> en_size e | Some z \<Rightarrow> z)\<rparr>) st))"

definition delete_entity_row :: "string \<Rightarrow> review_db \<Rightarrow> review_db" where
  "delete_entity_row i st = st\<lparr>rv_entities := filter (\<lambda>e. en_id e \<noteq> i) (rv_entities st)\<rparr>"

definition remove_entity_dir :: "string \<Rightarrow> review_db \<Rightarrow> review_db" where
  "remove_entity_dir i st =
     st\<lparr>rv_live := (rv_live st)(i := None), rv_versions := (\<lambda>(e, n). if e = i then None else rv_versions st (e, n))\<rparr>"

section \<open>Promotion\<close>

definition version_no_for_submission :: "store_row \<Rightarrow> string \<Rightarrow> nat option" where
  "version_no_for_submission e s = map_option ve_n (find (\<lambda>h. ve_sub h = Some s) (en_history e))"

text \<open>
  Replacing the live directory by a version's: \<open>broken\<close> says for which versions of which entities copying or renaming
  raises, in which case the live directory is put back. The result is whether it was replaced.
\<close>

definition swap_live_to_version :: "(string \<Rightarrow> nat \<Rightarrow> bool) \<Rightarrow> string \<Rightarrow> nat \<Rightarrow> review_db \<Rightarrow> bool \<times> review_db" where
  "swap_live_to_version broken i n st =
     (case rv_versions st (i, n) of
        None \<Rightarrow> (False, st)
      | Some b \<Rightarrow> if broken i n then (False, st) else (True, st\<lparr>rv_live := (rv_live st)(i \<mapsto> b)\<rparr>))"

definition promote_to_version :: "(string \<Rightarrow> nat \<Rightarrow> bool) \<Rightarrow> string \<Rightarrow> nat \<Rightarrow> review_db \<Rightarrow> nat option \<times> review_db" where
  "promote_to_version broken i n st =
     (let prior = (case get_entity i st of None \<Rightarrow> 0 | Some e \<Rightarrow> en_version_no e);
          (swapped, st1) = swap_live_to_version broken i n st
      in if \<not> swapped then (None, st)
         else let (promoted, st2) = promote_version i n st1
              in if promoted then (Some n, st2)
                 else (None, if prior \<noteq> 0 then snd (swap_live_to_version broken i prior st2) else st2))"

section \<open>The review in the background\<close>

datatype review_verdict = Errored | Safe | Unsafe

text \<open>
  What a review meets: the verdict computed before the upload, with the model that gave it; whether the bundle is still
  on disk; the configured model, \<open>None\<close> where the configuration raises; and the verdict of the model.
\<close>

record review =
  rw_precheck :: "(review_verdict \<times> string option) option"
  rw_dir :: bool
  rw_model :: "string option"
  rw_verdict :: review_verdict

datatype outcome = NoBundle | NoConfig | Judged review_verdict string | Raised

definition review_outcome :: "review \<Rightarrow> outcome" where
  "review_outcome r =
     (case rw_precheck r of
        Some (v, m) \<Rightarrow>
          if v \<noteq> Errored then
            (if or_default m [] \<noteq> [] then Judged v (or_default m [])
             else case rw_model r of None \<Rightarrow> Raised | Some m' \<Rightarrow> Judged v m')
          else if \<not> rw_dir r then NoBundle
          else (case rw_model r of None \<Rightarrow> NoConfig | Some m' \<Rightarrow> Judged (rw_verdict r) m')
      | None \<Rightarrow>
          if \<not> rw_dir r then NoBundle
          else (case rw_model r of None \<Rightarrow> NoConfig | Some m' \<Rightarrow> Judged (rw_verdict r) m'))"

text \<open>After the status is written: the flip of a pending entity, and the promotion of a version that is newer.\<close>

definition publish_judged :: "(string \<Rightarrow> nat \<Rightarrow> bool) \<Rightarrow> string \<Rightarrow> string \<Rightarrow> review_db \<Rightarrow> review_db" where
  "publish_judged broken s i st =
     (let st1 = snd (set_visibility_if_pending i ''approved'' st)
      in case get_entity i st1 of
           None \<Rightarrow> st1
         | Some e \<Rightarrow>
             if en_visibility e \<noteq> ''approved'' then st1
             else case version_no_for_submission e s of
                    None \<Rightarrow> st1
                  | Some n \<Rightarrow> if n > en_version_no e then snd (promote_to_version broken i n st1) else st1)"

definition land_review ::
  "(string \<Rightarrow> nat \<Rightarrow> bool) \<Rightarrow> string \<Rightarrow> string option \<Rightarrow> outcome \<Rightarrow> review_db \<Rightarrow> review_db" where
  "land_review broken s ent oc st =
     (case oc of
        Raised \<Rightarrow> st
      | Judged Errored m \<Rightarrow> snd (write_status s ''review_error'' (Some m) False st)
      | Judged Unsafe m \<Rightarrow> snd (write_status s ''blocked_llm'' (Some m) False st)
      | Judged Safe m \<Rightarrow>
          let (written, st1) = write_status s ''approved'' (Some m) False st; i = or_default ent []
          in if \<not> written \<or> i = [] then st1 else publish_judged broken s i st1
      | _ \<Rightarrow> snd (write_status s ''review_error'' None False st))"

text \<open>\<open>run_llm_review\<close> undisturbed: the submission is read and, unless it vanished, the outcome lands.\<close>

definition run_llm_review :: "(string \<Rightarrow> nat \<Rightarrow> bool) \<Rightarrow> string \<Rightarrow> review \<Rightarrow> review_db \<Rightarrow> review_db" where
  "run_llm_review broken s r st =
     (case get_submission s st of
        None \<Rightarrow> st
      | Some sub \<Rightarrow> land_review broken s (su_entity sub) (review_outcome r) st)"

section \<open>The author's requests\<close>

record guardrails =
  gr_enabled :: bool
  gr_ready :: bool
  gr_model :: string
  gr_quota :: int

text \<open>The hash and the size of a bundle, and the versions whose copy or rename raises.\<close>

record world =
  wd_hash :: "bundle_dir \<Rightarrow> string"
  wd_size :: "bundle_dir \<Rightarrow> int"
  wd_broken :: "string \<Rightarrow> nat \<Rightarrow> bool"

definition store_name_ok :: "string \<Rightarrow> bool" where
  "store_name_ok name =
     (case drop_final_newline name of
        [] \<Rightarrow> False
      | c # cs \<Rightarrow> is_alpha c \<and> \<not> is_upper c \<and> length cs \<le> 63 \<and>
          list_all (\<lambda>x. is_alpha x \<and> \<not> is_upper x \<or> is_digit x \<or> x = CHR ''-'') cs)"

definition owner_name_taken :: "string \<Rightarrow> string \<Rightarrow> review_db \<Rightarrow> bool" where
  "owner_name_taken who name st \<longleftrightarrow>
     list_ex (\<lambda>e. en_owner e = who \<and> en_name e = name \<and> en_visibility e \<noteq> ''archived'') (rv_entities st)"

definition synthetic_name_taken :: "string \<Rightarrow> string option \<Rightarrow> review_db \<Rightarrow> bool" where
  "synthetic_name_taken name but st \<longleftrightarrow>
     list_ex (\<lambda>e. en_synthetic e = name \<and> (or_default but [] = [] \<or> Some (en_id e) \<noteq> but) \<and> en_visibility e \<noteq> ''archived'')
       (rv_entities st)"

record upload =
  ul_entity :: string
  ul_submission :: string
  ul_user :: string
  ul_username :: string
  ul_type :: string
  ul_name :: string
  ul_content :: string
  ul_inline :: bool
  ul_private :: bool

definition schedule_review :: "guardrails \<Rightarrow> string \<Rightarrow> review_db \<Rightarrow> review_db" where
  "schedule_review g s st = (if gr_enabled g \<and> gr_ready g then st\<lparr>rv_queue := rv_queue st @ [s]\<rparr> else st)"

definition upload_entity :: "world \<Rightarrow> guardrails \<Rightarrow> micros \<Rightarrow> upload \<Rightarrow> review_db \<Rightarrow> store_error + review_db" where
  "upload_entity w g now u st =
     (let i = ul_entity u; s = ul_submission u; slug = suffixed_name (ul_name u) (ul_username u);
          b = \<lparr>bn_content = ul_content u, bn_slug = slug\<rparr>;
          blocked = count_blocked_since (ul_user u) (now - 86400000000) st
      in if ul_type u \<notin> set VALID_TYPES then Inl InvalidType
         else if gr_quota g > 0 \<and> int blocked \<ge> gr_quota g then Inl (QuotaReached (int blocked))
         else if \<not> store_name_ok (ul_name u) then Inl InvalidName
         else if owner_name_taken (ul_user u) (ul_name u) st then Inl ConflictOwnerName
         else if synthetic_name_taken slug None st then Inl ConflictGlobalSuffix
         else if \<not> ul_inline u then Inl InlineRejected
         else rbind (create_entity
                \<lparr>en_id = i, en_owner = ul_user u, en_username = ul_username u, en_type = ul_type u, en_name = ul_name u,
                 en_synthetic = slug, en_visibility = (if gr_enabled g then ''pending'' else ''approved''),
                 en_version_no = 1, en_version = wd_hash w b, en_size = wd_size w b,
                 en_history = [\<lparr>ve_n = 1, ve_hash = wd_hash w b,
                   ve_size = (if wd_size w b = 0 then None else Some (wd_size w b)), ve_sub = None\<rparr>]\<rparr>
                (st\<lparr>rv_live := (rv_live st)(i \<mapsto> b), rv_versions := (rv_versions st)((i, 1) \<mapsto> b)\<rparr>)) (\<lambda>st1.
              rbind (create_submission now s (Some i) (ul_user u) (wd_hash w b)
                (if gr_enabled g then ''pending_llm'' else ''approved'') st1) (\<lambda>st2.
              let st3 = schedule_review g s (update_history_submission_id i 1 s st2)
              in Inr (if ul_private u then set_visibility now i ''hidden'' st3 else st3))))"

text \<open>The gate on a review in flight, and the version that an edit or a restore adds.\<close>

definition pending_review :: "string \<Rightarrow> review_db \<Rightarrow> string option" where
  "pending_review i st =
     (case latest_for_entity i st of
        None \<Rightarrow> None
      | Some s \<Rightarrow> if su_status s \<in> {''pending_inline'', ''pending_llm''} then Some (su_id s) else None)"

definition add_version ::
  "world \<Rightarrow> guardrails \<Rightarrow> micros \<Rightarrow> string \<Rightarrow> string \<Rightarrow> string \<Rightarrow> string \<Rightarrow> int \<Rightarrow> review_db \<Rightarrow> store_error + review_db" where
  "add_version w g now who i s hash sz st =
     rbind (create_submission now s (Some i) who hash (if gr_enabled g then ''pending_llm'' else ''approved'') st) (\<lambda>st1.
       rbind (append_version_history i hash (Some sz) (Some s) st1) (\<lambda>(n, st2).
         Inr (if gr_enabled g then schedule_review g s st2 else snd (promote_to_version (wd_broken w) i n st2))))"

text \<open>The directory that a new version is staged in.\<close>

definition current_version_no :: "store_row \<Rightarrow> nat" where
  "current_version_no e = (if en_version_no e = 0 then 1 else en_version_no e)"

definition staged_version_no :: "store_row \<Rightarrow> nat" where
  "staged_version_no e = (if en_history e = [] then current_version_no e else Max (set (map ve_n (en_history e)))) + 1"

record edit =
  ed_submission :: string
  ed_type :: "string option"
  ed_name :: "string option"
  ed_file :: "string option"
  ed_inline :: bool

definition edit_rename :: "string \<Rightarrow> store_row \<Rightarrow> edit \<Rightarrow> review_db \<Rightarrow> store_error + string option" where
  "edit_rename i e ed st =
     (let new = py_strip (or_default (ed_name ed) [])
      in if new = [] \<or> new = en_name e then Inr None
         else if \<not> store_name_ok new then Inl InvalidName
         else if owner_name_taken (en_owner e) new st then Inl ConflictOwnerName
         else if synthetic_name_taken (suffixed_name new (en_username e)) (Some i) st then Inl ConflictGlobalSuffix
         else Inr (Some new))"

text \<open>The slug of a baked tree is replaced by the renamed one; a tree that is not there stays so.\<close>

definition rename_baked_tree :: "string \<Rightarrow> bundle_dir \<Rightarrow> bundle_dir" where
  "rename_baked_tree slug b = b\<lparr>bn_slug := slug\<rparr>"

definition rename_row :: "string \<Rightarrow> string option \<Rightarrow> review_db \<Rightarrow> review_db" where
  "rename_row i new st =
     (case new of
        None \<Rightarrow> st
      | Some n \<Rightarrow> update_entities i (\<lambda>e. e\<lparr>en_name := n, en_synthetic := suffixed_name n (en_username e)\<rparr>) st)"

definition edit_entity ::
  "world \<Rightarrow> guardrails \<Rightarrow> micros \<Rightarrow> string \<Rightarrow> bool \<Rightarrow> string \<Rightarrow> edit \<Rightarrow> review_db \<Rightarrow> store_error + review_db" where
  "edit_entity w g now who admin i ed st =
     (case get_entity i st of
        None \<Rightarrow> Inl EntityNotFound
      | Some e \<Rightarrow>
          if en_owner e \<noteq> who \<and> \<not> admin then Inl NotOwner
          else if ed_type ed \<noteq> None \<and> ed_type ed \<noteq> Some (en_type e) then Inl TypeLocked
          else case pending_review i st of
                 Some s \<Rightarrow> Inl (PriorVersionPending s)
               | None \<Rightarrow> rbind (edit_rename i e ed st) (\<lambda>rename.
                   let bake = (\<lambda>b. case rename of None \<Rightarrow> b | Some n \<Rightarrow> rename_baked_tree (suffixed_name n (en_username e)) b)
                   in case ed_file ed of
                        None \<Rightarrow> Inr (rename_row i rename
                          (st\<lparr>rv_live := (rv_live st)(i := map_option bake (rv_live st i))\<rparr>))
                      | Some content \<Rightarrow>
                          if \<not> ed_inline ed then Inl InlineRejected
                          else let b = \<lparr>bn_content = content, bn_slug = en_synthetic e\<rparr>
                               in add_version w g now who i (ed_submission ed) (wd_hash w b) (wd_size w (bake b))
                                    (rename_row i rename
                                      (st\<lparr>rv_versions := (rv_versions st)((i, staged_version_no e) \<mapsto> bake b)\<rparr>))))"

text \<open>A prior approval of the same bytes by the same model.\<close>

definition reusable_verdict :: "store_row \<Rightarrow> string \<Rightarrow> string \<Rightarrow> review_db \<Rightarrow> string option" where
  "reusable_verdict e hash model st =
     Option.bind (find (\<lambda>h. ve_hash h = hash \<and> or_default (ve_sub h) [] \<noteq> [] \<and>
        (case get_submission (or_default (ve_sub h) []) st of
           None \<Rightarrow> False
         | Some s \<Rightarrow> su_status s = ''approved'' \<and> or_default (su_model s) [] \<noteq> [] \<and> su_model s = Some model)) (en_history e))
       ve_sub"

definition restore_version ::
  "world \<Rightarrow> guardrails \<Rightarrow> micros \<Rightarrow> string \<Rightarrow> bool \<Rightarrow> bool \<Rightarrow> string \<Rightarrow> nat \<Rightarrow> string \<Rightarrow> review_db \<Rightarrow> store_error + review_db" where
  "restore_version w g now who admin inline i n s st =
     (case get_entity i st of
        None \<Rightarrow> Inl EntityNotFound
      | Some e \<Rightarrow>
          if en_owner e \<noteq> who \<and> \<not> admin then Inl NotOwner
          else case pending_review i st of
                 Some p \<Rightarrow> Inl (PriorVersionPending p)
               | None \<Rightarrow>
                   let source_sub = or_default (Option.bind (get_version n e) ve_sub) [];
                       refused = (case get_submission source_sub st of
                          None \<Rightarrow> None
                        | Some x \<Rightarrow> if source_sub \<noteq> [] \<and> su_status x \<noteq> ''approved'' then Some (su_status x) else None)
                   in case refused of
                        Some x \<Rightarrow> Inl (VersionNotApproved x)
                      | None \<Rightarrow>
                          (case rv_versions st (i, n) of
                             None \<Rightarrow> Inl VersionNotFound
                           | Some b \<Rightarrow>
                               if n = current_version_no e then Inl AlreadyCurrent
                               else if \<not> inline then Inl InlineRejected
                               else let st1 = st\<lparr>rv_versions := (rv_versions st)((i, staged_version_no e) \<mapsto> b)\<rparr>;
                                        hash = wd_hash w b; sz = wd_size w b
                                    in if gr_enabled g \<and> gr_ready g \<and> reusable_verdict e hash (gr_model g) st \<noteq> None
                                       then rbind (create_submission now s (Some i) who hash ''approved'' st1) (\<lambda>st2.
                                              rbind (append_version_history i hash (Some sz) (Some s)
                                                  (snd (write_status s ''approved'' (Some (gr_model g)) True st2)))
                                                (\<lambda>(m, st3). Inr (if m > en_version_no e
                                                   then snd (promote_to_version (wd_broken w) i m st3) else st3)))
                                       else add_version w g now who i s hash sz st1))"

definition ever_adverse :: "string \<Rightarrow> review_db \<Rightarrow> bool" where
  "ever_adverse i st \<longleftrightarrow>
     list_ex (\<lambda>s. su_entity s = Some i \<and> su_status s \<in> set BLOCKING_SUBMISSION_STATUSES) (rv_submissions st)"

definition is_own_unflagged_private :: "store_row \<Rightarrow> string \<Rightarrow> review_db \<Rightarrow> bool" where
  "is_own_unflagged_private e who st \<longleftrightarrow>
     en_id e \<noteq> [] \<and> en_visibility e = ''hidden'' \<and> en_owner e = who \<and> \<not> ever_adverse (en_id e) st"

text \<open>
  Deleting: the hard way drops everything, the soft one archives and renames the live tree; where that renaming raises,
  the request fails and the row is put back.
\<close>

definition delete_entity ::
  "micros \<Rightarrow> string \<Rightarrow> bool \<Rightarrow> bool \<Rightarrow> bool \<Rightarrow> string \<Rightarrow> review_db \<Rightarrow> store_error option \<times> review_db" where
  "delete_entity now who admin hard renames i st =
     (case get_entity i st of
        None \<Rightarrow> (Some EntityNotFound, st)
      | Some e \<Rightarrow>
          if en_owner e \<noteq> who \<and> \<not> admin then (Some NotOwner, st)
          else if hard \<and> \<not> admin then (Some HardDeleteAdminOnly, st)
          else if en_visibility e \<notin> {''approved'', ''archived''} \<and> ever_adverse i st \<and> \<not> admin \<and>
                  \<not> is_own_unflagged_private e who st then (Some Quarantined, st)
          else if hard then (None, remove_entity_dir i (delete_entity_row i (fst (mark_deleted_for_entity i st))))
          else let ((old, new), st1) = archive_entity now i st
               in if old = [] \<or> new = [] \<or> old = new then (None, st1)
                  else if renames
                  then (None, st1\<lparr>rv_live := (rv_live st1)(i := map_option (rename_baked_tree (suffixed_name new (en_username e)))
                         (rv_live st1 i))\<rparr>)
                  else (Some ArchiveRenameFailed,
                        set_visibility now i (if en_visibility e = [] then ''approved'' else en_visibility e) st1))"

section \<open>The administrator's requests\<close>

definition override_submission :: "world \<Rightarrow> micros \<Rightarrow> string \<Rightarrow> review_db \<Rightarrow> store_error + review_db" where
  "override_submission w now s st =
     (case get_submission s st of
        None \<Rightarrow> Inl SubmissionNotFound
      | Some sub \<Rightarrow>
          let i = or_default (su_entity sub) []
          in if su_status sub \<notin> {''blocked_inline'', ''blocked_llm'', ''review_error'', ''pending_llm''}
             then Inl (CannotOverride (su_status sub))
             else if i = [] then Inl WithoutEntity
             else let st1 = set_visibility now i ''approved'' (set_override s st)
                  in Inr (case get_entity i st1 of
                            None \<Rightarrow> st1
                          | Some e \<Rightarrow>
                              (case version_no_for_submission e s of
                                 None \<Rightarrow> st1
                               | Some n \<Rightarrow>
                                   if n > en_version_no e then snd (promote_to_version (wd_broken w) i n st1) else st1)))"

text \<open>The bundle that a submission stands for: its version's directory, or the live one.\<close>

definition submitted_bundle :: "string \<Rightarrow> string \<Rightarrow> review_db \<Rightarrow> bundle_dir option" where
  "submitted_bundle i s st =
     (case Option.bind (get_entity i st) (\<lambda>e. version_no_for_submission e s) of
        None \<Rightarrow> rv_live st i
      | Some n \<Rightarrow> (case rv_versions st (i, n) of None \<Rightarrow> rv_live st i | Some b \<Rightarrow> Some b))"

definition rescan_submission :: "world \<Rightarrow> guardrails \<Rightarrow> micros \<Rightarrow> bool \<Rightarrow> string \<Rightarrow> review_db \<Rightarrow> store_error + review_db" where
  "rescan_submission w g now inline s st =
     (case get_submission s st of
        None \<Rightarrow> Inl SubmissionNotFound
      | Some sub \<Rightarrow>
          let i = or_default (su_entity sub) []
          in if i = [] then Inl WithoutEntity
             else if submitted_bundle i s st = None then Inl BundleMissing
             else if \<not> inline then Inr (set_visibility now i ''hidden'' (set_inline_result s ''blocked_inline'' st))
             else if gr_enabled g
             then Inr (schedule_review g s (set_visibility now i ''pending'' (set_inline_result s ''pending_llm'' st)))
             else let st1 = set_visibility now i ''approved'' (set_inline_result s ''approved'' st)
                  in Inr (case (Option.bind (get_entity i st) (\<lambda>e. version_no_for_submission e s), get_entity i st1) of
                            (Some n, Some e) \<Rightarrow>
                              if n > en_version_no e then snd (promote_to_version (wd_broken w) i n st1) else st1
                          | _ \<Rightarrow> st1))"

definition retry_submission :: "string \<Rightarrow> review_db \<Rightarrow> store_error + review_db" where
  "retry_submission s st =
     (case get_submission s st of
        None \<Rightarrow> Inl SubmissionNotFound
      | Some sub \<Rightarrow>
          let i = or_default (su_entity sub) []
          in if su_status sub \<notin> {''review_error'', ''blocked_llm'', ''pending_llm''} then Inl (CannotRetry (su_status sub))
             else if i = [] then Inl WithoutEntity
             else if submitted_bundle i s st = None then Inl BundleMissing
             else let st1 = snd (write_status s ''pending_llm'' None False st) in Inr (st1\<lparr>rv_queue := rv_queue st1 @ [s]\<rparr>))"

definition delete_submission :: "string \<Rightarrow> review_db \<Rightarrow> store_error + review_db" where
  "delete_submission s st =
     (case get_submission s st of
        None \<Rightarrow> Inl SubmissionNotFound
      | Some sub \<Rightarrow>
          let i = or_default (su_entity sub) []
          in Inr (delete_submission_row s (if i = [] then st else remove_entity_dir i (delete_entity_row i st))))"

section \<open>Restoring a bundle of entities\<close>

text \<open>
  An entry of an imported bundle, with the owner that its email address resolved to: whether the archive has files of it,
  its live tree, and the version trees, of which an exported bundle has none.
\<close>

record import_entry =
  im_id :: string
  im_owner :: string
  im_username :: string
  im_type :: string
  im_name :: string
  im_version :: string
  im_size :: int
  im_files :: bool
  im_live :: "bundle_dir option"
  im_versions :: "(nat \<times> bundle_dir) list"

datatype import_outcome = Imported | Replaced | Skipped

definition import_files :: "import_entry \<Rightarrow> bool \<Rightarrow> review_db \<Rightarrow> review_db" where
  "import_files x replace st =
     (let st1 = (if replace then remove_entity_dir (im_id x) st else st)
      in st1\<lparr>rv_live := (case im_live x of None \<Rightarrow> rv_live st1 | Some b \<Rightarrow> (rv_live st1)(im_id x \<mapsto> b)),
           rv_versions := (\<lambda>(i, n). case (if i = im_id x then map_of (im_versions x) n else None) of
             None \<Rightarrow> rv_versions st1 (i, n) | Some b \<Rightarrow> Some b)\<rparr>)"

definition import_one_entry :: "string \<Rightarrow> import_entry \<Rightarrow> review_db \<Rightarrow> (store_error + import_outcome) \<times> review_db" where
  "import_one_entry mode x st =
     (let i = im_id x; v = im_version x
      in case get_entity i st of
           Some e \<Rightarrow>
             if mode = ''skip'' \<or> mode = ''merge'' \<and> en_version e = v then (Inr Skipped, st)
             else if \<not> im_files x then (Inl EntryWithoutFiles, st)
             else (Inr Replaced, update_entities i (\<lambda>e. e\<lparr>en_version := v, en_size := im_size x\<rparr>) (import_files x True st))
         | None \<Rightarrow>
             if \<not> im_files x then (Inl EntryWithoutFiles, st)
             else let st1 = import_files x False st
                  in case create_entity
                       \<lparr>en_id = i, en_owner = im_owner x, en_username = im_username x, en_type = im_type x, en_name = im_name x,
                        en_synthetic = suffixed_name (im_name x) (im_username x), en_visibility = ''pending'', en_version_no = 1,
                        en_version = v, en_size = im_size x, en_history = [\<lparr>ve_n = 1, ve_hash = v,
                          ve_size = (if im_size x = 0 then None else Some (im_size x)), ve_sub = None\<rparr>]\<rparr> st1 of
                       Inl err \<Rightarrow> (Inl err, st1)
                     | Inr st2 \<Rightarrow> (Inr Imported, st2))"

text \<open>An entry without an identifier and one that a constraint refuses are reported and passed over; one without files ends it.\<close>

fun import_entries :: "string \<Rightarrow> import_entry list \<Rightarrow> review_db \<Rightarrow> store_error option \<times> review_db" where
  "import_entries mode [] st = (None, st)"
| "import_entries mode (x # xs) st =
     (if im_id x = [] then import_entries mode xs st
      else case import_one_entry mode x st of
             (Inl EntryWithoutFiles, st1) \<Rightarrow> (Some EntryWithoutFiles, st1)
           | (_, st1) \<Rightarrow> import_entries mode xs st1)"

definition import_bundle :: "string \<Rightarrow> import_entry list \<Rightarrow> review_db \<Rightarrow> store_error option \<times> review_db" where
  "import_bundle mode xs st =
     (if mode \<notin> {''merge'', ''replace'', ''skip''} then (Some InvalidMode, st) else import_entries mode xs st)"

section \<open>The sweeps\<close>

definition reap_stuck_llm_reviews :: "micros \<Rightarrow> int \<Rightarrow> review_db \<Rightarrow> review_db \<times> nat" where
  "reap_stuck_llm_reviews now grace st =
     (if grace \<le> 0 then (st, 0)
      else let (st1, rows) = reap_stuck_pending_llm now grace st in (st1, length rows))"

definition TERMINAL_BLOCKED_STATUSES :: "string list" where
  "TERMINAL_BLOCKED_STATUSES = [''blocked_inline'', ''blocked_llm'']"

fun purge_loop :: "micros \<Rightarrow> (string \<times> string option) list \<Rightarrow> review_db \<Rightarrow> review_db" where
  "purge_loop now [] st = st"
| "purge_loop now ((s, ent) # cs) st =
     (let i = or_default ent []
      in purge_loop now cs
           (mark_bundle_purged now s (if i = [] then st else delete_entity_row i (remove_entity_dir i st))))"

definition purge_blocked_bundles :: "micros \<Rightarrow> int \<Rightarrow> review_db \<Rightarrow> review_db \<times> string list" where
  "purge_blocked_bundles now ttl_days st =
     (if ttl_days \<le> 0 then (st, [])
      else let cs = find_purge_candidates TERMINAL_BLOCKED_STATUSES (now - ttl_days * 86400000000) st
           in (purge_loop now cs st, map fst cs))"

section \<open>Histories\<close>

text \<open>
  What happens to the store, one step at a time: the requests, the sweeps, and the two halves of a review, so that
  anything may happen while the model is asked. A request that fails leaves the store as the handler leaves it.
\<close>

datatype review_event = Upload guardrails upload | Edit guardrails string bool string edit
  | Restore guardrails string bool bool string nat string | Delete string bool bool bool string | Override string
  | Rescan guardrails bool string | Retry string | DeleteSubmission string | BeginReview string
  | LandReview string "string option" outcome | Reap int | Purge int | Import string "import_entry list"

definition or_same :: "review_db \<Rightarrow> store_error + review_db \<Rightarrow> review_db" where
  "or_same st r = (case r of Inl x \<Rightarrow> st | Inr st' \<Rightarrow> st')"

fun review_step :: "world \<Rightarrow> micros \<Rightarrow> review_event \<Rightarrow> review_db \<Rightarrow> review_db" where
  "review_step w now (Upload g u) st = or_same st (upload_entity w g now u st)"
| "review_step w now (Edit g who admin i ed) st = or_same st (edit_entity w g now who admin i ed st)"
| "review_step w now (Restore g who admin inline i n s) st = or_same st (restore_version w g now who admin inline i n s st)"
| "review_step w now (Delete who admin hard renames i) st = snd (delete_entity now who admin hard renames i st)"
| "review_step w now (Override s) st = or_same st (override_submission w now s st)"
| "review_step w now (Rescan g inline s) st = or_same st (rescan_submission w g now inline s st)"
| "review_step w now (Retry s) st = or_same st (retry_submission s st)"
| "review_step w now (DeleteSubmission s) st = or_same st (delete_submission s st)"
| "review_step w now (BeginReview s) st =
     (case get_submission s st of
        None \<Rightarrow> st\<lparr>rv_queue := remove1 s (rv_queue st)\<rparr>
      | Some sub \<Rightarrow>
          st\<lparr>rv_queue := remove1 s (rv_queue st), rv_flight := rv_flight st @ [(s, su_entity sub)]\<rparr>)"
| "review_step w now (LandReview s ent oc) st =
     (if (s, ent) \<in> set (rv_flight st)
      then land_review (wd_broken w) s ent oc (st\<lparr>rv_flight := remove1 (s, ent) (rv_flight st)\<rparr>) else st)"
| "review_step w now (Reap grace) st = fst (reap_stuck_llm_reviews now grace st)"
| "review_step w now (Purge ttl) st = fst (purge_blocked_bundles now ttl st)"
| "review_step w now (Import mode xs) st = snd (import_bundle mode xs st)"

definition empty_store :: review_db where
  "empty_store = \<lparr>rv_entities = [], rv_submissions = [], rv_live = (\<lambda>_. None), rv_versions = (\<lambda>_. None), rv_queue = [], rv_flight = []\<rparr>"

definition review_run :: "world \<Rightarrow> (micros \<times> review_event) list \<Rightarrow> review_db" where
  "review_run w evs = fold (\<lambda>(now, ev). review_step w now ev) evs empty_store"

end
