(* ===== verification/ReviewSafety.thy ===== *)
theory ReviewSafety
  imports Review
begin

text \<open>
  What the store of uploads guarantees, over \<open>Review\<close>: which bundle is live, whose verdict stands behind it, and where
  the code lets a bundle through that no verdict stands behind.
\<close>

section \<open>What the store keeps\<close>

definition in_history :: "string \<Rightarrow> store_row \<Rightarrow> bool" where
  "in_history s e \<longleftrightarrow> (\<exists>h\<in>set (en_history e). ve_sub h = Some s)"

text \<open>A row is judged when the submission of its current version was approved or overridden.\<close>

definition passed_review :: "submission \<Rightarrow> bool" where
  "passed_review s \<longleftrightarrow> su_status s = ''approved'' \<or> su_status s = ''overridden''"

definition judged :: "submission list \<Rightarrow> store_row \<Rightarrow> bool" where
  "judged rows e \<longleftrightarrow> (\<exists>h\<in>set (en_history e). ve_n h = en_version_no e \<and>
     (\<exists>s\<in>set rows. ve_sub h = Some (su_id s) \<and> passed_review s))"

text \<open>The versions of a row are on disk, and the live bytes are the current version's.\<close>

definition versions_kept :: "review_db \<Rightarrow> store_row \<Rightarrow> bool" where
  "versions_kept st e \<longleftrightarrow>
     en_id e \<noteq> [] \<and> distinct (map ve_n (en_history e)) \<and> en_version_no e \<in> ve_n ` set (en_history e) \<and>
     (\<forall>h\<in>set (en_history e). 0 < ve_n h \<and> rv_versions st (en_id e, ve_n h) \<noteq> None)"

definition live_current :: "review_db \<Rightarrow> store_row \<Rightarrow> bool" where
  "live_current st e \<longleftrightarrow>
     (\<exists>b b'. rv_live st (en_id e) = Some b \<and> rv_versions st (en_id e, en_version_no e) = Some b' \<and> bn_content b = bn_content b')"

text \<open>Submissions and reviews that name a row are in its history, and its history names no others.\<close>

definition linked :: "review_db \<Rightarrow> store_row \<Rightarrow> bool" where
  "linked st e \<longleftrightarrow>
     (\<forall>s\<in>set (rv_submissions st). su_entity s = Some (en_id e) \<longleftrightarrow> in_history (su_id s) e) \<and>
     (\<forall>(s, i)\<in>set (rv_flight st). i = Some (en_id e) \<longrightarrow> in_history s e)"

definition shown :: "store_row \<Rightarrow> bool" where
  "shown e \<longleftrightarrow> en_visibility e = ''approved'' \<or> en_visibility e = []"

definition sound_row :: "review_db \<Rightarrow> store_row \<Rightarrow> bool" where
  "sound_row st e \<longleftrightarrow>
     versions_kept st e \<and> live_current st e \<and> linked st e \<and>
     (judged (rv_submissions st) e \<or> en_version_no e = 1 \<and> \<not> shown e)"

lemma sound_row_judged:
  "versions_kept st e \<Longrightarrow> live_current st e \<Longrightarrow> linked st e \<Longrightarrow> judged (rv_submissions st) e \<Longrightarrow> sound_row st e"
  by (simp add: sound_row_def)

lemma submission_in_history:
  "sound_row st e \<Longrightarrow> s \<in> set (rv_submissions st) \<Longrightarrow> su_entity s = Some (en_id e) \<longleftrightarrow> in_history (su_id s) e"
  by (simp add: sound_row_def linked_def)

lemma flight_in_history: "sound_row st e \<Longrightarrow> (s, Some (en_id e)) \<in> set (rv_flight st) \<Longrightarrow> in_history s e"
  by (auto simp: sound_row_def linked_def)

definition store_inv :: "review_db \<Rightarrow> bool" where
  "store_inv st \<longleftrightarrow> distinct (map en_id (rv_entities st)) \<and> (\<forall>e\<in>set (rv_entities st). sound_row st e)"

text \<open>Steps that touch a row only in ways that it tolerates.\<close>

definition kept_for :: "review_db \<Rightarrow> review_db \<Rightarrow> store_row \<Rightarrow> bool" where
  "kept_for st st' e \<longleftrightarrow>
     map_option bn_content (rv_live st' (en_id e)) = map_option bn_content (rv_live st (en_id e)) \<and>
     (\<forall>h\<in>set (en_history e). rv_versions st' (en_id e, ve_n h) = rv_versions st (en_id e, ve_n h)) \<and>
     (\<forall>s'\<in>set (rv_submissions st').
        (\<exists>s\<in>set (rv_submissions st). su_id s' = su_id s \<and> (su_entity s' = Some (en_id e) \<longleftrightarrow> su_entity s = Some (en_id e))) \<or>
        su_entity s' \<noteq> Some (en_id e) \<and> \<not> in_history (su_id s') e) \<and>
     (\<forall>s\<in>set (rv_submissions st). su_entity s = Some (en_id e) \<and> passed_review s \<longrightarrow>
        (\<exists>s'\<in>set (rv_submissions st'). su_id s' = su_id s \<and> passed_review s')) \<and>
     (\<forall>s. (s, Some (en_id e)) \<in> set (rv_flight st') \<longrightarrow>
        (s, Some (en_id e)) \<in> set (rv_flight st) \<or> (\<exists>x\<in>set (rv_submissions st). su_id x = s \<and> su_entity x = Some (en_id e)))"

lemma live_current_cong:
  assumes "live_current st e" "en_version_no e \<in> ve_n ` set (en_history e)"
    and "map_option bn_content (rv_live st' (en_id e)) = map_option bn_content (rv_live st (en_id e))"
    and "\<forall>h\<in>set (en_history e). rv_versions st' (en_id e, ve_n h) = rv_versions st (en_id e, ve_n h)"
  shows "live_current st' e"
proof -
  obtain b b' where b: "rv_live st (en_id e) = Some b" "rv_versions st (en_id e, en_version_no e) = Some b'"
    "bn_content b = bn_content b'"
    using assms(1) by (auto simp: live_current_def)
  obtain h where "h \<in> set (en_history e)" "en_version_no e = ve_n h" using assms(2) by blast
  then have "rv_versions st' (en_id e, en_version_no e) = Some b'" using assms(4) b(2) by simp
  moreover obtain c where "rv_live st' (en_id e) = Some c" "bn_content c = bn_content b"
    using assms(3) b(1) by (cases "rv_live st' (en_id e)") auto
  ultimately show ?thesis using b(3) by (simp add: live_current_def)
qed

lemma judged_keep:
  assumes "judged (rv_submissions st) e" "linked st e"
    and "\<forall>s\<in>set (rv_submissions st). su_entity s = Some (en_id e) \<and> passed_review s \<longrightarrow>
        (\<exists>s'\<in>set (rv_submissions st'). su_id s' = su_id s \<and> passed_review s')"
  shows "judged (rv_submissions st') e"
proof -
  obtain h s where h: "h \<in> set (en_history e)" "ve_n h = en_version_no e" "s \<in> set (rv_submissions st)"
    "ve_sub h = Some (su_id s)" "passed_review s"
    using assms(1) by (auto simp: judged_def)
  then have "su_entity s = Some (en_id e)" using assms(2) by (auto simp: linked_def in_history_def)
  then obtain s' where "s' \<in> set (rv_submissions st')" "su_id s' = su_id s" "passed_review s'" using assms(3) h by blast
  then show ?thesis unfolding judged_def using h(1,2,4) by metis
qed

lemma linked_keep: "linked st e \<Longrightarrow> kept_for st st' e \<Longrightarrow> linked st' e"
  unfolding linked_def kept_for_def by fastforce

lemma sound_row_kept:
  assumes "sound_row st e" "kept_for st st' e"
  shows "sound_row st' e"
proof -
  have "versions_kept st' e" using assms by (auto simp: sound_row_def versions_kept_def kept_for_def)
  moreover have "live_current st' e"
    using assms live_current_cong [of st e st'] by (simp add: sound_row_def versions_kept_def kept_for_def)
  moreover have "judged (rv_submissions st') e \<or> en_version_no e = 1 \<and> \<not> shown e"
  proof (cases "judged (rv_submissions st) e")
    case True
    moreover have "linked st e" using assms(1) by (simp add: sound_row_def)
    ultimately show ?thesis using judged_keep [of st e st'] assms(2) by (simp add: kept_for_def)
  qed (use assms(1) in \<open>simp add: sound_row_def\<close>)
  ultimately show ?thesis using assms linked_keep [of st e st'] by (simp add: sound_row_def)
qed

lemma store_inv_kept:
  assumes "store_inv st" "rv_entities st' = rv_entities st" "\<And>e. e \<in> set (rv_entities st) \<Longrightarrow> kept_for st st' e"
  shows "store_inv st'"
  using assms sound_row_kept unfolding store_inv_def by simp blast

text \<open>A row may change in any column but its id and versions, and become visible when it is judged.\<close>

lemma sound_row_change:
  assumes "sound_row st e" "en_id e' = en_id e" "en_version_no e' = en_version_no e" "en_history e' = en_history e"
    and "shown e' \<Longrightarrow> shown e \<or> judged (rv_submissions st) e"
  shows "sound_row st e'"
  using assms
  by (auto simp: sound_row_def versions_kept_def live_current_def linked_def judged_def in_history_def)

section \<open>Steps on submissions\<close>

lemma map_submissions_kept:
  assumes "rv_submissions st' = map f (rv_submissions st)" "rv_live st' = rv_live st" "rv_versions st' = rv_versions st"
    and "rv_flight st' = rv_flight st" "\<And>s. su_id (f s) = su_id s"
    and "\<And>s. s \<in> set (rv_submissions st) \<Longrightarrow> su_entity (f s) = Some (en_id e) \<longleftrightarrow> su_entity s = Some (en_id e)"
    and "\<And>s. s \<in> set (rv_submissions st) \<Longrightarrow> su_entity s = Some (en_id e) \<Longrightarrow> passed_review s \<Longrightarrow> passed_review (f s)"
  shows "kept_for st st' e"
proof -
  have "\<exists>s'\<in>set (rv_submissions st'). su_id s' = su_id s \<and> passed_review s'"
    if "s \<in> set (rv_submissions st)" "su_entity s = Some (en_id e)" "passed_review s" for s
    using that assms(1,5,7) by (intro bexI [of _ "f s"]) auto
  then show ?thesis using assms unfolding kept_for_def by auto
qed

lemma update_submissions_simps [simp]:
  "rv_entities (update_submissions P f st) = rv_entities st"
  "rv_live (update_submissions P f st) = rv_live st"
  "rv_versions (update_submissions P f st) = rv_versions st"
  "rv_flight (update_submissions P f st) = rv_flight st"
  "rv_submissions (update_submissions P f st) = map (\<lambda>s. if P s then f s else s) (rv_submissions st)"
  by (simp_all add: update_submissions_def)

lemma update_submissions_kept:
  assumes "\<And>s. su_id (f s) = su_id s \<and> su_entity (f s) = su_entity s" "\<And>s. P s \<Longrightarrow> passed_review s \<Longrightarrow> passed_review (f s)"
  shows "kept_for st (update_submissions P f st) e"
  by (rule map_submissions_kept [of _ "\<lambda>s. if P s then f s else s"]) (simp_all add: assms)

lemma update_submissions_inv:
  assumes "store_inv st" "\<And>s. su_id (f s) = su_id s \<and> su_entity (f s) = su_entity s"
    and "\<And>s. P s \<Longrightarrow> passed_review s \<Longrightarrow> passed_review (f s)"
  shows "store_inv (update_submissions P f st)"
  using assms(1) by (rule store_inv_kept) (simp, rule update_submissions_kept [OF assms(2,3)])

lemma write_status_fields [simp]:
  "rv_entities (snd (write_status i status m force st)) = rv_entities st"
  "rv_live (snd (write_status i status m force st)) = rv_live st"
  "rv_versions (snd (write_status i status m force st)) = rv_versions st"
  "rv_flight (snd (write_status i status m force st)) = rv_flight st"
  by (simp_all add: write_status_def Let_def)

lemma passed_terminal: "passed_review s \<Longrightarrow> su_status s \<in> set TERMINAL_STATUSES"
  by (auto simp: passed_review_def TERMINAL_STATUSES_def)

lemma write_status_inv: "store_inv st \<Longrightarrow> store_inv (snd (write_status i status m False st))"
  unfolding write_status_def Let_def snd_conv
  by (erule update_submissions_inv) (simp, use passed_terminal in blast)

lemma write_approved:
  assumes "fst (write_status i ''approved'' m force st)"
  shows "\<exists>s\<in>set (rv_submissions (snd (write_status i ''approved'' m force st))). su_id s = i \<and> passed_review s"
proof -
  obtain s where "s \<in> set (rv_submissions st)" "su_id s = i \<and> (force \<or> su_status s \<notin> set TERMINAL_STATUSES)"
    using assms by (auto simp: write_status_def Let_def list_ex_iff)
  then have "s\<lparr>su_status := ''approved'', su_model := (case m of None \<Rightarrow> su_model s | Some x \<Rightarrow> Some x)\<rparr>
      \<in> set (rv_submissions (snd (write_status i ''approved'' m force st)))"
    unfolding write_status_def Let_def snd_conv update_submissions_simps set_map by (intro image_eqI [of _ _ s]) simp_all
  then show ?thesis using \<open>su_id s = i \<and> _\<close> by (intro bexI) (simp_all add: passed_review_def)
qed

text \<open>A verdict that comes too late, for a row already approved, overridden or blocked by a rescan, changes nothing.\<close>

lemma write_status_terminal:
  assumes "\<forall>s\<in>set (rv_submissions st). su_id s = i \<longrightarrow> su_status s \<in> set TERMINAL_STATUSES"
  shows "write_status i status m False st = (False, st)"
proof -
  have "map (\<lambda>s. if su_id s = i \<and> (False \<or> su_status s \<notin> set TERMINAL_STATUSES)
      then s\<lparr>su_status := status, su_model := (case m of None \<Rightarrow> su_model s | Some m \<Rightarrow> Some m)\<rparr> else s)
      (rv_submissions st) = rv_submissions st"
    using assms by (intro map_idI) auto
  then show ?thesis using assms by (auto simp: write_status_def update_submissions_def Let_def list_ex_iff)
qed

lemma set_override_inv: "store_inv st \<Longrightarrow> store_inv (set_override i st)"
  unfolding set_override_def by (rule update_submissions_inv) (simp_all add: passed_review_def)

lemma reap_inv: "store_inv st \<Longrightarrow> store_inv (fst (reap_stuck_llm_reviews now grace st))"
  unfolding reap_stuck_llm_reviews_def reap_stuck_pending_llm_def Let_def prod.case fst_conv
  by (simp split: prod.splits, intro impI update_submissions_inv) (simp_all add: passed_review_def)

section \<open>Steps on a row\<close>

lemma update_entities_simps [simp]:
  "rv_submissions (update_entities i f st) = rv_submissions st"
  "rv_live (update_entities i f st) = rv_live st"
  "rv_versions (update_entities i f st) = rv_versions st"
  "rv_flight (update_entities i f st) = rv_flight st"
  "rv_entities (update_entities i f st) = map (\<lambda>e. if en_id e = i then f e else e) (rv_entities st)"
  by (simp_all add: update_entities_def)

lemma get_entity_in: "get_entity i st = Some e \<Longrightarrow> e \<in> set (rv_entities st) \<and> en_id e = i"
  by (auto simp: get_entity_def find_Some_iff)

lemma get_entity_unique:
  assumes "distinct (map en_id (rv_entities st))"
  shows "get_entity i st = Some e \<longleftrightarrow> e \<in> set (rv_entities st) \<and> en_id e = i"
proof (rule iffI, rule get_entity_in)
  assume e: "e \<in> set (rv_entities st) \<and> en_id e = i"
  then obtain e' where "get_entity i st = Some e'"
    by (cases "get_entity i st") (auto simp: get_entity_def find_None_iff)
  moreover from this have "e' \<in> set (rv_entities st)" "en_id e' = i" using get_entity_in by auto
  ultimately show "get_entity i st = Some e"
    using assms e unfolding distinct_map inj_on_def by metis
qed simp

lemma get_update_entities:
  "(\<And>e. en_id (f e) = en_id e) \<Longrightarrow> get_entity i (update_entities i f st) = map_option f (get_entity i st)"
proof -
  assume "\<And>e. en_id (f e) = en_id e"
  then have "find (\<lambda>e. en_id e = i) (map (\<lambda>e. if en_id e = i then f e else e) es) = map_option f (find (\<lambda>e. en_id e = i) es)" for es
    by (induction es) auto
  then show ?thesis by (simp add: get_entity_def)
qed

text \<open>One row is replaced, the others are kept.\<close>

definition sound_but :: "string \<Rightarrow> review_db \<Rightarrow> bool" where
  "sound_but i st \<longleftrightarrow>
     distinct (map en_id (rv_entities st)) \<and> (\<forall>e\<in>set (rv_entities st). en_id e \<noteq> i \<longrightarrow> sound_row st e)"

lemma sound_but_inv: "store_inv st \<Longrightarrow> sound_but i st"
  by (simp add: store_inv_def sound_but_def)

lemma replace_row_inv:
  assumes "sound_but i st" "rv_entities st' = map (\<lambda>e. if en_id e = i then f e else e) (rv_entities st)"
    and "\<And>e. en_id (f e) = en_id e" "\<And>e. e \<in> set (rv_entities st) \<Longrightarrow> en_id e \<noteq> i \<Longrightarrow> kept_for st st' e"
    and "\<And>e. get_entity i st = Some e \<Longrightarrow> sound_row st' (f e)"
  shows "store_inv st'"
proof -
  have "map en_id (rv_entities st') = map en_id (rv_entities st)" using assms(2,3) by simp
  moreover have "sound_row st' e'" if e': "e' \<in> set (rv_entities st')" for e'
  proof -
    obtain e where e: "e \<in> set (rv_entities st)" "e' = (if en_id e = i then f e else e)" using e' assms(2) by auto
    show ?thesis
    proof (cases "en_id e = i")
      case True
      then have "get_entity i st = Some e" using e(1) get_entity_unique assms(1) by (simp add: sound_but_def)
      then show ?thesis using assms(5) e(2) True by simp
    next
      case False
      then have "sound_row st e" using e(1) assms(1) by (simp add: sound_but_def)
      then show ?thesis using sound_row_kept assms(4) [OF e(1) False] e(2) False by simp
    qed
  qed
  ultimately show ?thesis using assms(1) by (simp add: store_inv_def sound_but_def)
qed

lemma get_entity_sound: "store_inv st \<Longrightarrow> get_entity i st = Some e \<Longrightarrow> sound_row st e"
  using get_entity_in by (auto simp: store_inv_def)

lemma update_row_inv:
  assumes "store_inv st" "rv_entities st' = map (\<lambda>e. if en_id e = i then f e else e) (rv_entities st)" "\<And>e. en_id (f e) = en_id e"
    and "\<And>e. e \<in> set (rv_entities st) \<Longrightarrow> en_id e \<noteq> i \<Longrightarrow> kept_for st st' e"
    and "\<And>e. get_entity i st = Some e \<Longrightarrow> sound_row st e \<Longrightarrow> sound_row st' (f e)"
  shows "store_inv st'"
  using replace_row_inv [OF sound_but_inv [OF assms(1)] assms(2-4)] assms(5) get_entity_sound [OF assms(1)] by blast

lemma kept_refl:
  assumes "rv_submissions st' = rv_submissions st" "rv_live st' = rv_live st" "rv_versions st' = rv_versions st"
    "set (rv_flight st') \<subseteq> set (rv_flight st)"
  shows "kept_for st st' e"
  using assms unfolding kept_for_def by auto

lemma sound_row_same:
  assumes "rv_submissions st' = rv_submissions st" "rv_live st' = rv_live st" "rv_versions st' = rv_versions st"
    "set (rv_flight st') \<subseteq> set (rv_flight st)" "sound_row st e"
  shows "sound_row st' e"
  using sound_row_kept [OF assms(5) kept_refl [OF assms(1-4)]] .

text \<open>A row may be hidden, archived, renamed or made pending at any time.\<close>

lemma change_row_inv:
  assumes "store_inv st" "\<And>e. en_id (f e) = en_id e \<and> en_version_no (f e) = en_version_no e \<and> en_history (f e) = en_history e"
    and "\<And>e. get_entity i st = Some e \<Longrightarrow>
      shown (f e) \<Longrightarrow> shown e \<or> judged (rv_submissions st) e"
  shows "store_inv (update_entities i f st)"
proof (rule update_row_inv [OF assms(1) update_entities_simps(5)])
  show "en_id (f e) = en_id e" for e using assms(2) by blast
  show "kept_for st (update_entities i f st) e" for e by (rule kept_refl) simp_all
  fix e assume e: "get_entity i st = Some e" "sound_row st e"
  have "sound_row st (f e)"
    by (rule sound_row_change [OF e(2)]) (use assms(2) assms(3) [OF e(1)] in blast)+
  then show "sound_row (update_entities i f st) (f e)" by (rule sound_row_same [rotated 4]) simp_all
qed

lemma set_visibility_update:
  "set_visibility now i v st = update_entities i (\<lambda>e. e\<lparr>en_visibility := v,
     en_name := (if v = ''archived'' then en_name e else restored_name now e st)\<rparr>) st"
  by (simp add: set_visibility_def)

lemma set_visibility_inv:
  assumes "store_inv st" "\<And>e. get_entity i st = Some e \<Longrightarrow> v = ''approved'' \<or> v = [] \<Longrightarrow> shown e \<or> judged (rv_submissions st) e"
  shows "store_inv (set_visibility now i v st)"
  unfolding set_visibility_update by (rule change_row_inv) (use assms in \<open>simp_all add: shown_def\<close>)

lemma archive_inv: "store_inv st \<Longrightarrow> store_inv (snd (archive_entity now i st))"
proof (cases "get_entity i st")
  case (Some e)
  assume "store_inv st"
  then show ?thesis unfolding archive_entity_def Some option.case Let_def
    by (cases "en_visibility e = ''archived'' \<and> is_archived_name (en_name e)")
      (simp_all del: update_entities_simps, auto simp: shown_def intro!: change_row_inv)
qed (simp add: archive_entity_def)

lemma rename_row_inv: "store_inv st \<Longrightarrow> store_inv (rename_row i new st)"
  by (cases new) (auto simp: rename_row_def shown_def intro: change_row_inv)

section \<open>Promotion\<close>

lemma get_version_Some:
  assumes "h \<in> set (en_history e)" "ve_n h = n"
  shows "\<exists>h'. get_version n e = Some h'"
  using assms by (cases "get_version n e") (auto simp: get_version_def find_None_iff)

text \<open>Promoting a version whose submission passed, when the copy works, leaves a sound row, whatever its visibility.\<close>

lemma promote_inv:
  assumes "sound_but i st" "get_entity i st = Some e" "versions_kept st e" "linked st e" "\<not> broken i n"
    and "h \<in> set (en_history e)" "ve_n h = n" "ve_sub h = Some (su_id s)" "s \<in> set (rv_submissions st)" "passed_review s"
  shows "store_inv (snd (promote_to_version broken i n st))"
proof -
  have i: "en_id e = i" using assms(2) get_entity_in by blast
  obtain b where b: "rv_versions st (i, n) = Some b" using assms(3,6,7) i by (auto simp: versions_kept_def)
  obtain h' where h': "get_version n e = Some h'" using get_version_Some [OF assms(6,7)] by blast
  let ?f = "\<lambda>e. e\<lparr>en_version_no := n, en_version := ve_hash h',
      en_size := (case ve_size h' of None \<Rightarrow> en_size e | Some z \<Rightarrow> z)\<rparr>"
  let ?st1 = "st\<lparr>rv_live := (rv_live st)(i \<mapsto> b)\<rparr>"
  have st': "snd (promote_to_version broken i n st) = update_entities i ?f ?st1"
    using assms(2,5) b h'
    by (simp add: promote_to_version_def swap_live_to_version_def promote_version_def get_entity_def)
  show ?thesis unfolding st'
  proof (rule replace_row_inv [OF assms(1)])
    show "kept_for st (update_entities i ?f ?st1) x" if "en_id x \<noteq> i" for x
      using that by (auto simp: kept_for_def)
    fix x assume "get_entity i st = Some x"
    then have x: "x = e" using assms(2) by simp
    have "versions_kept (update_entities i ?f ?st1) (?f e)"
      using assms(3,6,7) by (auto simp: versions_kept_def)
    moreover have "live_current (update_entities i ?f ?st1) (?f e)" using b i by (simp add: live_current_def)
    moreover have "linked (update_entities i ?f ?st1) (?f e)" using assms(4) by (simp add: linked_def in_history_def)
    moreover have "judged (rv_submissions (update_entities i ?f ?st1)) (?f e)" using assms(6-10) by (auto simp: judged_def)
    ultimately show "sound_row (update_entities i ?f ?st1) (?f x)" unfolding x by (rule sound_row_judged)
  qed simp_all
qed

text \<open>
  What follows a submission that passed: its row's visibility is set, and its version promoted when it is newer than the
  current one.
\<close>

lemma version_no_for_submission_Some:
  assumes "in_history s e"
  shows "\<exists>h\<in>set (en_history e). ve_sub h = Some s \<and> version_no_for_submission e s = Some (ve_n h)"
proof -
  obtain h where "find (\<lambda>h. ve_sub h = Some s) (en_history e) = Some h"
    using assms by (cases "find (\<lambda>h. ve_sub h = Some s) (en_history e)") (auto simp: in_history_def find_None_iff)
  moreover from this have "h \<in> set (en_history e)" "ve_sub h = Some s" by (auto simp: find_Some_iff)
  ultimately show ?thesis by (auto simp: version_no_for_submission_def)
qed

lemma publish_inv:
  assumes "store_inv st" "get_entity i st = Some e" "in_history (su_id s) e" "s \<in> set (rv_submissions st)" "passed_review s"
    and "\<And>n. \<not> broken i n"
    and "\<And>e. en_id (f e) = en_id e \<and> en_version_no (f e) = en_version_no e \<and> en_history (f e) = en_history e"
  shows "store_inv (case version_no_for_submission (f e) (su_id s) of
      None \<Rightarrow> update_entities i f st
    | Some n \<Rightarrow> if n > en_version_no (f e) then snd (promote_to_version broken i n (update_entities i f st)) else update_entities i f st)"
proof -
  have f: "en_id (f e) = en_id e" "en_version_no (f e) = en_version_no e" "en_history (f e) = en_history e" for e
    using assms(7) by auto
  let ?st = "update_entities i f st"
  have sound: "sound_row st e" using get_entity_sound assms(1,2) by blast
  obtain h where h: "h \<in> set (en_history e)" "ve_sub h = Some (su_id s)" "version_no_for_submission e (su_id s) = Some (ve_n h)"
    using version_no_for_submission_Some [OF assms(3)] by blast
  have vn: "version_no_for_submission (f e) (su_id s) = Some (ve_n h)" using h(3) by (simp add: version_no_for_submission_def f)
  have get: "get_entity i ?st = Some (f e)" using get_update_entities [of f i st] f(1) assms(2) by simp
  show ?thesis
  proof (cases "ve_n h > en_version_no e")
    case True
    have "sound_but i ?st"
      unfolding sound_but_def
    proof (rule conjI)
      show "distinct (map en_id (rv_entities ?st))"
        using assms(1) f(1) by (simp add: store_inv_def comp_def if_distrib cong: if_cong)
      show "\<forall>x\<in>set (rv_entities ?st). en_id x \<noteq> i \<longrightarrow> sound_row ?st x"
        using assms(1) f(1) by (auto simp: store_inv_def intro: sound_row_same [rotated 4])
    qed
    moreover have "versions_kept ?st (f e)" "linked ?st (f e)"
      using sound by (simp_all add: sound_row_def versions_kept_def linked_def in_history_def f)
    ultimately have "store_inv (snd (promote_to_version broken i (ve_n h) ?st))"
      using promote_inv [of i ?st "f e" broken "ve_n h" h s] get h(1,2) assms(4-6) by (simp add: f)
    then show ?thesis using True vn by (simp add: f)
  next
    case False
    have "judged (rv_submissions st) e"
    proof (cases "ve_n h = en_version_no e")
      case True
      then show ?thesis using h(1,2) assms(4,5) by (auto simp: judged_def)
    next
      case neq: False
      have "0 < ve_n h" using sound h(1) by (simp add: sound_row_def versions_kept_def)
      then have "en_version_no e \<noteq> 1" using False neq by simp
      then show ?thesis using sound by (simp add: sound_row_def)
    qed
    then have "store_inv ?st" using change_row_inv [OF assms(1), of f i] assms(2,7) by simp
    then show ?thesis using False vn by (simp add: f)
  qed
qed

end
