(* ===== verification/ReviewRuns.thy ===== *)
theory ReviewRuns
  imports ReviewSafety
begin

text \<open>
  Every step of \<open>Review\<close> but a rescan keeps the invariant of \<open>ReviewSafety\<close>, when the identifiers it brings are new;
  the properties of whole histories follow, and the histories in which the code publishes what no verdict stands behind.
\<close>

section \<open>Verdicts\<close>

lemma if_Inl_Inr: "(if b then Inl x else y) = Inr z \<longleftrightarrow> \<not> b \<and> y = Inr z"
  by simp

lemma update_entities_id: "update_entities i (\<lambda>e. e) st = st"
  by (simp add: update_entities_def map_idI)

lemma publish_judged_inv:
  assumes "store_inv st" "\<And>e. get_entity i st = Some e \<Longrightarrow> in_history s e" "\<And>n. \<not> broken i n"
    and "\<exists>x\<in>set (rv_submissions st). su_id x = s \<and> passed_review x"
  shows "store_inv (publish_judged broken s i st)"
proof (cases "get_entity i st")
  case None
  then show ?thesis using assms(1) by (simp add: publish_judged_def set_visibility_if_pending_def)
next
  case (Some e)
  obtain x where x: "x \<in> set (rv_submissions st)" "su_id x = s" "passed_review x" using assms(4) by blast
  have hist: "in_history (su_id x) e" using assms(2) [OF Some] x(2) by simp
  note publish = publish_inv [where broken = broken, OF assms(1) Some hist x(1,3) assms(3), unfolded x(2)]
  let ?f = "en_visibility_update (\<lambda>_. ''approved'')"
  have get: "get_entity i (update_entities i ?f st) = Some (?f e)" using get_update_entities [of ?f i st] Some by simp
  show ?thesis
  proof (cases "en_visibility e = ''pending''")
    case True
    have "publish_judged broken s i st = (case version_no_for_submission (?f e) s of
        None \<Rightarrow> update_entities i ?f st
      | Some n \<Rightarrow> if n > en_version_no (?f e) then snd (promote_to_version broken i n (update_entities i ?f st))
          else update_entities i ?f st)"
      using Some True get by (simp add: publish_judged_def set_visibility_if_pending_def Let_def)
    then show ?thesis using publish [of ?f] by simp
  next
    case False
    then show ?thesis using Some assms(1) publish [of "\<lambda>e. e", unfolded update_entities_id]
      by (cases "en_visibility e = ''approved''") (simp_all add: publish_judged_def set_visibility_if_pending_def)
  qed
qed

lemma land_review_inv:
  assumes "store_inv st" "\<And>e. e \<in> set (rv_entities st) \<Longrightarrow> ent = Some (en_id e) \<Longrightarrow> in_history s e" "\<And>i n. \<not> broken i n"
  shows "store_inv (land_review broken s ent oc st)"
proof -
  have safe: "store_inv (land_review broken s ent (Judged Safe m) st)" for m
  proof -
    let ?w = "write_status s ''approved'' (Some m) False st"
    have inv: "store_inv (snd ?w)" using assms(1) by (rule write_status_inv)
    show ?thesis
    proof (cases "fst ?w \<and> or_default ent [] \<noteq> []")
      case True
      then obtain i where ent: "ent = Some i" by (cases ent) (auto simp: or_default_def)
      have "in_history s e" if "get_entity i (snd ?w) = Some e" for e
        using get_entity_in [OF that] assms(2) [of e] ent by simp
      then have "store_inv (publish_judged broken s i (snd ?w))"
        using publish_judged_inv [where broken = broken, OF inv _ assms(3) write_approved] True by blast
      then show ?thesis using True ent by (simp add: land_review_def Let_def case_prod_beta or_default_def)
    next
      case False
      then show ?thesis using inv by (auto simp: land_review_def Let_def case_prod_beta)
    qed
  qed
  show ?thesis
  proof (cases oc)
    case (Judged v m)
    then show ?thesis using safe [of m] by (cases v) (simp_all add: land_review_def write_status_inv assms(1))
  qed (simp_all add: land_review_def write_status_inv assms(1))
qed

lemma override_inv:
  assumes "store_inv st" "override_submission w now s st = Inr st'" "\<And>i n. \<not> wd_broken w i n"
  shows "store_inv st'"
proof -
  obtain sub where sub: "get_submission s st = Some sub"
    using assms(2) by (cases "get_submission s st") (auto simp: override_submission_def)
  then have row: "sub \<in> set (rv_submissions st)" "su_id sub = s" by (auto simp: get_submission_def find_Some_iff)
  note result = assms(2) [unfolded override_submission_def sub option.case Let_def if_Inl_Inr sum.inject]
  then obtain i where i: "su_entity sub = Some i" "i \<noteq> []" "or_default (su_entity sub) [] = i"
    by (cases "su_entity sub") (auto simp: or_default_def)
  let ?st0 = "set_override s st"
  let ?f = "\<lambda>e. e\<lparr>en_visibility := ''approved'', en_name := restored_name now e ?st0\<rparr>"
  let ?st1 = "set_visibility now i ''approved'' ?st0"
  have st1: "?st1 = update_entities i ?f ?st0" by (simp add: set_visibility_def)
  have inv: "store_inv ?st0" using assms(1) by (rule set_override_inv)
  have st': "st' = (case get_entity i ?st1 of None \<Rightarrow> ?st1
      | Some e \<Rightarrow> (case version_no_for_submission e s of None \<Rightarrow> ?st1
          | Some n \<Rightarrow> if n > en_version_no e then snd (promote_to_version (wd_broken w) i n ?st1) else ?st1))"
    using result unfolding i(3) by (elim conjE) (rule sym)
  have get: "get_entity i ?st1 = map_option ?f (get_entity i ?st0)"
    unfolding st1 by (rule get_update_entities) simp
  show ?thesis
  proof (cases "get_entity i ?st0")
    case None
    then show ?thesis using st' get change_row_inv [OF inv, of ?f i] st1 by simp
  next
    case (Some e)
    let ?x = "sub\<lparr>su_status := ''overridden''\<rparr>"
    have x: "?x \<in> set (rv_submissions ?st0)" "passed_review ?x" "su_id ?x = s"
      using row by (auto simp: set_override_def passed_review_def)
    have "in_history (su_id ?x) e"
      using submission_in_history [OF get_entity_sound [OF inv Some] x(1)] get_entity_in [OF Some] i(1) by simp
    moreover have "en_id (?f e) = en_id e \<and> en_version_no (?f e) = en_version_no e \<and> en_history (?f e) = en_history e" for e
      by simp
    ultimately have "store_inv (case version_no_for_submission (?f e) (su_id ?x) of
        None \<Rightarrow> update_entities i ?f ?st0
      | Some n \<Rightarrow> if n > en_version_no (?f e) then snd (promote_to_version (wd_broken w) i n (update_entities i ?f ?st0))
          else update_entities i ?f ?st0)"
      by (intro publish_inv [OF inv Some _ x(1,2) assms(3)])
    then show ?thesis unfolding st' get Some option.map option.case st1 [symmetric] x(3) .
  qed
qed

section \<open>Reviews, retries and deletions\<close>

lemma store_inv_queue [simp]: "store_inv (st\<lparr>rv_queue := q\<rparr>) \<longleftrightarrow> store_inv st"
  by (simp add: store_inv_def sound_row_def versions_kept_def live_current_def linked_def)

lemma retry_inv:
  assumes "store_inv st" "retry_submission s st = Inr st'"
  shows "store_inv st'"
proof -
  obtain sub where sub: "get_submission s st = Some sub"
    using assms(2) by (cases "get_submission s st") (simp_all add: retry_submission_def)
  note result = assms(2) [unfolded retry_submission_def sub option.case Let_def if_Inl_Inr sum.inject]
  then show ?thesis using write_status_inv [OF assms(1)] by (elim conjE) (metis store_inv_queue)
qed

lemma begin_review_inv:
  assumes "store_inv st" "get_submission s st = Some sub"
  shows "store_inv (st\<lparr>rv_queue := q, rv_flight := rv_flight st @ [(s, su_entity sub)]\<rparr>)"
proof -
  have sub: "sub \<in> set (rv_submissions st)" "su_id sub = s"
    using assms(2) by (auto simp: get_submission_def find_Some_iff)
  show ?thesis
  proof (rule store_inv_kept [OF assms(1)])
    show "kept_for st (st\<lparr>rv_queue := q, rv_flight := rv_flight st @ [(s, su_entity sub)]\<rparr>) e" for e
      using sub unfolding kept_for_def by auto
  qed simp
qed

lemma land_step_inv:
  assumes "store_inv st" "(s, ent) \<in> set (rv_flight st)" "\<And>i n. \<not> broken i n"
  shows "store_inv (land_review broken s ent oc (st\<lparr>rv_flight := remove1 (s, ent) (rv_flight st)\<rparr>))"
proof (rule land_review_inv)
  show "store_inv (st\<lparr>rv_flight := remove1 (s, ent) (rv_flight st)\<rparr>)"
    by (rule store_inv_kept [OF assms(1)]) (simp, rule kept_refl, simp_all add: set_remove1_subset)
  show "in_history s e" if "e \<in> set (rv_entities (st\<lparr>rv_flight := remove1 (s, ent) (rv_flight st)\<rparr>))" "ent = Some (en_id e)" for e
    using that assms(1,2) flight_in_history by (auto simp: store_inv_def)
qed (rule assms(3))

text \<open>A row goes, the others are kept.\<close>

lemma drop_row_inv:
  assumes "store_inv st" "rv_entities st' = filter (\<lambda>e. en_id e \<noteq> i) (rv_entities st)"
    and "\<And>e. e \<in> set (rv_entities st) \<Longrightarrow> en_id e \<noteq> i \<Longrightarrow> kept_for st st' e"
  shows "store_inv st'"
proof -
  have "sound_row st' e" if "e \<in> set (rv_entities st')" for e
    using that assms sound_row_kept [of st e st'] by (simp add: store_inv_def)
  then show ?thesis using assms(1,2) by (simp add: store_inv_def distinct_map_filter)
qed

lemma hard_delete_inv:
  assumes "store_inv st"
  shows "store_inv (remove_entity_dir i (delete_entity_row i (fst (mark_deleted_for_entity i st))))"
proof (rule drop_row_inv [OF assms, of _ i])
  show "kept_for st (remove_entity_dir i (delete_entity_row i (fst (mark_deleted_for_entity i st)))) e" if "en_id e \<noteq> i" for e
    using that by (auto simp: kept_for_def remove_entity_dir_def delete_entity_row_def mark_deleted_for_entity_def)
qed (simp add: remove_entity_dir_def delete_entity_row_def mark_deleted_for_entity_def)

lemma delete_row_dir_inv:
  assumes "store_inv st"
  shows "store_inv (remove_entity_dir i (delete_entity_row i st))"
proof (rule drop_row_inv [OF assms, of _ i])
  show "kept_for st (remove_entity_dir i (delete_entity_row i st)) e" if "en_id e \<noteq> i" for e
    using that by (auto simp: kept_for_def remove_entity_dir_def delete_entity_row_def)
qed (simp add: remove_entity_dir_def delete_entity_row_def)

lemma soft_delete_live_inv:
  assumes "store_inv st"
  shows "store_inv (st\<lparr>rv_live := (rv_live st)(i := map_option (rename_baked_tree slug) (rv_live st i))\<rparr>)"
proof (rule store_inv_kept [OF assms])
  show "kept_for st (st\<lparr>rv_live := (rv_live st)(i := map_option (rename_baked_tree slug) (rv_live st i))\<rparr>) e" for e
    by (auto simp: kept_for_def rename_baked_tree_def option.map_comp comp_def)
qed simp

lemma delete_entity_inv:
  assumes "store_inv st"
  shows "store_inv (snd (delete_entity now who admin hard renames i st))"
proof (cases "get_entity i st")
  case None
  then show ?thesis using assms by (simp add: delete_entity_def)
next
  case (Some e)
  let ?ar = "archive_entity now i st" and ?v = "if en_visibility e = [] then ''approved'' else en_visibility e"
  let ?st1 = "snd ?ar" and ?old = "fst (fst ?ar)" and ?new = "snd (fst ?ar)"
  have inv: "store_inv ?st1" using assms by (rule archive_inv)
  have revert: "store_inv (set_visibility now i ?v ?st1)"
  proof (rule set_visibility_inv [OF inv])
    fix e1 assume e1: "get_entity i ?st1 = Some e1" "?v = ''approved'' \<or> ?v = []"
    then have "shown e" by (auto simp: shown_def split: if_splits)
    then have "judged (rv_submissions st) e" using get_entity_sound [OF assms Some] by (simp add: sound_row_def)
    moreover have "judged (rv_submissions ?st1) e1 = judged (rv_submissions st) e"
      using e1(1) Some by (auto simp: archive_entity_def Let_def get_update_entities judged_def split: if_splits)
    ultimately show "shown e1 \<or> judged (rv_submissions ?st1) e1" by simp
  qed
  let ?live = "?st1\<lparr>rv_live := (rv_live ?st1)(i := map_option (rename_baked_tree (suffixed_name ?new (en_username e)))
      (rv_live ?st1 i))\<rparr>"
  have "store_inv ?live" using inv by (rule soft_delete_live_inv)
  moreover have "snd (delete_entity now who admin hard renames i st) \<in>
      {st, remove_entity_dir i (delete_entity_row i (fst (mark_deleted_for_entity i st))), ?st1, ?live, set_visibility now i ?v ?st1}"
    unfolding delete_entity_def Some option.case Let_def case_prod_beta if_distrib [of snd] snd_conv by simp
  ultimately show ?thesis using assms inv revert hard_delete_inv [OF assms, of i] by auto
qed

lemma delete_submission_inv:
  assumes "store_inv st" "delete_submission s st = Inr st'"
  shows "store_inv st'"
proof -
  obtain sub where sub: "get_submission s st = Some sub"
    using assms(2) by (cases "get_submission s st") (simp_all add: delete_submission_def)
  then have row: "sub \<in> set (rv_submissions st)" "su_id sub = s" by (auto simp: get_submission_def find_Some_iff)
  let ?i = "or_default (su_entity sub) []"
  let ?st1 = "if ?i = [] then st else remove_entity_dir ?i (delete_entity_row ?i st)"
  have st': "st' = delete_submission_row s ?st1" using assms(2) sub by (simp add: delete_submission_def Let_def)
  have inv: "store_inv ?st1" using delete_row_dir_inv assms(1) by simp
  have subs: "rv_submissions ?st1 = rv_submissions st" by (simp add: remove_entity_dir_def delete_entity_row_def)
  show ?thesis unfolding st'
  proof (rule store_inv_kept [OF inv])
    fix e assume e: "e \<in> set (rv_entities ?st1)"
    have sound: "sound_row ?st1 e" using inv e by (simp add: store_inv_def)
    have "en_id e \<noteq> []" using sound by (simp add: sound_row_def versions_kept_def)
    then have "su_entity sub \<noteq> Some (en_id e)"
      using e by (auto simp: or_default_def remove_entity_dir_def delete_entity_row_def split: if_splits)
    then have "\<not> in_history s e" using submission_in_history [OF sound] row subs by simp
    then have "su_entity x \<noteq> Some (en_id e)" if "x \<in> set (rv_submissions ?st1)" "su_id x = s" for x
      using submission_in_history [OF sound that(1)] that(2) by simp
    then show "kept_for ?st1 (delete_submission_row s ?st1) e"
      unfolding kept_for_def delete_submission_row_def by auto
  qed (simp add: delete_submission_row_def)
qed

text \<open>The purge: a candidate names the row whose directory goes, and no other.\<close>

definition candidates_own :: "(string \<times> string option) list \<Rightarrow> review_db \<Rightarrow> bool" where
  "candidates_own cs st \<longleftrightarrow>
     (\<forall>(s, ent)\<in>set cs. \<forall>x\<in>set (rv_submissions st). su_id x = s \<longrightarrow>
        (\<forall>e\<in>set (rv_entities st). su_entity x = Some (en_id e) \<longrightarrow> ent = Some (en_id e)))"

lemma purge_loop_inv:
  "store_inv st \<Longrightarrow> candidates_own cs st \<Longrightarrow> store_inv (purge_loop now cs st)"
proof (induction now cs st rule: purge_loop.induct)
  case (2 now s ent cs st)
  let ?i = "or_default ent []"
  let ?st1 = "if ?i = [] then st else delete_entity_row ?i (remove_entity_dir ?i st)"
  let ?st2 = "mark_bundle_purged now s ?st1"
  have comm: "delete_entity_row ?i (remove_entity_dir ?i st) = remove_entity_dir ?i (delete_entity_row ?i st)"
    by (cases st) (simp add: remove_entity_dir_def delete_entity_row_def fun_eq_iff)
  have inv: "store_inv ?st1" using delete_row_dir_inv 2(2) comm by simp
  have subs: "rv_submissions ?st1 = rv_submissions st" "set (rv_entities ?st1) \<subseteq> set (rv_entities st)"
    by (auto simp: remove_entity_dir_def delete_entity_row_def)
  have "store_inv ?st2"
  proof (rule store_inv_kept [OF inv])
    fix e assume e: "e \<in> set (rv_entities ?st1)"
    have sound: "sound_row ?st1 e" using inv e by (simp add: store_inv_def)
    have "en_id e \<noteq> []" using sound by (simp add: sound_row_def versions_kept_def)
    then have "ent \<noteq> Some (en_id e)"
      using e by (auto simp: or_default_def remove_entity_dir_def delete_entity_row_def split: if_splits)
    then have own: "su_entity x \<noteq> Some (en_id e)" if "x \<in> set (rv_submissions ?st1)" "su_id x = s" for x
      using 2(3) that subs e unfolding candidates_own_def by auto
    show "kept_for ?st1 ?st2 e" unfolding mark_bundle_purged_def
      by (rule map_submissions_kept [of _ "\<lambda>x. if su_id x = s then x\<lparr>su_purged := Some now, su_entity := None\<rparr> else x"])
        (use own in \<open>auto simp: passed_review_def\<close>)
  qed (simp add: mark_bundle_purged_def)
  moreover have "candidates_own cs ?st2"
    using 2(3) subs unfolding candidates_own_def mark_bundle_purged_def by fastforce
  ultimately show ?case using 2(1) by (simp add: Let_def)
qed simp

lemma purge_inv:
  assumes "store_inv st"
  shows "store_inv (fst (purge_blocked_bundles now ttl st))"
proof -
  have "candidates_own (find_purge_candidates ss older st) st" for ss older
  proof -
    have "ent = Some (en_id e)"
      if "(s, ent) \<in> set (find_purge_candidates ss older st)" "x \<in> set (rv_submissions st)" "su_id x = s"
        "e \<in> set (rv_entities st)" "su_entity x = Some (en_id e)" for s ent x e
    proof -
      note cand = that(1)
      obtain y where y: "y \<in> set (rv_submissions st)" "su_id y = s" "su_entity y = ent"
        using cand by (auto simp: find_purge_candidates_def)
      have "sound_row st e" using assms that(4) by (simp add: store_inv_def)
      then show ?thesis using submission_in_history [of st e] that(2,3,5) y by metis
    qed
    then show ?thesis unfolding candidates_own_def by blast
  qed
  then show ?thesis using purge_loop_inv assms by (simp add: purge_blocked_bundles_def Let_def)
qed

section \<open>New rows and new versions\<close>

text \<open>The identifiers that a request draws are new: no history has the submission, nothing names the entity.\<close>

definition submission_unused :: "string \<Rightarrow> review_db \<Rightarrow> bool" where
  "submission_unused s st \<longleftrightarrow> s \<noteq> [] \<and> list_all (\<lambda>e. list_all (\<lambda>h. ve_sub h \<noteq> Some s) (en_history e)) (rv_entities st)"

definition entity_unused :: "string \<Rightarrow> review_db \<Rightarrow> bool" where
  "entity_unused i st \<longleftrightarrow> i \<noteq> [] \<and> list_all (\<lambda>s. su_entity s \<noteq> Some i) (rv_submissions st) \<and>
     list_all (\<lambda>(s, ent). ent \<noteq> Some i) (rv_flight st)"

lemma submission_unused_history: "submission_unused s st \<Longrightarrow> e \<in> set (rv_entities st) \<Longrightarrow> \<not> in_history s e"
  by (auto simp: submission_unused_def in_history_def list_all_iff)

lemma get_submission_None: "get_submission s st = None \<longleftrightarrow> (\<forall>x\<in>set (rv_submissions st). su_id x \<noteq> s)"
  by (auto simp: get_submission_def find_None_iff)

lemma next_version_no_greater: "h \<in> set (en_history e) \<Longrightarrow> ve_n h < next_version_no e"
  unfolding next_version_no_def by (cases "en_history e = []") (auto simp: less_Suc_eq_le intro!: Max_ge)

lemma next_version_no_cong: "en_history e' = en_history e \<Longrightarrow> next_version_no e' = next_version_no e"
  by (simp add: next_version_no_def)

text \<open>A submission that no history has may be added.\<close>

lemma add_submission_kept:
  assumes "rv_submissions st' = rv_submissions st @ [x]" "su_entity x \<noteq> Some (en_id e)" "\<not> in_history (su_id x) e"
    and "map_option bn_content (rv_live st' (en_id e)) = map_option bn_content (rv_live st (en_id e))"
    and "\<forall>h\<in>set (en_history e). rv_versions st' (en_id e, ve_n h) = rv_versions st (en_id e, ve_n h)" "rv_flight st' = rv_flight st"
  shows "kept_for st st' e"
  using assms unfolding kept_for_def by auto

lemma append_version_inv:
  assumes "store_inv st" "get_entity i st = Some e" "rv_versions st (i, next_version_no e) \<noteq> None"
    and "submission_unused s st" "get_submission s st = None" "rv_submissions st' = rv_submissions st @ [x]" "su_id x = s"
    and "su_entity x = Some i" "rv_entities st' = map (\<lambda>e. if en_id e = i then en_history_update (\<lambda>hs. hs @ [h]) e else e) (rv_entities st)"
    and "ve_n h = next_version_no e" "ve_sub h = Some s"
    and "rv_live st' = rv_live st" "rv_versions st' = rv_versions st" "rv_flight st' = rv_flight st"
  shows "store_inv st'"
proof (rule replace_row_inv [OF sound_but_inv [OF assms(1)] assms(9)])
  show "kept_for st st' y" if "y \<in> set (rv_entities st)" "en_id y \<noteq> i" for y
    by (rule add_submission_kept [OF assms(6)])
      (use that assms submission_unused_history [OF assms(4) that(1)] in auto)
  fix y assume "get_entity i st = Some y"
  then have y: "y = e" using assms(2) by simp
  let ?e = "en_history_update (\<lambda>hs. hs @ [h]) e"
  have i: "en_id e = i" "e \<in> set (rv_entities st)" using get_entity_in [OF assms(2)] by auto
  have sound: "sound_row st e" using get_entity_sound assms(1,2) by blast
  have hist: "in_history z ?e \<longleftrightarrow> in_history z e \<or> z = s" for z using assms(11) by (auto simp: in_history_def)
  have "versions_kept st' ?e"
    using sound assms(3,10,13) i next_version_no_greater [of _ e]
    by (fastforce simp: sound_row_def versions_kept_def next_version_no_def)
  moreover have "live_current st' ?e" using sound assms(12,13) by (simp add: sound_row_def live_current_def)
  moreover have "linked st' ?e"
    using sound assms(5-8,14) i hist by (fastforce simp: sound_row_def linked_def get_submission_None)
  moreover have "judged (rv_submissions st') ?e \<or> en_version_no ?e = 1 \<and> \<not> shown ?e"
    using sound assms(6) by (auto simp: sound_row_def judged_def shown_def)
  ultimately show "sound_row st' (en_history_update (\<lambda>hs. hs @ [h]) y)" unfolding y sound_row_def by blast
qed simp

lemma fill_slot_inv:
  assumes "store_inv st" "get_entity i st = Some e"
  shows "store_inv (st\<lparr>rv_versions := (rv_versions st)((i, next_version_no e) \<mapsto> b)\<rparr>)"
proof (rule store_inv_kept [OF assms(1)])
  fix x assume x: "x \<in> set (rv_entities st)"
  have "ve_n h \<noteq> next_version_no e" if "h \<in> set (en_history x)" "en_id x = i" for h
  proof -
    have "x = e" using assms x that(2) get_entity_unique [of st i x] by (simp add: store_inv_def)
    then show ?thesis using next_version_no_greater that(1) by fastforce
  qed
  then show "kept_for st (st\<lparr>rv_versions := (rv_versions st)((i, next_version_no e) \<mapsto> b)\<rparr>) x"
    unfolding kept_for_def by auto
qed simp

lemma create_submission_Inr:
  "create_submission now s ent who v status st = Inr st' \<longleftrightarrow>
     status \<in> set VALID_STATUSES \<and> get_submission s st = None \<and>
     st' = st\<lparr>rv_submissions := rv_submissions st @ [\<lparr>su_id = s, su_entity = ent, su_submitter = who, su_version = v,
       su_status = status, su_model = None, su_created = now, su_purged = None\<rparr>]\<rparr>"
  by (auto simp: create_submission_def)

lemma promote_passed_inv:
  assumes "store_inv st" "get_entity i st = Some e" "\<not> broken i n" "h \<in> set (en_history e)" "ve_n h = n"
    and "ve_sub h = Some (su_id x)" "x \<in> set (rv_submissions st)" "passed_review x"
  shows "store_inv (snd (promote_to_version broken i n st))"
proof -
  have "sound_row st e" using get_entity_sound assms(1,2) by blast
  then have "versions_kept st e" "linked st e" by (simp_all add: sound_row_def)
  then show ?thesis
    using promote_inv [where broken = broken, OF sound_but_inv [OF assms(1)] assms(2)] assms(3-8) by blast
qed

lemma append_version_history_Inr:
  assumes "get_entity i st = Some e"
  shows "append_version_history i hash sz s st = Inr (next_version_no e, update_entities i (en_history_update (\<lambda>hs. hs @
      [\<lparr>ve_n = next_version_no e, ve_hash = hash, ve_size = sz, ve_sub = s\<rparr>])) st)"
  using assms by (simp add: append_version_history_def Let_def)

lemma schedule_review_inv: "store_inv st \<Longrightarrow> store_inv (schedule_review g s st)"
  by (simp add: schedule_review_def)

lemma add_version_inv:
  assumes "store_inv st" "get_entity i st = Some e" "rv_versions st (i, next_version_no e) \<noteq> None" "submission_unused s st"
    and "\<And>i n. \<not> wd_broken w i n" "add_version w g now who i s hash sz st = Inr st'"
  shows "store_inv st'"
proof -
  let ?status = "if gr_enabled g then ''pending_llm'' else ''approved''" and ?n = "next_version_no e"
  let ?x = "\<lparr>su_id = s, su_entity = Some i, su_submitter = who, su_version = hash, su_status = ?status, su_model = None,
      su_created = now, su_purged = None\<rparr>"
  let ?h = "\<lparr>ve_n = ?n, ve_hash = hash, ve_size = Some sz, ve_sub = Some s\<rparr>"
  let ?f = "en_history_update (\<lambda>hs. hs @ [?h])"
  let ?st1 = "st\<lparr>rv_submissions := rv_submissions st @ [?x]\<rparr>"
  let ?st2 = "update_entities i ?f ?st1"
  have none: "get_submission s st = None" and "create_submission now s (Some i) who hash ?status st = Inr ?st1"
    using assms(6) unfolding add_version_def rbind_eq_Inr create_submission_Inr by (elim exE conjE, simp)+
  moreover have get1: "get_entity i ?st1 = Some e" using assms(2) by (simp add: get_entity_def)
  ultimately have st': "st' = (if gr_enabled g then schedule_review g s ?st2 else snd (promote_to_version (wd_broken w) i ?n ?st2))"
    using assms(6) by (simp add: add_version_def append_version_history_Inr)
  have inv: "store_inv ?st2"
    by (rule append_version_inv [OF assms(1-4) none, of _ ?x ?h]) simp_all
  have get2: "get_entity i ?st2 = Some (?f e)" using get_update_entities [of ?f i ?st1] get1 by simp
  show ?thesis
  proof (cases "gr_enabled g")
    case False
    then have "store_inv (snd (promote_to_version (wd_broken w) i ?n ?st2))"
      by (intro promote_passed_inv [OF inv get2 assms(5), of ?h _ ?x]) (simp_all add: passed_review_def)
    then show ?thesis using False st' by simp
  qed (use st' schedule_review_inv [OF inv] in simp)
qed

lemma upload_inv:
  assumes "store_inv st" "upload_entity w g now u st = Inr st'" "submission_unused (ul_submission u) st"
    and "entity_unused (ul_entity u) st"
  shows "store_inv st'"
proof -
  let ?i = "ul_entity u" and ?s = "ul_submission u" and ?slug = "suffixed_name (ul_name u) (ul_username u)"
  let ?b = "\<lparr>bn_content = ul_content u, bn_slug = ?slug\<rparr>"
  let ?status = "if gr_enabled g then ''pending_llm'' else ''approved''"
  let ?x = "\<lparr>su_id = ?s, su_entity = Some ?i, su_submitter = ul_user u, su_version = wd_hash w ?b, su_status = ?status,
      su_model = None, su_created = now, su_purged = None\<rparr>"
  let ?e = "\<lambda>sub. \<lparr>en_id = ?i, en_owner = ul_user u, en_username = ul_username u, en_type = ul_type u, en_name = ul_name u,
      en_synthetic = ?slug, en_visibility = (if gr_enabled g then ''pending'' else ''approved''),
      en_version_no = 1, en_version = wd_hash w ?b, en_size = wd_size w ?b,
      en_history = [\<lparr>ve_n = 1, ve_hash = wd_hash w ?b,
        ve_size = (if wd_size w ?b = 0 then None else Some (wd_size w ?b)), ve_sub = sub\<rparr>]\<rparr>"
  let ?st0 = "st\<lparr>rv_live := (rv_live st)(?i \<mapsto> ?b), rv_versions := (rv_versions st)((?i, 1) \<mapsto> ?b)\<rparr>"
  let ?st3 = "st\<lparr>rv_live := (rv_live st)(?i \<mapsto> ?b), rv_versions := (rv_versions st)((?i, 1) \<mapsto> ?b),
      rv_entities := rv_entities st @ [?e (Some ?s)], rv_submissions := rv_submissions st @ [?x]\<rparr>"
  note result = assms(2) [unfolded upload_entity_def Let_def if_Inl_Inr rbind_eq_Inr create_submission_Inr sum.inject]
  obtain st1 where st1: "create_entity (?e None) ?st0 = Inr st1" "get_submission ?s st1 = None"
    and st': "st' = (let st3 = schedule_review g ?s (update_history_submission_id ?i 1 ?s
        (st1\<lparr>rv_submissions := rv_submissions st1 @ [?x]\<rparr>))
      in if ul_private u then set_visibility now ?i ''hidden'' st3 else st3)"
    using result unfolding Let_def by (elim conjE exE) blast
  have st1_eq: "st1 = ?st0\<lparr>rv_entities := rv_entities st @ [?e None]\<rparr>" and ids: "\<forall>r\<in>set (rv_entities st). en_id r \<noteq> ?i"
    using st1(1) unfolding create_entity_def if_Inl_Inr by (auto simp: list_ex_iff)
  have others: "map (\<lambda>e. if en_id e = ?i then f e else e) (rv_entities st) = rv_entities st" for f
    using ids by (intro map_idI) auto
  have st3: "update_history_submission_id ?i 1 ?s (st1\<lparr>rv_submissions := rv_submissions st1 @ [?x]\<rparr>) = ?st3"
    by (simp add: st1_eq update_history_submission_id_def update_entities_def others)
  have none: "get_submission ?s st = None" using st1(2) by (simp add: st1_eq get_submission_def)
  have inv: "store_inv ?st3"
  proof -
    have "sound_row ?st3 e" if "e \<in> set (rv_entities st)" for e
    proof (rule sound_row_kept)
      show "sound_row st e" using that assms(1) by (simp add: store_inv_def)
      show "kept_for st ?st3 e"
        by (rule add_submission_kept [of _ _ ?x])
          (use ids that submission_unused_history [OF assms(3) that] in auto)
    qed
    moreover have "sound_row ?st3 (?e (Some ?s))"
    proof -
      have "\<forall>x\<in>set (rv_submissions st). su_entity x \<noteq> Some ?i \<and> su_id x \<noteq> ?s" "\<forall>(s, ent)\<in>set (rv_flight st). ent \<noteq> Some ?i"
        "?i \<noteq> []"
        using assms(4) none by (auto simp: entity_unused_def list_all_iff get_submission_None)
      then show ?thesis
        by (auto simp: sound_row_def versions_kept_def live_current_def linked_def in_history_def judged_def shown_def passed_review_def)
    qed
    ultimately show ?thesis using assms(1) ids by (auto simp: store_inv_def)
  qed
  then have scheduled: "store_inv (schedule_review g ?s ?st3)" by (rule schedule_review_inv)
  moreover have "store_inv (set_visibility now ?i ''hidden'' (schedule_review g ?s ?st3))"
    by (rule set_visibility_inv [OF scheduled]) simp
  ultimately show ?thesis unfolding st' st3 Let_def by (cases "ul_private u") (simp_all only: if_True if_False)
qed

section \<open>Edits and restores\<close>

lemma bake_live_inv:
  assumes "store_inv st" "\<And>b. bn_content (f b) = bn_content b"
  shows "store_inv (st\<lparr>rv_live := (rv_live st)(i := map_option f (rv_live st i))\<rparr>)"
proof (rule store_inv_kept [OF assms(1)])
  show "kept_for st (st\<lparr>rv_live := (rv_live st)(i := map_option f (rv_live st i))\<rparr>) e" for e
    using assms(2) by (auto simp: kept_for_def option.map_comp comp_def)
qed simp

lemma rename_row_get:
  assumes "get_entity i st = Some e"
  shows "\<exists>e'. get_entity i (rename_row i new st) = Some e' \<and> en_history e' = en_history e"
proof (cases new)
  case (Some n)
  have "get_entity i (rename_row i new st) =
      map_option (\<lambda>e. e\<lparr>en_name := n, en_synthetic := suffixed_name n (en_username e)\<rparr>) (get_entity i st)"
    unfolding Some rename_row_def option.case by (rule get_update_entities) simp
  then show ?thesis using assms by simp
qed (use assms in \<open>simp add: rename_row_def\<close>)

lemma rename_row_fields [simp]:
  "rv_versions (rename_row i new st) = rv_versions st" "rv_submissions (rename_row i new st) = rv_submissions st"
  by (cases new; simp add: rename_row_def)+

lemma submission_unused_history_cong:
  "map en_history (rv_entities st') = map en_history (rv_entities st) \<Longrightarrow> submission_unused s st' = submission_unused s st"
proof -
  have eq: "list_all (\<lambda>e. list_all P (en_history e)) es = list_all (list_all P) (map en_history es)" for P es
    by (simp add: list.pred_map comp_def)
  assume same: "map en_history (rv_entities st') = map en_history (rv_entities st)"
  show ?thesis unfolding submission_unused_def eq same ..
qed

lemma rename_row_history: "map en_history (rv_entities (rename_row i new st)) = map en_history (rv_entities st)"
  by (cases new) (simp_all add: rename_row_def)

lemma staged_next: "store_inv st \<Longrightarrow> get_entity i st = Some e \<Longrightarrow> staged_version_no e = next_version_no e"
  using get_entity_sound [of st i e] by (auto simp: sound_row_def versions_kept_def staged_version_no_def next_version_no_def)

lemma edit_inv:
  assumes "store_inv st" "edit_entity w g now who admin i ed st = Inr st'" "submission_unused (ed_submission ed) st"
    and "\<And>i n. \<not> wd_broken w i n"
  shows "store_inv st'"
proof -
  obtain e where e: "get_entity i st = Some e" using assms(2) by (cases "get_entity i st") (simp_all add: edit_entity_def)
  note r1 = assms(2) [unfolded edit_entity_def e option.case if_Inl_Inr Let_def staged_next [OF assms(1) e]]
  then have pending: "pending_review i st = None" by (cases "pending_review i st") simp_all
  obtain rename where rename: "edit_rename i e ed st = Inr rename"
    using r1 unfolding pending option.case rbind_eq_Inr by blast
  define bake where "bake = (\<lambda>b. case rename of None \<Rightarrow> b | Some n \<Rightarrow> rename_baked_tree (suffixed_name n (en_username e)) b)"
  have content: "bn_content (bake b) = bn_content b" for b by (cases rename) (simp_all add: bake_def rename_baked_tree_def)
  note r2 = r1 [unfolded pending option.case rename rbind.simps, folded bake_def]
  show ?thesis
  proof (cases "ed_file ed")
    case None
    then have "st' = rename_row i rename (st\<lparr>rv_live := (rv_live st)(i := map_option bake (rv_live st i))\<rparr>)"
      using r2 by simp
    then show ?thesis using rename_row_inv bake_live_inv assms(1) content by blast
  next
    case (Some c)
    let ?b = "\<lparr>bn_content = c, bn_slug = en_synthetic e\<rparr>"
    let ?st0 = "st\<lparr>rv_versions := (rv_versions st)((i, next_version_no e) \<mapsto> bake ?b)\<rparr>"
    let ?st1 = "rename_row i rename ?st0"
    have add: "add_version w g now who i (ed_submission ed) (wd_hash w ?b) (wd_size w (bake ?b)) ?st1 = Inr st'"
      using r2 Some by (simp add: bake_def split: if_splits)
    have inv: "store_inv ?st1" by (rule rename_row_inv) (rule fill_slot_inv [OF assms(1) e])
    obtain e' where e': "get_entity i ?st1 = Some e'" "en_history e' = en_history e"
      using rename_row_get [of i ?st0 e rename] e by (auto simp: get_entity_def)
    have "rv_versions ?st1 (i, next_version_no e') \<noteq> None"
      using next_version_no_cong [OF e'(2)] by simp
    moreover have "submission_unused (ed_submission ed) ?st1 = submission_unused (ed_submission ed) ?st0"
      by (rule submission_unused_history_cong [OF rename_row_history])
    then have "submission_unused (ed_submission ed) ?st1" using assms(3) by (simp add: submission_unused_def)
    ultimately show ?thesis using add_version_inv [OF inv e'(1) _ _ assms(4) add] by blast
  qed
qed

lemma restore_inv:
  assumes "store_inv st" "restore_version w g now who admin inline i n s st = Inr st'" "submission_unused s st"
    and "\<And>i n. \<not> wd_broken w i n"
  shows "store_inv st'"
proof -
  obtain e where e: "get_entity i st = Some e" using assms(2) by (cases "get_entity i st") (simp_all add: restore_version_def)
  note r1 = assms(2) [unfolded restore_version_def e option.case if_Inl_Inr staged_next [OF assms(1) e]]
  then have pending: "pending_review i st = None" by (cases "pending_review i st") simp_all
  let ?st0 = "\<lambda>b. st\<lparr>rv_versions := (rv_versions st)((i, next_version_no e) \<mapsto> b)\<rparr>"
  let ?reuse = "gr_enabled g \<and> gr_ready g"
  obtain b where b: "rv_versions st (i, n) = Some b"
    using r1 unfolding pending option.case Let_def by (cases "rv_versions st (i, n)") (auto split: option.splits if_splits)
  let ?hash = "wd_hash w b" and ?sz = "wd_size w b"
  have inv: "store_inv (?st0 b)" by (rule fill_slot_inv [OF assms(1) e])
  have get: "get_entity i (?st0 b) = Some e" using e by (simp add: get_entity_def)
  have unused: "submission_unused s (?st0 b)" using assms(3) by (simp add: submission_unused_def)
  have slot: "rv_versions (?st0 b) (i, next_version_no e) \<noteq> None" by simp
  have cases: "add_version w g now who i s ?hash ?sz (?st0 b) = Inr st' \<or>
      rbind (create_submission now s (Some i) who ?hash ''approved'' (?st0 b)) (\<lambda>st2.
        rbind (append_version_history i ?hash (Some ?sz) (Some s) (snd (write_status s ''approved'' (Some (gr_model g)) True st2)))
          (\<lambda>(m, st3). Inr (if m > en_version_no e then snd (promote_to_version (wd_broken w) i m st3) else st3))) = Inr st'"
    using r1 unfolding pending option.case b Let_def by (auto split: option.splits if_splits)
  show ?thesis using cases
  proof
    assume "add_version w g now who i s ?hash ?sz (?st0 b) = Inr st'"
    then show ?thesis using add_version_inv [OF inv get slot unused assms(4)] by blast
  next
    let ?x = "\<lparr>su_id = s, su_entity = Some i, su_submitter = who, su_version = ?hash, su_status = ''approved'', su_model = None,
      su_created = now, su_purged = None\<rparr>"
    let ?y = "?x\<lparr>su_model := Some (gr_model g)\<rparr>"
    let ?h = "\<lparr>ve_n = next_version_no e, ve_hash = ?hash, ve_size = Some ?sz, ve_sub = Some s\<rparr>"
    let ?f = "en_history_update (\<lambda>hs. hs @ [?h])"
    assume reuse: "rbind (create_submission now s (Some i) who ?hash ''approved'' (?st0 b)) (\<lambda>st2.
        rbind (append_version_history i ?hash (Some ?sz) (Some s) (snd (write_status s ''approved'' (Some (gr_model g)) True st2)))
          (\<lambda>(m, st3). Inr (if m > en_version_no e then snd (promote_to_version (wd_broken w) i m st3) else st3))) = Inr st'"
    let ?st1 = "(?st0 b)\<lparr>rv_submissions := rv_submissions st @ [?x]\<rparr>"
    have none: "get_submission s (?st0 b) = None" and created: "create_submission now s (Some i) who ?hash ''approved'' (?st0 b) = Inr ?st1"
      using reuse unfolding rbind_eq_Inr create_submission_Inr by (elim exE conjE, simp)+
    have "map (\<lambda>z. if su_id z = s then f z else z) (rv_submissions st) = rv_submissions st" for f
      using none by (intro map_idI) (auto simp: get_submission_None)
    then have written: "snd (write_status s ''approved'' (Some (gr_model g)) True ?st1) = ?st1\<lparr>rv_submissions := rv_submissions st @ [?y]\<rparr>"
      by (simp add: write_status_def Let_def update_submissions_def)
    let ?st2 = "update_entities i ?f (?st1\<lparr>rv_submissions := rv_submissions st @ [?y]\<rparr>)"
    have get1: "get_entity i (?st1\<lparr>rv_submissions := rv_submissions st @ [?y]\<rparr>) = Some e" using e by (simp add: get_entity_def)
    have st': "st' = (if next_version_no e > en_version_no e then snd (promote_to_version (wd_broken w) i (next_version_no e) ?st2) else ?st2)"
      using reuse unfolding created rbind.simps written append_version_history_Inr [OF get1] by (simp only: prod.case sum.inject)
    have inv2: "store_inv ?st2"
      by (rule append_version_inv [OF inv get slot unused none, of _ ?y ?h]) simp_all
    have get2: "get_entity i ?st2 = Some (?f e)"
      using get_update_entities [of ?f i "?st1\<lparr>rv_submissions := rv_submissions st @ [?y]\<rparr>"] get1 by simp
    have "store_inv (snd (promote_to_version (wd_broken w) i (next_version_no e) ?st2))"
      by (rule promote_passed_inv [OF inv2 get2 assms(4), of ?h _ ?y]) (simp_all add: passed_review_def)
    then show ?thesis unfolding st' using inv2
      by (cases "en_version_no e < next_version_no e") (simp_all only: if_True if_False)
  qed
qed

section \<open>Histories\<close>

text \<open>An event that draws new identifiers, and is neither a rescan nor an import.\<close>

fun fresh_event :: "review_event \<Rightarrow> review_db \<Rightarrow> bool" where
  "fresh_event (Upload g u) st \<longleftrightarrow> submission_unused (ul_submission u) st \<and> entity_unused (ul_entity u) st"
| "fresh_event (Edit g who admin i ed) st \<longleftrightarrow> submission_unused (ed_submission ed) st"
| "fresh_event (Restore g who admin inline i n s) st \<longleftrightarrow> submission_unused s st"
| "fresh_event (Rescan g inline s) st \<longleftrightarrow> False"
| "fresh_event (Import mode xs) st \<longleftrightarrow> False"
| "fresh_event _ st \<longleftrightarrow> True"

fun fresh_run :: "world \<Rightarrow> (micros \<times> review_event) list \<Rightarrow> review_db \<Rightarrow> bool" where
  "fresh_run w [] st \<longleftrightarrow> True"
| "fresh_run w ((now, ev) # evs) st \<longleftrightarrow> fresh_event ev st \<and> fresh_run w evs (review_step w now ev st)"

lemma or_same_inv: "store_inv st \<Longrightarrow> (\<And>st'. r = Inr st' \<Longrightarrow> store_inv st') \<Longrightarrow> store_inv (or_same st r)"
  by (cases r) (simp_all add: or_same_def)

lemma review_step_inv:
  assumes "store_inv st" "fresh_event ev st" "\<And>i n. \<not> wd_broken w i n"
  shows "store_inv (review_step w now ev st)"
proof (cases ev)
  case (Upload g u)
  then show ?thesis using assms(1,2) upload_inv by (auto intro: or_same_inv)
next
  case (Edit g who admin i ed)
  then show ?thesis using assms edit_inv by (auto intro!: or_same_inv)
next
  case (Restore g who admin inline i n s)
  then show ?thesis using assms restore_inv by (auto intro!: or_same_inv)
next
  case (Delete who admin hard renames i)
  then show ?thesis using assms(1) delete_entity_inv by simp
next
  case (Override s)
  then show ?thesis using assms(1,3) override_inv by (auto intro!: or_same_inv)
next
  case (Retry s)
  then show ?thesis using assms(1) retry_inv by (auto intro!: or_same_inv)
next
  case (DeleteSubmission s)
  then show ?thesis using assms(1) delete_submission_inv by (auto intro!: or_same_inv)
next
  case (BeginReview s)
  then show ?thesis using assms(1) begin_review_inv by (simp split: option.split)
next
  case (LandReview s ent oc)
  then show ?thesis using assms(1,3) land_step_inv by simp
next
  case (Purge ttl)
  then show ?thesis using assms(1) purge_inv by simp
next
  case (Reap grace)
  then show ?thesis using assms(1) reap_inv by simp
qed (use assms(2) in simp_all)

lemma fresh_run_inv:
  assumes "\<And>i n. \<not> wd_broken w i n"
  shows "store_inv st \<Longrightarrow> fresh_run w evs st \<Longrightarrow> store_inv (fold (\<lambda>(now, ev). review_step w now ev) evs st)"
proof (induction evs arbitrary: st)
  case (Cons p evs)
  obtain now ev where p: "p = (now, ev)" by (cases p)
  have "store_inv (review_step w now ev st)" using Cons(2,3) review_step_inv [OF _ _ assms] by (simp add: p)
  then show ?case using Cons(1,3) by (simp add: p)
qed simp

lemma review_run_inv:
  assumes "fresh_run w evs empty_store" "\<And>i n. \<not> wd_broken w i n"
  shows "store_inv (review_run w evs)"
  unfolding review_run_def by (rule fresh_run_inv [OF assms(2) _ assms(1)]) (simp add: store_inv_def empty_store_def)

text \<open>The tables as the marketplace reads them.\<close>

definition store_catalog :: "review_db \<Rightarrow> mkt \<Rightarrow> mkt" where
  "store_catalog st k = k\<lparr>
     mk_entities := map (\<lambda>e. \<lparr>st_id = en_id e, st_owner = en_owner e, st_type = en_type e, st_name = en_name e,
       st_version = Some (en_version e), st_status = en_visibility e, st_synthetic = en_synthetic e\<rparr>) (rv_entities st),
     mk_submissions := List.map_filter (\<lambda>s. map_option (\<lambda>i. (i, su_status s)) (su_entity s)) (rv_submissions st)\<rparr>"

lemma sound_row_published:
  assumes "sound_row st e" "shown e"
  shows "\<exists>h\<in>set (en_history e). \<exists>s\<in>set (rv_submissions st). \<exists>b. ve_n h = en_version_no e \<and> ve_sub h = Some (su_id s) \<and>
    su_entity s = Some (en_id e) \<and> su_status s \<in> {''approved'', ''overridden''} \<and> rv_live st (en_id e) = Some b \<and>
    map_option bn_content (rv_versions st (en_id e, en_version_no e)) = Some (bn_content b)"
proof -
  have "judged (rv_submissions st) e" using assms by (simp add: sound_row_def)
  then obtain h s where h: "h \<in> set (en_history e)" "ve_n h = en_version_no e" "s \<in> set (rv_submissions st)"
    "ve_sub h = Some (su_id s)" "passed_review s"
    by (auto simp: judged_def)
  moreover from this have "su_entity s = Some (en_id e)"
    using submission_in_history [OF assms(1) h(3)] by (auto simp: in_history_def)
  moreover obtain b b' where "rv_live st (en_id e) = Some b" "rv_versions st (en_id e, en_version_no e) = Some b'"
    "bn_content b = bn_content b'"
    using assms(1) by (auto simp: sound_row_def live_current_def)
  ultimately show ?thesis unfolding passed_review_def by (intro bexI [of _ h] bexI [of _ s] exI [of _ b]) simp_all
qed

lemma catalog_installed:
  assumes "x \<in> set (installs_for_user u (store_catalog st k))" "st_owner x \<noteq> u" "st_status x \<noteq> ''archived''"
  shows "\<exists>e\<in>set (rv_entities st). en_id e = st_id x \<and> en_visibility e = ''approved''"
  using assms by (auto simp: in_installs_for_user store_catalog_def entity_servable_def)

text \<open>
  C17. What the marketplace serves to a user from another user's store entity that is not archived has been judged:
  after any history of uploads, edits, restores, deletions, overrides, retries, sweeps and reviews that begin and end at
  any moment, in which identifiers are new, no copy fails and nothing is rescanned or imported, the live bundle of a served entity has
  the bytes of its current version, and the submission of that version was approved by the review or overridden by an
  administrator.\<close>

theorem published_bundle_judged:
  assumes "fresh_run w evs empty_store" "\<forall>i n. \<not> wd_broken w i n"
    and "x \<in> set (installs_for_user u (store_catalog (review_run w evs) k))" "st_owner x \<noteq> u" "st_status x \<noteq> ''archived''"
  shows "\<exists>e\<in>set (rv_entities (review_run w evs)). \<exists>h\<in>set (en_history e). \<exists>s\<in>set (rv_submissions (review_run w evs)). \<exists>b.
    en_id e = st_id x \<and> ve_n h = en_version_no e \<and> ve_sub h = Some (su_id s) \<and> su_entity s = Some (st_id x) \<and>
    su_status s \<in> {''approved'', ''overridden''} \<and> rv_live (review_run w evs) (st_id x) = Some b \<and>
    map_option bn_content (rv_versions (review_run w evs) (st_id x, en_version_no e)) = Some (bn_content b)"
proof -
  obtain e where e: "e \<in> set (rv_entities (review_run w evs))" "en_id e = st_id x" "en_visibility e = ''approved''"
    using catalog_installed [OF assms(3-5)] by blast
  have "sound_row (review_run w evs) e" using review_run_inv assms(1,2) e(1) by (auto simp: store_inv_def)
  moreover have "shown e" using e(3) by (simp add: shown_def)
  ultimately show ?thesis using sound_row_published [of "review_run w evs" e] e(1,2) by metis
qed

text \<open>
  C33. A verdict that comes too late is inert: when every row of a submission is already approved, overridden or blocked
  by an inline check, then a review that ends on it, whatever its outcome, changes no submission, no entity and no bundle:
  only the review itself is over.\<close>

theorem late_verdict_inert:
  assumes "\<forall>x\<in>set (rv_submissions st). su_id x = s \<longrightarrow> su_status x \<in> {''approved'', ''overridden'', ''blocked_inline''}"
    and "(s, ent) \<in> set (rv_flight st)"
  shows "review_step w now (LandReview s ent oc) st = st\<lparr>rv_flight := remove1 (s, ent) (rv_flight st)\<rparr>"
proof -
  let ?st = "st\<lparr>rv_flight := remove1 (s, ent) (rv_flight st)\<rparr>"
  have "write_status s status m False ?st = (False, ?st)" for status m
    by (rule write_status_terminal) (use assms(1) in \<open>simp add: TERMINAL_STATUSES_def\<close>)
  then have "land_review broken s ent oc ?st = ?st" for broken
    by (simp add: land_review_def split: outcome.split review_verdict.split)
  then show ?thesis using assms(2) by simp
qed

section \<open>Examples, and what gets through\<close>

definition example_world :: world where
  "example_world = \<lparr>wd_hash = bn_content, wd_size = (\<lambda>b. int (length (bn_content b))), wd_broken = (\<lambda>_ _. False)\<rparr>"

definition example_guardrails :: guardrails where
  "example_guardrails = \<lparr>gr_enabled = True, gr_ready = True, gr_model = ''m'', gr_quota = 0\<rparr>"

definition example_upload :: "bool \<Rightarrow> micros \<times> review_event" where
  "example_upload private = (0, Upload example_guardrails \<lparr>ul_entity = ''e1'', ul_submission = ''s1'', ul_user = ''amy'',
     ul_username = ''amy'', ul_type = ''skill'', ul_name = ''lint'', ul_content = ''one'', ul_inline = True, ul_private = private\<rparr>)"

definition example_edit :: "micros \<times> review_event" where
  "example_edit = (3, Edit example_guardrails ''amy'' False ''e1'' \<lparr>ed_submission = ''s2'', ed_type = None, ed_name = None,
     ed_file = Some ''two'', ed_inline = True\<rparr>)"

definition example_review :: "micros \<Rightarrow> string \<Rightarrow> review_verdict \<Rightarrow> (micros \<times> review_event) list" where
  "example_review t s v = [(t, BeginReview s), (t, LandReview s (Some ''e1'') (Judged v ''m''))]"

definition example_installs :: mkt where
  "example_installs = \<lparr>mk_plugins = [], mk_registry = [], mk_optouts = [], mk_entities = [], mk_submissions = [],
     mk_installs = [(''bob'', ''e1'', 1)]\<rparr>"

definition example_history :: "(micros \<times> review_event) list" where
  "example_history = example_upload False # example_review 1 ''s1'' Safe @ example_edit # example_review 4 ''s2'' Safe"

text \<open>What an entity shows: its visibility, its current version, its live bytes and the status of each submission.\<close>

definition entity_view :: "string \<Rightarrow> review_db \<Rightarrow> (string \<times> nat \<times> string option \<times> string list) option" where
  "entity_view i st = map_option (\<lambda>e. (en_visibility e, en_version_no e, map_option bn_content (rv_live st i),
     map su_status (rv_submissions st))) (get_entity i st)"

lemma example_history_view:
  "entity_view ''e1'' (review_run example_world example_history) = Some (''approved'', 2, Some ''two'', [''approved'', ''approved''])"
  by code_simp

definition example_served :: store_entity where
  "example_served = \<lparr>st_id = ''e1'', st_owner = ''amy'', st_type = ''skill'', st_name = ''lint'', st_version = Some ''two'',
     st_status = ''approved'', st_synthetic = ''lint-by-amy''\<rparr>"

text \<open>
  A purge, and the deletion of one submission, take the whole entity with them: the live, approved version goes when an edit
  after it was blocked.
\<close>

definition blocked_edit :: "(micros \<times> review_event) list" where
  "blocked_edit = example_upload False # example_review 1 ''s1'' Safe @ example_edit # example_review 4 ''s2'' Unsafe"

lemma blocked_edit_stays_live:
  "entity_view ''e1'' (review_run example_world blocked_edit) = Some (''approved'', 1, Some ''one'', [''approved'', ''blocked_llm''])"
  by code_simp

lemma purge_drops_live_version:
  "entity_view ''e1'' (review_run example_world (blocked_edit @ [(31 * 86400000000, Purge 30)])) = None \<and>
   rv_live (review_run example_world (blocked_edit @ [(31 * 86400000000, Purge 30)])) ''e1'' = None"
  by code_simp

lemma submission_delete_drops_live_version:
  "rv_live (review_run example_world (blocked_edit @ [(5, DeleteSubmission ''s2'')])) ''e1'' = None"
  by code_simp

text \<open>A promotion whose copy fails is silent, after the entity became visible: the blocked first version is published.\<close>

lemma failed_promotion_publishes_blocked:
  "entity_view ''e1'' (review_run (example_world\<lparr>wd_broken := (\<lambda>i n. n = 2)\<rparr>)
     (example_upload False # example_review 1 ''s1'' Unsafe @ example_edit # example_review 4 ''s2'' Safe)) =
   Some (''approved'', 1, Some ''one'', [''blocked_llm'', ''approved''])"
  by code_simp

text \<open>
  A rescan judges one version and shows the entity: rescanning the first one brings back the second, which a rescan had
  blocked; and rescanning a private entity makes it public.
\<close>

lemma rescan_publishes_blocked:
  "entity_view ''e1'' (review_run example_world (example_history @
     [(5, Rescan example_guardrails False ''s2''), (6, Rescan example_guardrails True ''s1'')] @ example_review 7 ''s1'' Safe)) =
   Some (''approved'', 2, Some ''two'', [''approved'', ''blocked_inline''])"
  by code_simp

lemma rescan_publishes_private:
  "entity_view ''e1'' (review_run example_world (example_upload True # example_review 1 ''s1'' Safe)) =
   Some (''hidden'', 1, Some ''one'', [''approved'']) \<and>
   entity_view ''e1'' (review_run example_world (example_upload True # example_review 1 ''s1'' Safe @
     (2, Rescan example_guardrails True ''s1'') # example_review 3 ''s1'' Safe)) = Some (''approved'', 1, Some ''one'', [''approved''])"
  by code_simp

text \<open>A verdict on a deleted entity brings the deleted submission back to life.\<close>

lemma verdict_overwrites_deleted:
  "map su_status (rv_submissions (review_run example_world
     [example_upload False, (1, BeginReview ''s1''), (2, Delete ''root'' True True True ''e1'')])) = [''deleted''] \<and>
   map su_status (rv_submissions (review_run example_world
     [example_upload False, (1, BeginReview ''s1''), (2, Delete ''root'' True True True ''e1''),
      (3, LandReview ''s1'' (Some ''e1'') (Judged Safe ''m''))])) = [''approved'']"
  by code_simp

text \<open>Leaving the archive restores the name and not the synthetic name.\<close>

lemma revert_keeps_archived_synthetic:
  "map_option (\<lambda>e. (en_visibility e, en_name e, en_synthetic e)) (get_entity ''e1'' (review_run example_world
     (example_upload False # example_review 1 ''s1'' Safe @ [(7000000, Delete ''amy'' False False False ''e1'')]))) =
   Some (''approved'', ''lint'', ''lint__archived__7-by-amy'')"
  by code_simp

text \<open>An approved edit of a private entity stays behind: its author keeps the first version.\<close>

lemma private_edit_stays_behind:
  "entity_view ''e1'' (review_run example_world
     (example_upload True # example_review 1 ''s1'' Safe @ example_edit # example_review 4 ''s2'' Safe)) =
   Some (''hidden'', 1, Some ''one'', [''approved'', ''approved''])"
  by code_simp

text \<open>Archiving a quarantined entity serves its blocked bytes again to who had installed it.\<close>

definition quarantined :: "(micros \<times> review_event) list" where
  "quarantined = example_upload False # example_review 1 ''s1'' Safe @ [(2, Rescan example_guardrails False ''s1'')]"

lemma archive_serves_quarantined:
  "map st_id (installs_for_user ''bob'' (store_catalog (review_run example_world quarantined) example_installs)) = [] \<and>
   map st_id (installs_for_user ''bob'' (store_catalog (review_run example_world
     (quarantined @ [(3, Delete ''root'' True False True ''e1'')])) example_installs)) = [''e1''] \<and>
   entity_view ''e1'' (review_run example_world (quarantined @ [(3, Delete ''root'' True False True ''e1'')])) =
     Some (''archived'', 1, Some ''one'', [''blocked_inline''])"
  by code_simp

text \<open>An edit that renames takes effect on the row before its bundle is judged: blocked, it leaves the live tree another slug.\<close>

lemma blocked_rename_parts_slugs:
  "map_option (\<lambda>e. (en_name e, en_synthetic e)) (get_entity ''e1'' (review_run example_world
     (example_upload False # example_review 1 ''s1'' Safe @ [(3, Edit example_guardrails ''amy'' False ''e1''
        \<lparr>ed_submission = ''s2'', ed_type = None, ed_name = Some ''mend'', ed_file = Some ''two'', ed_inline = True\<rparr>)] @
      example_review 4 ''s2'' Unsafe))) = Some (''mend'', ''mend-by-amy'') \<and>
   rv_live (review_run example_world
     (example_upload False # example_review 1 ''s1'' Safe @ [(3, Edit example_guardrails ''amy'' False ''e1''
        \<lparr>ed_submission = ''s2'', ed_type = None, ed_name = Some ''mend'', ed_file = Some ''two'', ed_inline = True\<rparr>)] @
      example_review 4 ''s2'' Unsafe)) ''e1'' = Some \<lparr>bn_content = ''one'', bn_slug = ''lint-by-amy''\<rparr>"
  by code_simp

text \<open>
  A restored bundle: an entity that is new here is pending and has no submission, so nothing can approve it but an edit;
  one that is there gets other live bytes under its approval, and loses the trees of its versions.
\<close>

definition example_entry :: import_entry where
  "example_entry = \<lparr>im_id = ''e1'', im_owner = ''amy'', im_username = ''amy'', im_type = ''skill'', im_name = ''lint'',
     im_version = ''three'', im_size = 5, im_files = True, im_live = Some \<lparr>bn_content = ''three'', bn_slug = ''lint-by-amy''\<rparr>,
     im_versions = []\<rparr>"

lemma import_stays_pending:
  "entity_view ''e1'' (review_run example_world [(0, Import ''merge'' [example_entry])]) = Some (''pending'', 1, Some ''three'', []) \<and>
   map st_id (installs_for_user ''bob'' (store_catalog (review_run example_world [(0, Import ''merge'' [example_entry])])
     example_installs)) = []"
  by code_simp

lemma import_replaces_judged_bytes:
  "entity_view ''e1'' (review_run example_world (example_history @ [(5, Import ''merge'' [example_entry])])) =
     Some (''approved'', 2, Some ''three'', [''approved'', ''approved'']) \<and>
   rv_versions (review_run example_world example_history) (''e1'', 1) \<noteq> None \<and>
   rv_versions (review_run example_world (example_history @ [(5, Import ''merge'' [example_entry])])) (''e1'', 1) = None"
  by code_simp

lemma example_history_served:
  "example_served \<in> set (installs_for_user ''bob'' (store_catalog (review_run example_world example_history) example_installs)) \<and>
   fresh_run example_world example_history empty_store"
  by code_simp

theorem published_bundle_judged_witness:
  "\<exists>e\<in>set (rv_entities (review_run example_world example_history)). \<exists>h\<in>set (en_history e).
     \<exists>s\<in>set (rv_submissions (review_run example_world example_history)). \<exists>b.
     en_id e = ''e1'' \<and> ve_n h = en_version_no e \<and> ve_sub h = Some (su_id s) \<and> su_entity s = Some ''e1'' \<and>
     su_status s \<in> {''approved'', ''overridden''} \<and> rv_live (review_run example_world example_history) ''e1'' = Some b \<and>
     map_option bn_content (rv_versions (review_run example_world example_history) (''e1'', en_version_no e)) = Some (bn_content b)"
  using published_bundle_judged [of example_world example_history example_served "''bob''" example_installs]
    example_history_served
  by (simp add: example_served_def example_world_def)

theorem late_verdict_inert_witness:
  "review_step example_world 9 (LandReview ''s1'' (Some ''e1'') (Judged Unsafe ''m''))
     (review_run example_world ([example_upload False, (1, BeginReview ''s1''), (2, Override ''s1'')])) =
   (review_run example_world ([example_upload False, (1, BeginReview ''s1''), (2, Override ''s1'')]))\<lparr>rv_flight :=
     remove1 (''s1'', Some ''e1'') (rv_flight (review_run example_world
       ([example_upload False, (1, BeginReview ''s1''), (2, Override ''s1'')])))\<rparr>"
proof (rule late_verdict_inert)
  let ?st = "review_run example_world ([example_upload False, (1, BeginReview ''s1''), (2, Override ''s1'')])"
  show "\<forall>x\<in>set (rv_submissions ?st). su_id x = ''s1'' \<longrightarrow> su_status x \<in> {''approved'', ''overridden'', ''blocked_inline''}"
    by code_simp
  show "(''s1'', Some ''e1'') \<in> set (rv_flight ?st)" by code_simp
qed

end
