(* ===== verification/ReviewForward.thy ===== *)
theory ReviewForward
  imports ReviewRuns
begin

text \<open>
  The current version of a store entity only moves forward, whatever step follows a history of \<open>ReviewRuns\<close>: a
  comparison of the rows before and after a step, that every operation of \<open>Review\<close> respects.
\<close>

section \<open>Versions only go forward\<close>

text \<open>Every row after a step was there before, with a current version that is not newer.\<close>

definition forward :: "review_db \<Rightarrow> review_db \<Rightarrow> bool" where
  "forward st st' \<longleftrightarrow> (\<forall>e'\<in>set (rv_entities st'). \<exists>e\<in>set (rv_entities st). en_id e = en_id e' \<and> en_version_no e \<le> en_version_no e')"

lemma forward_fewer: "set (rv_entities st') \<subseteq> set (rv_entities st) \<Longrightarrow> forward st st'"
  unfolding forward_def by blast

lemma forward_trans: "forward st st' \<Longrightarrow> forward st' st'' \<Longrightarrow> forward st st''"
  unfolding forward_def using order_trans by (metis (no_types, lifting))

lemma forward_update:
  assumes "\<And>e. en_id (f e) = en_id e" "\<And>e. e \<in> set (rv_entities st) \<Longrightarrow> en_id e = i \<Longrightarrow> en_version_no e \<le> en_version_no (f e)"
  shows "forward st (update_entities i f st)"
  unfolding forward_def using assms by force

lemma forward_visibility: "forward st (set_visibility now i v st)"
  unfolding set_visibility_update by (rule forward_update) simp_all

lemma forward_pending: "forward st (snd (set_visibility_if_pending i v st))"
  unfolding set_visibility_if_pending_def by (auto split: option.splits intro: forward_update forward_fewer)

lemma swap_entities: "rv_entities (snd (swap_live_to_version broken i n st)) = rv_entities st"
  by (simp add: swap_live_to_version_def split: option.split)

lemma forward_promote:
  assumes "\<And>e. e \<in> set (rv_entities st) \<Longrightarrow> en_id e = i \<Longrightarrow> en_version_no e \<le> n"
  shows "forward st (snd (promote_to_version broken i n st))"
proof -
  have upd: "forward st' (snd (promote_version i n st'))" if "rv_entities st' = rv_entities st" for st'
  proof (cases "Option.bind (get_entity i st') (get_version n)")
    case (Some h)
    then show ?thesis unfolding promote_version_def Some option.case snd_conv
      by (intro forward_update) (use assms that in simp_all)
  qed (simp add: promote_version_def forward_fewer)
  let ?st1 = "snd (swap_live_to_version broken i n st)"
  have same: "forward st ?st1" by (rule forward_fewer) (simp add: swap_entities)
  have "forward st (snd (promote_version i n ?st1))" by (rule forward_trans [OF same upd]) (rule swap_entities)
  moreover have "forward st (snd (swap_live_to_version broken i m (snd (promote_version i n ?st1))))" for m
    by (rule forward_trans [OF calculation forward_fewer]) (simp add: swap_entities)
  ultimately show ?thesis
    by (simp add: promote_to_version_def Let_def case_prod_beta forward_fewer)
qed

text \<open>The promotion of a submission's version, when it is newer than the current one.\<close>

lemma forward_guarded:
  assumes "distinct (map en_id (rv_entities st))" "get_entity i st = Some e" "en_version_no e < n"
  shows "forward st (snd (promote_to_version broken i n st))"
proof (rule forward_promote)
  fix x assume "x \<in> set (rv_entities st)" "en_id x = i"
  then have "x = e" using get_entity_unique [OF assms(1), of i x] assms(2) by simp
  then show "en_version_no x \<le> n" using assms(3) by simp
qed

lemma set_visibility_ids: "map en_id (rv_entities (set_visibility now i v st)) = map en_id (rv_entities st)"
  unfolding set_visibility_update by simp

lemma forward_submissions: "forward st (update_submissions P f st)"
  by (rule forward_fewer) simp

lemma forward_land:
  assumes "distinct (map en_id (rv_entities st))"
  shows "forward st (land_review broken s ent oc st)"
proof -
  have written: "forward st (snd (write_status s v m f st))" for v m f by (rule forward_fewer) simp
  have publish: "forward st' (publish_judged broken s i st')" if "distinct (map en_id (rv_entities st'))" for i st'
  proof -
    let ?st1 = "snd (set_visibility_if_pending i ''approved'' st')"
    have ids: "distinct (map en_id (rv_entities ?st1))"
      using that by (simp add: set_visibility_if_pending_def comp_def if_distrib cong: if_cong split: option.split)
    have "forward ?st1 (publish_judged broken s i st')"
      unfolding publish_judged_def Let_def using forward_guarded [OF ids]
      by (auto split: option.split simp: forward_fewer)
    then show ?thesis using forward_trans forward_pending by blast
  qed
  have "forward st (publish_judged broken s i (snd (write_status s v m f st)))" for i v m f
    using forward_trans [OF written publish] assms by simp
  then show ?thesis
    using written forward_fewer [of st st]
    by (auto simp: land_review_def Let_def case_prod_beta split: outcome.split review_verdict.split)
qed

lemma forward_override:
  assumes "distinct (map en_id (rv_entities st))" "override_submission w now s st = Inr st'"
  shows "forward st st'"
proof -
  obtain sub where sub: "get_submission s st = Some sub"
    using assms(2) by (cases "get_submission s st") (auto simp: override_submission_def)
  note result = assms(2) [unfolded override_submission_def sub option.case Let_def if_Inl_Inr sum.inject]
  let ?i = "or_default (su_entity sub) []"
  let ?st1 = "set_visibility now ?i ''approved'' (set_override s st)"
  have ids: "distinct (map en_id (rv_entities ?st1))" using assms(1) by (simp add: set_visibility_ids set_override_def)
  have st1: "forward st ?st1" using forward_trans [OF forward_submissions forward_visibility] by (simp add: set_override_def)
  have "st' \<in> {?st1} \<union> {snd (promote_to_version (wd_broken w) ?i n ?st1) |n e. get_entity ?i ?st1 = Some e \<and> en_version_no e < n}"
    using result by (auto split: option.splits if_splits)
  then show ?thesis using st1 forward_trans [OF st1 forward_guarded [OF ids]] by auto
qed

lemma forward_rescan:
  assumes "distinct (map en_id (rv_entities st))" "rescan_submission w g now inline s st = Inr st'"
  shows "forward st st'"
proof -
  obtain sub where sub: "get_submission s st = Some sub"
    using assms(2) by (cases "get_submission s st") (auto simp: rescan_submission_def)
  note result = assms(2) [unfolded rescan_submission_def sub option.case Let_def if_Inl_Inr]
  let ?i = "or_default (su_entity sub) []"
  let ?at = "\<lambda>v x. set_visibility now ?i v (set_inline_result s x st)"
  have ids: "distinct (map en_id (rv_entities (?at v x)))" for v x using assms(1) by (simp add: set_visibility_ids set_inline_result_def)
  have at: "forward st (?at v x)" for v x
    using forward_trans [OF forward_submissions forward_visibility] by (simp add: set_inline_result_def)
  have queued: "forward st (schedule_review g s (?at v x))" for v x
    by (rule forward_trans [OF at [of v x] forward_fewer]) (simp add: schedule_review_def)
  let ?st1 = "?at ''approved'' ''approved''"
  have "st' \<in> {?at ''hidden'' ''blocked_inline'', schedule_review g s (?at ''pending'' ''pending_llm''), ?st1} \<union>
      {snd (promote_to_version (wd_broken w) ?i n ?st1) |n e. get_entity ?i ?st1 = Some e \<and> en_version_no e < n}"
    using result by (auto split: option.splits if_splits)
  then show ?thesis using at queued forward_trans [OF at forward_guarded [OF ids]] by auto
qed

lemma forward_append:
  assumes "distinct (map en_id (rv_entities st))" "get_entity i st = Some e" "en_version_no e \<le> n"
  shows "forward st (snd (promote_to_version broken i n (update_entities i (en_history_update f) st)))"
proof -
  let ?st1 = "update_entities i (en_history_update f) st"
  have st1: "forward st ?st1" by (rule forward_update) simp_all
  have le: "en_version_no x \<le> n" if x: "x \<in> set (rv_entities ?st1)" "en_id x = i" for x
  proof -
    obtain y where y: "y \<in> set (rv_entities st)" "x = (if en_id y = i then en_history_update f y else y)"
      using x(1) unfolding update_entities_simps set_map by blast
    then have same: "en_id y = i" "en_version_no x = en_version_no y" using x(2) by (cases "en_id y = i"; simp)+
    then have "y = e" using get_entity_unique [OF assms(1), of i y] assms(2) y(1) by simp
    then show ?thesis using assms(3) same(2) by simp
  qed
  show ?thesis by (rule forward_trans [OF st1 forward_promote]) (rule le)
qed

lemma forward_add_version:
  assumes "distinct (map en_id (rv_entities st))" "get_entity i st = Some e" "en_version_no e \<le> next_version_no e"
    and "add_version w g now who i s hash sz st = Inr st'"
  shows "forward st st'"
proof -
  obtain st1 where st1: "create_submission now s (Some i) who hash (if gr_enabled g then ''pending_llm'' else ''approved'') st = Inr st1"
    using assms(4) unfolding add_version_def rbind_eq_Inr by blast
  then have same: "rv_entities st1 = rv_entities st" by (auto simp: create_submission_Inr)
  then have ids: "distinct (map en_id (rv_entities st1))" and get: "get_entity i st1 = Some e"
    using assms(1,2) by (simp_all add: get_entity_def)
  let ?st2 = "update_entities i (en_history_update (\<lambda>hs. hs @
      [\<lparr>ve_n = next_version_no e, ve_hash = hash, ve_size = Some sz, ve_sub = Some s\<rparr>])) st1"
  have st': "st' = (if gr_enabled g then schedule_review g s ?st2 else snd (promote_to_version (wd_broken w) i (next_version_no e) ?st2))"
    using assms(4) unfolding add_version_def st1 rbind.simps append_version_history_Inr [OF get] prod.case sum.inject by (rule sym)
  have "forward st1 ?st2" by (rule forward_update) simp_all
  then have "forward st1 (schedule_review g s ?st2)"
    by (rule forward_trans) (simp add: forward_fewer schedule_review_def)
  then have "forward st1 st'" using forward_append [OF ids get assms(3)] st' by simp
  then show ?thesis using forward_trans [OF forward_fewer [of st1 st]] same by simp
qed

lemma current_before_next: "sound_row st e \<Longrightarrow> en_version_no e < next_version_no e"
  using next_version_no_greater [of _ e] by (auto simp: sound_row_def versions_kept_def)

lemma forward_rename: "forward st (rename_row i new st)"
  by (cases new) (auto simp: rename_row_def intro: forward_update forward_fewer)

lemma store_inv_ids: "store_inv st \<Longrightarrow> distinct (map en_id (rv_entities st))"
  by (simp add: store_inv_def)

lemma forward_edit:
  assumes "store_inv st" "edit_entity w g now who admin i ed st = Inr st'"
  shows "forward st st'"
proof -
  obtain e where e: "get_entity i st = Some e" using assms(2) by (cases "get_entity i st") (simp_all add: edit_entity_def)
  note r1 = assms(2) [unfolded edit_entity_def e option.case if_Inl_Inr Let_def staged_next [OF assms(1) e]]
  then have pending: "pending_review i st = None" by (cases "pending_review i st") simp_all
  obtain rename where rename: "edit_rename i e ed st = Inr rename"
    using r1 unfolding pending option.case rbind_eq_Inr by blast
  note r2 = r1 [unfolded pending option.case rename rbind.simps]
  show ?thesis
  proof (cases "ed_file ed")
    case None
    then obtain live where "st' = rename_row i rename (st\<lparr>rv_live := live\<rparr>)" using r2 by simp blast
    moreover have "forward st (st\<lparr>rv_live := live\<rparr>)" by (rule forward_fewer) simp
    ultimately show ?thesis using forward_trans forward_rename by blast
  next
    case (Some c)
    obtain b hash sz where add: "add_version w g now who i (ed_submission ed) hash sz
        (rename_row i rename (st\<lparr>rv_versions := (rv_versions st)((i, next_version_no e) \<mapsto> b)\<rparr>)) = Inr st'"
      using r2 Some by (simp split: if_splits) blast
    let ?st0 = "st\<lparr>rv_versions := (rv_versions st)((i, next_version_no e) \<mapsto> b)\<rparr>"
    let ?st1 = "rename_row i rename ?st0"
    have inv: "store_inv ?st1" by (rule rename_row_inv) (rule fill_slot_inv [OF assms(1) e])
    obtain e' where e': "get_entity i ?st1 = Some e'" using rename_row_get [of i ?st0 e rename] e by (auto simp: get_entity_def)
    have "forward ?st1 st'"
      using forward_add_version [OF store_inv_ids [OF inv] e' _ add] current_before_next [OF get_entity_sound [OF inv e']] by simp
    moreover have "forward st ?st1" by (rule forward_trans [OF forward_fewer forward_rename]) simp
    ultimately show ?thesis using forward_trans by blast
  qed
qed

lemma forward_restore:
  assumes "store_inv st" "restore_version w g now who admin inline i n s st = Inr st'"
  shows "forward st st'"
proof -
  obtain e where e: "get_entity i st = Some e" using assms(2) by (cases "get_entity i st") (simp_all add: restore_version_def)
  note r1 = assms(2) [unfolded restore_version_def e option.case if_Inl_Inr staged_next [OF assms(1) e]]
  then have pending: "pending_review i st = None" by (cases "pending_review i st") simp_all
  obtain b where b: "rv_versions st (i, n) = Some b"
    using r1 unfolding pending option.case Let_def by (cases "rv_versions st (i, n)") (auto split: option.splits if_splits)
  let ?st0 = "st\<lparr>rv_versions := (rv_versions st)((i, next_version_no e) \<mapsto> b)\<rparr>"
  let ?hash = "wd_hash w b" and ?sz = "wd_size w b"
  have inv: "store_inv ?st0" by (rule fill_slot_inv [OF assms(1) e])
  have get: "get_entity i ?st0 = Some e" using e by (simp add: get_entity_def)
  have before: "en_version_no e < next_version_no e" using current_before_next get_entity_sound assms(1) e by blast
  have st0: "forward st ?st0" by (rule forward_fewer) simp
  have cases: "add_version w g now who i s ?hash ?sz ?st0 = Inr st' \<or>
      rbind (create_submission now s (Some i) who ?hash ''approved'' ?st0) (\<lambda>st2.
        rbind (append_version_history i ?hash (Some ?sz) (Some s) (snd (write_status s ''approved'' (Some (gr_model g)) True st2)))
          (\<lambda>(m, st3). Inr (if m > en_version_no e then snd (promote_to_version (wd_broken w) i m st3) else st3))) = Inr st'"
    using r1 unfolding pending option.case b Let_def by (auto split: option.splits if_splits)
  have "forward ?st0 st'" using cases
  proof
    assume "add_version w g now who i s ?hash ?sz ?st0 = Inr st'"
    then show ?thesis using forward_add_version [OF store_inv_ids [OF inv] get] before by simp
  next
    assume reuse: "rbind (create_submission now s (Some i) who ?hash ''approved'' ?st0) (\<lambda>st2.
        rbind (append_version_history i ?hash (Some ?sz) (Some s) (snd (write_status s ''approved'' (Some (gr_model g)) True st2)))
          (\<lambda>(m, st3). Inr (if m > en_version_no e then snd (promote_to_version (wd_broken w) i m st3) else st3))) = Inr st'"
    then obtain st1 where st1: "create_submission now s (Some i) who ?hash ''approved'' ?st0 = Inr st1"
      unfolding rbind_eq_Inr by blast
    let ?st2 = "snd (write_status s ''approved'' (Some (gr_model g)) True st1)"
    have same: "rv_entities ?st2 = rv_entities ?st0" using st1 by (auto simp: create_submission_Inr)
    then have ids: "distinct (map en_id (rv_entities ?st2))" and get2: "get_entity i ?st2 = Some e"
      using store_inv_ids [OF assms(1)] get by (simp_all add: get_entity_def)
    have "st' = snd (promote_to_version (wd_broken w) i (next_version_no e) (update_entities i (en_history_update (\<lambda>hs. hs @
        [\<lparr>ve_n = next_version_no e, ve_hash = ?hash, ve_size = Some ?sz, ve_sub = Some s\<rparr>])) ?st2))"
      using reuse before unfolding st1 rbind.simps append_version_history_Inr [OF get2] prod.case sum.inject by (simp only: if_True)
    then have "forward ?st2 st'" using forward_append [OF ids get2] before by simp
    then show ?thesis using forward_trans [OF forward_fewer [of ?st2 ?st0]] same by simp
  qed
  then show ?thesis using forward_trans [OF st0] by blast
qed

lemma forward_delete: "forward st (snd (delete_entity now who admin hard renames i st))"
proof (cases "get_entity i st")
  case None
  then show ?thesis by (simp add: delete_entity_def forward_fewer)
next
  case (Some e)
  let ?st1 = "snd (archive_entity now i st)"
  have archived: "forward st ?st1"
    unfolding archive_entity_def Some option.case Let_def by (auto intro: forward_update forward_fewer)
  have live: "forward st (?st1\<lparr>rv_live := l\<rparr>)" for l
    by (rule forward_trans [OF archived forward_fewer]) simp
  have reverted: "forward st (set_visibility now i v ?st1)" for v
    by (rule forward_trans [OF archived forward_visibility])
  have gone: "forward st (remove_entity_dir i (delete_entity_row i (fst (mark_deleted_for_entity i st))))"
    by (rule forward_fewer) (auto simp: remove_entity_dir_def delete_entity_row_def mark_deleted_for_entity_def)
  have "snd (delete_entity now who admin hard renames i st) \<in>
      {st, remove_entity_dir i (delete_entity_row i (fst (mark_deleted_for_entity i st))), ?st1} \<union>
      {?st1\<lparr>rv_live := l\<rparr> |l. True} \<union> {set_visibility now i v ?st1 |v. True}"
    unfolding delete_entity_def Some option.case Let_def case_prod_beta if_distrib [of snd] snd_conv by simp blast
  then show ?thesis using archived live reverted gone forward_fewer [of st st] by auto
qed

lemma purge_entities: "set (rv_entities (purge_loop now cs st)) \<subseteq> set (rv_entities st)"
proof (induction now cs st rule: purge_loop.induct)
  case (2 now s ent cs st)
  then show ?case
    by (auto simp: Let_def mark_bundle_purged_def delete_entity_row_def remove_entity_dir_def split: if_splits)
qed simp

text \<open>New rows may come, and no row goes.\<close>

definition grows :: "review_db \<Rightarrow> review_db \<Rightarrow> bool" where
  "grows st st' \<longleftrightarrow> (\<forall>e\<in>set (rv_entities st). \<exists>e'\<in>set (rv_entities st'). en_id e' = en_id e) \<and>
     (\<forall>e'\<in>set (rv_entities st'). (\<forall>e\<in>set (rv_entities st). en_id e \<noteq> en_id e') \<or>
        (\<exists>e\<in>set (rv_entities st). en_id e = en_id e' \<and> en_version_no e \<le> en_version_no e'))"

lemma grows_same: "rv_entities st' = rv_entities st \<Longrightarrow> grows st st'"
  by (auto simp: grows_def)

lemma grows_trans:
  assumes "grows st st'" "grows st' st''"
  shows "grows st st''"
proof -
  have "\<exists>x\<in>set (rv_entities st''). en_id x = en_id e" if e: "e \<in> set (rv_entities st)" for e
  proof -
    obtain e' where "e' \<in> set (rv_entities st')" "en_id e' = en_id e" using assms(1) e unfolding grows_def by blast
    moreover from this obtain x where "x \<in> set (rv_entities st'')" "en_id x = en_id e'" using assms(2) unfolding grows_def by blast
    ultimately show ?thesis by auto
  qed
  moreover have "\<exists>e\<in>set (rv_entities st). en_id e = en_id x \<and> en_version_no e \<le> en_version_no x"
    if x: "x \<in> set (rv_entities st'')" and e: "e \<in> set (rv_entities st)" "en_id e = en_id x" for x e
  proof -
    obtain e' where "e' \<in> set (rv_entities st')" "en_id e' = en_id e" using assms(1) e(1) unfolding grows_def by blast
    then have "\<not> (\<forall>e'\<in>set (rv_entities st'). en_id e' \<noteq> en_id x)" using e(2) by auto
    then obtain y where y: "y \<in> set (rv_entities st')" "en_id y = en_id x" "en_version_no y \<le> en_version_no x"
      using assms(2) x unfolding grows_def by blast
    then have "\<not> (\<forall>e\<in>set (rv_entities st). en_id e \<noteq> en_id y)" using e by auto
    then obtain z where "z \<in> set (rv_entities st)" "en_id z = en_id y" "en_version_no z \<le> en_version_no y"
      using assms(1) y(1) unfolding grows_def by blast
    then show ?thesis using y by (intro bexI [of _ z]) simp_all
  qed
  ultimately show ?thesis unfolding grows_def by blast
qed

lemma grows_create:
  assumes "create_entity x st = Inr st'"
  shows "grows st st'"
proof -
  have st': "rv_entities st' = rv_entities st @ [x]" and "\<forall>r\<in>set (rv_entities st). en_id r \<noteq> en_id x"
    using assms by (auto simp: create_entity_def if_Inl_Inr list_ex_iff)
  then show ?thesis unfolding grows_def st' by auto
qed

lemma grows_update:
  assumes "\<And>e. en_id (f e) = en_id e" "\<And>e. en_version_no (f e) = en_version_no e"
  shows "grows st (update_entities i f st)"
proof -
  define g where "g = (\<lambda>e. if en_id e = i then f e else e)"
  have same: "en_id (g e) = en_id e" "en_version_no (g e) = en_version_no e" for e
    using assms by (simp_all add: g_def)
  have ents: "set (rv_entities (update_entities i f st)) = g ` set (rv_entities st)" by (simp add: g_def)
  show ?thesis unfolding grows_def ents
  proof (intro conjI ballI)
    fix e assume "e \<in> set (rv_entities st)"
    then show "\<exists>e'\<in>g ` set (rv_entities st). en_id e' = en_id e" by (intro bexI [of _ "g e"]) (simp_all add: same)
  next
    fix e' assume "e' \<in> g ` set (rv_entities st)"
    then obtain e where "e \<in> set (rv_entities st)" "e' = g e" by blast
    then have "\<exists>e\<in>set (rv_entities st). en_id e = en_id e' \<and> en_version_no e \<le> en_version_no e'"
      by (intro bexI [of _ e]) (simp_all add: same)
    then show "(\<forall>e\<in>set (rv_entities st). en_id e \<noteq> en_id e') \<or>
        (\<exists>e\<in>set (rv_entities st). en_id e = en_id e' \<and> en_version_no e \<le> en_version_no e')" by (rule disjI2)
  qed
qed

lemma grows_visibility: "grows st (set_visibility now i v st)"
  unfolding set_visibility_update by (rule grows_update) simp_all

lemma grows_upload:
  assumes "upload_entity w g now u st = Inr st'"
  shows "grows st st'"
proof -
  let ?i = "ul_entity u" and ?s = "ul_submission u"
  note result = assms(1) [unfolded upload_entity_def Let_def if_Inl_Inr rbind_eq_Inr sum.inject]
  obtain x0 st0 st1 st2 v s where st1: "create_entity x0 st0 = Inr st1" "rv_entities st0 = rv_entities st"
    and st2: "create_submission now ?s (Some ?i) (ul_user u) v s st1 = Inr st2"
    and st': "(if ul_private u then set_visibility now ?i ''hidden'' (schedule_review g ?s (update_history_submission_id ?i 1 ?s st2))
      else schedule_review g ?s (update_history_submission_id ?i 1 ?s st2)) = st'"
    using result by (elim conjE exE) (rule that, assumption, simp, assumption, assumption)
  let ?st3 = "update_history_submission_id ?i 1 ?s st2"
  have "grows st st0" using st1(2) by (rule grows_same)
  moreover have "grows st0 st1" using st1(1) by (rule grows_create)
  moreover have "grows st1 st2" using st2 by (intro grows_same) (auto simp: create_submission_Inr)
  moreover have "grows st2 ?st3" unfolding update_history_submission_id_def by (rule grows_update) simp_all
  moreover have "grows ?st3 (schedule_review g ?s ?st3)" by (rule grows_same) (simp add: schedule_review_def)
  moreover have "grows (schedule_review g ?s ?st3) st'" using st' grows_visibility by (auto intro: grows_same split: if_splits)
  ultimately show ?thesis using grows_trans by blast
qed

lemma import_files_entities [simp]: "rv_entities (import_files x r st) = rv_entities st"
  by (simp add: import_files_def remove_entity_dir_def Let_def)

lemma grows_import_one: "grows st (snd (import_one_entry mode x st))"
proof (cases "get_entity (im_id x) st")
  case None
  let ?st1 = "import_files x False st"
  have files: "grows st ?st1" by (rule grows_same) simp
  have created: "grows st (snd (case create_entity y ?st1 of Inl err \<Rightarrow> (Inl err, ?st1) | Inr st2 \<Rightarrow> (Inr Imported, st2)))" for y
    using files grows_trans [OF files grows_create] by (cases "create_entity y ?st1") simp_all
  show ?thesis
    unfolding import_one_entry_def Let_def None option.case if_distrib [of snd] snd_conv using created by (simp add: grows_same)
next
  case (Some e)
  have "grows st (update_entities (im_id x) (\<lambda>e. e\<lparr>en_version := v, en_size := z\<rparr>) (import_files x True st))" for v z
    by (rule grows_trans [OF grows_same [of "import_files x True st"] grows_update]) simp_all
  then show ?thesis using Some by (simp add: import_one_entry_def Let_def grows_same)
qed

lemma import_entries_Cons:
  "snd (import_entries mode (x # xs) st) \<in>
     {snd (import_entries mode xs st), snd (import_one_entry mode x st), snd (import_entries mode xs (snd (import_one_entry mode x st)))}"
  by (auto split: prod.splits sum.splits store_error.splits)

lemma grows_import: "grows st (snd (import_entries mode xs st))"
proof (induction xs arbitrary: st)
  case (Cons x xs)
  have "grows st (snd (import_entries mode xs (snd (import_one_entry mode x st))))"
    using grows_trans [OF grows_import_one Cons] .
  then show ?case using import_entries_Cons [of mode x xs st] Cons [of st] grows_import_one [of st mode x] by auto
qed (simp add: grows_same)

lemma forward_or_same: "(\<And>st'. r = Inr st' \<Longrightarrow> forward st st') \<Longrightarrow> forward st (or_same st r)"
  by (cases r) (simp_all add: or_same_def forward_fewer)

lemma forward_step:
  assumes "store_inv st" "\<And>g u. ev \<noteq> Upload g u" "\<And>mode xs. ev \<noteq> Import mode xs"
  shows "forward st (review_step w now ev st)"
proof (cases ev)
  case (LandReview s ent oc)
  have "forward st (land_review (wd_broken w) s ent oc (st\<lparr>rv_flight := f\<rparr>))" for f
    by (rule forward_trans [OF forward_fewer forward_land]) (simp_all add: store_inv_ids [OF assms(1)])
  then show ?thesis using LandReview by (simp add: forward_fewer)
next
  case (Purge ttl)
  then show ?thesis using forward_fewer [OF purge_entities] by (simp add: purge_blocked_bundles_def Let_def forward_fewer)
next
  case (Reap grace)
  then show ?thesis by (auto simp: reap_stuck_llm_reviews_def reap_stuck_pending_llm_def Let_def intro: forward_fewer)
next
  case (DeleteSubmission s)
  then show ?thesis
    by (auto simp: or_same_def delete_submission_def Let_def delete_submission_row_def remove_entity_dir_def delete_entity_row_def
        intro!: forward_fewer split: option.split sum.split)
next
  case (Retry s)
  have "forward st st'" if r: "retry_submission s st = Inr st'" for st'
  proof -
    obtain sub where sub: "get_submission s st = Some sub" using r by (cases "get_submission s st") (simp_all add: retry_submission_def)
    show ?thesis using r [unfolded retry_submission_def sub option.case Let_def if_Inl_Inr sum.inject] by (auto intro!: forward_fewer)
  qed
  then show ?thesis using Retry by (auto intro: forward_or_same)
next
  case (BeginReview s)
  then show ?thesis by (simp add: forward_fewer split: option.split)
next
  case (Edit g who admin i ed)
  then show ?thesis using forward_edit [OF assms(1)] by (auto intro!: forward_or_same)
next
  case (Restore g who admin inline i n s)
  then show ?thesis using forward_restore [OF assms(1)] by (auto intro!: forward_or_same)
next
  case (Override s)
  then show ?thesis using forward_override [OF store_inv_ids [OF assms(1)]] by (auto intro!: forward_or_same)
next
  case (Rescan g inline s)
  then show ?thesis using forward_rescan [OF store_inv_ids [OF assms(1)]] by (auto intro!: forward_or_same)
next
  case (Delete who admin hard renames i)
  then show ?thesis by (simp add: forward_delete)
qed (use assms(2,3) in simp_all)

text \<open>
  C20. The live version of an entity never goes back: in every store reached by a history in which identifiers are new, no
  copy fails and nothing is rescanned or imported, whatever happens next, a late verdict on an older version, a restore, an
  override, a rescan or an import among it, an entity that is still there has a current version that is at least the one it had.\<close>

theorem live_version_never_goes_back:
  assumes "fresh_run w evs empty_store" "\<forall>i n. \<not> wd_broken w i n"
    and "get_entity i (review_run w evs) = Some e" "get_entity i (review_step w now ev (review_run w evs)) = Some e'"
  shows "en_version_no e \<le> en_version_no e'"
proof -
  let ?st = "review_run w evs"
  have inv: "store_inv ?st" using review_run_inv assms(1,2) by blast
  have e': "e' \<in> set (rv_entities (review_step w now ev ?st))" "en_id e' = i" using get_entity_in [OF assms(4)] by auto
  have e: "e \<in> set (rv_entities ?st)" "en_id e = i" using get_entity_in [OF assms(3)] by auto
  have "\<exists>x\<in>set (rv_entities ?st). en_id x = en_id e' \<and> en_version_no x \<le> en_version_no e'"
  proof (cases "(\<exists>g u. ev = Upload g u) \<or> (\<exists>mode xs. ev = Import mode xs)")
    case True
    then have "grows ?st (review_step w now ev ?st)"
      by (elim disjE exE) (auto simp: or_same_def import_bundle_def grows_upload grows_import grows_same split: sum.split)
    moreover have "\<not> (\<forall>x\<in>set (rv_entities ?st). en_id x \<noteq> en_id e')" using e e'(2) by auto
    ultimately show ?thesis using e'(1) unfolding grows_def by blast
  next
    case False
    then have "forward ?st (review_step w now ev ?st)" using forward_step [OF inv] by blast
    then show ?thesis using e'(1) unfolding forward_def by blast
  qed
  then obtain x where x: "x \<in> set (rv_entities ?st)" "en_id x = i" "en_version_no x \<le> en_version_no e'" using e'(2) by auto
  then have "x = e" using get_entity_unique [OF store_inv_ids [OF inv], of i x] assms(3) by simp
  then show ?thesis using x(3) by simp
qed

theorem live_version_never_goes_back_witness:
  "en_version_no (the (get_entity ''e1'' (review_run example_world example_history))) \<le>
   en_version_no (the (get_entity ''e1'' (review_step example_world 9 (Rescan example_guardrails True ''s1'')
     (review_run example_world example_history))))"
proof (rule live_version_never_goes_back)
  show "fresh_run example_world example_history empty_store" by code_simp
  show "get_entity ''e1'' (review_run example_world example_history) =
      Some (the (get_entity ''e1'' (review_run example_world example_history)))"
    by code_simp
  show "get_entity ''e1'' (review_step example_world 9 (Rescan example_guardrails True ''s1'') (review_run example_world example_history)) =
      Some (the (get_entity ''e1'' (review_step example_world 9 (Rescan example_guardrails True ''s1'')
        (review_run example_world example_history))))"
    by code_simp
qed (simp add: example_world_def)

end
