(* ===== verification/QueryGuards.thy ===== *)
theory QueryGuards
  imports Policy
begin

text \<open>
  The guards in front of \<open>/api/query\<close> (\<open>app/api/query.py\<close>, with the text helpers of \<open>src/remote_engines.py\<close> and
  \<open>src/remote_query.py\<close>): a statement must be one \<open>SELECT\<close>, and for a caller who is no administrator every relation
  it names must be granted. Which relations it names is asked of DuckDB, which serializes the statement to JSON, and of
  a scan of the text where DuckDB gives no answer. DuckDB, its catalogs and views, and the parser of sqlglot are
  parameters; text is ASCII.
\<close>

section \<open>Text\<close>

text \<open>\<open>\b\<close> of Python's regular expressions, before the character at a position.\<close>

definition edge :: "string \<Rightarrow> nat \<Rightarrow> bool" where
  "edge s i \<longleftrightarrow> (0 < i \<and> i \<le> length s \<and> ident_char (s ! (i - 1))) \<noteq> (i < length s \<and> ident_char (s ! i))"

definition py_rstrip :: "string \<Rightarrow> string" where
  "py_rstrip s = rev (py_lstrip (rev s))"

text \<open>\<open>\s+by\b\<close> at the beginning.\<close>

definition followed_by_by :: "string \<Rightarrow> bool" where
  "followed_by_by s = (let r = dropWhile is_space s in r \<noteq> s \<and> prefix ''by'' r \<and> edge r 2)"

text \<open>\<open>name_reference_re\<close>: a whole word, but not the first half of a two-word clause.\<close>

definition name_at :: "string \<Rightarrow> string \<Rightarrow> nat \<Rightarrow> bool" where
  "name_at name s i \<longleftrightarrow> prefix name (drop i s) \<and> edge s i \<and> edge s (i + length name) \<and>
     \<not> followed_by_by (drop (i + length name) s)"

definition name_reference :: "string \<Rightarrow> string \<Rightarrow> bool" where
  "name_reference name s \<longleftrightarrow> list_ex (name_at name s) [0..<Suc (length s)]"

text \<open>Every pair of backticks, with what is between them, becomes spaces.\<close>

definition backtick :: char where
  "backtick = CHR 0x60"

function mask_backticks :: "string \<Rightarrow> string" where
  "mask_backticks [] = []"
| "mask_backticks (c # cs) =
     (if c = backtick \<and> backtick \<in> set cs
      then let k = length (takeWhile (\<lambda>x. x \<noteq> backtick) cs) in replicate (k + 2) CHR '' '' @ mask_backticks (drop (k + 1) cs)
      else c # mask_backticks cs)"
  by pat_completeness auto
termination by (relation "measure length") (auto simp: less_Suc_eq_le)

declare mask_backticks.simps(2) [simp del]

definition strip_one_trailing_semicolon :: "string \<Rightarrow> string" where
  "strip_one_trailing_semicolon s =
     (let body = py_rstrip s in if body \<noteq> [] \<and> last body = CHR '';'' then butlast body else body)"

text \<open>Where a text occurs first.\<close>

definition find_text :: "string \<Rightarrow> string \<Rightarrow> nat option" where
  "find_text t s = find (\<lambda>i. prefix t (drop i s)) [0..<Suc (length s)]"

definition has_text :: "string \<Rightarrow> string \<Rightarrow> bool" where
  "has_text t s \<longleftrightarrow> find_text t s \<noteq> None"

lemma length_py_lstrip: "length (py_lstrip s) \<le> length s"
  by (simp add: py_lstrip_def length_dropWhile_le)

lemma drop_lstrip_shorter:
  assumes "prefix (c # cs) (py_lstrip s)" "0 < n"
  shows "length (drop n (py_lstrip s)) < length s"
proof -
  have "py_lstrip s \<noteq> []" using assms(1) by auto
  then have "0 < length (py_lstrip s)" by simp
  then show ?thesis using assms(2) length_py_lstrip [of s] unfolding length_drop by linarith
qed

text \<open>A comment that is not closed is left, for the guard to refuse.\<close>

function strip_leading_sql_comments :: "string \<Rightarrow> string" where
  "strip_leading_sql_comments s =
     (let t = py_lstrip s
      in if prefix ''--'' t then
           (case find_text ''\<newline>'' t of None \<Rightarrow> [] | Some i \<Rightarrow> strip_leading_sql_comments (drop (i + 1) t))
         else if prefix ''/*'' t then
           (case find_text ''*/'' (drop 2 t) of None \<Rightarrow> t | Some i \<Rightarrow> strip_leading_sql_comments (drop (i + 4) t))
         else t)"
  by pat_completeness auto
termination
  by (relation "measure length") (simp_all only: wf_measure in_measure, (rule drop_lstrip_shorter, erule (1) subst, simp)+)

declare strip_leading_sql_comments.simps [simp del]

section \<open>One select\<close>

definition BLOCKED_SQL_TOKENS :: "string list" where
  "BLOCKED_SQL_TOKENS =
     [''drop '', ''delete '', ''insert '', ''update '', ''alter '', ''create '', ''copy '', ''attach '', ''detach '', ''load '',
      ''install '', ''export '', ''import '', ''pragma '', ''call '', ''read_csv'', ''read_json'', ''read_parquet'', ''read_text'',
      ''write_csv'', ''write_parquet'', ''read_blob'', ''read_ndjson'', ''parquet_scan'', ''parquet_metadata'', ''parquet_schema'',
      ''json_scan'', ''csv_scan'', ''query_table'', ''iceberg_scan'', ''delta_scan'', ''bigquery_query'', ''glob('', ''list_files'',
      [CHR 0x27, CHR ''/''], [CHR 0x22, CHR ''/''], ''http://'', ''https://'', ''s3://'', ''gcs://'', ''information_schema'',
      ''duckdb_tables'', ''duckdb_columns'', ''duckdb_databases'', ''duckdb_settings'', ''duckdb_functions'', ''duckdb_views'',
      ''duckdb_indexes'', ''duckdb_schemas'', ''pragma_table_info'', ''pragma_storage_info'', [CHR 0x27] @ ''../'',
      [CHR 0x22] @ ''../'', '';'']"

definition FILE_TABLE_EXTS :: "string list" where
  "FILE_TABLE_EXTS = [''parquet'', ''parq'', ''csv'', ''tsv'', ''json'', ''ndjson'', ''arrow'', ''duckdb'', ''xlsx'']"

definition SQL_STRING_TABLE_FUNCTIONS :: "string list" where
  "SQL_STRING_TABLE_FUNCTIONS =
     [''query'', ''query_table'', ''bigquery_query'', ''postgres_query'', ''sqlite_query'', ''mysql_query'', ''postgres_execute'',
      ''sqlite_execute'', ''mysql_execute'']"

definition name_looks_like_file :: "string \<Rightarrow> bool" where
  "name_looks_like_file name \<longleftrightarrow>
     list_ex (\<lambda>c. c \<in> {CHR ''/'', CHR 0x5C, CHR ''*'', CHR ''?''}) name \<or>
     CHR ''.'' \<in> set name \<and> lower (rev (takeWhile (\<lambda>c. c \<noteq> CHR ''.'') (rev name))) \<in> set FILE_TABLE_EXTS"

text \<open>
  What sqlglot makes of a text, \<open>None\<close> where it raises: for each statement the names of its tables and of the functions it
  does not know, a statement being \<open>None\<close> where there is none.
\<close>

type_synonym glot = "string \<Rightarrow> (string list \<times> string list) option list option"

text \<open>The two scans of a text that sqlglot cannot parse.\<close>

definition from_string_literal_at :: "string \<Rightarrow> nat \<Rightarrow> bool" where
  "from_string_literal_at s i \<longleftrightarrow>
     edge s i \<and> list_ex (\<lambda>w. prefix w (drop i s) \<and>
       (case dropWhile is_space (dropWhile (\<lambda>c. c = CHR ''('') (dropWhile is_space (drop (i + 4) s))) of [] \<Rightarrow> False
        | c # _ \<Rightarrow> c = CHR 0x27)) [''from'', ''join'']"

definition sql_string_fn_at :: "string \<Rightarrow> nat \<Rightarrow> bool" where
  "sql_string_fn_at s i \<longleftrightarrow>
     edge s i \<and> list_ex (\<lambda>f. prefix f (drop i s) \<and> edge s (i + length f) \<and>
       (let r = drop (i + length f) s;
            opens = (\<lambda>t. case dropWhile is_space t of [] \<Rightarrow> False | c # _ \<Rightarrow> c = CHR ''('')
        in opens r \<or> (case r of [] \<Rightarrow> False | c # cs \<Rightarrow> c \<in> {CHR 0x22, backtick, CHR '']''} \<and> opens cs)))
       SQL_STRING_TABLE_FUNCTIONS"

definition has_file_table_source :: "glot \<Rightarrow> string \<Rightarrow> bool" where
  "has_file_table_source p s =
     (case p s of
        None \<Rightarrow> list_ex (from_string_literal_at (lower s)) [0..<length s]
      | Some stmts \<Rightarrow> list_ex (\<lambda>st. case st of None \<Rightarrow> False | Some (tables, _) \<Rightarrow> list_ex name_looks_like_file tables) stmts)"

definition has_sql_string_table_function :: "glot \<Rightarrow> string \<Rightarrow> bool" where
  "has_sql_string_table_function p s =
     (let scan = list_ex (sql_string_fn_at (lower s)) [0..<length s]
      in case p s of
           None \<Rightarrow> scan
         | Some stmts \<Rightarrow>
             list_ex (\<lambda>st. case st of None \<Rightarrow> False
               | Some (_, fns) \<Rightarrow> list_ex (\<lambda>f. lower f \<in> set SQL_STRING_TABLE_FUNCTIONS) fns) stmts \<or>
             list_all (\<lambda>st. st = None) stmts \<and> scan)"

datatype guard_error = OnlySelect | FileSource | SqlStringFunction | NotASelect | UngrantedCatalog | NotInStack
  | InternalExtractTable | AccessFailed table_error

definition assert_select_only :: "glot \<Rightarrow> string \<Rightarrow> guard_error + unit" where
  "assert_select_only p sql_lower =
     (let body = strip_one_trailing_semicolon sql_lower; r = strip_leading_sql_comments body
      in if list_ex (\<lambda>t. has_text t body) BLOCKED_SQL_TOKENS then Inl OnlySelect
         else if has_file_table_source p body then Inl FileSource
         else if has_sql_string_table_function p body then Inl SqlStringFunction
         else if \<not> list_ex (\<lambda>w. prefix w r \<and> (case drop (length w) r of [] \<Rightarrow> False | c # _ \<Rightarrow> is_space c)) [''select'', ''with'']
         then Inl NotASelect
         else Inr ())"

section \<open>The parse tree of DuckDB\<close>

datatype jnode = JNull | JBool bool | JNum int | JText string | JList "jnode list" | JDict "(string \<times> jnode) list"

definition truthy :: "jnode option \<Rightarrow> bool" where
  "truthy v \<longleftrightarrow>
     (case v of None \<Rightarrow> False | Some JNull \<Rightarrow> False | Some (JBool b) \<Rightarrow> b | Some (JNum n) \<Rightarrow> n \<noteq> 0 | Some (JText s) \<Rightarrow> s \<noteq> []
      | Some (JList l) \<Rightarrow> l \<noteq> [] | Some (JDict d) \<Rightarrow> d \<noteq> [])"

text \<open>The name that a node of a table reference gives, in lower case; \<open>None\<close> where it is no text, which raises.\<close>

definition own_name :: "(string \<times> jnode) list \<Rightarrow> string list option" where
  "own_name d =
     (if map_of d ''type'' \<noteq> Some (JText ''BASE_TABLE'') then Some []
      else let v = map_of d ''table_name''
           in if \<not> truthy v then Some []
              else case v of Some (JText t) \<Rightarrow> Some [lower t] | _ \<Rightarrow> None)"

fun nodes :: "jnode \<Rightarrow> nat" where
  "nodes (JList l) = Suc (sum_list (map nodes l))"
| "nodes (JDict d) = Suc (sum_list (map (\<lambda>p. nodes (snd p)) d))"
| "nodes _ = 1"

lemma sum_list_map_rev: "sum_list (map f (rev xs)) = (sum_list (map f xs) :: nat)"
  by (induction xs) simp_all

text \<open>The walk, with a stack of its own so that a deep statement cannot exhaust the interpreter's.\<close>

function walk :: "jnode list \<Rightarrow> string list \<Rightarrow> string list option" where
  "walk [] names = Some names"
| "walk (JDict d # todo) names =
     (case own_name d of None \<Rightarrow> None | Some ns \<Rightarrow> walk (rev (map snd d) @ todo) (names @ ns))"
| "walk (JList l # todo) names = walk (rev l @ todo) names"
| "walk (JNull # todo) names = walk todo names"
| "walk (JBool b # todo) names = walk todo names"
| "walk (JNum n # todo) names = walk todo names"
| "walk (JText t # todo) names = walk todo names"
  by pat_completeness auto
termination by (relation "measure (\<lambda>(st, _). sum_list (map nodes st))") (simp_all add: rev_map [symmetric] sum_list_map_rev comp_def)

definition sql_referenced_names_unguarded :: "(string \<Rightarrow> jnode option) \<Rightarrow> string \<Rightarrow> string list option option" where
  "sql_referenced_names_unguarded p sql =
     (case p sql of
        Some (JDict d) \<Rightarrow> if truthy (map_of d ''error'') then Some None else map_option Some (walk [JDict d] [])
      | _ \<Rightarrow> Some None)"

section \<open>Whether to believe it\<close>

text \<open>
  \<open>_ORACLE_HEALTHY\<close>: not known, or the answer of a probe that got one. Each call has DuckDB as it is at that moment; the
  outer \<open>None\<close> of an answer is an exception.
\<close>

definition oracle_probe :: string where
  "oracle_probe = ''__agnes_oracle_probe__''"

definition oracle_answers_as_expected :: "(string \<Rightarrow> jnode option) \<Rightarrow> bool option \<Rightarrow> bool \<times> bool option" where
  "oracle_answers_as_expected p h =
     (case h of
        Some b \<Rightarrow> (b, h)
      | None \<Rightarrow>
          (case sql_referenced_names_unguarded p (''SELECT 1 FROM '' @ oracle_probe) of
             Some (Some ns) \<Rightarrow> let ok = (set ns = {oracle_probe}) in (ok, Some ok)
           | _ \<Rightarrow> (False, None)))"

definition MAX_ORACLE_SQL_CHARS :: nat where
  "MAX_ORACLE_SQL_CHARS = 16 * 1024"

definition sql_referenced_names :: "(string \<Rightarrow> jnode option) \<Rightarrow> bool option \<Rightarrow> string \<Rightarrow> string list option \<times> bool option" where
  "sql_referenced_names p h sql =
     (if length sql > MAX_ORACLE_SQL_CHARS then (None, h)
      else let (ok, h') = oracle_answers_as_expected p h
           in if \<not> ok then (None, h')
              else case sql_referenced_names_unguarded p sql of None \<Rightarrow> (None, h') | Some r \<Rightarrow> (r, h'))"

definition sql_reference_test :: "(string \<Rightarrow> jnode option) \<Rightarrow> bool option \<Rightarrow> string \<Rightarrow> (string \<Rightarrow> bool) \<times> bool option" where
  "sql_reference_test p h sql_lower =
     (case sql_referenced_names p h sql_lower of
        (Some ns, h') \<Rightarrow> ((\<lambda>name. name \<in> set ns), h')
      | (None, h') \<Rightarrow> ((\<lambda>name. name_reference name (mask_backticks sql_lower)), h'))"

section \<open>Who may name what\<close>

text \<open>\<open>"?cat"?\s*\.\<close> that no word character, dot or quote precedes.\<close>

definition catalog_at :: "string \<Rightarrow> string \<Rightarrow> nat \<Rightarrow> bool" where
  "catalog_at cat s i \<longleftrightarrow>
     (i = 0 \<or> \<not> (ident_char (s ! (i - 1)) \<or> s ! (i - 1) = CHR ''.'' \<or> s ! (i - 1) = CHR 0x22)) \<and>
     list_ex (\<lambda>p. prefix p (drop i s) \<and>
       (case dropWhile is_space (drop (i + length p) s) of [] \<Rightarrow> False | c # _ \<Rightarrow> c = CHR ''.''))
       [cat, CHR 0x22 # cat, cat @ [CHR 0x22], CHR 0x22 # cat @ [CHR 0x22]]"

definition catalog_ref :: "string \<Rightarrow> string \<Rightarrow> bool" where
  "catalog_ref cat s \<longleftrightarrow> list_ex (catalog_at cat s) [0..<Suc (length s)]"

text \<open>The default database with every attached one and its type; \<open>None\<close> where asking fails.\<close>

definition local_extract_catalogs :: "(string \<times> (string \<times> string) list) option \<Rightarrow> string list" where
  "local_extract_catalogs q =
     (case q of
        None \<Rightarrow> []
      | Some (own, rows) \<Rightarrow>
          map fst (filter (\<lambda>(name, kind). kind = ''duckdb'' \<and> name \<notin> {own, ''system'', ''temp'', ''memory''}) rows))"

definition INTERNAL_EXTRACT_TABLES :: "string list" where
  "INTERNAL_EXTRACT_TABLES = [''_meta'', ''_remote_attach'', ''_remote_links'']"

record analytics =
  an_serialize :: "string \<Rightarrow> jnode option"
  an_databases :: "(string \<times> (string \<times> string) list) option"
  an_views :: "string list"
  an_glot :: glot

definition view_granted :: "table_row list \<Rightarrow> string set \<Rightarrow> string \<Rightarrow> bool" where
  "view_granted rows ids v \<longleftrightarrow> list_ex (\<lambda>r. tr_name r = v \<and> tr_name r \<noteq> [] \<and> tr_id r \<in> ids) rows"

definition enforce_non_admin_sql_rbac ::
  "analytics \<Rightarrow> bool option \<Rightarrow> table_row list \<Rightarrow> string set option \<Rightarrow> string \<Rightarrow> (guard_error + unit) \<times> bool option" where
  "enforce_non_admin_sql_rbac A h rows allowed sql_lower =
     (case allowed of
        None \<Rightarrow> (Inr (), h)
      | Some ids \<Rightarrow>
          let masked = mask_backticks sql_lower;
              (references, h') = sql_reference_test (an_serialize A) h sql_lower
          in (if list_ex (\<lambda>c. catalog_ref (lower c) masked) (local_extract_catalogs (an_databases A)) then Inl UngrantedCatalog
              else if list_ex (\<lambda>v. \<not> view_granted rows ids v \<and> references (lower v)) (an_views A) then Inl NotInStack
              else if list_ex references INTERNAL_EXTRACT_TABLES then Inl InternalExtractTable
              else Inr (), h'))"

text \<open>
  The guards of \<open>execute_query\<close> on a statement that names no internal table: the statement that goes on, with the tables
  its caller may read.
\<close>

definition query_guard ::
  "micros \<Rightarrow> bool \<Rightarrow> caller \<Rightarrow> rdb \<Rightarrow> analytics \<Rightarrow> bool option \<Rightarrow> string \<Rightarrow> (guard_error + string \<times> string set option) \<times> bool option" where
  "query_guard clock auto user R A h sql =
     (case assert_select_only (an_glot A) (lower (py_strip sql)) of
        Inl e \<Rightarrow> (Inl e, h)
      | Inr _ \<Rightarrow>
          let sql' = strip_one_trailing_semicolon sql
          in case get_accessible_tables clock auto user R of
               Inl e \<Rightarrow> (Inl (AccessFailed e), h)
             | Inr allowed \<Rightarrow>
                 (case enforce_non_admin_sql_rbac A h (registry R) allowed (lower (py_strip sql')) of
                    (Inl e, h') \<Rightarrow> (Inl e, h')
                  | (Inr _, h') \<Rightarrow> (Inr (sql', allowed), h')))"

section \<open>The walk reaches every node\<close>

text \<open>The nodes of a tree.\<close>

inductive part :: "jnode \<Rightarrow> jnode \<Rightarrow> bool" where
  here: "part n n"
| in_list: "part n x \<Longrightarrow> x \<in> set l \<Longrightarrow> part n (JList l)"
| in_dict: "part n x \<Longrightarrow> (k, x) \<in> set d \<Longrightarrow> part n (JDict d)"

inductive_simps part_leaf: "part n JNull" "part n (JBool b)" "part n (JNum i)" "part n (JText t)"

inductive_simps part_list: "part n (JList l)"

inductive_simps part_dict: "part n (JDict d)"

lemma part_of_list: "part (JDict d) (JList l) \<longleftrightarrow> (\<exists>x\<in>set l. part (JDict d) x)"
  by (auto simp: part_list)

lemma part_of_dict: "part (JDict d') (JDict d) \<longleftrightarrow> d' = d \<or> (\<exists>x\<in>set (map snd d). part (JDict d') x)"
  by (auto simp: part_dict) force

definition names_within :: "jnode list \<Rightarrow> string set" where
  "names_within todo = {t. \<exists>x\<in>set todo. \<exists>d ns. part (JDict d) x \<and> own_name d = Some ns \<and> t \<in> set ns}"

definition walkable :: "jnode list \<Rightarrow> bool" where
  "walkable todo \<longleftrightarrow> (\<forall>x\<in>set todo. \<forall>d. part (JDict d) x \<longrightarrow> own_name d \<noteq> None)"

lemma names_within_simps [simp]:
  "names_within [] = {}"
  "names_within (JList l # todo) = names_within (rev l @ todo)"
  "names_within (JNull # todo) = names_within todo" "names_within (JBool b # todo) = names_within todo"
  "names_within (JNum n # todo) = names_within todo" "names_within (JText t # todo) = names_within todo"
  by (auto simp: names_within_def part_leaf part_of_list)

lemma walkable_simps [simp]:
  "walkable []"
  "walkable (JList l # todo) \<longleftrightarrow> walkable (rev l @ todo)"
  "walkable (JDict d # todo) \<longleftrightarrow> own_name d \<noteq> None \<and> walkable (rev (map snd d) @ todo)"
  "walkable (JNull # todo) = walkable todo" "walkable (JBool b # todo) = walkable todo"
  "walkable (JNum n # todo) = walkable todo" "walkable (JText t # todo) = walkable todo"
  by (auto simp: walkable_def part_leaf part_of_list part_of_dict)

lemma names_within_dict:
  assumes "own_name d = Some ns"
  shows "names_within (JDict d # todo) = set ns \<union> names_within (rev (map snd d) @ todo)"
  unfolding names_within_def using assms by (auto simp: part_of_dict)

lemma walk_exact:
  "(\<not> walkable todo \<longrightarrow> walk todo names = None) \<and>
   (walkable todo \<longrightarrow> (\<exists>ns. walk todo names = Some ns \<and> set ns = set names \<union> names_within todo))"
proof (induction todo names rule: walk.induct)
  case (2 d todo names)
  then show ?case by (cases "own_name d") (auto simp: names_within_dict)
qed simp_all

section \<open>What gets through names only what is granted\<close>

text \<open>A tree names a relation when it has the node of a table reference with that name.\<close>

definition names_node :: "string \<Rightarrow> jnode \<Rightarrow> bool" where
  "names_node n doc \<longleftrightarrow> (\<exists>d t. part (JDict d) doc \<and> map_of d ''type'' = Some (JText ''BASE_TABLE'') \<and>
     map_of d ''table_name'' = Some (JText t) \<and> lower t = n)"

lemma referenced_names_complete:
  assumes "sql_referenced_names_unguarded p sql = Some (Some ns)" "n \<noteq> []"
    and "\<And>doc. p sql = Some doc \<Longrightarrow> names_node n doc"
  shows "n \<in> set ns"
proof -
  obtain d where d: "p sql = Some (JDict d)" "walk [JDict d] [] = Some ns"
    using assms(1) by (auto simp: sql_referenced_names_unguarded_def split: option.splits jnode.splits if_splits)
  then have within: "set ns = names_within [JDict d]"
    using walk_exact [of "[JDict d]" "[]"] by (cases "walkable [JDict d]") auto
  obtain e t where e: "part (JDict e) (JDict d)" "map_of e ''type'' = Some (JText ''BASE_TABLE'')"
    "map_of e ''table_name'' = Some (JText t)" "lower t = n"
    using assms(3) [OF d(1)] by (auto simp: names_node_def)
  then have "own_name e = Some [n]" using assms(2) by (auto simp: own_name_def truthy_def lower_def)
  then have "n \<in> names_within [JDict d]" unfolding names_within_def using e(1) by force
  then show ?thesis using within by simp
qed

lemma referenced_names_unguarded:
  assumes "sql_referenced_names p h sql = (Some ns, h')"
  shows "sql_referenced_names_unguarded p sql = Some (Some ns)"
  using assms by (auto simp: sql_referenced_names_def split: prod.splits if_splits option.splits)

lemma view_granted_iff: "view_granted rows ids v \<longleftrightarrow> v \<noteq> [] \<and> (\<exists>r\<in>set rows. tr_name r = v \<and> tr_id r \<in> ids)"
  by (auto simp: view_granted_def list_ex_iff)

lemma enforce_admitted:
  assumes "enforce_non_admin_sql_rbac A h rows (Some ids) s = (Inr (), h')" "sql_reference_test (an_serialize A) h s = (references, h'')"
    and "v \<in> set (an_views A)" "references (lower v)"
  shows "view_granted rows ids v"
  using assms by (auto simp: enforce_non_admin_sql_rbac_def Let_def list_ex_iff split: if_splits)

text \<open>
  C6. A caller without administrator's access reads only what they were granted: when the guards let a statement through,
  and DuckDB answered which tables it references, then every master view that it reads is the view of a registered table
  that \<open>get_accessible_tables\<close> gave the caller, provided that, as DuckDB documents, its parse tree has a node for every
  table that it reads.\<close>

theorem query_reads_only_granted:
  assumes "query_guard clock auto user R A h sql = (Inr (sql', Some ids), h')"
    and "fst (sql_referenced_names (an_serialize A) h (lower (py_strip sql'))) \<noteq> None"
    and "\<forall>v\<in>reads. v \<in> set (an_views A) \<and> v \<noteq> [] \<and>
      (\<forall>doc. an_serialize A (lower (py_strip sql')) = Some doc \<longrightarrow> names_node (lower v) doc)"
  shows "get_accessible_tables clock auto user R = Inr (Some ids) \<and>
    (\<forall>v\<in>reads. \<exists>r\<in>set (registry R). tr_name r = v \<and> tr_id r \<in> ids)"
proof -
  let ?s = "lower (py_strip sql')"
  have tables: "get_accessible_tables clock auto user R = Inr (Some ids)"
    and enforced: "enforce_non_admin_sql_rbac A h (registry R) (Some ids) ?s = (Inr (), h')"
    using assms(1) by (auto simp: query_guard_def Let_def split: sum.splits prod.splits)
  obtain ns h2 where names: "sql_referenced_names (an_serialize A) h ?s = (Some ns, h2)"
    using assms(2) by (cases "sql_referenced_names (an_serialize A) h ?s") auto
  have test: "sql_reference_test (an_serialize A) h ?s = ((\<lambda>name. name \<in> set ns), h2)"
    by (simp add: sql_reference_test_def names)
  have "\<exists>r\<in>set (registry R). tr_name r = v \<and> tr_id r \<in> ids" if "v \<in> reads" for v
  proof -
    have "lower v \<noteq> []" using assms(3) that by (auto simp: lower_def)
    then have "lower v \<in> set ns"
      using referenced_names_complete [OF referenced_names_unguarded [OF names]] assms(3) that by blast
    then show ?thesis using enforce_admitted [OF enforced test] assms(3) that view_granted_iff by blast
  qed
  then show ?thesis using tables by blast
qed

text \<open>Without backticks the scan of the text misses no word.\<close>

lemma mask_backticks_id: "backtick \<notin> set s \<Longrightarrow> mask_backticks s = s"
  by (induction s rule: mask_backticks.induct) (auto simp: mask_backticks.simps(2))

lemma takeWhile_shorter: "x \<in> set cs \<Longrightarrow> length (takeWhile (\<lambda>y. y \<noteq> x) cs) < length cs"
  by (induction cs) auto

lemma length_mask_backticks [simp]: "length (mask_backticks s) = length s"
proof (induction s rule: mask_backticks.induct)
  case (2 c cs)
  have "length (takeWhile (\<lambda>x. x \<noteq> backtick) cs) < length cs" if "backtick \<in> set cs"
    using that by (rule takeWhile_shorter)
  then show ?case using 2 by (auto simp: mask_backticks.simps(2) [of c cs] Let_def)
qed simp

text \<open>A name between characters that are no part of an identifier is found, unless the word \<open>by\<close> comes next.\<close>

lemma word_edges:
  assumes "w \<noteq> []" "ident_char (hd w)" "ident_char (List.last w)"
    and "a = [] \<or> \<not> ident_char (List.last a)" "b = [] \<or> \<not> ident_char (hd b)"
  shows "edge (a @ w @ b) (length a)" "edge (a @ w @ b) (length a + length w)"
proof -
  have before: "(a @ w @ b) ! (length a - 1) = List.last a" if "a \<noteq> []"
    using that by (simp add: nth_append last_conv_nth)
  have first: "(a @ w @ b) ! length a = hd w" using assms(1) by (simp add: nth_append hd_conv_nth)
  have final: "(a @ w @ b) ! (length a + length w - 1) = List.last w"
    using assms(1) by (cases w rule: rev_cases) (auto simp: nth_append)
  have after: "(a @ w @ b) ! (length a + length w) = hd b" if "b \<noteq> []"
    using that by (simp add: nth_append hd_conv_nth)
  show "edge (a @ w @ b) (length a)"
    using assms(1,2,4) before first by (cases "a = []") (simp_all add: edge_def)
  show "edge (a @ w @ b) (length a + length w)"
    using assms(1,3,5) final after by (cases "b = []") (simp_all add: edge_def)
qed

lemma followed_by_by_split:
  assumes "followed_by_by b"
  obtains sp r where "b = sp @ ''by'' @ r" "sp \<noteq> []" "list_all is_space sp" "r = [] \<or> \<not> ident_char (hd r)"
proof -
  let ?sp = "takeWhile is_space b" and ?r = "dropWhile is_space b"
  have by_at: "?r \<noteq> b" "prefix ''by'' ?r" "edge ?r 2" using assms by (simp_all add: followed_by_by_def Let_def)
  obtain r where r: "?r = ''by'' @ r" using by_at(2) by (auto simp: prefix_def)
  have y: "ident_char (CHR ''y'')" by code_simp
  have "r = [] \<or> \<not> ident_char (hd r)"
    using by_at(3) y unfolding r by (cases r) (simp_all add: edge_def)
  moreover have "?sp \<noteq> []" using by_at(1) by (metis append_Nil takeWhile_dropWhile_id)
  moreover have "list_all is_space ?sp" by (simp add: list_all_iff) (meson set_takeWhileD)
  ultimately show thesis using that r by (metis takeWhile_dropWhile_id)
qed

text \<open>
  C30. The scan that stands in for DuckDB refuses a view that is not granted. When DuckDB gives no answer for a statement
  without backticks and the name of such a view occurs in it as a word, with no letter, digit or underscore before and
  after it, the statement is refused; but for the one position that cannot hold a reference, in front of the word \<open>by\<close>,
  as in \<open>order by\<close>. The name itself begins and ends with a letter, digit or underscore.
\<close>

theorem text_scan_refuses_word:
  assumes "fst (sql_referenced_names (an_serialize A) h s) = None" "backtick \<notin> set s"
    and "v \<in> set (an_views A)" "\<not> view_granted rows ids v"
    and "s = a @ lower v @ b" "v \<noteq> []" "ident_char (hd (lower v))" "ident_char (List.last (lower v))"
    and "a = [] \<or> \<not> ident_char (List.last a)" "b = [] \<or> \<not> ident_char (hd b)"
    and "\<nexists>sp r. b = sp @ ''by'' @ r \<and> sp \<noteq> [] \<and> list_all is_space sp \<and> (r = [] \<or> \<not> ident_char (hd r))"
  shows "fst (enforce_non_admin_sql_rbac A h rows (Some ids) s) \<noteq> Inr ()"
proof -
  obtain h2 where none: "sql_referenced_names (an_serialize A) h s = (None, h2)"
    using assms(1) by (cases "sql_referenced_names (an_serialize A) h s") auto
  let ?test = "\<lambda>name. name_reference name s"
  have test: "sql_reference_test (an_serialize A) h s = (?test, h2)"
    by (simp add: sql_reference_test_def none mask_backticks_id [OF assms(2)])
  have word: "lower v \<noteq> []" using assms(6) by (simp add: lower_def)
  have "\<not> followed_by_by b" using assms(11) by (blast elim: followed_by_by_split)
  then have "name_at (lower v) s (length a)"
    using word_edges [OF word assms(7-10)] unfolding name_at_def assms(5) by simp
  moreover have "length a \<in> set [0..<Suc (length s)]" using assms(5) by simp
  ultimately have "?test (lower v)" unfolding name_reference_def list_ex_iff by blast
  then have "enforce_non_admin_sql_rbac A h rows (Some ids) s \<noteq> (Inr (), x)" for x
    using enforce_admitted [OF _ test assms(3)] assms(4) by blast
  then show ?thesis by (cases "enforce_non_admin_sql_rbac A h rows (Some ids) s") auto
qed

text \<open>The exempted position: a statement that is sorted does not name a view called \<open>order\<close>.\<close>

lemma order_by_names_no_view:
  "name_reference ''order'' ''select a from t order by a'' = False \<and>
   name_reference ''order'' ''select a from order where a'' = True \<and>
   name_reference ''order'' ''select a from t order bya'' = True"
  by code_simp

section \<open>The oracle is believed after a probe only\<close>

definition oracle_run :: "((string \<Rightarrow> jnode option) \<times> string) list \<Rightarrow> bool option \<Rightarrow> bool option" where
  "oracle_run qs h = fold (\<lambda>(p, sql) h. snd (sql_referenced_names p h sql)) qs h"

definition probe_answer :: "(string \<Rightarrow> jnode option) \<Rightarrow> string set option" where
  "probe_answer p =
     (case sql_referenced_names_unguarded p (''SELECT 1 FROM '' @ oracle_probe) of
        Some (Some ns) \<Rightarrow> Some (set ns)
      | _ \<Rightarrow> None)"

lemma oracle_answers_cases:
  "oracle_answers_as_expected p h =
     (case h of Some b \<Rightarrow> (b, h)
      | None \<Rightarrow> (case probe_answer p of None \<Rightarrow> (False, None) | Some ns \<Rightarrow> (ns = {oracle_probe}, Some (ns = {oracle_probe}))))"
  by (auto simp: oracle_answers_as_expected_def probe_answer_def Let_def split: option.split)

lemma referenced_names_state:
  "snd (sql_referenced_names p h sql) \<in> {h, snd (oracle_answers_as_expected p h)}"
  "fst (sql_referenced_names p h sql) \<noteq> None \<Longrightarrow> fst (oracle_answers_as_expected p h)"
  by (cases "oracle_answers_as_expected p h"; auto simp: sql_referenced_names_def split: option.splits if_splits)+

lemma oracle_run_append: "oracle_run (qs @ qs') h = oracle_run qs' (oracle_run qs h)"
  by (simp add: oracle_run_def)

lemma oracle_latched: "oracle_run qs (Some b) = Some b"
proof (induction qs)
  case (Cons q qs)
  obtain p sql where q: "q = (p, sql)" by (cases q)
  have "snd (sql_referenced_names p (Some b) sql) = Some b"
    using referenced_names_state(1) [of p "Some b" sql] by (simp add: oracle_answers_cases)
  then show ?case using Cons by (simp add: oracle_run_def q)
qed (simp add: oracle_run_def)

lemma oracle_known_from_probe:
  "oracle_run qs None = Some b \<Longrightarrow> \<exists>p\<in>fst ` set qs. \<exists>ns. probe_answer p = Some ns \<and> b = (ns = {oracle_probe})"
proof (induction qs rule: rev_induct)
  case (snoc q qs)
  obtain p sql where q: "q = (p, sql)" by (cases q)
  show ?case
  proof (cases "oracle_run qs None")
    case (Some b')
    then show ?thesis using snoc oracle_latched by (auto simp: oracle_run_append)
  next
    case None
    then have "snd (sql_referenced_names p None sql) = Some b" using snoc(2) by (simp add: oracle_run_append) (simp add: oracle_run_def q)
    then show ?thesis using referenced_names_state(1) [of p None sql] q
      by (auto simp: oracle_answers_cases split: option.splits)
  qed
qed (simp add: oracle_run_def)

text \<open>
  C29. DuckDB is believed only after it answered the probe exactly: whatever the requests of a process were, a request gets
  its answer from the parse tree only if the probe of that request or of one before it named exactly the probe's table;
  once a probe was answered wrongly no later request is answered from the tree; and as long as the probes get no answer
  at all nothing is decided, so the next request asks again.\<close>

theorem oracle_believed_after_probe:
  "(fst (sql_referenced_names p (oracle_run qs None) sql) \<noteq> None \<longrightarrow>
      (\<exists>p'\<in>insert p (fst ` set qs). probe_answer p' = Some {oracle_probe})) \<and>
   (oracle_run qs None = Some False \<longrightarrow> fst (sql_referenced_names p (oracle_run (qs @ qs') None) sql) = None) \<and>
   ((\<forall>p'\<in>fst ` set qs. probe_answer p' = None) \<longrightarrow> oracle_run qs None = None)"
proof (intro conjI impI)
  assume "fst (sql_referenced_names p (oracle_run qs None) sql) \<noteq> None"
  then have ok: "fst (oracle_answers_as_expected p (oracle_run qs None))" by (rule referenced_names_state(2))
  show "\<exists>p'\<in>insert p (fst ` set qs). probe_answer p' = Some {oracle_probe}"
  proof (cases "oracle_run qs None")
    case None
    then show ?thesis using ok by (auto simp: oracle_answers_cases split: option.splits)
  next
    case (Some b)
    then show ?thesis using ok oracle_known_from_probe [OF Some] by (auto simp: oracle_answers_cases)
  qed
next
  assume "oracle_run qs None = Some False"
  then have "oracle_run (qs @ qs') None = Some False" by (simp add: oracle_run_append oracle_latched)
  then show "fst (sql_referenced_names p (oracle_run (qs @ qs') None) sql) = None"
    using referenced_names_state(2) [of p "Some False" sql] by (cases "fst (sql_referenced_names p (Some False) sql)") (simp_all add: oracle_answers_cases)
next
  assume "\<forall>p'\<in>fst ` set qs. probe_answer p' = None"
  then show "oracle_run qs None = None" using oracle_known_from_probe [of qs] by (cases "oracle_run qs None") fastforce+
qed

section \<open>Examples, and what the scans miss\<close>

definition reference_tree :: "string \<Rightarrow> jnode" where
  "reference_tree name = JDict [(''error'', JBool False), (''statements'', JList [JDict [(''node'',
     JDict [(''from_table'', JDict [(''type'', JText ''BASE_TABLE''), (''table_name'', JText name)])])]])]"

text \<open>An engine with the catalog of a source and two views, which parses all statements as reading one table, or none.\<close>

definition example_analytics :: "string option \<Rightarrow> analytics" where
  "example_analytics table = \<lparr>
     an_serialize = (\<lambda>s. if s = ''SELECT 1 FROM '' @ oracle_probe then Some (reference_tree oracle_probe)
       else map_option reference_tree table),
     an_databases = Some (''main'', [(''main'', ''duckdb''), (''hr'', ''duckdb''), (''bq'', ''bigquery'')]),
     an_views = [''invoices'', ''salaries''],
     an_glot = (\<lambda>_. Some [Some ([''invoices''], [])])\<rparr>"

definition quoted_backtick :: string where
  "quoted_backtick = [CHR 0x27, backtick, CHR 0x27]"

text \<open>
  Backticks quote nothing in DuckDB: in two string literals they make the guards blind for what is between. Where the tree
  gives no answer, a view that is not granted passes; the gate on catalogs, which reads the text in any case, passes the
  catalog of a source.
\<close>

definition blinding_sql :: "string \<Rightarrow> string" where
  "blinding_sql table = ''select '' @ quoted_backtick @ '', t.* from '' @ table @ '' t where '' @ quoted_backtick @ '' = '' @ quoted_backtick"

lemma backticks_hide_view:
  "fst (enforce_non_admin_sql_rbac (example_analytics None) None [] (Some {}) ''select * from salaries'') = Inl NotInStack \<and>
   fst (enforce_non_admin_sql_rbac (example_analytics None) None [] (Some {}) (blinding_sql ''salaries'')) = Inr ()"
  by code_simp

lemma backticks_hide_catalog:
  "fst (enforce_non_admin_sql_rbac (example_analytics (Some ''staff'')) None [] (Some {}) ''select * from hr.main.staff'') =
     Inl UngrantedCatalog \<and>
   fst (enforce_non_admin_sql_rbac (example_analytics (Some ''staff'')) None [] (Some {}) (blinding_sql ''hr.main.staff'')) = Inr ()"
  by code_simp

text \<open>A comment between a catalog and its dot is space to DuckDB, and not to the gate.\<close>

lemma comment_hides_catalog:
  "fst (enforce_non_admin_sql_rbac (example_analytics (Some ''staff'')) None [] (Some {}) ''select * from hr/**/.main.staff'') = Inr ()"
  by code_simp

text \<open>One terminator is dropped, and no statement follows another.\<close>

lemma one_statement:
  "assert_select_only (\<lambda>_. Some []) ''select 1;'' = Inr () \<and> assert_select_only (\<lambda>_. Some []) ''select 1;;'' = Inl OnlySelect \<and>
   assert_select_only (\<lambda>_. Some []) ''/*/ delete */ select 1'' = Inl OnlySelect \<and>
   assert_select_only (\<lambda>_. Some []) ''/* one */ -- two'' = Inl NotASelect \<and>
   assert_select_only (\<lambda>_. None) ''select a from (('' = Inr ()"
  by code_simp

definition example_reader :: caller where
  "example_reader = SessionPrincipal ''s'' [''u1''] [''u1@x''] [''table'' \<mapsto> {''t1''}]"

lemma example_query_guard:
  "\<exists>ids h'. query_guard 0 False example_reader (inv_db ''g'') (example_analytics (Some ''INVOICES'')) None ''SELECT * FROM invoices;'' =
     (Inr (''SELECT * FROM invoices'', Some ids), h') \<and> ids = {''t1''} \<union> set INTERNAL_TABLES"
proof -
  have strip: "strip_one_trailing_semicolon ''SELECT * FROM invoices;'' = ''SELECT * FROM invoices''" by code_simp
  have select: "assert_select_only (an_glot (example_analytics (Some ''INVOICES''))) (lower (py_strip ''SELECT * FROM invoices;'')) = Inr ()"
    by code_simp
  have tables: "get_accessible_tables 0 False example_reader (inv_db ''g'') = Inr (Some ({''t1''} \<union> set INTERNAL_TABLES))"
    by (simp add: get_accessible_tables_def example_reader_def lookup_ids_def)
  have rows: "registry (inv_db ''g'') = [\<lparr>tr_id = ''t1'', tr_name = ''invoices'', tr_source = None, tr_bucket = None,
      tr_policy = Some inv_policy\<rparr>]"
    by (simp add: inv_db_def)
  have granted: "view_granted (registry (inv_db ''g'')) ({''t1''} \<union> set INTERNAL_TABLES) v \<longleftrightarrow> v = ''invoices''" for v
    by (auto simp: view_granted_def rows)
  have test: "sql_reference_test (an_serialize (example_analytics (Some ''INVOICES''))) None (lower (py_strip ''SELECT * FROM invoices'')) =
      ((\<lambda>name. name \<in> set [''invoices'']), Some True)"
  proof -
    have "sql_referenced_names (an_serialize (example_analytics (Some ''INVOICES''))) None (lower (py_strip ''SELECT * FROM invoices'')) =
        (Some [''invoices''], Some True)"
      by code_simp
    then show ?thesis by (simp add: sql_reference_test_def)
  qed
  have catalogs: "\<not> list_ex (\<lambda>c. catalog_ref (lower c) (mask_backticks (lower (py_strip ''SELECT * FROM invoices''))))
      (local_extract_catalogs (an_databases (example_analytics (Some ''INVOICES''))))"
    by code_simp
  have views: "an_views (example_analytics t) = [''invoices'', ''salaries'']" for t by (simp add: example_analytics_def)
  have rest: "lower ''salaries'' \<notin> set [''invoices'']" "\<not> list_ex (\<lambda>name. name \<in> set [''invoices'']) INTERNAL_EXTRACT_TABLES"
    by code_simp+
  have "enforce_non_admin_sql_rbac (example_analytics (Some ''INVOICES'')) None (registry (inv_db ''g''))
      (Some ({''t1''} \<union> set INTERNAL_TABLES)) (lower (py_strip ''SELECT * FROM invoices'')) = (Inr (), Some True)"
    unfolding enforce_non_admin_sql_rbac_def option.case Let_def test prod.case if_not_P [OF catalogs] views granted
    using rest by simp
  then show ?thesis
    unfolding query_guard_def Let_def select sum.case strip tables by simp
qed

theorem query_reads_only_granted_witness:
  "\<exists>r\<in>set (registry (inv_db ''g'')). tr_name r = ''invoices'' \<and> tr_id r \<in> {''t1''} \<union> set INTERNAL_TABLES"
proof -
  let ?A = "example_analytics (Some ''INVOICES'')" and ?s = "lower (py_strip ''SELECT * FROM invoices'')"
  obtain h' where guard: "query_guard 0 False example_reader (inv_db ''g'') ?A None ''SELECT * FROM invoices;'' =
      (Inr (''SELECT * FROM invoices'', Some ({''t1''} \<union> set INTERNAL_TABLES)), h')"
    using example_query_guard by blast
  have answered: "fst (sql_referenced_names (an_serialize ?A) None ?s) \<noteq> None" by code_simp
  have doc: "an_serialize ?A ?s = Some (reference_tree ''INVOICES'')" by code_simp
  have low: "lower ''INVOICES'' = ''invoices''" "lower ''invoices'' = ''invoices''" by code_simp+
  have "names_node ''invoices'' (reference_tree ''INVOICES'')"
    unfolding names_node_def reference_tree_def
    by (intro exI [of _ "[(''type'', JText ''BASE_TABLE''), (''table_name'', JText ''INVOICES'')]"] exI [of _ "''INVOICES''"])
      (auto simp: part_of_dict part_of_list low)
  then have "\<forall>v\<in>{''invoices''}. v \<in> set (an_views ?A) \<and> v \<noteq> [] \<and> (\<forall>doc. an_serialize ?A ?s = Some doc \<longrightarrow> names_node (lower v) doc)"
    by (simp add: doc low) (simp add: example_analytics_def)
  from query_reads_only_granted [OF guard answered this] show ?thesis by simp
qed

theorem text_scan_refuses_word_witness:
  "fst (enforce_non_admin_sql_rbac (example_analytics None) None [] (Some {}) ''select * from salaries'') \<noteq> Inr ()"
proof (rule text_scan_refuses_word [where v = "''salaries''" and a = "''select * from ''" and b = "[]"])
  show "fst (sql_referenced_names (an_serialize (example_analytics None)) None ''select * from salaries'') = None" by code_simp
  show "backtick \<notin> set ''select * from salaries''" by code_simp
  show "ident_char (hd (lower ''salaries''))" "ident_char (List.last (lower ''salaries''))"
    "''select * from '' = [] \<or> \<not> ident_char (List.last ''select * from '')"
    "''select * from salaries'' = ''select * from '' @ lower ''salaries'' @ []" by code_simp+
qed (simp_all add: example_analytics_def view_granted_def)

theorem oracle_believed_after_probe_witness:
  "\<exists>p'\<in>{an_serialize (example_analytics (Some ''t''))}. probe_answer p' = Some {oracle_probe}"
proof -
  have "fst (sql_referenced_names (an_serialize (example_analytics (Some ''t''))) (oracle_run [] None) ''select * from t'') \<noteq> None"
    by code_simp
  then show ?thesis using oracle_believed_after_probe [of "an_serialize (example_analytics (Some ''t''))" "[]" "''select * from t''" "[]"]
    by simp
qed

end
