(* ===== verification/Spec2Isabelle.thy ===== *)
theory Spec2Isabelle
  imports Prelude Coordination Leases Replay Jobs Schedules AuthTables Access GroupSync Stack
    TableAccess DbState SqlText PolicyQuery PolicyCompile Policy OneTime Tokens HeaderAuth Sessions
    RemoteAttach ViewRebuild Marketplace Egress Quota Chunking Review ReviewSafety ReviewRuns ReviewForward QueryGuards
begin

text \<open>
  A verification development for Agnes, a self-hosted data platform for analysts: a FastAPI server
  (\<open>app/\<close>), its core library (\<open>src/\<close>), background workers and schedulers (\<open>services/\<close>,
  \<open>app/worker/\<close>), data connectors (\<open>connectors/\<close>) and a command line client (\<open>cli/\<close>). Paths are
  relative to the repository. Modelled is the code that carries the platform's own guarantees: who a
  request is, who may read what and in which form, who is served which plugins, what leaves the
  platform and where to, who may run what when several replicas share the work, what a reconnecting
  chat client receives, and when tables are refreshed and their views rebuilt.

  \<^bold>\<open>How code is modelled.\<close> Python dataclasses and table rows are records, enums are datatypes, tables
  are lists of rows whose keys and references are checks of the inserts, dicts are maps, and dicts
  whose size or order matters are association lists. A raising function returns a sum, the
  exception on the left. Stateful code takes and returns its state. Clock readings, random
  identifiers, environment variables and answers of other processes are arguments. Times of
  \<open>time.monotonic()\<close> are rationals in seconds, \<open>datetime\<close> values are integers in microseconds, both
  exact, so no rounding is modelled; network addresses are machine words. Definitions are
  executable. A loop is structural, has a termination proof, or is a partial function whose return
  is a theorem; the only bounds are the code's own (three retries of the Google refresh, eight years
  of days in the cron walk, 200 rows in the list of corpora, 100000 rows in the lists of packages
  and domains, 4096 cache entries), and the theorems say what they cost.

  \<^bold>\<open>Theories\<close>, with the files they model and the theorems they rest their case on.

  \<^item> \<open>Prelude\<close>: results, Python text and integer conversions with their round trip, list lemmas.

  \<^item> \<open>Coordination\<close>: \<open>MemoryCoordinationBackend\<close> of \<open>app/coordination/memory.py\<close>, every method one
    transformer of the record \<open>coord\<close> because the class holds one lock. Keys are consumed once, counters
    keep their window, streams return the newest frames in order. The locale \<open>lease_contract\<close> states
    what \<open>app/coordination/base.py\<close> promises of leases.

  \<^item> \<open>Leases\<close>: the leader loop \<open>run_with_lease\<close> of \<open>app/coordination/leases.py\<close>, replicas
    interleaving over one backend as an inductive relation, and the session routing of
    \<open>app/chat/routing.py\<close> as a client of the locale. One holder at a time (\<open>lease_mutual_exclusion\<close>),
    the window in which two replicas believe they hold, start and stop alternate, one owner per session.

  \<^item> \<open>Replay\<close>: \<open>app/chat/frame_seq.py\<close> and \<open>app/chat/replay.py\<close>, the gate as a step relation over
    its awaits. Numbering, what a replay may lack, which is nothing when frames are appended in order
    (\<open>replay_since_no_silent_gap\<close>), the frame that swapped appends lose, a needless reload, ordered delivery.

  \<^item> \<open>Jobs\<close>: \<open>src/repositories/jobs.py\<close> and the settlement half of \<open>app/worker/runtime.py\<close>. Table
    invariant (\<open>job_queue_invariant\<close>), one notification, stale tokens are inert
    (\<open>stale_token_inert\<close>), claim order, nothing stays stuck (\<open>no_stuck_job\<close>), idempotent enqueue.

  \<^item> \<open>Schedules\<close>: \<open>src/scheduler.py\<close>. The cron walk against its declarative meaning
    (\<open>cron_due_exact\<close>) and its limits, field ranges (\<open>cron_fields_in_range\<close>), intervals, the due filter.

  \<^item> \<open>AuthTables\<close>: the repositories \<open>user_groups\<close>, \<open>user_group_members\<close>, \<open>resource_grants\<close> and
    \<open>user_stack_subscriptions\<close> under \<open>src/repositories/\<close>. Table invariant
    (\<open>auth_tables_invariant\<close>), the Google refresh, system groups stay.

  \<^item> \<open>Access\<close>: \<open>app/auth/access.py\<close>, \<open>app/auth/elevation.py\<close>, \<open>app/auth/session_principal.py\<close>,
    \<open>src/grant_intersection.py\<close> and \<open>src/agent_scope_intersection.py\<close>. The decision
    (\<open>can_access_exact\<close>), the two intersections (for co-sessions as far as the code and its documentation agree, which
    leaves out what an administrator adds), and two defects of the collection surface.

  \<^item> \<open>GroupSync\<close>: \<open>app/auth/group_sync.py\<close>, the refresh that decides who is an administrator
    (\<open>google_sync_no_escalation\<close>).

  \<^item> \<open>Stack\<close>: \<open>app/services/stack_resolver.py\<close>. Membership and local copies (\<open>stack_exact\<close>), the soft
    downgrade.

  \<^item> \<open>TableAccess\<close>: \<open>src/rbac.py\<close>. The check and the list agree for everyone but administrators, up to
    collections the listing cuts off after the first 200 (\<open>table_access_consistent\<close>), and differ for administrators. The locale \<open>restricted_authority\<close> states what a
    restricted principal's intersection promises to the surfaces that trust it; it is interpreted on
    both intersections.

  \<^item> \<open>DbState\<close>: \<open>src/db_state_machine.py\<close>. Round trip of the overlay, the migration lock.

  \<^item> \<open>SqlText\<close>, \<open>PolicyQuery\<close>, \<open>PolicyCompile\<close>: the compiler of column and row policies,
    \<open>src/access_policy_compile.py\<close>. The emitted text reads back, by the lexical rules and the grammar of
    the fragment, as a query whose rows are what the builder's specification means
    (\<open>policy_compile_refines\<close>), sealed columns do not influence what a caller sees, columns keep their
    types, by a judgement over the tokens of a type that is independent of the generator's own test, and what is dropped is
    warned of.

  \<^item> \<open>Policy\<close>: \<open>src/access_policy.py\<close>. Which relation a caller gets for a table, against a reference over the
    tables of users and groups (\<open>policied_relation_exact\<close>), the rewriting of a statement that spells names as the registry
    does (\<open>rewrite_sql_exact\<close>), and the spellings and group names that leave a table unfiltered.

  \<^item> \<open>OneTime\<close>: CLI login codes, setup tokens, broker tickets and idempotency keys under
    \<open>src/repositories/\<close>; each is used once, a key is held by one request.

  \<^item> \<open>Tokens\<close>, \<open>HeaderAuth\<close>, \<open>Sessions\<close>: \<open>src/repositories/access_tokens.py\<close>,
    \<open>app/auth/pat_resolver.py\<close>, \<open>app/auth/keboola_header.py\<close>, \<open>app/auth/dependencies.py\<close>,
    \<open>app/api/tokens.py\<close>, \<open>app/api/broker.py\<close>. Who a bearer token is (\<open>pat_resolution_exact\<close>), revocation
    and deletion are final, a freshly created token resolves to its owner, the header's cache and flood
    guard, and what a sandbox can reach through the broker.

  \<^item> \<open>RemoteAttach\<close>: \<open>src/orchestrator_security.py\<close> and the loops over a connector's
    \<open>_remote_attach\<close> rows in \<open>src/orchestrator.py\<close> and \<open>src/db.py\<close>. A secret leaves only under an
    allowed name and to an allowed host (\<open>attach_credential_confined\<close>), the SQL text cannot be broken out of
    (\<open>attach_statements_read_back\<close>, over the tokens of \<open>SqlText\<close>), and the two loops differ
    (\<open>remote_attach_exact\<close>).

  \<^item> \<open>ViewRebuild\<close>: \<open>src/repositories/view_ownership.py\<close> and the rebuild of \<open>src/orchestrator.py\<close>. Every
    view has one owner and a listed table has its view unless names differ in case only (\<open>rebuild_single_owner\<close>), with two
    ways in which a name changes hands.

  \<^item> \<open>Marketplace\<close>: \<open>src/marketplace_filter.py\<close>, the name and source checks of \<open>src/marketplace.py\<close> and
    their tables. Exactly what a user is served (\<open>marketplace_served_exact\<close>), directories stay inside their
    clone, agents are narrowed (\<open>agent_marketplace_confined\<close>).

  \<^item> \<open>QueryGuards\<close>: the guards of \<open>app/api/query.py\<close> with the text helpers of \<open>src/remote_engines.py\<close>: what a
    caller's statement may name (\<open>query_reads_only_granted\<close>, over the tables of \<open>TableAccess\<close>), when the parse
    tree of DuckDB is believed (\<open>oracle_believed_after_probe\<close>), what the scan of the text catches
    (\<open>text_scan_refuses_word\<close>) and what it misses.

  \<^item> \<open>Review\<close>: the life of a store upload in \<open>app/api/store.py\<close> (upload, edit, restore, delete, import),
    \<open>app/api/admin.py\<close> (override, rescan, retry, delete), \<open>src/store_guardrails\<close> (the review in the background,
    the reaper, the purge), \<open>src/store_naming.py\<close> and the two repositories; a history is a list of steps, a
    review being two of them. \<open>ReviewSafety\<close> and \<open>ReviewRuns\<close> show what every step but a rescan and an import
    keeps: what is served to others was judged (\<open>published_bundle_judged\<close>, over the catalog of \<open>Marketplace\<close>), and
    a late verdict is inert (\<open>late_verdict_inert\<close>); they hold the histories in which the code drops or
    publishes what it should not. \<open>ReviewForward\<close>: versions only go forward.

  \<^item> \<open>Egress\<close>: \<open>services/egress_proxy/authz.py\<close> over \<open>32\<close> and \<open>128\<close> bit words. The decision, and no
    spelling of an internal address is connectable (\<open>egress_never_internal\<close>).

  \<^item> \<open>Quota\<close>: \<open>app/api/v2_quota.py\<close>. The tracker refines the log of what was recorded
    (\<open>quota_ledger_refines\<close>) and counts the running scans exactly.

  \<^item> \<open>Chunking\<close>: \<open>src/ingest/chunking.py\<close>. Cutting ends and loses no text
    (\<open>window_terminates_and_covers\<close>).

  \<^bold>\<open>How the parts interact.\<close> A worker replica takes the leader lease (\<open>Leases\<close>), claims jobs (\<open>Jobs\<close>)
  that the scheduler found due (\<open>Schedules\<close>); a refresh rebuilds the views (\<open>ViewRebuild\<close>), attaching what
  connectors ask for (\<open>RemoteAttach\<close>). A request resolves its caller to a user or to a restricted
  principal (\<open>Tokens\<close>, \<open>HeaderAuth\<close>, \<open>Sessions\<close>, with the one-time secrets of \<open>OneTime\<close>); \<open>Access\<close> reads
  \<open>AuthTables\<close>, may re-sync the caller's groups (\<open>GroupSync\<close>), and \<open>TableAccess\<close> consults \<open>Stack\<close>; a
  statement is checked against them (\<open>QueryGuards\<close>), rewritten for its caller (\<open>Policy\<close> on the queries of \<open>PolicyCompile\<close>) and charged to a
  budget (\<open>Quota\<close>). \<open>Marketplace\<close> serves plugins by the same grants and scopes, among them
  the store entities whose bundles \<open>Review\<close> publishes. This theory holds the
  properties that span the parts: a session on behalf of an agent is confined on every surface
  (\<open>agent_session_confined\<close>), from the ticket of its sandbox on (\<open>brokered_agent_confined\<close>).

  \<^bold>\<open>Not modelled.\<close> The Redis backend and the Postgres twins of the repositories (other engines behind
  the same contracts), asyncio scheduling beyond the interleavings above, the web interface, HTTP
  routing, connectors and bots (clients of external services), sandboxes, git mirrors, archives and the
  inline checks of an upload, query
  execution by DuckDB beyond the fragment the policy compiler emits, JWT signatures, the sockets of
  the egress proxy, embeddings and model calls, and schema migrations.

  \<^bold>\<open>What is left.\<close> The Keboola filter and partition helpers, the remote paths and cost limits of the
  query endpoint, the inline checks of \<open>src/store_guardrails\<close>, and the heartbeat and lanes of the worker.
\<close>

section \<open>An agent's session is confined\<close>

text \<open>
  C3. For a session that runs on behalf of an agent, whose credential carries the intersection built
  from the tables, every surface confines it: a resource the request dependency lets through, an
  entry of its stack and a table that passes the check or appears in the list is an internal table
  or one for which the agent's owner holds an explicit grant and the agent's row permits it; the
  list is never the sentinel for "all", and the admin dependency refuses, even when the owner is an
  administrator.
\<close>

theorem agent_session_confined:
  assumes user: "user = AgentPrincipal s ai ow oe (compute_agent_intersection ow (Some a) R)"
  shows "(require_resource_access cfg ap dn clocks ctx rtype tmpl path_params user (auth R) p = (Inr user', db', p') \<longrightarrow>
       (\<exists>res. format_template tmpl path_params = Some res \<and> agent_entitled ow a R rtype res)) \<and>
     (fst (can_access_table conn now wall auto ctx user t R p) = Inr True \<longrightarrow>
       is_internal_table t \<or> agent_entitled ow a R ''table'' t) \<and>
     (\<exists>ids. get_accessible_tables wall auto user R = Inr (Some ids) \<and>
       (\<forall>t\<in>ids. is_internal_table t \<or> agent_entitled ow a R ''table'' t)) \<and>
     (stack_principal wall user rtype R = Inr es \<longrightarrow> (\<forall>e\<in>set es. agent_entitled ow a R rtype (re_id e))) \<and>
     require_admin ctx (auth R) user = Inl (Forbidden ''Admin access required'')"
proof -
  have who: "is_principal user" "intersection_of user = compute_agent_intersection ow (Some a) R"
    by (simp_all add: user)
  show ?thesis
  proof (intro conjI impI ballI)
    assume "require_resource_access cfg ap dn clocks ctx rtype tmpl path_params user (auth R) p = (Inr user', db', p')"
    then show "\<exists>res. format_template tmpl path_params = Some res \<and> agent_entitled ow a R rtype res"
      by (rule agent_auth.request_within [OF who])
  next
    assume "fst (can_access_table conn now wall auto ctx user t R p) = Inr True"
    then show "is_internal_table t \<or> agent_entitled ow a R ''table'' t"
      by (rule agent_auth.table_within [OF who])
  next
    fix e assume "stack_principal wall user rtype R = Inr es" "e \<in> set es"
    then show "agent_entitled ow a R rtype (re_id e)" by (rule agent_auth.stack_within [OF who(2)])
  qed (use agent_auth.listed_within [OF who] in \<open>simp_all add: user require_admin_def\<close>)
qed

definition duo_agent :: caller where
  "duo_agent = AgentPrincipal ''s'' ''ag'' ''u1'' ''a@b'' (compute_agent_intersection ''u1'' (Some solo_agent) duo)"

theorem agent_session_confined_witness:
  "fst (can_access_table False 0 0 True no_ctx duo_agent ''t1'' duo no_caches) = Inr True \<and>
   agent_entitled ''u1'' solo_agent duo ''table'' ''t1''"
proof -
  have "''t1'' \<in> lookup_ids (intersection_of duo_agent) ''table''"
    by (simp add: duo_agent_def in_agent_intersection resource_types_def agent_permits_def mode_permits_def
        solo_agent_def has_explicit_grant_iff duo_def one_group_def list_groups_for_user_def new_grant_def)
  then have ok: "fst (can_access_table False 0 0 True no_ctx duo_agent ''t1'' duo no_caches) = Inr True"
    by (simp add: can_access_table_def duo_agent_def can_access_session_iff)
  moreover have "\<not> is_internal_table ''t1''" by (simp add: is_internal_table_def INTERNAL_TABLES_def)
  ultimately show ?thesis using agent_session_confined [OF duo_agent_def] by blast
qed

text \<open>The same for a co-session: what it reaches, every participant holds.\<close>

lemma co_session_confined:
  assumes "fst (can_access_table conn now wall auto ctx
      (SessionPrincipal s us emails (compute_grant_intersection emails R)) t R p) = Inr True"
  shows "is_internal_table t \<or> all_entitled emails R ''table'' t"
  using co_auth.table_within [OF _ _ assms] by simp

section \<open>From a sandbox's ticket to the tables\<close>

text \<open>
  C2. The whole way of a request that a sandbox sends through the broker for a session that runs an agent with a narrowed
  scope: the claims the broker mints for the ticket, presented to the server, resolve to the agent's restricted principal or to
  nobody. Whoever the session's user and the agent's owner are, administrators included, that caller reads a table
  only if it is internal or the owner holds an explicit grant on it that the agent's row permits, is refused by the
  administrator's gate, and is issued no token.
\<close>

theorem brokered_agent_confined:
  assumes "brokered scopes sha256 routes canonical now jti authorization ts meth raw T = Inr (m, path, p)"
    and "claim_text p ''chat_session_id'' = Some s" "s \<noteq> []" "get_session s T = Some cs" "\<not> cs_co cs"
    and "cs_agent cs = Some i" "i \<noteq> []"
    and "find (\<lambda>a. ag_id a = i) (agents (base T)) = Some a" "\<not> agent_is_passthrough a"
    and "bearer_or_cookie rq = tok" "tok \<noteq> []" "te_verify (se_token E) tok = Some p" "se_dev_email E = None"
    and "\<not> is_scheduler_token (se_scheduler_secret E) tok" "sv_db V = T"
    and "fst (get_current_user E rq V st) = Inr me"
  shows "\<exists>ow. session_agent s T a ow \<and>
    (fst (can_access_table conn t1 wall auto ctx (an_caller me) t (base T) pr) = Inr True \<longrightarrow>
       is_internal_table t \<or> agent_entitled (usr_id ow) a (base T) ''table'' t) \<and>
    require_admin ctx (auth (base T)) (an_caller me) = Inl (Forbidden ''Admin access required'') \<and>
    (\<forall>jwt. fst (create_token M b me T) \<noteq> Inr jwt)"
proof -
  obtain s' where "claim_text p ''chat_session_id'' = Some s'" and "identity_claims now jti s' T = Inr p"
    using brokered_identity [OF assms(1)] by blast
  with assms(2) have "identity_claims now jti s T = Inr p" by simp
  with assms(4-9) have p: "p = agent_session_claims now jti s 3600"
    by (simp add: identity_claims_def or_default_def split: if_splits)
  have ty: "claim_text p ''typ'' = Some ''agent_session''" by (simp add: p agent_session_claims_def minted_reserved)
  have "\<not> scope_forbidden False False p"
    by (simp add: p agent_session_claims_def scope_forbidden_def minted_custom)
      (simp add: claim_text_def or_default_def DATA_APP_GIT_SCOPE_PREFIX_def DATA_APP_PREVIEW_SCOPE_PREFIX_def)
  note agent = resolve_agent_token [OF assms(12,11) ty assms(2,3) this]
  have "fst (resolved_user E rq tok V st) = Inr me"
    using assms(16) current_user_by_token [OF assms(13,10,11,14)] by simp
  then have "resolve_agent_session s T = Inr (an_caller me)"
    using resolved_user_caller [of E tok rq V _ st] agent [of "Some rq" T] assms(15)
    by (cases "resolve_agent_session s T") force+
  then obtain a' ow where ow: "session_agent s T a' ow" and
    me: "an_caller me = AgentPrincipal s (ag_id a') (usr_id ow) (usr_email ow) (compute_agent_intersection (usr_id ow) (Some a') (base T))"
    by (auto simp: resolve_agent_session_iff)
  have a': "a' = a" using ow assms(4,6,8) by (simp add: session_agent_def)
  have who: "is_principal (an_caller me)" "intersection_of (an_caller me) = compute_agent_intersection (usr_id ow) (Some a) (base T)"
    by (simp_all add: me a')
  have "is_internal_table t \<or> agent_entitled (usr_id ow) a (base T) ''table'' t"
    if "fst (can_access_table conn t1 wall auto ctx (an_caller me) t (base T) pr) = Inr True"
    using that by (rule agent_auth.table_within [OF who])
  moreover have "fst (create_token M b me T) \<noteq> Inr jwt" for jwt
    by (simp add: create_token_def me subscript_user_def split: option.split)
  ultimately show ?thesis using ow a' by (auto simp: me require_admin_def)
qed

definition agent_me :: authn where
  "agent_me = \<lparr>an_caller = AgentPrincipal ''s'' ''ag'' ''u1'' ''a@b'' (compute_agent_intersection ''u1'' (Some solo_agent) (base solo_db)),
     an_admin = None, an_type = None\<rparr>"

definition agent_run_claims :: payload where
  "agent_run_claims = agent_session_claims 5 ''j-2'' ''s'' 3600"

lemma agent_replayed:
  "brokered [''main''] id [] (\<lambda>raw. Inr (or_default raw [])) 5 ''j-2'' (Some ''Bearer T'') [main_ticket] (Some ''POST'')
     (Some ''/api/query'') solo_db = Inr (''POST'', ''/api/query'', agent_run_claims)"
proof -
  have t: "require_broker_ticket id 5 (Some ''Bearer T'') [main_ticket] = Inr (''s'', ''main'')" by code_simp
  have m: "upper_method ''POST'' = ''POST''" by (simp add: upper_method_def)
  have a: "\<not> agent_is_passthrough solo_agent" by code_simp
  show ?thesis
    by (simp add: brokered_def t replay_def m route_requires_admin_def ADMIN_PATH_PREFIX_def identity_claims_def solo_db_def
        no_pat_db_def get_session_def or_default_def agent_run_claims_def a) (simp add: solo_agent_def)
qed

theorem brokered_agent_confined_witness:
  "\<exists>ow. session_agent ''s'' solo_db solo_agent ow \<and>
     require_admin no_ctx (auth (base solo_db)) (an_caller agent_me) = Inl (Forbidden ''Admin access required'') \<and>
     (\<forall>jwt. fst (create_token (one_mint ci_claims) ci_request agent_me solo_db) \<noteq> Inr jwt)"
proof -
  let ?E = "chat_senv\<lparr>se_token := one_env agent_run_claims 5\<rparr>" and ?V = "\<lparr>sv_db = solo_db, sv_header = no_header_state\<rparr>"
  have run: "claim_text agent_run_claims ''chat_session_id'' = Some ''s''" "claim_text agent_run_claims ''typ'' = Some ''agent_session''"
    "claim_text agent_run_claims ''scope'' = Some ''chat''"
    by (simp_all add: agent_run_claims_def agent_session_claims_def minted_reserved minted_custom) (simp_all add: claim_text_def)
  have agent: "get_session ''s'' solo_db = Some \<lparr>cs_id = ''s'', cs_email = ''a@b'', cs_co = False, cs_agent = Some ''ag''\<rparr>"
    "find (\<lambda>a. ag_id a = ''ag'') (agents (base solo_db)) = Some solo_agent" "\<not> agent_is_passthrough solo_agent"
    by (simp add: solo_db_def get_session_def, simp add: solo_db_def solo_agent_def, code_simp)
  have sched: "\<not> is_scheduler_token (se_scheduler_secret ?E) ''tok''"
    by (simp add: is_scheduler_token_def chat_senv_def py_strip_def py_lstrip_def)
  have "session_agent ''s'' solo_db solo_agent one_user"
    by (simp add: session_agent_def agent) (simp add: solo_agent_def solo_db_def duo_def one_user_def)
  moreover have "ag_id solo_agent = ''ag''" "usr_id one_user = ''u1''" "usr_email one_user = ''a@b''"
    by (simp_all add: solo_agent_def one_user_def)
  ultimately have res: "resolve_agent_session ''s'' solo_db = Inr (an_caller agent_me)"
    unfolding resolve_agent_session_iff agent_me_def by (intro exI [of _ solo_agent] exI [of _ one_user]) simp
  have tok: "bearer_or_cookie (chat_request ''tok'') = ''tok''" by (simp add: bearer_or_cookie_def chat_request_def or_default_def)
  have v: "te_verify (se_token ?E) ''tok'' = Some agent_run_claims" by (simp add: one_env_def)
  have "\<not> scope_forbidden False False agent_run_claims"
    by (simp add: scope_forbidden_def run or_default_def DATA_APP_GIT_SCOPE_PREFIX_def DATA_APP_PREVIEW_SCOPE_PREFIX_def)
  then have "fst (resolve_token_to_user (se_token ?E) False False ''tok'' (Some (chat_request ''tok'')) (sv_db ?V)) = Inr (an_caller agent_me)"
    using resolve_agent_token [OF v _ run(2,1)] res by simp
  then have me: "fst (get_current_user ?E (chat_request ''tok'') ?V fresh_rstate) = Inr agent_me"
    using current_user_by_token [OF _ tok _ sched, of ?V fresh_rstate]
    by (simp add: chat_senv_def resolved_user_def split_beta agent_me_def)
  show ?thesis
    using brokered_agent_confined [OF agent_replayed run(1) _ agent(1) _ _ _ agent(2,3) tok _ v _ sched _ me,
        where conn = True and ?t1.0 = 0 and wall = 0 and auto = True and t = "''t1''" and pr = no_caches
        and ctx = no_ctx and M = "one_mint ci_claims" and b = ci_request]
    by (auto simp: chat_senv_def)
qed

end
